(* ===== verification/Prelude.thy ===== *)
theory Prelude
  imports Main "HOL-Library.AList" "HOL-Library.Char_ord" "HOL-Library.List_Lexorder"
begin

text \<open>
  What the components share: the results of code that may raise, the Python built-ins the
  sources use (dictionaries in insertion order, \<open>dict.fromkeys\<close>, \<open>itertools.groupby\<close>,
  \<open>str.splitlines\<close>, \<open>str.strip\<close>, \<open>str.split\<close>, \<open>int(...)\<close>, \<open>format(n, "x")\<close>) and the
  lemmas about them.

  A Python string is a \<open>string\<close> whose characters are the code points 0 to 255; character
  classes (\<open>\s\<close>, \<open>\w\<close>, line boundaries) are Python's, restricted to that range.
\<close>

section \<open>Fact collections\<close>

named_theorems py_simps "evaluation of the Python built-ins"
named_theorems str_facts "facts about characters and text"

section \<open>Results: an exception or a value\<close>

type_synonym ('e, 'a) result = "'e + 'a"

text \<open>\<open>rbind r k\<close>: what follows a call that may raise.\<close>

definition rbind :: "('e, 'a) result \<Rightarrow> ('a \<Rightarrow> ('e, 'b) result) \<Rightarrow> ('e, 'b) result" where
  "rbind r k = (case r of Inl e \<Rightarrow> Inl e | Inr a \<Rightarrow> k a)"

lemma rbind_simps [simp]: "rbind (Inl e) k = Inl e" "rbind (Inr a) k = k a"
  by (simp_all add: rbind_def)

lemma rbind_Inr_iff: "rbind r k = Inr b \<longleftrightarrow> (\<exists>a. r = Inr a \<and> k a = Inr b)"
  by (cases r) auto

lemma rbind_Inl_iff:
  "rbind r k = Inl e \<longleftrightarrow> r = Inl e \<or> (\<exists>a. r = Inr a \<and> k a = Inl e)"
  by (cases r) auto

lemma rbind_cong [fundef_cong]:
  "r = r' \<Longrightarrow> (\<And>a. r' = Inr a \<Longrightarrow> k a = k' a) \<Longrightarrow> rbind r k = rbind r' k'"
  by (cases r') auto

text \<open>A loop over a list whose body may raise: the first exception leaves the loop.\<close>

lemma map_sum_Inr: "map_sum f id r = Inr a \<longleftrightarrow> r = Inr a"
  by (cases r) simp_all

fun rfold :: "('s \<Rightarrow> 'a \<Rightarrow> ('e, 's) result) \<Rightarrow> 's \<Rightarrow> 'a list \<Rightarrow> ('e, 's) result" where
  "rfold f s [] = Inr s"
| "rfold f s (x # xs) = rbind (f s x) (\<lambda>s'. rfold f s' xs)"

lemma rfold_append: "rfold f s (xs @ ys) = rbind (rfold f s xs) (\<lambda>s'. rfold f s' ys)"
proof (induction xs arbitrary: s)
  case (Cons x xs)
  then show ?case by (cases "f s x") simp_all
qed simp

lemma rfold_invariant:
  assumes "rfold f s xs = Inr s'" and "P s"
    and "\<And>s x s'. x \<in> set xs \<Longrightarrow> P s \<Longrightarrow> f s x = Inr s' \<Longrightarrow> P s'"
  shows "P s'"
  using assms
proof (induction xs arbitrary: s)
  case (Cons x xs)
  from Cons.prems(1) obtain s1 where s1: "f s x = Inr s1" "rfold f s1 xs = Inr s'"
    by (auto simp: rbind_Inr_iff)
  have "P s1" using Cons.prems(3)[of x s s1] Cons.prems(2) s1(1) by simp
  then show ?case by (rule Cons.IH[OF s1(2)]) (rule Cons.prems(3), simp_all)
qed simp

lemma rfold_total:
  assumes "P s" and "\<And>s x. x \<in> set xs \<Longrightarrow> P s \<Longrightarrow> \<exists>s'. f s x = Inr s' \<and> P s'"
  shows "\<exists>s'. rfold f s xs = Inr s' \<and> P s'"
  using assms
proof (induction xs arbitrary: s)
  case (Cons x xs)
  then obtain s1 where "f s x = Inr s1" "P s1" by (meson list.set_intros(1))
  moreover have "\<And>t y. y \<in> set xs \<Longrightarrow> P t \<Longrightarrow> \<exists>s'. f t y = Inr s' \<and> P s'"
    using Cons.prems(2) by simp
  ultimately show ?case using Cons.IH[of s1] by simp
qed simp

text \<open>A comprehension whose element expression may raise.\<close>

fun rmap :: "('a \<Rightarrow> ('e, 'b) result) \<Rightarrow> 'a list \<Rightarrow> ('e, 'b list) result" where
  "rmap f [] = Inr []"
| "rmap f (x # xs) = rbind (f x) (\<lambda>y. rbind (rmap f xs) (\<lambda>ys. Inr (y # ys)))"

lemma rmap_Inr_length: "rmap f xs = Inr ys \<Longrightarrow> length ys = length xs"
  by (induction xs arbitrary: ys) (auto simp: rbind_Inr_iff)

lemma rmap_total: "\<forall>x \<in> set xs. \<exists>y. f x = Inr y \<Longrightarrow> \<exists>ys. rmap f xs = Inr ys"
  by (induction xs) auto

lemma rmap_Inr_list_all2: "rmap f xs = Inr ys \<Longrightarrow> list_all2 (\<lambda>x y. f x = Inr y) xs ys"
  by (induction xs arbitrary: ys) (auto simp: rbind_Inr_iff)

section \<open>Dictionaries in insertion order\<close>

text \<open>
  A \<open>dict\<close> is an association list with distinct keys: \<open>d[k] = v\<close> is \<open>AList.update k v d\<close>
  (in place for a known key, at the end for a new one), \<open>d.get(k)\<close> is \<open>map_of d k\<close>.
\<close>

type_synonym ('k, 'v) dict = "('k \<times> 'v) list"

definition dict_keys :: "('k, 'v) dict \<Rightarrow> 'k list" where
  "dict_keys d = map fst d"

definition dict_has :: "('k, 'v) dict \<Rightarrow> 'k \<Rightarrow> bool" where
  "dict_has d k \<longleftrightarrow> map_of d k \<noteq> None"

text \<open>\<open>d == d'\<close> ignores the insertion order.\<close>

definition dict_eq :: "('k, 'v) dict \<Rightarrow> ('k, 'v) dict \<Rightarrow> bool" where
  "dict_eq d e \<longleftrightarrow> list_all (\<lambda>k. map_of d k = map_of e k) (map fst d @ map fst e)"

lemma dict_has_iff: "dict_has d k \<longleftrightarrow> k \<in> fst ` set d"
  by (simp add: dict_has_def map_of_eq_None_iff)

lemma dict_eq_iff: "dict_eq d e \<longleftrightarrow> map_of d = map_of e"
proof
  assume "dict_eq d e"
  then have "map_of d k = map_of e k" for k
    by (cases "k \<in> fst ` set d \<union> fst ` set e")
      (auto simp: dict_eq_def list_all_iff map_of_eq_None_iff[THEN iffD2])
  then show "map_of d = map_of e" by blast
qed (simp add: dict_eq_def list_all_iff)

lemma dict_eq_refl [simp]: "dict_eq d d"
  by (simp add: dict_eq_iff)

text \<open>A dictionary comprehension: pairs are stored in order, a later key wins.\<close>

definition dict_of :: "('k \<times> 'v) list \<Rightarrow> ('k, 'v) dict" where
  "dict_of ps = fold (\<lambda>(k, v) d. AList.update k v d) ps []"

lemma distinct_fold_update:
  "distinct (map fst d) \<Longrightarrow> distinct (map fst (fold (\<lambda>(k, v) d. AList.update k v d) ps d))"
  by (induction ps arbitrary: d) (auto simp: distinct_update)

lemma distinct_dict_of [simp]: "distinct (map fst (dict_of ps))"
  unfolding dict_of_def by (rule distinct_fold_update) simp

lemma update_new: "k \<notin> fst ` set d \<Longrightarrow> AList.update k v d = d @ [(k, v)]"
  by (induction d) auto

lemma fold_update_distinct:
  "distinct (map fst (d @ ps)) \<Longrightarrow> fold (\<lambda>(k, v) d. AList.update k v d) ps d = d @ ps"
  by (induction ps arbitrary: d) (auto simp: update_new)

lemma dict_of_distinct: "distinct (map fst ps) \<Longrightarrow> dict_of ps = ps"
  using fold_update_distinct[of "[]" ps] by (simp add: dict_of_def)

text \<open>\<open>dict.fromkeys(xs)\<close>: the first occurrences, in order.\<close>

definition dedup :: "'a list \<Rightarrow> 'a list" where
  "dedup xs = rev (remdups (rev xs))"

lemma set_dedup [simp]: "set (dedup xs) = set xs"
  by (simp add: dedup_def)

lemma distinct_dedup [simp]: "distinct (dedup xs)"
  by (simp add: dedup_def)

lemma dedup_Nil [simp]: "dedup [] = []"
  by (simp add: dedup_def)

lemma dedup_snoc: "dedup (xs @ [x]) = (if x \<in> set xs then dedup xs else dedup xs @ [x])"
  by (simp add: dedup_def)

lemma dedup_distinct: "distinct xs \<Longrightarrow> dedup xs = xs"
  by (simp add: dedup_def distinct_remdups_id)

section \<open>Groups of equal keys\<close>

text \<open>\<open>itertools.groupby(xs, key=f)\<close>: the maximal runs of equal keys.\<close>

fun groupby :: "('a \<Rightarrow> 'k) \<Rightarrow> 'a list \<Rightarrow> ('k \<times> 'a list) list" where
  "groupby f [] = []"
| "groupby f (x # xs) =
     (case groupby f xs of
        [] \<Rightarrow> [(f x, [x])]
      | (k, g) # gs \<Rightarrow> if f x = k then (k, x # g) # gs else (f x, [x]) # (k, g) # gs)"

lemma groupby_concat: "concat (map snd (groupby f xs)) = xs"
  by (induction xs) (auto split: list.splits)

lemma groupby_nonempty: "(k, g) \<in> set (groupby f xs) \<Longrightarrow> g \<noteq> []"
  by (induction xs arbitrary: k g) (auto split: list.splits if_splits)

lemma groupby_key: "(k, g) \<in> set (groupby f xs) \<Longrightarrow> x \<in> set g \<Longrightarrow> f x = k"
proof (induction xs arbitrary: k g)
  case (Cons y xs)
  then show ?case
  proof (cases "groupby f xs")
    case (Cons p gs)
    obtain k' g' where p: "p = (k', g')" by (cases p)
    show ?thesis
    proof (cases "(k, g) \<in> set (groupby f xs)")
      case True
      then show ?thesis using Cons.IH Cons.prems(2) by blast
    next
      case False
      then have "(k = k' \<and> f y = k' \<and> g = y # g') \<or> (k = f y \<and> g = [y])"
        using Cons.prems(1) Cons p by (auto split: if_splits)
      then show ?thesis using Cons.IH[of k' g'] Cons.prems(2) Cons p by auto
    qed
  qed simp
qed simp

lemma groupby_sub: "(k, g) \<in> set (groupby f xs) \<Longrightarrow> set g \<subseteq> set xs"
proof -
  assume "(k, g) \<in> set (groupby f xs)"
  then have "set g \<subseteq> set (concat (map snd (groupby f xs)))" by force
  then show ?thesis by (simp only: groupby_concat)
qed

lemma groupby_hd_key: "xs \<noteq> [] \<Longrightarrow> groupby f xs \<noteq> [] \<and> fst (hd (groupby f xs)) = f (hd xs)"
  by (cases xs) (auto split: list.splits if_splits)

lemma groupby_keys_subset: "set (map fst (groupby f xs)) = f ` set xs"
proof (induction xs)
  case (Cons x xs)
  show ?case
  proof (cases "groupby f xs")
    case Nil
    then show ?thesis using Cons by simp
  next
    case (Cons p gs)
    obtain k g where p: "p = (k, g)" by (cases p)
    have "insert k (fst ` set gs) = f ` set xs" using Cons.IH Cons p by simp
    then show ?thesis using Cons p by auto
  qed
qed simp

lemma groupby_sorted:
  fixes f :: "'a \<Rightarrow> 'k::linorder"
  shows "sorted (map f xs) \<Longrightarrow> sorted_wrt (<) (map fst (groupby f xs))"
proof (induction xs)
  case (Cons x xs)
  from Cons.prems have s: "sorted (map f xs)" and le: "\<forall>y \<in> set xs. f x \<le> f y" by auto
  show ?case
  proof (cases "groupby f xs")
    case Nil
    then show ?thesis by simp
  next
    case (Cons p gs)
    obtain k g where p: "p = (k, g)" by (cases p)
    have srt: "sorted_wrt (<) (k # map fst gs)" using Cons.IH[OF s] Cons p by simp
    have "xs \<noteq> []" using Cons by auto
    then have "k = f (hd xs)" using groupby_hd_key[of xs f] Cons p by simp
    with le \<open>xs \<noteq> []\<close> have "f x \<le> k" by simp
    then show ?thesis using srt Cons p by auto
  qed
qed simp

section \<open>Characters\<close>

abbreviation code :: "char \<Rightarrow> nat" where
  "code c \<equiv> of_char c"

abbreviation LF :: char where "LF \<equiv> CHR 0x0A"
abbreviation CR :: char where "CR \<equiv> CHR 0x0D"
abbreviation BSL :: char where "BSL \<equiv> CHR 0x5C"
abbreviation DQ :: char where "DQ \<equiv> CHR 0x22"
abbreviation SQ :: char where "SQ \<equiv> CHR 0x27"
abbreviation US :: char where "US \<equiv> CHR 0x5F"

definition is_space :: "char \<Rightarrow> bool" where
  "is_space c \<longleftrightarrow> (let n = code c in
     (9 \<le> n \<and> n \<le> 13) \<or> (28 \<le> n \<and> n \<le> 32) \<or> n = 133 \<or> n = 160)"

definition is_digit :: "char \<Rightarrow> bool" where
  "is_digit c \<longleftrightarrow> (let n = code c in 48 \<le> n \<and> n \<le> 57)"

definition is_upper_az :: "char \<Rightarrow> bool" where
  "is_upper_az c \<longleftrightarrow> (let n = code c in 65 \<le> n \<and> n \<le> 90)"

definition is_lower_az :: "char \<Rightarrow> bool" where
  "is_lower_az c \<longleftrightarrow> (let n = code c in 97 \<le> n \<and> n \<le> 122)"

definition is_alpha_az :: "char \<Rightarrow> bool" where
  "is_alpha_az c \<longleftrightarrow> is_upper_az c \<or> is_lower_az c"

text \<open>\<open>\w\<close>: \<open>str.isalnum\<close> or the underscore.\<close>

definition is_word :: "char \<Rightarrow> bool" where
  "is_word c \<longleftrightarrow> (let n = code c in
     is_alpha_az c \<or> is_digit c \<or> n = 95 \<or>
     n \<in> {170, 178, 179, 181, 185, 186, 188, 189, 190} \<or>
     (192 \<le> n \<and> n \<noteq> 215 \<and> n \<noteq> 247))"

text \<open>The line boundaries of \<open>str.splitlines\<close>.\<close>

definition is_linebreak :: "char \<Rightarrow> bool" where
  "is_linebreak c \<longleftrightarrow> (let n = code c in
     (10 \<le> n \<and> n \<le> 13) \<or> (28 \<le> n \<and> n \<le> 30) \<or> n = 133)"

definition to_lower :: "char \<Rightarrow> char" where
  "to_lower c = (let n = code c in
     if (65 \<le> n \<and> n \<le> 90) \<or> (192 \<le> n \<and> n \<le> 222 \<and> n \<noteq> 215)
     then char_of (n + 32) else c)"

definition lower :: "string \<Rightarrow> string" where
  "lower s = map to_lower s"

lemmas char_class_defs =
  is_space_def is_digit_def is_upper_az_def is_lower_az_def is_alpha_az_def is_word_def
  is_linebreak_def

lemma is_digit_not_space: "is_digit c \<Longrightarrow> \<not> is_space c"
  by (auto simp: char_class_defs Let_def)

lemma is_linebreak_space: "is_linebreak c \<Longrightarrow> is_space c"
  by (auto simp: char_class_defs Let_def)

lemma is_digit_word: "is_digit c \<Longrightarrow> is_word c"
  by (simp add: is_word_def Let_def)

lemma is_word_not_space: "is_word c \<Longrightarrow> \<not> is_space c"
  by (auto simp: char_class_defs Let_def)

section \<open>Text\<close>

definition lstrip :: "string \<Rightarrow> string" where
  "lstrip s = dropWhile is_space s"

definition rstrip :: "string \<Rightarrow> string" where
  "rstrip s = rev (dropWhile is_space (rev s))"

definition strip :: "string \<Rightarrow> string" where
  "strip s = rstrip (lstrip s)"

text \<open>A text with no space at either end is its own \<open>strip\<close>.\<close>

definition tight :: "string \<Rightarrow> bool" where
  "tight s \<longleftrightarrow> s = [] \<or> (\<not> is_space (hd s) \<and> \<not> is_space (last s))"

lemma strip_tight: "tight s \<Longrightarrow> strip s = s"
proof (cases "s = []")
  case True
  then show ?thesis by (simp add: strip_def lstrip_def rstrip_def)
next
  case False
  assume "tight s"
  with False have h: "\<not> is_space (hd s)" "\<not> is_space (last s)" by (auto simp: tight_def)
  from False h(1) have 1: "dropWhile is_space s = s" by (cases s) auto
  have "\<not> is_space (hd (rev s))" using False h(2) by (simp add: hd_rev)
  then have "dropWhile is_space (rev s) = rev s" using False by (cases "rev s") auto
  with 1 show ?thesis by (simp add: strip_def lstrip_def rstrip_def)
qed

function splitlines :: "string \<Rightarrow> string list" where
  "splitlines s =
     (if s = [] then []
      else let l = takeWhile (\<lambda>c. \<not> is_linebreak c) s;
               r = dropWhile (\<lambda>c. \<not> is_linebreak c) s
           in case r of
                [] \<Rightarrow> [l]
              | c # cs \<Rightarrow>
                  l # splitlines
                        (if c = CR then (case cs of d # ds \<Rightarrow> if d = LF then ds else cs
                                                 | [] \<Rightarrow> [])
                         else cs))"
  by pat_completeness auto
termination
proof (relation "measure length", simp, goal_cases)
  case (1 s l r c cs)
  have "length r \<le> length s" unfolding 1(3) by (rule length_dropWhile_le)
  then have "length cs < length s" using 1(4) by simp
  then show ?case by (auto split: list.splits)
qed

declare splitlines.simps [simp del]

lemma splitlines_Nil [simp]: "splitlines [] = []"
  by (subst splitlines.simps) simp

lemma is_linebreak_LF [simp]: "is_linebreak LF"
  by (simp add: char_class_defs)

lemma splitlines_line:
  assumes "\<forall>c \<in> set l. \<not> is_linebreak c"
  shows "splitlines (l @ LF # rest) = l # splitlines rest"
proof -
  have "takeWhile (\<lambda>c. \<not> is_linebreak c) (l @ LF # rest) = l"
    using assms by (simp add: takeWhile_append)
  moreover have "dropWhile (\<lambda>c. \<not> is_linebreak c) (l @ LF # rest) = LF # rest"
    using assms by (simp add: dropWhile_append)
  ultimately show ?thesis by (subst splitlines.simps) simp
qed

text \<open>\<open>"".join(line + newline)\<close>, read back line by line.\<close>

definition unlines :: "string list \<Rightarrow> string" where
  "unlines ls = concat (map (\<lambda>l. l @ [LF]) ls)"

lemma splitlines_unlines:
  "\<forall>l \<in> set ls. \<forall>c \<in> set l. \<not> is_linebreak c \<Longrightarrow> splitlines (unlines ls) = ls"
  by (induction ls) (simp_all add: unlines_def splitlines_line)

text \<open>\<open>sep.join(parts)\<close>.\<close>

fun join :: "string \<Rightarrow> string list \<Rightarrow> string" where
  "join sep [] = []"
| "join sep [x] = x"
| "join sep (x # y # ys) = x @ sep @ join sep (y # ys)"

lemma join_Cons: "xs \<noteq> [] \<Longrightarrow> join sep (x # xs) = x @ sep @ join sep xs"
  by (cases xs) simp_all

lemma join_LF_unlines: "ls \<noteq> [] \<Longrightarrow> join [LF] ls @ [LF] = unlines ls"
proof (induction ls)
  case (Cons l ls)
  then show ?case by (cases ls) (simp_all add: unlines_def)
qed simp

text \<open>\<open>s.split(c)\<close> for one character, and \<open>s.split()\<close>.\<close>

fun split_on :: "char \<Rightarrow> string \<Rightarrow> string list" where
  "split_on c [] = [[]]"
| "split_on c (x # xs) =
     (if x = c then [] # split_on c xs
      else (case split_on c xs of [] \<Rightarrow> [[x]] | w # ws \<Rightarrow> (x # w) # ws))"

function words :: "string \<Rightarrow> string list" where
  "words s =
     (let s' = dropWhile is_space s
      in if s' = [] then []
         else takeWhile (\<lambda>c. \<not> is_space c) s' # words (dropWhile (\<lambda>c. \<not> is_space c) s'))"
  by pat_completeness auto
termination
proof (relation "measure length", simp, goal_cases)
  case (1 s s')
  have "s' \<noteq> []" "\<not> is_space (hd s')"
    using 1(2) hd_dropWhile[of is_space s] unfolding 1(1) by auto
  then have "length (dropWhile (\<lambda>c. \<not> is_space c) s') < length s'"
    by (cases s') (auto simp: le_imp_less_Suc length_dropWhile_le)
  moreover have "length s' \<le> length s" unfolding 1(1) by (rule length_dropWhile_le)
  ultimately show ?case by simp
qed

declare words.simps [simp del]

lemma split_on_no: "c \<notin> set s \<Longrightarrow> split_on c s = [s]"
  by (induction s) auto

lemma split_on_append: "c \<notin> set a \<Longrightarrow> split_on c (a @ c # b) = a # split_on c b"
  by (induction a) auto

definition starts_with :: "string \<Rightarrow> string \<Rightarrow> bool" where
  "starts_with p s \<longleftrightarrow> take (length p) s = p"

lemma starts_with_append [simp]: "starts_with p (p @ s)"
  by (simp add: starts_with_def)

text \<open>\<open>sub in s\<close>.\<close>

fun contains :: "string \<Rightarrow> string \<Rightarrow> bool" where
  "contains p [] \<longleftrightarrow> p = []"
| "contains p (c # cs) \<longleftrightarrow> starts_with p (c # cs) \<or> contains p cs"

text \<open>The longest prefix of a class, and what follows it.\<close>

definition span :: "(char \<Rightarrow> bool) \<Rightarrow> string \<Rightarrow> string \<times> string" where
  "span P s = (takeWhile P s, dropWhile P s)"

lemma span_append:
  "\<forall>c \<in> set a. P c \<Longrightarrow> b = [] \<or> \<not> P (hd b) \<Longrightarrow> span P (a @ b) = (a, b)"
  by (cases b) (auto simp: span_def takeWhile_append dropWhile_append)

section \<open>Numerals\<close>

definition digit_val :: "char \<Rightarrow> nat option" where
  "digit_val c = (let n = code c in
     if 48 \<le> n \<and> n \<le> 57 then Some (n - 48)
     else if 97 \<le> n \<and> n \<le> 102 then Some (n - 87)
     else if 65 \<le> n \<and> n \<le> 70 then Some (n - 55)
     else None)"

definition digit_chr :: "nat \<Rightarrow> char" where
  "digit_chr d = (if d < 10 then char_of (48 + d) else char_of (87 + d))"

fun base_acc :: "nat \<Rightarrow> nat \<Rightarrow> string \<Rightarrow> nat option" where
  "base_acc b a [] = Some a"
| "base_acc b a (c # cs) =
     (case digit_val c of
        None \<Rightarrow> None
      | Some d \<Rightarrow> if d < b then base_acc b (b * a + d) cs else None)"

text \<open>The digits of a number to a base; no sign, prefix or underscore.\<close>

definition parse_base :: "nat \<Rightarrow> string \<Rightarrow> nat option" where
  "parse_base b s = (if s = [] then None else base_acc b 0 s)"

text \<open>\<open>format(n, "b")\<close>, \<open>str(n)\<close> and \<open>format(n, "x")\<close> for bases 2, 10 and 16.\<close>

fun show_base :: "nat \<Rightarrow> nat \<Rightarrow> string" where
  "show_base b n =
     (if b < 2 then [] else if n < b then [digit_chr n]
      else show_base b (n div b) @ [digit_chr (n mod b)])"

declare show_base.simps [simp del]

lemma digit_val_chr: "d < 16 \<Longrightarrow> digit_val (digit_chr d) = Some d"
  by (auto simp: digit_val_def digit_chr_def Let_def)

lemma base_acc_append:
  "base_acc b a (s @ t) = (case base_acc b a s of None \<Rightarrow> None | Some a' \<Rightarrow> base_acc b a' t)"
  by (induction s arbitrary: a) (auto split: option.splits)

lemma base_acc_show:
  assumes "2 \<le> b" "b \<le> 16"
  shows "base_acc b 0 (show_base b n) = Some n"
proof (induction n rule: less_induct)
  case (less n)
  show ?case
  proof (cases "n < b")
    case True
    with assms show ?thesis by (subst show_base.simps) (simp add: digit_val_chr)
  next
    case False
    then have "n div b < n" using assms(1) by (cases n) auto
    then have IH: "base_acc b 0 (show_base b (n div b)) = Some (n div b)" by (rule less)
    have "n mod b < b" using assms(1) by simp
    moreover have "n mod b < 16" using assms \<open>n mod b < b\<close> by linarith
    ultimately show ?thesis using False assms(1)
      by (subst show_base.simps) (simp add: base_acc_append IH digit_val_chr)
  qed
qed

lemma show_base_nonempty [simp]: "2 \<le> b \<Longrightarrow> show_base b n \<noteq> []"
  by (subst show_base.simps) simp

lemma parse_show_base: "2 \<le> b \<Longrightarrow> b \<le> 16 \<Longrightarrow> parse_base b (show_base b n) = Some n"
  by (simp add: parse_base_def base_acc_show)

definition show_nat :: "nat \<Rightarrow> string" where
  "show_nat n = show_base 10 n"

definition show_int :: "int \<Rightarrow> string" where
  "show_int i = (if i < 0 then CHR ''-'' # show_nat (nat (- i)) else show_nat (nat i))"

lemma is_digit_chr: "d < 10 \<Longrightarrow> is_digit (digit_chr d)"
  by (simp add: is_digit_def digit_chr_def)

lemma show_nat_digits: "c \<in> set (show_nat n) \<Longrightarrow> is_digit c"
  unfolding show_nat_def
proof (induction n rule: less_induct)
  case (less n)
  show ?case
  proof (cases "n < 10")
    case True
    with less.prems show ?thesis by (subst (asm) show_base.simps) (simp add: is_digit_chr)
  next
    case False
    with less.prems have "c \<in> set (show_base 10 (n div 10)) \<or> c = digit_chr (n mod 10)"
      by (subst (asm) show_base.simps) auto
    with False less.IH[of "n div 10"] show ?thesis by (auto simp: is_digit_chr)
  qed
qed

lemma show_nat_nonempty [simp]: "show_nat n \<noteq> []"
  by (simp add: show_nat_def)

lemma parse_show_nat [simp]: "parse_base 10 (show_nat n) = Some n"
  by (simp add: show_nat_def parse_show_base)

lemma show_nat_inj: "show_nat m = show_nat n \<longleftrightarrow> m = n"
  by (metis option.inject parse_show_nat)

text \<open>
  Python's \<open>int(s)\<close>: surrounding whitespace, a sign, and digits with single underscores
  between them.
\<close>

fun us_digits :: "string \<Rightarrow> bool" where
  "us_digits [] = False"
| "us_digits [c] = is_digit c"
| "us_digits (c # d # cs) =
     (is_digit c \<and> (if d = US then us_digits cs else us_digits (d # cs)))"

definition no_us :: "string \<Rightarrow> string" where
  "no_us s = filter (\<lambda>c. c \<noteq> US) s"

definition py_int :: "string \<Rightarrow> int option" where
  "py_int s =
     (let t = strip s;
          neg = (t \<noteq> [] \<and> hd t = CHR ''-'');
          u = (if t \<noteq> [] \<and> (hd t = CHR ''-'' \<or> hd t = CHR ''+'') then tl t else t)
      in if us_digits u
         then map_option (\<lambda>n. if neg then - int n else int n) (parse_base 10 (no_us u))
         else None)"

text \<open>
  Python's \<open>int(s, base)\<close> on a text of hexadecimal digits only: base 2 also takes a
  leading \<open>0b\<close>.
\<close>

definition py_int_base :: "nat \<Rightarrow> string \<Rightarrow> nat option" where
  "py_int_base b s =
     (if b = 2 \<and> (take 2 s = ''0b'' \<or> take 2 s = ''0B'') then parse_base 2 (drop 2 s)
      else parse_base b s)"

section \<open>Splitting into words\<close>

lemma words_dropWhile: "words (dropWhile is_space s) = words s"
  by (subst (1 2) words.simps) (simp add: Let_def)

lemma words_spaces: "list_all is_space s \<Longrightarrow> words s = []"
  by (subst words.simps) (simp add: list_all_iff Let_def)

lemma words_split: "is_space c \<Longrightarrow> words (a @ c # b) = words a @ words b"
proof (induction a rule: words.induct)
  case (1 a)
  let ?a = "dropWhile is_space a"
  show ?case
  proof (cases "?a = []")
    case True
    then have "list_all is_space a" by (simp add: list_all_iff)
    then have "dropWhile is_space (a @ c # b) = dropWhile is_space b"
      using 1(2) by (simp add: dropWhile_append list_all_iff)
    then have "words (a @ c # b) = words b" by (metis words_dropWhile)
    then show ?thesis using \<open>list_all is_space a\<close> words_spaces by simp
  next
    case False
    then have nb: "\<not> (\<forall>x \<in> set a. is_space x)" by simp
    have d: "dropWhile is_space (a @ c # b) = ?a @ c # b" by (simp only: dropWhile_append nb if_False)
    have w: "words a = takeWhile (\<lambda>c. \<not> is_space c) ?a # words (dropWhile (\<lambda>c. \<not> is_space c) ?a)"
      using False by (subst words.simps) (simp add: Let_def)
    have w2: "words (a @ c # b) = takeWhile (\<lambda>c. \<not> is_space c) (?a @ c # b) #
        words (dropWhile (\<lambda>c. \<not> is_space c) (?a @ c # b))"
      using False by (subst words.simps) (simp add: Let_def d)
    show ?thesis
    proof (cases "\<forall>x \<in> set ?a. \<not> is_space x")
      case True
      then have e: "takeWhile (\<lambda>c. \<not> is_space c) (?a @ c # b) = ?a"
        "dropWhile (\<lambda>c. \<not> is_space c) (?a @ c # b) = c # b"
        "takeWhile (\<lambda>c. \<not> is_space c) ?a = ?a" "dropWhile (\<lambda>c. \<not> is_space c) ?a = []"
        using 1(2) by (auto simp: takeWhile_append dropWhile_append)
      have c: "words (c # b) = words b" using 1(2) words_dropWhile[of "c # b"] words_dropWhile[of b] by simp
      have n: "words [] = []" by (subst words.simps) simp
      show ?thesis unfolding w w2 unfolding e c n by simp
    next
      case False
      then have e: "takeWhile (\<lambda>c. \<not> is_space c) (?a @ c # b) = takeWhile (\<lambda>c. \<not> is_space c) ?a"
        "dropWhile (\<lambda>c. \<not> is_space c) (?a @ c # b) = dropWhile (\<lambda>c. \<not> is_space c) ?a @ c # b"
        by (auto simp: takeWhile_append dropWhile_append)
      show ?thesis unfolding w w2 e using 1(1)[OF refl \<open>?a \<noteq> []\<close> 1(2)] by simp
    qed
  qed
qed

lemma words_Nil [simp]: "words [] = []"
  by (subst words.simps) simp

lemma words_token: "s \<noteq> [] \<Longrightarrow> \<forall>c \<in> set s. \<not> is_space c \<Longrightarrow> words s = [s]"
proof -
  assume a: "s \<noteq> []" "\<forall>c \<in> set s. \<not> is_space c"
  then have 1: "dropWhile is_space s = s" by (cases s) auto
  have 2: "takeWhile (\<lambda>c. \<not> is_space c) s = s" "dropWhile (\<lambda>c. \<not> is_space c) s = []"
    using a(2) by simp_all
  show ?thesis using a(1) by (subst words.simps) (simp only: Let_def 1 2 if_False words_Nil)
qed

lemma words_join:
  "\<forall>s \<in> set ss. s \<noteq> [] \<and> (\<forall>c \<in> set s. \<not> is_space c) \<Longrightarrow> words (join '' '' ss) = ss"
proof (induction ss)
  case (Cons s ss)
  show ?case
  proof (cases "ss = []")
    case True
    then show ?thesis using Cons.prems words_token by simp
  next
    case False
    have "words (s @ CHR '' '' # join '' '' ss) = words s @ words (join '' '' ss)"
      by (rule words_split) (simp add: is_space_def)
    then show ?thesis using False Cons words_token[of s] by (simp add: join_Cons)
  qed
qed simp

lemma words_strip: "words (strip s) = words s"
proof -
  have r: "words (rstrip t) = words t" for t
  proof -
    let ?k = "takeWhile is_space (rev t)"
    have t: "t = rstrip t @ rev ?k"
      unfolding rstrip_def by (metis rev_append rev_rev_ident takeWhile_dropWhile_id)
    have "words (a @ k) = words a" if "list_all is_space k" for a k
    proof (cases k)
      case (Cons c k')
      then show ?thesis using that words_split[of c a k'] words_spaces[of k'] by simp
    qed simp
    moreover have "list_all is_space (rev ?k)" by (auto simp: list_all_iff dest: set_takeWhileD)
    ultimately show ?thesis using t by metis
  qed
  show ?thesis unfolding strip_def r lstrip_def by (rule words_dropWhile)
qed

end
