(* ===== verification/Formats_Common.thy ===== *)
theory Formats_Common
  imports Prelude
begin

text \<open>
  \<open>tools/xut/formats/common.py\<close>: the name grammar the stimulus format, the trace format and
  their producers share, and the one Verilog literal parser of polarity and coverage bins.
\<close>

section \<open>The name grammar\<close>

definition label_char :: "char \<Rightarrow> bool" where
  "label_char c \<longleftrightarrow> is_alpha_az c \<or> is_digit c \<or> c \<in> {US, CHR ''.'', CHR ''/'', CHR ''-''}"

definition cfg_char :: "char \<Rightarrow> bool" where
  "cfg_char c \<longleftrightarrow> is_alpha_az c \<or> is_digit c \<or> c \<in> {US, CHR ''.'', CHR ''-''}"

definition is_label :: "string \<Rightarrow> bool" where
  "is_label s \<longleftrightarrow> s \<noteq> [] \<and> list_all label_char s"

definition is_cfg :: "string \<Rightarrow> bool" where
  "is_cfg s \<longleftrightarrow> s \<noteq> [] \<and> list_all cfg_char s"

definition name_start :: "char \<Rightarrow> bool" where
  "name_start c \<longleftrightarrow> is_alpha_az c \<or> c = US"

definition is_port :: "string \<Rightarrow> bool" where
  "is_port s \<longleftrightarrow> s \<noteq> [] \<and> name_start (hd s) \<and>
     list_all (\<lambda>c. name_start c \<or> is_digit c \<or> c = CHR ''$'') (tl s)"

definition is_header_key :: "string \<Rightarrow> bool" where
  "is_header_key s \<longleftrightarrow> s \<noteq> [] \<and> name_start (hd s) \<and>
     list_all (\<lambda>c. name_start c \<or> is_digit c \<or> c = CHR ''.'') (tl s)"

text \<open>A configuration name is a label without a slash.\<close>

lemma is_cfg_iff: "is_cfg s \<longleftrightarrow> is_label s \<and> CHR ''/'' \<notin> set s"
proof -
  have "cfg_char c \<longleftrightarrow> label_char c \<and> c \<noteq> CHR ''/''" for c
    by (auto simp: cfg_char_def label_char_def is_alpha_az_def is_upper_az_def is_lower_az_def
        is_digit_def)
  then show ?thesis by (auto simp: is_cfg_def is_label_def list_all_iff)
qed

lemma label_char_plain:
  "label_char c \<Longrightarrow> \<not> is_space c \<and> c \<noteq> CHR ''#'' \<and> c \<noteq> DQ \<and> c \<noteq> BSL \<and> c \<noteq> CHR ''='' \<and> c \<noteq> CHR ''|''"
  by (auto simp: label_char_def char_class_defs Let_def)

lemma label_plain:
  "is_label s \<Longrightarrow> c \<in> set s \<Longrightarrow> \<not> is_space c \<and> c \<noteq> CHR ''#'' \<and> c \<noteq> DQ \<and> c \<noteq> BSL"
  using label_char_plain by (auto simp: is_label_def list_all_iff)

lemma name_start_word: "name_start c \<Longrightarrow> is_word c"
  by (auto simp: name_start_def is_word_def Let_def)

section \<open>Verilog literals\<close>

text \<open>An attribute value as Python has it: an \<open>int\<close> or a \<open>str\<close>.\<close>

datatype attr_val = VInt int | VStr string

fun py_str :: "attr_val \<Rightarrow> string" where
  "py_str (VInt i) = show_int i"
| "py_str (VStr s) = s"

definition hex_us :: "char \<Rightarrow> bool" where
  "hex_us c \<longleftrightarrow> digit_val c \<noteq> None \<or> c = US"

definition radix_of :: "char \<Rightarrow> nat option" where
  "radix_of c = (let l = to_lower c in
     if l = CHR ''b'' then Some 2 else if l = CHR ''o'' then Some 8
     else if l = CHR ''d'' then Some 10 else if l = CHR ''h'' then Some 16 else None)"

text \<open>The last two groups of \<open>_INT_LITERAL\<close>: digits to the end, then spaces.\<close>

definition literal_digits :: "nat \<Rightarrow> string \<Rightarrow> int option" where
  "literal_digits base t =
     (let (ds, rest) = span hex_us t
      in if ds \<noteq> [] \<and> list_all is_space rest
         then map_option int (py_int_base base (no_us ds)) else None)"

definition int_literal :: "attr_val \<Rightarrow> int option" where
  "int_literal value =
     (let s = lstrip (py_str value)
      in case snd (span is_digit s) of
           quot # b # rest \<Rightarrow>
             (if quot = SQ then
                (case radix_of b of Some base \<Rightarrow> literal_digits base rest
                                  | None \<Rightarrow> literal_digits 10 s)
              else literal_digits 10 s)
         | _ \<Rightarrow> literal_digits 10 s)"

end
