(* ===== verification/Model_Base.thy ===== *)
theory Model_Base
  imports Formats_Common
begin

text \<open>
  The golden models' common part, \<open>models/xut_models/base.py\<close>: outputs with provenance and the
  check \<open>Out\<close> makes of them, and attribute literals. An exception is a value of
  \<open>model_error\<close>; its constructor stands for the message and its arguments are the values the
  message prints.
\<close>

section \<open>Model outputs (base.py)\<close>

datatype model_error =
    BadBits string
  | ProvLength nat nat
  | BadTag string
  | DontCareProv nat string
  | BeforePowerOn string
  | NotInputPort string
  | NotBinary string int
  | NotClockPort string
  | Unsupported string
  | PyValueError string

text \<open>Provenance: one tag for the whole output, or one per bit with bit 0 first.\<close>

datatype prov = Tag string | Tags "string list"

datatype out = Out (bits: string) (prov: prov)

definition prov_reason_char :: "char \<Rightarrow> bool" where
  "prov_reason_char c \<longleftrightarrow>
     \<not> is_space c \<and> c \<notin> {CHR ''#'', CHR ''|'', CHR ''='', CHR '',''}"

text \<open>\<open>_PROV\<close> without its end anchor; \<open>$\<close> also matches before one final newline.\<close>

definition prov_body :: "string \<Rightarrow> bool" where
  "prov_body t \<longleftrightarrow>
     (starts_with ''doc:'' t \<and> drop 4 t \<noteq> [] \<and> list_all is_digit (drop 4 t)) \<or>
     (starts_with ''inferred:'' t \<and> drop 9 t \<noteq> [] \<and> list_all prov_reason_char (drop 9 t))"

definition prov_match :: "string \<Rightarrow> bool" where
  "prov_match t \<longleftrightarrow> prov_body t \<or> (t \<noteq> [] \<and> last t = LF \<and> prov_body (butlast t))"

fun prov_tags :: "prov \<Rightarrow> string list" where
  "prov_tags (Tag t) = [t]"
| "prov_tags (Tags ts) = ts"

text \<open>\<open>for bit, ch in enumerate(reversed(bits))\<close>: the first masked bit without a doc: tag.\<close>

fun dont_care_check :: "string list \<Rightarrow> nat \<Rightarrow> string \<Rightarrow> (model_error, unit) result" where
  "dont_care_check tags i [] = Inr ()"
| "dont_care_check tags i (ch # chs) =
     (let tag = (if 1 < length tags then tags ! i else tags ! 0)
      in if ch = CHR ''-'' \<and> \<not> starts_with ''doc:'' tag then Inl (DontCareProv i tag)
         else dont_care_check tags (Suc i) chs)"

text \<open>\<open>Out.__post_init__\<close>.\<close>

definition mk_out :: "string \<Rightarrow> prov \<Rightarrow> (model_error, out) result" where
  "mk_out bs p =
     (if bs = [] \<or> \<not> list_all (\<lambda>c. c \<in> {CHR ''0'', CHR ''1'', CHR ''-''}) bs then Inl (BadBits bs)
      else if (case p of Tags ts \<Rightarrow> length ts \<noteq> length bs | Tag _ \<Rightarrow> False)
           then Inl (ProvLength (length (prov_tags p)) (length bs))
      else case filter (\<lambda>t. \<not> prov_match t) (prov_tags p) of
             t # _ \<Rightarrow> Inl (BadTag t)
           | [] \<Rightarrow> rbind (dont_care_check (prov_tags p) 0 (rev bs)) (\<lambda>_. Inr (Out bs p)))"

section \<open>Attribute literals (base.py)\<close>

text \<open>\<open>_LIT\<close>: an optional size, a quote, an optional sign letter, the base and the digits.\<close>

definition lit_tail :: "string \<Rightarrow> (nat \<times> string) option" where
  "lit_tail t =
     (let s1 = lstrip t;
          s2 = (case s1 of c # cs \<Rightarrow> if c = CHR ''s'' \<or> c = CHR ''S'' then cs else s1 | [] \<Rightarrow> [])
      in case s2 of
           [] \<Rightarrow> None
         | b # rest \<Rightarrow>
             (case radix_of b of
                None \<Rightarrow> None
              | Some base \<Rightarrow>
                  (let (ds, rest2) = span hex_us (lstrip rest)
                   in if ds \<noteq> [] \<and> list_all is_space rest2 then Some (base, ds) else None)))"

definition lit_match :: "string \<Rightarrow> (nat \<times> string) option" where
  "lit_match s =
     (case lstrip (snd (span is_digit (lstrip s))) of
        c # rest \<Rightarrow> if c = SQ then lit_tail rest else None
      | [] \<Rightarrow> None)"

definition bit_attr :: "attr_val \<Rightarrow> (model_error, int) result" where
  "bit_attr v =
     (case v of
        VInt i \<Rightarrow> Inr i
      | VStr s \<Rightarrow>
          (case lit_match s of
             Some (base, ds) \<Rightarrow>
               (case py_int_base base (no_us ds) of
                  Some n \<Rightarrow> Inr (int n) | None \<Rightarrow> Inl (PyValueError s))
           | None \<Rightarrow> (case py_int s of Some i \<Rightarrow> Inr i | None \<Rightarrow> Inl (PyValueError s))))"

section \<open>Masked bits\<close>

fun tag_at :: "prov \<Rightarrow> nat \<Rightarrow> string" where
  "tag_at (Tag t) i = t"
| "tag_at (Tags ts) i = ts ! i"

lemma dont_care_check_Inr:
  "dont_care_check tags k chs = Inr u \<Longrightarrow> i < length chs \<Longrightarrow> chs ! i = CHR ''-'' \<Longrightarrow>
   starts_with ''doc:'' (if 1 < length tags then tags ! (k + i) else tags ! 0)"
proof (induction tags k chs arbitrary: i rule: dont_care_check.induct)
  case (2 tags k ch chs)
  show ?case
  proof (cases i)
    case 0
    then show ?thesis using 2 by (auto simp: Let_def split: if_splits)
  next
    case (Suc j)
    then show ?thesis using 2(1)[OF refl, of j] 2(2-4) by (auto simp: Let_def split: if_splits)
  qed
qed simp

text \<open>
  C3. A bit is masked only where the documentation leaves it undefined: an output that
  \<open>Out\<close> accepts is a non-empty text of 0, 1 and -, with one tag per bit when the tags are per
  bit, and the tag of every - bit (bit 0 is the last character) is \<open>doc:\<close>.
\<close>

theorem out_masks_documented:
  assumes "mk_out bs p = Inr q"
  shows "q = Out bs p \<and> bs \<noteq> [] \<and> set bs \<subseteq> {CHR ''0'', CHR ''1'', CHR ''-''} \<and>
     list_all prov_match (prov_tags p) \<and>
     list_all (\<lambda>i. rev bs ! i \<noteq> CHR ''-'' \<or> starts_with ''doc:'' (tag_at p i)) [0..<length bs]"
proof -
  have *: "bs \<noteq> []" "list_all (\<lambda>c. c \<in> {CHR ''0'', CHR ''1'', CHR ''-''}) bs"
    "\<not> (case p of Tags ts \<Rightarrow> length ts \<noteq> length bs | Tag _ \<Rightarrow> False)"
    "filter (\<lambda>t. \<not> prov_match t) (prov_tags p) = []"
    "dont_care_check (prov_tags p) 0 (rev bs) = Inr ()" "q = Out bs p"
    using assms by (auto simp: mk_out_def rbind_Inr_iff split: if_splits list.splits)
  have "starts_with ''doc:'' (tag_at p i)" if "i < length bs" "rev bs ! i = CHR ''-''" for i
  proof -
    have d: "starts_with ''doc:'' (if 1 < length (prov_tags p) then prov_tags p ! i else prov_tags p ! 0)"
      using dont_care_check_Inr[OF *(5), of i] that by (cases "1 < length (prov_tags p)") simp_all
    show ?thesis
    proof (cases p)
      case (Tag t)
      then show ?thesis using d by simp
    next
      case (Tags ts)
      then have "i < length ts" using *(3) that(1) by simp
      moreover have "i = 0" if "\<not> 1 < length ts" using that calculation by linarith
      ultimately show ?thesis using d Tags by (cases "1 < length ts") auto
    qed
  qed
  then show ?thesis using * by (auto simp: list_all_iff filter_empty_conv)
qed

theorem out_masks_documented_witness:
  "\<exists>q. mk_out ''1-'' (Tags [''doc:370'', ''inferred:x'']) = Inr q \<and> bits q = ''1-''"
proof -
  have "\<exists>q. mk_out ''1-'' (Tags [''doc:370'', ''inferred:x'']) = Inr q"
    by (rule exI[of _ "Out ''1-'' (Tags [''doc:370'', ''inferred:x''])"]) code_simp
  then show ?thesis using out_masks_documented by fastforce
qed

text \<open>The end anchor of \<open>_PROV\<close> lets one newline through, which no trace line can carry.\<close>

lemma prov_newline_accepted:
  "mk_out ''1'' (Tag (''doc:375'' @ [LF])) = Inr (Out ''1'' (Tag (''doc:375'' @ [LF])))"
  by code_simp

end
