(* ===== verification/Flop_Model.thy ===== *)
theory Flop_Model
  imports Model_Base
begin

text \<open>
  The golden models of the SDR flip-flops FDRE, FDSE, FDCE and FDPE,
  \<open>models/xut_models/7series/_common/flops.py\<close>. A method is a function from the object's state
  to the new state or an exception.

  The lemmas: every output the model makes is well formed, the invariant that ties Q to the
  control and to GSR, the order independence \<open>set_input\<close> promises, and the refinement of the
  logic table of the libraries guide.
\<close>

unbundle bit_operations_syntax

section \<open>The flip-flop classes (flops.py)\<close>

record flop_cls =
  PRIM :: string
  CTRL :: string
  CTRL_VALUE :: int
  CTRL_ASYNC :: bool
  INIT_DEFAULT :: int
  PAGE :: nat
  ATTR_PAGE :: nat

definition FDCE :: flop_cls where
  "FDCE = \<lparr>PRIM = ''FDCE'', CTRL = ''CLR'', CTRL_VALUE = 0, CTRL_ASYNC = True,
    INIT_DEFAULT = 0, PAGE = 369, ATTR_PAGE = 370\<rparr>"

definition FDPE :: flop_cls where
  "FDPE = \<lparr>PRIM = ''FDPE'', CTRL = ''PRE'', CTRL_VALUE = 1, CTRL_ASYNC = True,
    INIT_DEFAULT = 1, PAGE = 372, ATTR_PAGE = 373\<rparr>"

definition FDRE :: flop_cls where
  "FDRE = \<lparr>PRIM = ''FDRE'', CTRL = ''R'', CTRL_VALUE = 0, CTRL_ASYNC = False,
    INIT_DEFAULT = 0, PAGE = 375, ATTR_PAGE = 376\<rparr>"

definition FDSE :: flop_cls where
  "FDSE = \<lparr>PRIM = ''FDSE'', CTRL = ''S'', CTRL_VALUE = 1, CTRL_ASYNC = False,
    INIT_DEFAULT = 1, PAGE = 378, ATTR_PAGE = 379\<rparr>"

text \<open>The module's provenance constants.\<close>

definition GSR_EDGE :: string where
  "GSR_EDGE =
     ''inferred:UG953_describes_GSR_as_holding_INIT_while_active;'' @
     ''clock_edges_during_GSR_are_taken_to_be_ignored''"

definition GSR_VS_CTRL :: string where
  "GSR_VS_CTRL =
     ''inferred:UG953_says_an_active_CLR/PRE_overrides_all_other_inputs_'' @
     ''(p369/p372)_but_does_not_name_GSR;_the_control_is_taken_to_win''"

definition INIT_BEFORE_POWER_ON :: string where
  "INIT_BEFORE_POWER_ON = ''inferred:state_before_power-on_is_not_described;INIT_assumed''"

datatype role = Capture | Ce_hold | Control | Gsr_init | Inv_c | Inv_ctrl | Inv_d

fun claim_no :: "role \<Rightarrow> nat" where
  "claim_no Capture = 1"
| "claim_no Ce_hold = 2"
| "claim_no Control = 3"
| "claim_no Gsr_init = 4"
| "claim_no Inv_c = 5"
| "claim_no Inv_ctrl = 6"
| "claim_no Inv_d = 7"

text \<open>The object's attributes; \<open>fl_on\<close> is \<open>_powered_on\<close>.\<close>

record flop =
  fl_init :: int
  fl_inv_c :: int
  fl_inv_d :: int
  fl_inv_ctrl :: int
  fl_pin :: "(string, int) dict"
  fl_gsr :: int
  fl_on :: bool
  fl_q :: out
  fl_claims :: "string set"

type_synonym attrs = "(string, attr_val) dict"
type_synonym flop_res = "(model_error, flop) result"

definition attr_get :: "attrs \<Rightarrow> string \<Rightarrow> int \<Rightarrow> attr_val" where
  "attr_get a k d = (case map_of a k of Some v \<Rightarrow> v | None \<Rightarrow> VInt d)"

definition flop_inputs :: "flop_cls \<Rightarrow> (string, nat) dict" where
  "flop_inputs c = dict_of [(''C'', 1), (''CE'', 1), (''D'', 1), (CTRL c, 1)]"

text \<open>\<open>__init__\<close>.\<close>

definition flop_new :: "flop_cls \<Rightarrow> attrs \<Rightarrow> flop_res" where
  "flop_new c a =
     rbind (bit_attr (attr_get a ''INIT'' (INIT_DEFAULT c))) (\<lambda>init.
     rbind (bit_attr (attr_get a ''IS_C_INVERTED'' 0)) (\<lambda>inv_c.
     rbind (bit_attr (attr_get a ''IS_D_INVERTED'' 0)) (\<lambda>inv_d.
     rbind (bit_attr (attr_get a (''IS_'' @ CTRL c @ ''_INVERTED'') 0)) (\<lambda>inv_ctrl.
     rbind (mk_out (show_int init) (Tag INIT_BEFORE_POWER_ON)) (\<lambda>q.
       Inr \<lparr>fl_init = init, fl_inv_c = inv_c, fl_inv_d = inv_d, fl_inv_ctrl = inv_ctrl,
            fl_pin = map (\<lambda>(p, _). (p, 0)) (flop_inputs c), fl_gsr = 0, fl_on = False,
            fl_q = q, fl_claims = {}\<rparr>)))))"

definition flop_hit :: "flop_cls \<Rightarrow> role \<Rightarrow> flop \<Rightarrow> flop" where
  "flop_hit c r s =
     s\<lparr>fl_claims := insert (PRIM c @ ''.C'' @ show_nat (claim_no r)) (fl_claims s)\<rparr>"

text \<open>\<open>_doc(bit, page)\<close>: \<open>page or self.PAGE\<close>.\<close>

definition doc_tag :: "nat \<Rightarrow> string" where
  "doc_tag page = ''doc:'' @ show_nat page"

definition flop_doc :: "flop_cls \<Rightarrow> int \<Rightarrow> nat option \<Rightarrow> (model_error, out) result" where
  "flop_doc c b page =
     mk_out (show_int b)
       (Tag (doc_tag (case page of Some p \<Rightarrow> if p = 0 then PAGE c else p | None \<Rightarrow> PAGE c)))"

definition pin_val :: "flop \<Rightarrow> string \<Rightarrow> int" where
  "pin_val s p = (case map_of (fl_pin s) p of Some v \<Rightarrow> v | None \<Rightarrow> 0)"

definition ctrl_active :: "flop_cls \<Rightarrow> flop \<Rightarrow> bool" where
  "ctrl_active c s \<longleftrightarrow> pin_val s (CTRL c) XOR fl_inv_ctrl s \<noteq> 0"

text \<open>\<open>self.q = self._under_gsr()\<close>: the output and the claim it credits.\<close>

definition under_gsr :: "flop_cls \<Rightarrow> flop \<Rightarrow> flop_res" where
  "under_gsr c s =
     (if CTRL_ASYNC c \<and> ctrl_active c s \<and> fl_init s \<noteq> CTRL_VALUE c
      then rbind (mk_out (show_int (CTRL_VALUE c)) (Tag GSR_VS_CTRL)) (\<lambda>q. Inr (s\<lparr>fl_q := q\<rparr>))
      else let s1 = flop_hit c Gsr_init s
           in rbind (flop_doc c (fl_init s) None) (\<lambda>q. Inr (s1\<lparr>fl_q := q\<rparr>)))"

definition force_ctrl :: "flop_cls \<Rightarrow> bool \<Rightarrow> flop \<Rightarrow> flop_res" where
  "force_ctrl c inverted s =
     (let attr = (inverted \<or> fl_inv_ctrl s \<noteq> 0)
      in rbind (flop_doc c (CTRL_VALUE c) (if attr then Some (ATTR_PAGE c) else None)) (\<lambda>q.
           let s1 = flop_hit c Control (s\<lparr>fl_q := q\<rparr>)
           in Inr (if fl_inv_ctrl s \<noteq> 0 then flop_hit c Inv_ctrl s1 else s1)))"

definition flop_power_on :: "flop_cls \<Rightarrow> flop \<Rightarrow> flop_res" where
  "flop_power_on c s =
     (let s1 = flop_hit c Gsr_init (s\<lparr>fl_on := True, fl_gsr := 1\<rparr>)
      in rbind (flop_doc c (fl_init s) None) (\<lambda>q. Inr (s1\<lparr>fl_q := q\<rparr>)))"

definition flop_glbl :: "flop_cls \<Rightarrow> string \<Rightarrow> int \<Rightarrow> flop \<Rightarrow> flop_res" where
  "flop_glbl c signal v s =
     (if \<not> fl_on s then Inl (BeforePowerOn ''glbl'')
      else if signal \<noteq> ''GSR'' then Inl (Unsupported signal)
      else let s1 = s\<lparr>fl_gsr := v\<rparr>
           in if v \<noteq> 0 then under_gsr c s1
              else if CTRL_ASYNC c \<and> ctrl_active c s1 then force_ctrl c False s1
              else Inr s1)"

definition flop_set_input :: "flop_cls \<Rightarrow> string \<Rightarrow> int \<Rightarrow> flop \<Rightarrow> flop_res" where
  "flop_set_input c port v s =
     (if \<not> fl_on s then Inl (BeforePowerOn ''set_input'')
      else if \<not> dict_has (fl_pin s) port then Inl (NotInputPort port)
      else if v \<noteq> 0 \<and> v \<noteq> 1 then Inl (NotBinary port v)
      else let s1 = s\<lparr>fl_pin := AList.update port v (fl_pin s)\<rparr>
           in if port \<noteq> CTRL c \<or> \<not> CTRL_ASYNC c then Inr s1
              else if fl_gsr s1 \<noteq> 0 then under_gsr c s1
              else if ctrl_active c s1 then force_ctrl c False s1
              else Inr s1)"

definition flop_clock_edge :: "flop_cls \<Rightarrow> string \<Rightarrow> bool \<Rightarrow> flop \<Rightarrow> flop_res" where
  "flop_clock_edge c port rising s =
     (if \<not> fl_on s then Inl (BeforePowerOn ''clock_edge'')
      else if port \<notin> {''C''} then Inl (NotClockPort port)
      else if rising = (fl_inv_c s \<noteq> 0) then Inr s
      else if fl_gsr s \<noteq> 0 then
        (let ctrl = ctrl_active c s
         in if \<not> (CTRL_ASYNC c \<and> ctrl) \<and> (pin_val s ''CE'' \<noteq> 0 \<or> ctrl)
            then rbind (mk_out (bits (fl_q s)) (Tag GSR_EDGE)) (\<lambda>q. Inr (s\<lparr>fl_q := q\<rparr>))
            else Inr s)
      else if ctrl_active c s then
        (if \<not> CTRL_ASYNC c
         then force_ctrl c (fl_inv_c s \<noteq> 0) (if fl_inv_c s \<noteq> 0 then flop_hit c Inv_c s else s)
         else Inr s)
      else if pin_val s ''CE'' = 0 then Inr (flop_hit c Ce_hold s)
      else
        let s1 = (if fl_inv_c s \<noteq> 0 then flop_hit c Inv_c s else s);
            s2 = (if fl_inv_d s \<noteq> 0 then flop_hit c Inv_d s1 else s1);
            attr = (fl_inv_c s \<noteq> 0 \<or> fl_inv_d s \<noteq> 0)
        in rbind (flop_doc c (pin_val s ''D'' XOR fl_inv_d s)
                    (if attr then Some (ATTR_PAGE c) else None)) (\<lambda>q.
           Inr (flop_hit c Capture (s2\<lparr>fl_q := q\<rparr>))))"

definition flop_outputs :: "flop \<Rightarrow> (model_error, (string, out) dict) result" where
  "flop_outputs s =
     (if \<not> fl_on s then Inl (BeforePowerOn ''outputs'') else Inr [(''Q'', fl_q s)])"

text \<open>A session: the calls a replay makes on one object.\<close>

datatype flop_event = PowerOn | Glbl string int | SetInput string int | ClockEdge string bool

fun flop_step :: "flop_cls \<Rightarrow> flop \<Rightarrow> flop_event \<Rightarrow> flop_res" where
  "flop_step c s PowerOn = flop_power_on c s"
| "flop_step c s (Glbl sig v) = flop_glbl c sig v s"
| "flop_step c s (SetInput p v) = flop_set_input c p v s"
| "flop_step c s (ClockEdge p r) = flop_clock_edge c p r s"

definition flop_run :: "flop_cls \<Rightarrow> flop \<Rightarrow> flop_event list \<Rightarrow> flop_res" where
  "flop_run c s es = rfold (flop_step c) s es"

section \<open>Well-formed classes, objects and events\<close>

definition bin :: "int \<Rightarrow> bool" where
  "bin v \<longleftrightarrow> v = 0 \<or> v = 1"

definition cls_wf :: "flop_cls \<Rightarrow> bool" where
  "cls_wf c \<longleftrightarrow> bin (CTRL_VALUE c) \<and> bin (INIT_DEFAULT c) \<and> CTRL c \<notin> {''C'', ''CE'', ''D''}"

definition flop_ports :: "flop_cls \<Rightarrow> string list" where
  "flop_ports c = [''C'', ''CE'', ''D'', CTRL c]"

definition q_wf :: "out \<Rightarrow> bool" where
  "q_wf q \<longleftrightarrow> bits q \<in> {''0'', ''1''} \<and> (\<exists>t. prov q = Tag t \<and> prov_match t)"

definition flop_wf :: "flop_cls \<Rightarrow> flop \<Rightarrow> bool" where
  "flop_wf c s \<longleftrightarrow> bin (fl_init s) \<and> bin (fl_inv_c s) \<and> bin (fl_inv_d s) \<and> bin (fl_inv_ctrl s) \<and>
     map fst (fl_pin s) = flop_ports c \<and> (\<forall>v \<in> snd ` set (fl_pin s). bin v) \<and>
     bin (fl_gsr s) \<and> q_wf (fl_q s)"

fun event_ok :: "flop_cls \<Rightarrow> flop_event \<Rightarrow> bool" where
  "event_ok c PowerOn = False"
| "event_ok c (Glbl sig v) = (sig = ''GSR'' \<and> bin v)"
| "event_ok c (SetInput p v) = (p \<in> set (flop_ports c) \<and> bin v)"
| "event_ok c (ClockEdge p r) = (p = ''C'')"

definition bitstr :: "bool \<Rightarrow> string" where
  "bitstr b = (if b then ''1'' else ''0'')"

definition q_bit :: "flop \<Rightarrow> bool" where
  "q_bit s \<longleftrightarrow> bits (fl_q s) = ''1''"

lemma show_int_bin: "bin b \<Longrightarrow> show_int b = bitstr (b \<noteq> 0)"
proof -
  have "show_int 0 = ''0''" "show_int 1 = ''1''" by code_simp+
  then show "bin b \<Longrightarrow> show_int b = bitstr (b \<noteq> 0)" by (auto simp: bin_def bitstr_def)
qed

lemma bin_xor: "bin a \<Longrightarrow> bin b \<Longrightarrow> bin (a XOR b) \<and> (a XOR b \<noteq> 0 \<longleftrightarrow> (a \<noteq> 0) \<noteq> (b \<noteq> 0))"
  by (auto simp: bin_def)

lemma doc_tag_match: "prov_match (doc_tag n)"
  using show_nat_digits
  by (simp add: prov_match_def prov_body_def doc_tag_def starts_with_def list_all_iff)

lemma inferred_tags_match:
  "prov_match GSR_EDGE" "prov_match GSR_VS_CTRL" "prov_match INIT_BEFORE_POWER_ON"
  by code_simp+

lemma mk_out_bit: "prov_match t \<Longrightarrow> mk_out (bitstr b) (Tag t) = Inr (Out (bitstr b) (Tag t))"
  by (auto simp: mk_out_def bitstr_def)

lemma mk_out_int: "bin b \<Longrightarrow> prov_match t \<Longrightarrow>
    mk_out (show_int b) (Tag t) = Inr (Out (bitstr (b \<noteq> 0)) (Tag t))"
  by (simp add: show_int_bin mk_out_bit)

definition doc_out :: "bool \<Rightarrow> nat \<Rightarrow> out" where
  "doc_out b page = Out (bitstr b) (Tag (doc_tag page))"

lemma flop_doc_bin:
  "bin b \<Longrightarrow> flop_doc c b page = Inr (doc_out (b \<noteq> 0)
     (case page of Some p \<Rightarrow> if p = 0 then PAGE c else p | None \<Rightarrow> PAGE c))"
  by (simp add: flop_doc_def mk_out_int doc_tag_match doc_out_def)

lemma bits_doc_out [simp]: "bits (doc_out b p) = bitstr b"
  by (simp add: doc_out_def)

lemma q_wf_doc_out [simp]: "q_wf (doc_out b p)"
  by (simp add: q_wf_def doc_out_def doc_tag_match bitstr_def)

lemma q_wf_tag: "prov_match t \<Longrightarrow> q_wf (Out (bitstr b) (Tag t))"
  by (simp add: q_wf_def bitstr_def)

lemma bitstr_eq [simp]: "bitstr a = bitstr b \<longleftrightarrow> a = b" "bitstr b = ''1'' \<longleftrightarrow> b"
  by (auto simp: bitstr_def)

lemma flop_hit_sel [simp]:
  "fl_init (flop_hit c r s) = fl_init s" "fl_inv_c (flop_hit c r s) = fl_inv_c s"
  "fl_inv_d (flop_hit c r s) = fl_inv_d s" "fl_inv_ctrl (flop_hit c r s) = fl_inv_ctrl s"
  "fl_pin (flop_hit c r s) = fl_pin s" "fl_gsr (flop_hit c r s) = fl_gsr s"
  "fl_on (flop_hit c r s) = fl_on s" "fl_q (flop_hit c r s) = fl_q s"
  by (simp_all add: flop_hit_def)

lemma pin_val_hit [simp]: "pin_val (flop_hit c r s) p = pin_val s p"
  by (simp add: pin_val_def)

lemma ctrl_active_cong:
  "fl_pin s = fl_pin t \<Longrightarrow> fl_inv_ctrl s = fl_inv_ctrl t \<Longrightarrow> ctrl_active c s = ctrl_active c t"
  by (simp add: ctrl_active_def pin_val_def)

lemma pin_val_bin: "flop_wf c s \<Longrightarrow> bin (pin_val s p)"
  unfolding flop_wf_def pin_val_def
  by (auto simp: bin_def split: option.splits dest!: map_of_SomeD)

lemma pin_val_update [simp]:
  "pin_val (s\<lparr>fl_pin := AList.update p v (fl_pin s)\<rparr>) r = (if r = p then v else pin_val s r)"
  by (simp add: pin_val_def update_conv)

lemma snd_update_subset: "snd ` set (AList.update k v d) \<subseteq> insert v (snd ` set d)"
  by (induction d) auto

lemma flop_wf_update:
  assumes "flop_wf c s" "p \<in> set (flop_ports c)" "bin v"
  shows "flop_wf c (s\<lparr>fl_pin := AList.update p v (fl_pin s)\<rparr>)"
proof -
  have "map fst (AList.update p v (fl_pin s)) = flop_ports c"
    using assms(1,2) by (auto simp: flop_wf_def update_keys)
  moreover have "\<forall>w \<in> snd ` set (AList.update p v (fl_pin s)). bin w"
    using assms(1,3) snd_update_subset[of p v "fl_pin s"] unfolding flop_wf_def by blast
  ultimately show ?thesis using assms(1) by (simp add: flop_wf_def)
qed

section \<open>The invariant\<close>

text \<open>
  An active asynchronous control overrides everything; otherwise an active GSR holds Q at
  INIT. It does not hold between \<open>power_on\<close> and the first \<open>set_input\<close> of the control: the
  control is not evaluated while no pin has been driven.
\<close>

definition forced_now :: "flop_cls \<Rightarrow> flop \<Rightarrow> bool" where
  "forced_now c s \<longleftrightarrow> CTRL_ASYNC c \<and> ctrl_active c s"

definition flop_inv :: "flop_cls \<Rightarrow> flop \<Rightarrow> bool" where
  "flop_inv c s \<longleftrightarrow> flop_wf c s \<and> fl_on s \<and>
     (forced_now c s \<longrightarrow> q_bit s = (CTRL_VALUE c \<noteq> 0)) \<and>
     (fl_gsr s \<noteq> 0 \<and> \<not> forced_now c s \<longrightarrow> q_bit s = (fl_init s \<noteq> 0))"

text \<open>What one call leaves as it was: the attributes, and every pin but the one it drives.\<close>

definition same_cfg :: "flop \<Rightarrow> flop \<Rightarrow> bool" where
  "same_cfg s t \<longleftrightarrow> fl_init t = fl_init s \<and> fl_inv_c t = fl_inv_c s \<and> fl_inv_d t = fl_inv_d s \<and>
     fl_inv_ctrl t = fl_inv_ctrl s \<and> fl_on t = fl_on s"

lemma under_gsr_spec:
  assumes "cls_wf c" "flop_wf c s"
  shows "\<exists>s'. under_gsr c s = Inr s' \<and> flop_wf c s' \<and> same_cfg s s' \<and>
     fl_pin s' = fl_pin s \<and> fl_gsr s' = fl_gsr s \<and>
     q_bit s' = (if forced_now c s then CTRL_VALUE c \<noteq> 0 else fl_init s \<noteq> 0)"
  using assms inferred_tags_match
  by (auto simp: under_gsr_def cls_wf_def flop_wf_def flop_doc_bin mk_out_int same_cfg_def
      forced_now_def q_bit_def Let_def q_wf_tag)

lemma force_ctrl_spec:
  assumes "cls_wf c" "flop_wf c s"
  shows "\<exists>s'. force_ctrl c b s = Inr s' \<and> flop_wf c s' \<and> same_cfg s s' \<and>
     fl_pin s' = fl_pin s \<and> fl_gsr s' = fl_gsr s \<and> q_bit s' = (CTRL_VALUE c \<noteq> 0)"
  using assms
  by (auto simp: force_ctrl_def cls_wf_def flop_wf_def flop_doc_bin same_cfg_def q_bit_def Let_def)

text \<open>The logic table of the guide, over logical levels: one rule for every event.\<close>

record aflop =
  a_q :: bool
  a_d :: bool
  a_ce :: bool
  a_ctrl :: bool
  a_gsr :: bool

datatype aevent = ASetD bool | ASetCE bool | ASetCtrl bool | AGsr bool | AEdge | ANone

definition guide_q :: "flop_cls \<Rightarrow> bool \<Rightarrow> bool \<Rightarrow> aflop \<Rightarrow> bool" where
  "guide_q c init edge a =
     (if CTRL_ASYNC c \<and> a_ctrl a then CTRL_VALUE c \<noteq> 0
      else if a_gsr a then init
      else if edge then (if a_ctrl a then CTRL_VALUE c \<noteq> 0 else if a_ce a then a_d a else a_q a)
      else a_q a)"

fun guide_input :: "aflop \<Rightarrow> aevent \<Rightarrow> aflop" where
  "guide_input a (ASetD b) = a\<lparr>a_d := b\<rparr>"
| "guide_input a (ASetCE b) = a\<lparr>a_ce := b\<rparr>"
| "guide_input a (ASetCtrl b) = a\<lparr>a_ctrl := b\<rparr>"
| "guide_input a (AGsr b) = a\<lparr>a_gsr := b\<rparr>"
| "guide_input a AEdge = a"
| "guide_input a ANone = a"

definition guide_step :: "flop_cls \<Rightarrow> bool \<Rightarrow> aflop \<Rightarrow> aevent \<Rightarrow> aflop" where
  "guide_step c init a e =
     (let a' = guide_input a e in a'\<lparr>a_q := guide_q c init (e = AEdge) a'\<rparr>)"

definition abs_flop :: "flop_cls \<Rightarrow> flop \<Rightarrow> aflop" where
  "abs_flop c s = \<lparr>a_q = q_bit s, a_d = ((pin_val s ''D'' \<noteq> 0) \<noteq> (fl_inv_d s \<noteq> 0)),
     a_ce = (pin_val s ''CE'' \<noteq> 0), a_ctrl = ctrl_active c s, a_gsr = (fl_gsr s \<noteq> 0)\<rparr>"

fun abs_event :: "flop_cls \<Rightarrow> flop \<Rightarrow> flop_event \<Rightarrow> aevent" where
  "abs_event c s PowerOn = ANone"
| "abs_event c s (Glbl sig v) = AGsr (v \<noteq> 0)"
| "abs_event c s (SetInput p v) =
     (if p = ''D'' then ASetD ((v \<noteq> 0) \<noteq> (fl_inv_d s \<noteq> 0))
      else if p = ''CE'' then ASetCE (v \<noteq> 0)
      else if p = CTRL c then ASetCtrl ((v \<noteq> 0) \<noteq> (fl_inv_ctrl s \<noteq> 0))
      else ANone)"
| "abs_event c s (ClockEdge p r) = (if r \<noteq> (fl_inv_c s \<noteq> 0) then AEdge else ANone)"

section \<open>Each operation keeps the invariant and refines the logic table\<close>

definition step_ok :: "flop_cls \<Rightarrow> flop \<Rightarrow> flop_event \<Rightarrow> flop_res \<Rightarrow> bool" where
  "step_ok c s e r \<longleftrightarrow> (case r of
       Inl _ \<Rightarrow> False
     | Inr s' \<Rightarrow> flop_inv c s' \<and> same_cfg s s' \<and>
         abs_flop c s' = guide_step c (fl_init s \<noteq> 0) (abs_flop c s) (abs_event c s e))"

lemma forced_now_cong:
  "fl_pin s' = fl_pin s \<Longrightarrow> fl_inv_ctrl s' = fl_inv_ctrl s \<Longrightarrow> forced_now c s' = forced_now c s"
  by (simp add: forced_now_def ctrl_active_def pin_val_def)

lemma abs_flop_frame:
  "same_cfg s s' \<Longrightarrow> fl_pin s' = fl_pin s \<Longrightarrow>
   abs_flop c s' = (abs_flop c s)\<lparr>a_q := q_bit s', a_gsr := (fl_gsr s' \<noteq> 0)\<rparr>"
  by (simp add: abs_flop_def same_cfg_def ctrl_active_def pin_val_def)

lemma same_cfg_refl [simp]: "same_cfg s s" "same_cfg s (flop_hit c r s)"
  by (simp_all add: same_cfg_def)

lemma same_cfg_trans: "same_cfg s t \<Longrightarrow> same_cfg t u \<Longrightarrow> same_cfg s u"
  by (simp add: same_cfg_def)

lemma flop_wf_gsr: "flop_wf c s \<Longrightarrow> bin v \<Longrightarrow> flop_wf c (s\<lparr>fl_gsr := v\<rparr>)"
  by (simp add: flop_wf_def)

lemma flop_wf_hit [simp]: "flop_wf c (flop_hit c' r s) = flop_wf c s"
  by (simp add: flop_wf_def)

lemma q_bit_hit [simp]: "q_bit (flop_hit c r s) = q_bit s"
  by (simp add: q_bit_def)

lemma ctrl_active_hit [simp]: "ctrl_active c (flop_hit c' r s) = ctrl_active c s"
  by (simp add: ctrl_active_def)

lemma flop_glbl_ok:
  assumes c: "cls_wf c" and i: "flop_inv c s" and v: "bin v"
  shows "step_ok c s (Glbl ''GSR'' v) (flop_glbl c ''GSR'' v s)"
proof -
  define s1 where "s1 = s\<lparr>fl_gsr := v\<rparr>"
  have w: "flop_wf c s1" using i v by (simp add: s1_def flop_inv_def flop_wf_gsr)
  have same: "same_cfg s s1" "fl_pin s1 = fl_pin s" "fl_gsr s1 = v" "q_bit s1 = q_bit s" "fl_on s"
    using i by (simp_all add: s1_def same_cfg_def q_bit_def flop_inv_def)
  have f: "forced_now c s1 = forced_now c s" by (intro forced_now_cong) (simp_all add: s1_def)
  have fd: "forced_now c s = (CTRL_ASYNC c \<and> a_ctrl (abs_flop c s))"
    by (simp add: forced_now_def abs_flop_def)
  have q0: "a_q (abs_flop c s) = q_bit s" by (simp add: abs_flop_def)
  note us = under_gsr_spec[OF c w] and fs = force_ctrl_spec[OF c w, of False]
  have core: "step_ok c s (Glbl ''GSR'' v) (Inr s')"
    if "flop_wf c s'" "same_cfg s1 s'" "fl_pin s' = fl_pin s1" "fl_gsr s' = v"
      and q: "q_bit s' = (if forced_now c s then CTRL_VALUE c \<noteq> 0
                          else if v \<noteq> 0 then fl_init s \<noteq> 0 else q_bit s)" for s'
  proof -
    have sc: "same_cfg s s'" using same(1) that(2) by (rule same_cfg_trans)
    have fp: "fl_pin s' = fl_pin s" using that(3) same(2) by simp
    have fn: "forced_now c s' = forced_now c s"
      using fp sc by (intro forced_now_cong) (simp_all add: same_cfg_def)
    have inv: "flop_inv c s'" using that(1,4) sc same(5) q fn by (simp add: flop_inv_def same_cfg_def)
    have "abs_flop c s' = guide_step c (fl_init s \<noteq> 0) (abs_flop c s) (AGsr (v \<noteq> 0))"
      unfolding abs_flop_frame[OF sc fp] guide_step_def Let_def guide_input.simps
      using q that(4) by (simp add: guide_q_def fd q0)
    then show ?thesis using inv sc by (simp add: step_ok_def)
  qed
  have "flop_glbl c ''GSR'' v s =
      (if v \<noteq> 0 then under_gsr c s1 else if forced_now c s1 then force_ctrl c False s1 else Inr s1)"
    using same(5) by (simp add: flop_glbl_def s1_def forced_now_def Let_def)
  then have "flop_glbl c ''GSR'' v s =
      (if v \<noteq> 0 then under_gsr c s1 else if forced_now c s then force_ctrl c False s1 else Inr s1)"
    unfolding f .
  moreover have ?thesis if "v \<noteq> 0" "flop_glbl c ''GSR'' v s = under_gsr c s1"
  proof -
    obtain s' where s': "under_gsr c s1 = Inr s'" "flop_wf c s'" "same_cfg s1 s'"
      "fl_pin s' = fl_pin s1" "fl_gsr s' = fl_gsr s1"
      "q_bit s' = (if forced_now c s1 then CTRL_VALUE c \<noteq> 0 else fl_init s1 \<noteq> 0)"
      using us by blast
    have "step_ok c s (Glbl ''GSR'' v) (Inr s')"
      using s' same f that(1) by (intro core) (simp_all add: same_cfg_def)
    then show ?thesis using that(2) s'(1) by simp
  qed
  moreover have ?thesis if "v = 0" "forced_now c s" "flop_glbl c ''GSR'' v s = force_ctrl c False s1"
  proof -
    obtain s' where s': "force_ctrl c False s1 = Inr s'" "flop_wf c s'" "same_cfg s1 s'"
      "fl_pin s' = fl_pin s1" "fl_gsr s' = fl_gsr s1" "q_bit s' = (CTRL_VALUE c \<noteq> 0)"
      using fs by blast
    have "step_ok c s (Glbl ''GSR'' v) (Inr s')"
      using s' same that(2) by (intro core) simp_all
    then show ?thesis using that(3) s'(1) by simp
  qed
  moreover have ?thesis if "v = 0" "\<not> forced_now c s" "flop_glbl c ''GSR'' v s = Inr s1"
    using core[of s1] w same that by simp
  ultimately show ?thesis by (cases "v = 0"; cases "forced_now c s") simp_all
qed

lemma flop_set_input_ok:
  assumes c: "cls_wf c" and i: "flop_inv c s" and p: "p \<in> set (flop_ports c)" and v: "bin v"
  shows "step_ok c s (SetInput p v) (flop_set_input c p v s)"
proof -
  define s1 where "s1 = s\<lparr>fl_pin := AList.update p v (fl_pin s)\<rparr>"
  have w: "flop_wf c s1" using i p v by (simp add: s1_def flop_inv_def flop_wf_update)
  have same: "same_cfg s s1" "fl_gsr s1 = fl_gsr s" "q_bit s1 = q_bit s" "fl_on s"
    using i by (simp_all add: s1_def same_cfg_def q_bit_def flop_inv_def)
  have pv: "pin_val s1 r = (if r = p then v else pin_val s r)" for r by (simp add: s1_def)
  have keys: "map fst (fl_pin s) = flop_ports c" using i by (simp add: flop_inv_def flop_wf_def)
  have has: "dict_has (fl_pin s) p" using p keys by (metis dict_has_iff list.set_map)
  have bv: "(v \<noteq> 0 \<and> v \<noteq> 1) = False" using v by (auto simp: bin_def)
  have ca: "ctrl_active c s1 = (if p = CTRL c then (v \<noteq> 0) \<noteq> (fl_inv_ctrl s \<noteq> 0) else ctrl_active c s)"
  proof -
    have "bin (fl_inv_ctrl s)" using i by (simp add: flop_inv_def flop_wf_def)
    then have "(v XOR fl_inv_ctrl s \<noteq> 0) = ((v \<noteq> 0) \<noteq> (fl_inv_ctrl s \<noteq> 0))"
      using bin_xor[OF v] by blast
    moreover have "fl_inv_ctrl s1 = fl_inv_ctrl s" by (simp add: s1_def)
    ultimately show ?thesis by (simp add: ctrl_active_def pv)
  qed
  have ports: "p = ''C'' \<or> p = ''CE'' \<or> p = ''D'' \<or> p = CTRL c"
    using p by (auto simp: flop_ports_def)
  have nc: "CTRL c \<noteq> ''C''" "CTRL c \<noteq> ''CE''" "CTRL c \<noteq> ''D''" using c by (auto simp: cls_wf_def)
  note us = under_gsr_spec[OF c w] and fs = force_ctrl_spec[OF c w, of False]
  have inp: "guide_input (abs_flop c s) (abs_event c s (SetInput p v)) = (abs_flop c s1)"
    using ports
  proof (elim disjE)
    assume "p = ''C''"
    then show ?thesis using nc same ca by (simp add: abs_flop_def pv same_cfg_def)
  next
    assume "p = ''CE''"
    then show ?thesis using nc same ca by (simp add: abs_flop_def pv same_cfg_def)
  next
    assume "p = ''D''"
    then show ?thesis using nc same ca by (simp add: abs_flop_def pv same_cfg_def)
  next
    assume "p = CTRL c"
    then show ?thesis using nc same ca by (simp add: abs_flop_def pv same_cfg_def)
  qed
  have core: "step_ok c s (SetInput p v) (Inr s')"
    if "flop_wf c s'" "same_cfg s1 s'" "fl_pin s' = fl_pin s1" "fl_gsr s' = fl_gsr s"
      and q: "q_bit s' = (if forced_now c s1 then CTRL_VALUE c \<noteq> 0
                          else if fl_gsr s \<noteq> 0 then fl_init s \<noteq> 0 else q_bit s)" for s'
  proof -
    have sc: "same_cfg s s'" using same(1) that(2) by (rule same_cfg_trans)
    have fn: "forced_now c s' = forced_now c s1"
      using that(2,3) by (intro forced_now_cong) (simp_all add: same_cfg_def)
    have inv: "flop_inv c s'" using that(1,4) sc same q fn by (simp add: flop_inv_def same_cfg_def)
    have fd: "forced_now c s1 = (CTRL_ASYNC c \<and> a_ctrl (abs_flop c s1))"
      by (simp add: forced_now_def abs_flop_def)
    have q1: "a_q (abs_flop c s1) = q_bit s" "a_gsr (abs_flop c s1) = (fl_gsr s \<noteq> 0)"
      using same by (simp_all add: abs_flop_def)
    have ne: "(abs_event c s (SetInput p v) = AEdge) = False" by simp
    have "abs_flop c s' = guide_step c (fl_init s \<noteq> 0) (abs_flop c s) (abs_event c s (SetInput p v))"
      unfolding abs_flop_frame[OF that(2,3)] guide_step_def Let_def inp ne
      using q that(4) q1 by (simp add: guide_q_def fd)
    then show ?thesis using inv sc by (simp add: step_ok_def)
  qed
  have inv1: "forced_now c s1 = forced_now c s" if "p \<noteq> CTRL c"
    using that ca by (simp add: forced_now_def)
  have eq: "flop_set_input c p v s =
      (if p \<noteq> CTRL c \<or> \<not> CTRL_ASYNC c then Inr s1 else if fl_gsr s1 \<noteq> 0 then under_gsr c s1
       else if ctrl_active c s1 then force_ctrl c False s1 else Inr s1)"
    using same(4) has unfolding flop_set_input_def s1_def Let_def bv by simp
  show ?thesis
  proof (cases "p \<noteq> CTRL c \<or> \<not> CTRL_ASYNC c")
    case True
    then have f: "forced_now c s1 = forced_now c s" using inv1 by (auto simp: forced_now_def)
    have "q_bit s1 = (if forced_now c s1 then CTRL_VALUE c \<noteq> 0
                      else if fl_gsr s \<noteq> 0 then fl_init s \<noteq> 0 else q_bit s)"
      using i same f by (auto simp: flop_inv_def)
    then show ?thesis using True eq core[of s1] w same by simp
  next
    case False
    then have f: "forced_now c s1 = ctrl_active c s1" by (simp add: forced_now_def)
    consider (gsr) "fl_gsr s1 \<noteq> 0" | (act) "fl_gsr s1 = 0" "ctrl_active c s1"
      | (rel) "fl_gsr s1 = 0" "\<not> ctrl_active c s1" by blast
    then show ?thesis
    proof cases
      case gsr
      obtain s' where s': "under_gsr c s1 = Inr s'" "flop_wf c s'" "same_cfg s1 s'"
        "fl_pin s' = fl_pin s1" "fl_gsr s' = fl_gsr s1"
        "q_bit s' = (if forced_now c s1 then CTRL_VALUE c \<noteq> 0 else fl_init s1 \<noteq> 0)"
        using us by blast
      have "step_ok c s (SetInput p v) (Inr s')"
        using s' same gsr by (intro core) (simp_all add: same_cfg_def)
      then show ?thesis using eq False gsr s'(1) by simp
    next
      case act
      obtain s' where s': "force_ctrl c False s1 = Inr s'" "flop_wf c s'" "same_cfg s1 s'"
        "fl_pin s' = fl_pin s1" "fl_gsr s' = fl_gsr s1" "q_bit s' = (CTRL_VALUE c \<noteq> 0)"
        using fs by blast
      have "step_ok c s (SetInput p v) (Inr s')"
        using s' same act f by (intro core) simp_all
      then show ?thesis using eq False act s'(1) by simp
    next
      case rel
      then show ?thesis using core[of s1] w same f eq False by simp
    qed
  qed
qed

lemma flop_clock_edge_ok:
  assumes c: "cls_wf c" and i: "flop_inv c s"
  shows "step_ok c s (ClockEdge ''C'' r) (flop_clock_edge c ''C'' r s)"
proof -
  have w: "flop_wf c s" and on: "fl_on s" using i by (simp_all add: flop_inv_def)
  define act where "act = (r \<noteq> (fl_inv_c s \<noteq> 0))"
  have ev: "abs_event c s (ClockEdge ''C'' r) = (if act then AEdge else ANone)"
    by (simp add: act_def)
  define Q where "Q = guide_q c (fl_init s \<noteq> 0) act (abs_flop c s)"
  have fd: "forced_now c s = (CTRL_ASYNC c \<and> ctrl_active c s)" by (simp add: forced_now_def)
  have Qdef: "Q = (if forced_now c s then CTRL_VALUE c \<noteq> 0 else if fl_gsr s \<noteq> 0 then fl_init s \<noteq> 0
      else if act then (if ctrl_active c s then CTRL_VALUE c \<noteq> 0
                        else if pin_val s ''CE'' \<noteq> 0
                        then (pin_val s ''D'' \<noteq> 0) \<noteq> (fl_inv_d s \<noteq> 0) else q_bit s)
      else q_bit s)"
    unfolding Q_def guide_q_def fd by (simp add: abs_flop_def)
  have core: "step_ok c s (ClockEdge ''C'' r) (Inr s')"
    if "flop_wf c s'" "same_cfg s s'" "fl_pin s' = fl_pin s" "fl_gsr s' = fl_gsr s" "q_bit s' = Q"
    for s'
  proof -
    have fn: "forced_now c s' = forced_now c s"
      using that(2,3) by (intro forced_now_cong) (simp_all add: same_cfg_def)
    have inv: "flop_inv c s'"
      using that(1,2,4,5) on fn unfolding Qdef by (simp add: flop_inv_def same_cfg_def)
    have "abs_flop c s' =
        guide_step c (fl_init s \<noteq> 0) (abs_flop c s) (abs_event c s (ClockEdge ''C'' r))"
      unfolding abs_flop_frame[OF that(2,3)] guide_step_def Let_def ev
      using that(4,5) by (simp add: Q_def abs_flop_def)
    then show ?thesis using inv that(2) by (simp add: step_ok_def)
  qed
  have i1: "forced_now c s \<Longrightarrow> q_bit s = (CTRL_VALUE c \<noteq> 0)"
    and i2: "fl_gsr s \<noteq> 0 \<Longrightarrow> \<not> forced_now c s \<Longrightarrow> q_bit s = (fl_init s \<noteq> 0)"
    using i by (simp_all add: flop_inv_def)
  consider (idle) "\<not> act" | (gsr) "act" "fl_gsr s \<noteq> 0"
    | (ctrl) "act" "fl_gsr s = 0" "ctrl_active c s"
    | (hold) "act" "fl_gsr s = 0" "\<not> ctrl_active c s" "pin_val s ''CE'' = 0"
    | (cap) "act" "fl_gsr s = 0" "\<not> ctrl_active c s" "pin_val s ''CE'' \<noteq> 0" by blast
  then show ?thesis
  proof cases
    case idle
    then have "flop_clock_edge c ''C'' r s = Inr s"
      using on by (simp add: flop_clock_edge_def act_def)
    moreover have "q_bit s = Q" using idle i1 i2 unfolding Qdef by simp
    ultimately show ?thesis using core[of s] w by simp
  next
    case gsr
    have qQ: "q_bit s = Q" using gsr i1 i2 unfolding Qdef by simp
    show ?thesis
    proof (cases "\<not> forced_now c s \<and> (pin_val s ''CE'' \<noteq> 0 \<or> ctrl_active c s)")
      case True
      define s' where "s' = s\<lparr>fl_q := Out (bits (fl_q s)) (Tag GSR_EDGE)\<rparr>"
      have b: "bits (fl_q s) = bitstr (q_bit s)"
        using w by (auto simp: flop_wf_def q_wf_def q_bit_def bitstr_def)
      have "flop_clock_edge c ''C'' r s = Inr s'"
        using True gsr on unfolding flop_clock_edge_def act_def s'_def fd Let_def b
        by (simp add: mk_out_bit inferred_tags_match)
      moreover have "flop_wf c s'"
        using w b by (simp add: s'_def flop_wf_def q_wf_tag inferred_tags_match)
      moreover have "q_bit s' = q_bit s" by (simp add: s'_def q_bit_def)
      ultimately show ?thesis using core[of s'] qQ by (simp add: s'_def same_cfg_def)
    next
      case False
      then have "flop_clock_edge c ''C'' r s = Inr s"
        using gsr on by (auto simp: flop_clock_edge_def act_def fd Let_def)
      then show ?thesis using core[of s] w qQ by simp
    qed
  next
    case ctrl
    show ?thesis
    proof (cases "CTRL_ASYNC c")
      case True
      then have "flop_clock_edge c ''C'' r s = Inr s"
        using ctrl on by (auto simp: flop_clock_edge_def act_def)
      moreover have "q_bit s = Q" using True ctrl i1 unfolding Qdef fd by simp
      ultimately show ?thesis using core[of s] w by simp
    next
      case False
      define s1 where "s1 = (if fl_inv_c s \<noteq> 0 then flop_hit c Inv_c s else s)"
      have w1: "flop_wf c s1" using w by (simp add: s1_def)
      have s1: "same_cfg s s1" "fl_pin s1 = fl_pin s" "fl_gsr s1 = fl_gsr s"
        by (simp_all add: s1_def)
      have eq: "flop_clock_edge c ''C'' r s = force_ctrl c (fl_inv_c s \<noteq> 0) s1"
        using ctrl False on by (auto simp: flop_clock_edge_def act_def s1_def)
      obtain s' where s': "force_ctrl c (fl_inv_c s \<noteq> 0) s1 = Inr s'" "flop_wf c s'" "same_cfg s1 s'"
        "fl_pin s' = fl_pin s1" "fl_gsr s' = fl_gsr s1" "q_bit s' = (CTRL_VALUE c \<noteq> 0)"
        using force_ctrl_spec[OF c w1] by blast
      have "Q = (CTRL_VALUE c \<noteq> 0)" using ctrl False unfolding Qdef fd by simp
      then have "step_ok c s (ClockEdge ''C'' r) (Inr s')"
        using s' s1 by (intro core) (auto intro: same_cfg_trans)
      then show ?thesis using eq s'(1) by simp
    qed
  next
    case hold
    then have "flop_clock_edge c ''C'' r s = Inr (flop_hit c Ce_hold s)"
      using on by (auto simp: flop_clock_edge_def act_def)
    moreover have "q_bit s = Q" using hold unfolding Qdef fd by simp
    ultimately show ?thesis using core[of "flop_hit c Ce_hold s"] w by simp
  next
    case cap
    define s1 where "s1 = (if fl_inv_c s \<noteq> 0 then flop_hit c Inv_c s else s)"
    define s2 where "s2 = (if fl_inv_d s \<noteq> 0 then flop_hit c Inv_d s1 else s1)"
    define pg where "pg = (if fl_inv_c s \<noteq> 0 \<or> fl_inv_d s \<noteq> 0 then Some (ATTR_PAGE c) else None)"
    have bd: "bin (pin_val s ''D'')" "bin (fl_inv_d s)"
      using w pin_val_bin[OF w] by (simp_all add: flop_wf_def)
    obtain p where doc: "flop_doc c (pin_val s ''D'' XOR fl_inv_d s) pg =
        Inr (doc_out (pin_val s ''D'' XOR fl_inv_d s \<noteq> 0) p)"
      using flop_doc_bin bin_xor[OF bd] by blast
    define s' where "s' = flop_hit c Capture (s2\<lparr>fl_q := doc_out (pin_val s ''D'' XOR fl_inv_d s \<noteq> 0) p\<rparr>)"
    have eq: "flop_clock_edge c ''C'' r s = Inr s'"
      using cap on doc
      by (auto simp: flop_clock_edge_def act_def s1_def s2_def pg_def s'_def Let_def)
    have "Q = ((pin_val s ''D'' \<noteq> 0) \<noteq> (fl_inv_d s \<noteq> 0))" using cap unfolding Qdef fd by simp
    then have "q_bit s' = Q" using bin_xor[OF bd] by (simp add: s'_def q_bit_def)
    moreover have "flop_wf c s2" using w by (simp add: s1_def s2_def)
    then have "flop_wf c s'" by (simp add: s'_def flop_wf_def)
    moreover have "same_cfg s s'" "fl_pin s' = fl_pin s" "fl_gsr s' = fl_gsr s"
      by (simp_all add: s'_def s2_def s1_def same_cfg_def)
    ultimately show ?thesis using core[of s'] eq by simp
  qed
qed

lemma flop_step_ok:
  assumes "cls_wf c" "flop_inv c s" "event_ok c e"
  shows "step_ok c s e (flop_step c s e)"
  using assms flop_glbl_ok flop_set_input_ok flop_clock_edge_ok by (cases e) auto

section \<open>Sessions\<close>

lemma flop_run_ok:
  assumes "cls_wf c" "flop_inv c s" "list_all (event_ok c) es"
  shows "\<exists>s'. flop_run c s es = Inr s' \<and> flop_inv c s' \<and> same_cfg s s' \<and>
     abs_flop c s' = foldl (guide_step c (fl_init s \<noteq> 0)) (abs_flop c s) (map (abs_event c s) es)"
  using assms(2,3)
proof (induction es arbitrary: s)
  case (Cons e es)
  have "step_ok c s e (flop_step c s e)"
    using Cons.prems by (intro flop_step_ok[OF assms(1)]) simp_all
  then obtain s1 where s1: "flop_step c s e = Inr s1" "flop_inv c s1" "same_cfg s s1"
      "abs_flop c s1 = guide_step c (fl_init s \<noteq> 0) (abs_flop c s) (abs_event c s e)"
    by (auto simp: step_ok_def split: sum.splits)
  have ev: "abs_event c s1 = abs_event c s"
  proof
    fix x show "abs_event c s1 x = abs_event c s x"
      using s1(3) by (cases x) (simp_all add: same_cfg_def)
  qed
  obtain s' where s': "flop_run c s1 es = Inr s'" "flop_inv c s'" "same_cfg s1 s'"
      "abs_flop c s' = foldl (guide_step c (fl_init s1 \<noteq> 0)) (abs_flop c s1) (map (abs_event c s1) es)"
    using Cons.IH[OF s1(2)] Cons.prems(2) by auto
  have "fl_init s1 = fl_init s" using s1(3) by (simp add: same_cfg_def)
  then show ?case using s' s1 ev same_cfg_trans[OF s1(3) s'(3)] by (simp add: flop_run_def)
qed (simp add: flop_run_def)

text \<open>The four bit attributes parse to 0 or 1.\<close>

definition attrs_bin :: "flop_cls \<Rightarrow> attrs \<Rightarrow> bool" where
  "attrs_bin c a \<longleftrightarrow> list_all (\<lambda>(k, d). case bit_attr (attr_get a k d) of Inr v \<Rightarrow> bin v | Inl _ \<Rightarrow> False)
     [(''INIT'', INIT_DEFAULT c), (''IS_C_INVERTED'', 0), (''IS_D_INVERTED'', 0),
      (''IS_'' @ CTRL c @ ''_INVERTED'', 0)]"

text \<open>What a replay does first: power up, then drive every pin to 0, in map order.\<close>

definition flop_start :: "flop_cls \<Rightarrow> attrs \<Rightarrow> flop_res" where
  "flop_start c a =
     rbind (flop_new c a) (\<lambda>s. flop_run c s (PowerOn # map (\<lambda>p. SetInput p 0) (flop_ports c)))"

lemma flop_inputs_keys: "cls_wf c \<Longrightarrow> map fst (flop_inputs c) = flop_ports c"
  by (auto simp: flop_inputs_def flop_ports_def cls_wf_def dict_of_def)

lemma flop_set_input_plain:
  assumes "flop_wf c s" "fl_on s" "p \<in> set (flop_ports c)" "p \<noteq> CTRL c \<or> \<not> CTRL_ASYNC c" "bin v"
  shows "flop_set_input c p v s = Inr (s\<lparr>fl_pin := AList.update p v (fl_pin s)\<rparr>)"
proof -
  have "dict_has (fl_pin s) p"
    using assms(1,3) by (metis dict_has_iff flop_wf_def list.set_map)
  moreover have bv: "(v \<noteq> 0 \<and> v \<noteq> 1) = False" using assms(5) by (auto simp: bin_def)
  ultimately show ?thesis using assms(2,4) unfolding flop_set_input_def bv Let_def by simp
qed

lemma flop_new_wf:
  assumes "cls_wf c" "attrs_bin c a"
  shows "\<exists>s. flop_new c a = Inr s \<and> flop_wf c s \<and> fl_gsr s = 0"
proof -
  have "bin v \<Longrightarrow> \<exists>q. mk_out (show_int v) (Tag INIT_BEFORE_POWER_ON) = Inr q \<and> q_wf q" for v
    using inferred_tags_match by (simp add: mk_out_int q_wf_tag)
  then show ?thesis using assms flop_inputs_keys[OF assms(1)]
    by (fastforce simp: attrs_bin_def flop_new_def flop_wf_def bin_def o_def case_prod_beta
        split: sum.splits)
qed

lemma flop_start_inv:
  assumes c: "cls_wf c" and a: "attrs_bin c a"
  shows "\<exists>s. flop_start c a = Inr s \<and> flop_inv c s \<and> fl_gsr s = 1"
proof -
  obtain s0 where s0: "flop_new c a = Inr s0" "flop_wf c s0" using flop_new_wf[OF c a] by blast
  define s1 where "s1 = (flop_hit c Gsr_init (s0\<lparr>fl_on := True, fl_gsr := 1\<rparr>))
      \<lparr>fl_q := doc_out (fl_init s0 \<noteq> 0) (PAGE c)\<rparr>"
  have p1: "flop_power_on c s0 = Inr s1"
    using s0(2) by (simp add: flop_power_on_def flop_doc_bin flop_wf_def s1_def Let_def)
  have w1: "flop_wf c s1" "fl_on s1" "fl_gsr s1 = 1" "q_bit s1 = (fl_init s1 \<noteq> 0)"
    using s0(2) by (simp_all add: s1_def flop_wf_def q_bit_def bin_def)
  define up where "up = (\<lambda>p s. s\<lparr>fl_pin := AList.update p 0 (fl_pin s)\<rparr> :: flop)"
  have step: "flop_set_input c p 0 s = Inr (up p s) \<and> flop_wf c (up p s) \<and> fl_on (up p s) \<and>
      fl_gsr (up p s) = 1 \<and> q_bit (up p s) = (fl_init (up p s) \<noteq> 0)"
    if "flop_wf c s" "fl_on s" "fl_gsr s = 1" "q_bit s = (fl_init s \<noteq> 0)"
      "p \<in> set (flop_ports c)" "p \<noteq> CTRL c \<or> \<not> CTRL_ASYNC c" for p s
    using that flop_set_input_plain[of c s p 0] flop_wf_update[of c s p 0]
    by (simp add: up_def bin_def q_bit_def)
  define s4 where "s4 = up ''D'' (up ''CE'' (up ''C'' s1))"
  have ports: "''C'' \<in> set (flop_ports c)" "''CE'' \<in> set (flop_ports c)" "''D'' \<in> set (flop_ports c)"
      "CTRL c \<in> set (flop_ports c)"
    by (simp_all add: flop_ports_def)
  have nc: "''C'' \<noteq> CTRL c" "''CE'' \<noteq> CTRL c" "''D'' \<noteq> CTRL c" using c by (auto simp: cls_wf_def)
  have a1: "flop_set_input c ''C'' 0 s1 = Inr (up ''C'' s1)"
    using step[of s1 "''C''"] w1 ports nc by simp
  have a2: "flop_set_input c ''CE'' 0 (up ''C'' s1) = Inr (up ''CE'' (up ''C'' s1))"
    using step[of s1 "''C''"] step[of "up ''C'' s1" "''CE''"] w1 ports nc by simp
  have a3: "flop_set_input c ''D'' 0 (up ''CE'' (up ''C'' s1)) = Inr s4"
    using step[of s1 "''C''"] step[of "up ''C'' s1" "''CE''"] step[of "up ''CE'' (up ''C'' s1)" "''D''"]
      w1 ports nc by (simp add: s4_def)
  have w4: "flop_wf c s4" "fl_on s4" "fl_gsr s4 = 1" "q_bit s4 = (fl_init s4 \<noteq> 0)"
    using step[of s1 "''C''"] step[of "up ''C'' s1" "''CE''"] step[of "up ''CE'' (up ''C'' s1)" "''D''"]
      w1 ports nc by (simp_all add: s4_def)
  have run: "flop_start c a = flop_set_input c (CTRL c) 0 s4"
    using s0(1) p1 a1 a2 a3
    by (cases "flop_set_input c (CTRL c) 0 s4") (simp_all add: flop_start_def flop_run_def flop_ports_def)
  show ?thesis
  proof (cases "CTRL_ASYNC c")
    case False
    then show ?thesis using step[of s4 "CTRL c"] w4 ports run by (simp add: flop_inv_def forced_now_def)
  next
    case True
    define s5 where "s5 = up (CTRL c) s4"
    have w5: "flop_wf c s5" "fl_gsr s5 = 1" "fl_on s5"
      using flop_wf_update[OF w4(1) ports(4), of 0] w4 by (simp_all add: s5_def up_def bin_def)
    have has: "dict_has (fl_pin s4) (CTRL c)"
      using w4(1) ports(4) by (metis dict_has_iff flop_wf_def list.set_map)
    have "flop_set_input c (CTRL c) 0 s4 = under_gsr c s5"
      using True w4 has by (simp add: flop_set_input_def s5_def up_def)
    moreover obtain s' where "under_gsr c s5 = Inr s'" "flop_wf c s'" "same_cfg s5 s'"
        "fl_pin s' = fl_pin s5" "fl_gsr s' = fl_gsr s5"
        "q_bit s' = (if forced_now c s5 then CTRL_VALUE c \<noteq> 0 else fl_init s5 \<noteq> 0)"
      using under_gsr_spec[OF c w5(1)] by blast
    moreover have "forced_now c s' = forced_now c s5"
      using calculation by (intro forced_now_cong) (simp_all add: same_cfg_def)
    ultimately show ?thesis using run w5 by (simp add: flop_inv_def same_cfg_def)
  qed
qed

text \<open>
  C1. The golden flip-flops refine the logic table of the guide. For every class of the file and
  every setting of its four bit attributes, construction, power-up and any sequence of legal
  calls succeed, and Q, the pins and GSR are at every point what the one-rule logic table
  gives: an active asynchronous control wins, then GSR holds INIT, then an active edge forces
  (synchronous control), captures D or holds.
\<close>

theorem flop_refines_guide:
  assumes "cls_wf c" and "attrs_bin c a" and "list_all (event_ok c) es"
  shows "\<exists>s s'. flop_start c a = Inr s \<and> flop_run c s es = Inr s' \<and> flop_inv c s' \<and>
     abs_flop c s' = foldl (guide_step c (fl_init s \<noteq> 0)) (abs_flop c s) (map (abs_event c s) es)"
proof -
  obtain s where s: "flop_start c a = Inr s" "flop_inv c s" using flop_start_inv[OF assms(1,2)] by blast
  then show ?thesis using flop_run_ok[OF assms(1) s(2) assms(3)] by blast
qed

theorem flop_refines_guide_witness:
  "\<exists>s s'. flop_start FDCE [(''INIT'', VInt 1)] = Inr s \<and>
     flop_run FDCE s [Glbl ''GSR'' 0, SetInput ''CE'' 1, ClockEdge ''C'' True, SetInput ''CLR'' 1] = Inr s' \<and>
     \<not> q_bit s'"
proof -
  let ?es = "[Glbl ''GSR'' 0, SetInput ''CE'' 1, ClockEdge ''C'' True, SetInput ''CLR'' 1]"
  have "cls_wf FDCE" "attrs_bin FDCE [(''INIT'', VInt 1)]" "list_all (event_ok FDCE) ?es"
    by code_simp+
  then obtain s s' where "flop_start FDCE [(''INIT'', VInt 1)] = Inr s" "flop_run FDCE s ?es = Inr s'"
      "abs_flop FDCE s' =
         foldl (guide_step FDCE (fl_init s \<noteq> 0)) (abs_flop FDCE s) (map (abs_event FDCE s) ?es)"
    using flop_refines_guide by blast
  moreover have "case flop_start FDCE [(''INIT'', VInt 1)] of Inl _ \<Rightarrow> False
      | Inr s \<Rightarrow> (case flop_run FDCE s ?es of Inl _ \<Rightarrow> False | Inr s' \<Rightarrow> \<not> q_bit s')"
    by code_simp
  ultimately show ?thesis by auto
qed

section \<open>The order of set_input calls\<close>

lemma update_commute:
  "p \<noteq> r \<Longrightarrow> p \<in> fst ` set d \<Longrightarrow> r \<in> fst ` set d \<Longrightarrow>
   AList.update p v (AList.update r w d) = AList.update r w (AList.update p v d)"
proof (induction d)
  case (Cons x d)
  obtain k u where x: "x = (k, u)" by (cases x)
  show ?case
  proof (cases "k = p \<or> k = r")
    case True
    then show ?thesis using Cons.prems x by auto
  next
    case False
    then show ?thesis using Cons x by auto
  qed
qed simp

lemma under_gsr_pin:
  assumes "pin_val t (CTRL c) = pin_val s (CTRL c)" "t = s\<lparr>fl_pin := P\<rparr>"
  shows "under_gsr c t = rbind (under_gsr c s) (\<lambda>u. Inr (u\<lparr>fl_pin := P\<rparr>))"
proof -
  have "ctrl_active c t = ctrl_active c s" using assms by (simp add: ctrl_active_def)
  then show ?thesis using assms(2)
    by (auto simp: under_gsr_def flop_hit_def Let_def rbind_def split: sum.splits)
qed

lemma force_ctrl_pin:
  "force_ctrl c b (s\<lparr>fl_pin := P\<rparr>) = rbind (force_ctrl c b s) (\<lambda>u. Inr (u\<lparr>fl_pin := P\<rparr>))"
  by (auto simp: force_ctrl_def flop_hit_def Let_def rbind_def split: sum.splits)

lemma under_gsr_keeps: "under_gsr c s = Inr u \<Longrightarrow> fl_pin u = fl_pin s \<and> fl_on u = fl_on s"
  by (auto simp: under_gsr_def rbind_Inr_iff Let_def split: if_splits)

lemma force_ctrl_keeps: "force_ctrl c b s = Inr u \<Longrightarrow> fl_pin u = fl_pin s \<and> fl_on u = fl_on s"
  by (auto simp: force_ctrl_def rbind_Inr_iff Let_def split: if_splits)

text \<open>A pin that is not an asynchronous control only stores its value.\<close>

definition store_pin :: "string \<Rightarrow> int \<Rightarrow> flop \<Rightarrow> flop" where
  "store_pin p v s = s\<lparr>fl_pin := AList.update p v (fl_pin s)\<rparr>"

definition acts :: "flop_cls \<Rightarrow> string \<Rightarrow> bool" where
  "acts c p \<longleftrightarrow> p = CTRL c \<and> CTRL_ASYNC c"

definition ctrl_react :: "flop_cls \<Rightarrow> flop \<Rightarrow> flop_res" where
  "ctrl_react c s = (if fl_gsr s \<noteq> 0 then under_gsr c s
     else if ctrl_active c s then force_ctrl c False s else Inr s)"

lemma set_input_cases:
  assumes "fl_on s" "p \<in> fst ` set (fl_pin s)" "bin v"
  shows "flop_set_input c p v s =
     (if acts c p then ctrl_react c (store_pin p v s) else Inr (store_pin p v s))"
proof -
  have has: "dict_has (fl_pin s) p" using assms(2) by (simp add: dict_has_iff)
  have bv: "(v \<noteq> 0 \<and> v \<noteq> 1) = False" using assms(3) by (auto simp: bin_def)
  show ?thesis using assms(1) has unfolding flop_set_input_def bv
    by (auto simp: acts_def ctrl_react_def store_pin_def Let_def)
qed

lemma ctrl_react_store:
  assumes "p \<noteq> CTRL c"
  shows "ctrl_react c (store_pin p v s) = rbind (ctrl_react c s) (\<lambda>u. Inr (store_pin p v u))"
proof -
  let ?P = "AList.update p v (fl_pin s)"
  have ca: "ctrl_active c (store_pin p v s) = ctrl_active c s"
    using assms by (simp add: ctrl_active_def store_pin_def)
  have pv: "pin_val (store_pin p v s) (CTRL c) = pin_val s (CTRL c)"
    using assms by (simp add: store_pin_def)
  have ug: "under_gsr c (store_pin p v s) = rbind (under_gsr c s) (\<lambda>u. Inr (u\<lparr>fl_pin := ?P\<rparr>))"
    using under_gsr_pin[OF pv] by (simp add: store_pin_def)
  have fc: "force_ctrl c False (store_pin p v s) = rbind (force_ctrl c False s) (\<lambda>u. Inr (u\<lparr>fl_pin := ?P\<rparr>))"
    by (simp add: store_pin_def force_ctrl_pin)
  have ug': "rbind (under_gsr c s) (\<lambda>u. Inr (u\<lparr>fl_pin := ?P\<rparr>)) =
      rbind (under_gsr c s) (\<lambda>u. Inr (store_pin p v u))"
    by (rule rbind_cong) (auto simp: store_pin_def dest: under_gsr_keeps)
  have fc': "rbind (force_ctrl c False s) (\<lambda>u. Inr (u\<lparr>fl_pin := ?P\<rparr>)) =
      rbind (force_ctrl c False s) (\<lambda>u. Inr (store_pin p v u))"
    by (rule rbind_cong) (auto simp: store_pin_def dest: force_ctrl_keeps)
  have g: "fl_gsr (store_pin p v s) = fl_gsr s" by (simp add: store_pin_def)
  show ?thesis unfolding ctrl_react_def ca g ug fc ug' fc' by simp
qed

lemma ctrl_react_keeps:
  "ctrl_react c s = Inr u \<Longrightarrow> fl_pin u = fl_pin s \<and> fl_on u = fl_on s"
  by (auto simp: ctrl_react_def under_gsr_keeps force_ctrl_keeps split: if_splits)

lemma store_pin_commute:
  "p \<noteq> r \<Longrightarrow> p \<in> fst ` set (fl_pin s) \<Longrightarrow> r \<in> fst ` set (fl_pin s) \<Longrightarrow>
   store_pin p v (store_pin r w s) = store_pin r w (store_pin p v s)"
  by (simp add: store_pin_def update_commute)

lemma keys_store_pin:
  "p \<in> fst ` set (fl_pin s) \<Longrightarrow> fst ` set (fl_pin (store_pin p v s)) = fst ` set (fl_pin s)"
  by (simp add: store_pin_def dom_update insert_absorb)

lemma set_input_swap_plain:
  assumes on: "fl_on s" and ne: "p \<noteq> r" and k: "p \<in> fst ` set (fl_pin s)" "r \<in> fst ` set (fl_pin s)"
    and b: "bin v" "bin w" and pl: "\<not> acts c p"
  shows "rbind (flop_set_input c p v s) (flop_set_input c r w) =
         rbind (flop_set_input c r w s) (flop_set_input c p v)"
proof -
  have ps: "flop_set_input c p v s = Inr (store_pin p v s)" using set_input_cases[OF on k(1) b(1)] pl by simp
  have on': "fl_on (store_pin p v s)" using on by (simp add: store_pin_def)
  have k': "r \<in> fst ` set (fl_pin (store_pin p v s))" using k keys_store_pin by blast
  have lhs: "rbind (flop_set_input c p v s) (flop_set_input c r w) =
      (if acts c r then ctrl_react c (store_pin r w (store_pin p v s))
       else Inr (store_pin r w (store_pin p v s)))"
    using ps set_input_cases[OF on' k' b(2)] by simp
  have after: "flop_set_input c p v u = Inr (store_pin p v u)"
    if "fl_on u" "fst ` set (fl_pin u) = fst ` set (fl_pin s)" for u
    using that set_input_cases[of u p v c] pl k b by simp
  show ?thesis
  proof (cases "acts c r")
    case False
    have on'': "fl_on (store_pin r w s)" using on by (simp add: store_pin_def)
    show ?thesis using lhs False set_input_cases[OF on k(2) b(2)] after[of "store_pin r w s"]
        on'' keys_store_pin[OF k(2)] store_pin_commute[OF ne k] by simp
  next
    case True
    then have pc: "p \<noteq> CTRL c" using ne by (auto simp: acts_def)
    have "ctrl_react c (store_pin r w (store_pin p v s)) =
        rbind (ctrl_react c (store_pin r w s)) (\<lambda>u. Inr (store_pin p v u))"
      using ctrl_react_store[OF pc] store_pin_commute[OF ne k] by metis
    also have "\<dots> = rbind (ctrl_react c (store_pin r w s)) (flop_set_input c p v)"
    proof (rule rbind_cong)
      fix u assume "ctrl_react c (store_pin r w s) = Inr u"
      then have "fl_pin u = fl_pin (store_pin r w s)" "fl_on u = fl_on (store_pin r w s)"
        by (auto dest: ctrl_react_keeps)
      then show "Inr (store_pin p v u) = flop_set_input c p v u"
        using after[of u] on keys_store_pin[OF k(2)] by (simp add: store_pin_def)
    qed simp
    finally show ?thesis using lhs True set_input_cases[OF on k(2) b(2)] by simp
  qed
qed

lemma set_input_swap:
  assumes "fl_on s" and "p \<noteq> r"
    and "p \<in> fst ` set (fl_pin s)" and "r \<in> fst ` set (fl_pin s)" and "bin v" and "bin w"
  shows "rbind (flop_set_input c p v s) (flop_set_input c r w) =
         rbind (flop_set_input c r w s) (flop_set_input c p v)"
proof (cases "acts c p")
  case False
  then show ?thesis using assms by (intro set_input_swap_plain)
next
  case True
  then have "\<not> acts c r" using assms(2) by (auto simp: acts_def)
  then show ?thesis using assms set_input_swap_plain[of s r p w v c] by simp
qed

text \<open>
  C2. The order of \<open>set_input\<close> calls within one time step does not matter (the contract of
  \<open>Model.set_input\<close>): setting two different ports, in either order, gives the same object,
  claims and provenance included.
\<close>

theorem set_input_commutes:
  assumes "fl_on s" and "p \<noteq> r"
    and "p \<in> fst ` set (fl_pin s)" and "r \<in> fst ` set (fl_pin s)" and "bin v" and "bin w"
  shows "rbind (flop_set_input c p v s) (flop_set_input c r w) =
         rbind (flop_set_input c r w s) (flop_set_input c p v)"
  using assms by (rule set_input_swap)

theorem set_input_commutes_witness:
  "case flop_start FDPE [] of Inl _ \<Rightarrow> False | Inr s \<Rightarrow>
     rbind (flop_set_input FDPE ''D'' 1 s) (flop_set_input FDPE ''PRE'' 1) =
     rbind (flop_set_input FDPE ''PRE'' 1 s) (flop_set_input FDPE ''D'' 1)"
proof -
  have h: "case flop_start FDPE [] of Inl _ \<Rightarrow> False | Inr s \<Rightarrow>
      fl_on s \<and> ''D'' \<in> fst ` set (fl_pin s) \<and> ''PRE'' \<in> fst ` set (fl_pin s)"
    by code_simp
  show ?thesis
  proof (cases "flop_start FDPE []")
    case (Inr s)
    then have "fl_on s" "''D'' \<in> fst ` set (fl_pin s)" "''PRE'' \<in> fst ` set (fl_pin s)" using h by simp_all
    then have "rbind (flop_set_input FDPE ''D'' 1 s) (flop_set_input FDPE ''PRE'' 1) =
        rbind (flop_set_input FDPE ''PRE'' 1 s) (flop_set_input FDPE ''D'' 1)"
      by (intro set_input_commutes) (simp_all add: bin_def)
    then show ?thesis using Inr by simp
  qed (use h in simp)
qed

section \<open>Claims and provenance\<close>

definition inferred :: "out \<Rightarrow> bool" where
  "inferred q \<longleftrightarrow> (\<exists>t \<in> set (prov_tags (prov q)). starts_with ''inferred:'' t)"

lemma not_inferred_doc: "flop_doc c b p = Inr q \<Longrightarrow> \<not> inferred q"
  by (auto simp: flop_doc_def mk_out_def inferred_def doc_tag_def starts_with_def rbind_Inr_iff
      split: if_splits list.splits)

lemma under_gsr_claims:
  "under_gsr c s = Inr s' \<Longrightarrow> inferred (fl_q s') \<Longrightarrow> fl_claims s' = fl_claims s"
  by (auto simp: under_gsr_def rbind_Inr_iff Let_def dest: not_inferred_doc split: if_splits)

lemma force_ctrl_doc: "force_ctrl c b s = Inr s' \<Longrightarrow> \<not> inferred (fl_q s')"
  by (auto simp: force_ctrl_def rbind_Inr_iff Let_def dest: not_inferred_doc split: if_splits)

text \<open>
  Ruling S44: an output decided by an inferred rule credits no documented claim. Whatever
  the object and the call, if the call gives Q a new value or provenance and that provenance is
  \<open>inferred:\<close>, then the set of claims hit is what it was.
\<close>

theorem inferred_output_credits_nothing:
  assumes "flop_step c s e = Inr s'" and "fl_q s' \<noteq> fl_q s" and "inferred (fl_q s')"
  shows "fl_claims s' = fl_claims s"
proof (cases e)
  case PowerOn
  then show ?thesis using assms
    by (auto simp: flop_power_on_def rbind_Inr_iff Let_def dest: not_inferred_doc)
next
  case (Glbl sig v)
  then show ?thesis using assms under_gsr_claims[of c "s\<lparr>fl_gsr := v\<rparr>" s'] force_ctrl_doc
    by (auto simp: flop_glbl_def Let_def split: if_splits)
next
  case (SetInput p v)
  then show ?thesis
    using assms under_gsr_claims[of c "s\<lparr>fl_pin := AList.update p v (fl_pin s)\<rparr>" s'] force_ctrl_doc
    by (auto simp: flop_set_input_def Let_def split: if_splits)
next
  case (ClockEdge p r)
  then show ?thesis using assms force_ctrl_doc
    by (auto simp: flop_clock_edge_def rbind_Inr_iff Let_def dest: not_inferred_doc split: if_splits)
qed

theorem inferred_output_credits_nothing_witness:
  "case flop_start FDCE [(''INIT'', VInt 1)] of Inl _ \<Rightarrow> False | Inr s \<Rightarrow>
     (case flop_step FDCE s (SetInput ''CLR'' 1) of Inl _ \<Rightarrow> False | Inr s' \<Rightarrow>
        inferred (fl_q s') \<and> fl_claims s' = fl_claims s)"
proof -
  have h: "case flop_start FDCE [(''INIT'', VInt 1)] of Inl _ \<Rightarrow> False | Inr s \<Rightarrow>
     (case flop_step FDCE s (SetInput ''CLR'' 1) of Inl _ \<Rightarrow> False | Inr s' \<Rightarrow>
        fl_q s' \<noteq> fl_q s \<and> inferred (fl_q s'))"
    by code_simp
  show ?thesis
  proof (cases "flop_start FDCE [(''INIT'', VInt 1)]")
    case s: (Inr s)
    show ?thesis
    proof (cases "flop_step FDCE s (SetInput ''CLR'' 1)")
      case s': (Inr s')
      from h have "fl_q s' \<noteq> fl_q s" "inferred (fl_q s')" unfolding s s' sum.case by blast+
      then show ?thesis unfolding s s' sum.case
        using inferred_output_credits_nothing[OF s'] by blast
    qed (use h s in simp)
  qed (use h in simp)
qed

end
