(* ===== verification/Xvec.thy ===== *)
theory Xvec
  imports Formats_Common
begin

text \<open>
  \<open>tools/xut/formats/xvec.py\<close>, the stimulus: its data, the values of \<open>set\<close> events, quoting and
  comments, the per-clock and per-event rules, the co-timing rules and the free-clock edges.
  The text of a file (parser and writer) is in the next theory.

  A constructor of \<open>xmsg\<close> stands for one message of \<open>XvecError\<close> and its arguments are the
  values the message prints; \<open>XvecError\<close> carries the 1-based line when it is known.
\<close>

section \<open>Data\<close>

record clock =
  ck_name :: string
  ck_index :: int
  ck_period :: int
  ck_phase :: int
  ck_duty :: int
  ck_mode :: string

record event =
  e_t :: int
  e_op :: string
  e_target :: string
  e_lsb :: int
  e_msb :: int
  e_value :: string
  e_sim :: bool

record vec =
  v_header :: "(string, string) dict"
  v_clocks :: "clock list"
  v_events :: "event list"
  v_hw :: "bool option"
  v_reason :: string

text \<open>\<open>Event(t, op, target, simultaneous=...)\<close> with the other fields at their defaults.\<close>

definition plain_event :: "int \<Rightarrow> string \<Rightarrow> string \<Rightarrow> string \<Rightarrow> bool \<Rightarrow> event" where
  "plain_event t op target value sim =
     \<lparr>e_t = t, e_op = op, e_target = target, e_lsb = 0, e_msb = 0, e_value = value, e_sim = sim\<rparr>"

datatype xmsg =
    BadBinary string
  | BadHex string
  | BadValue string
  | DoesNotFit "string option" string nat
  | ControlChar string
  | NotInteger string string
  | BadHeaderKey string
  | MissingKeys "string list"
  | NotNonNegative string
  | ClockIndex string
  | ClockPeriodDuty string
  | ClockPhase string
  | ClockMode string string
  | NegativeTime int
  | BeforeSettle int
  | SetTarget string
  | MsbBelowLsb int int
  | OutOfRange int int
  | BadSetValue int int string nat
  | TakesNoValue string string
  | UndeclaredClock string
  | EdgeValue string
  | BadGlbl string string
  | BadLabel string
  | DuplicateLabel string
  | NeedsFreeClock string string
  | EndArgument
  | UnknownOp string
  | TimeBackwards nat
  | EndNotLast nat
  | AloneSimultaneous int nat
  | MixedMarking int "nat list"
  | OverlappingSets int nat nat
  | NeedsSimultaneous int "nat list"
  | AtEvent nat xmsg
  | NoRoundTrip
  | EmptyFile
  | BadFirstLine
  | BadVersion nat
  | BadSetArg string
  | Unrecognised string

datatype xvec_error = XvecError xmsg "nat option"

abbreviation xerr :: "xmsg \<Rightarrow> (xvec_error, 'a) result" where
  "xerr m \<equiv> Inl (XvecError m None)"

type_synonym 'a xres = "(xvec_error, 'a) result"

text \<open>A check that returns nothing, over every element in order.\<close>

definition rall :: "('a \<Rightarrow> ('e, unit) result) \<Rightarrow> 'a list \<Rightarrow> ('e, unit) result" where
  "rall f xs = rfold (\<lambda>_ x. f x) () xs"

lemma rall_simps [simp]:
  "rall f [] = Inr ()" "rall f (x # xs) = rbind (f x) (\<lambda>_. rall f xs)"
  by (simp_all add: rall_def rbind_def split: sum.splits)

lemma rall_Inr_iff: "rall f xs = Inr () \<longleftrightarrow> (\<forall>x \<in> set xs. f x = Inr ())"
  by (induction xs) (auto simp: rbind_Inr_iff)

lemma rall_cong [fundef_cong]:
  "xs = ys \<Longrightarrow> (\<And>x. x \<in> set ys \<Longrightarrow> f x = g x) \<Longrightarrow> rall f xs = rall g ys"
proof -
  have "(\<And>x. x \<in> set ys \<Longrightarrow> f x = g x) \<Longrightarrow> rall f ys = rall g ys"
    by (induction ys) (auto intro!: rbind_cong)
  then show "xs = ys \<Longrightarrow> (\<And>x. x \<in> set ys \<Longrightarrow> f x = g x) \<Longrightarrow> rall f xs = rall g ys" by blast
qed

section \<open>Headers\<close>

definition REQUIRED :: "string list" where
  "REQUIRED = [''prim'', ''cfg'', ''nin'', ''nout'', ''nclk'', ''settle_ps'', ''seed'']"

definition INT_KEYS :: "string list" where
  "INT_KEYS = [''nin'', ''nout'', ''nclk'', ''settle_ps'', ''seed'', ''async_sep_ps'']"

definition HEADER_ORDER :: "string list" where
  "HEADER_ORDER = REQUIRED @ [''async_sep_ps'', ''expect'', ''illegal'']"

text \<open>\<open>Vec._int\<close>, with a missing key read as a text that is no integer.\<close>

definition vec_int :: "vec \<Rightarrow> string \<Rightarrow> int xres" where
  "vec_int v key =
     (let raw = (case map_of (v_header v) key of Some s \<Rightarrow> s | None \<Rightarrow> [])
      in case py_int raw of Some i \<Rightarrow> Inr i | None \<Rightarrow> xerr (NotInteger key raw))"

text \<open>
  The integer properties \<open>nin\<close>, \<open>settle_ps\<close>, ... as their callers use them: after
  \<open>_check_header\<close>, where \<open>vec_int\<close> cannot raise (\<open>check_header_ints\<close> below).
\<close>

definition hint :: "vec \<Rightarrow> string \<Rightarrow> int" where
  "hint v key = (case vec_int v key of Inr i \<Rightarrow> i | Inl _ \<Rightarrow> 0)"

definition vec_expect :: "vec \<Rightarrow> string option" where
  "vec_expect v = map_of (v_header v) ''expect''"

definition vec_illegal :: "vec \<Rightarrow> string list" where
  "vec_illegal v =
     filter (\<lambda>n. n \<noteq> [])
       (split_on CHR '','' (case map_of (v_header v) ''illegal'' of Some s \<Rightarrow> s | None \<Rightarrow> []))"

definition vec_attrs :: "vec \<Rightarrow> (string, string) dict" where
  "vec_attrs v =
     map (\<lambda>(k, s). (drop 5 k, s)) (filter (\<lambda>(k, _). starts_with ''attr.'' k) (v_header v))"

definition vec_clock :: "vec \<Rightarrow> string \<Rightarrow> clock option" where
  "vec_clock v name = find (\<lambda>c. ck_name c = name) (v_clocks v)"

definition is_digits :: "string \<Rightarrow> bool" where
  "is_digits s \<longleftrightarrow> s \<noteq> [] \<and> list_all is_digit s"

definition check_header :: "(string, string) dict \<Rightarrow> unit xres" where
  "check_header h =
     rbind (rall (\<lambda>(k, _). if is_header_key k then Inr () else xerr (BadHeaderKey k)) h) (\<lambda>_.
       let missing = filter (\<lambda>k. \<not> dict_has h k) REQUIRED
       in if missing \<noteq> [] then xerr (MissingKeys missing)
          else rall (\<lambda>k. case map_of h k of
                           Some s \<Rightarrow> if is_digits s then Inr () else xerr (NotNonNegative k)
                         | None \<Rightarrow> Inr ()) INT_KEYS)"

section \<open>Values of set events\<close>

definition bit01xz :: "char \<Rightarrow> bool" where
  "bit01xz c \<longleftrightarrow> c \<in> {CHR ''0'', CHR ''1'', CHR ''x'', CHR ''z''}"

definition rjust :: "nat \<Rightarrow> string \<Rightarrow> string" where
  "rjust w s = replicate (w - length s) CHR ''0'' @ s"

text \<open>Called for at least one bit; at width 0, which no range has, \<open>bits[-0:]\<close> would keep every digit.\<close>

definition decode_value ::
  "string \<Rightarrow> nat \<Rightarrow> nat option \<Rightarrow> string option \<Rightarrow> string xres" where
  "decode_value text width line field =
     (let t = lower text
      in rbind
           (if starts_with ''0b'' t then
              (if drop 2 t = [] \<or> \<not> list_all bit01xz (drop 2 t)
               then Inl (XvecError (BadBinary text) line) else Inr (drop 2 t))
            else if starts_with ''0x'' t then
              (case parse_base 16 (drop 2 t) of
                 Some n \<Rightarrow> Inr (show_base 2 n) | None \<Rightarrow> Inl (XvecError (BadHex text) line))
            else
              (case parse_base 10 t of
                 Some n \<Rightarrow> Inr (show_base 2 n) | None \<Rightarrow> Inl (XvecError (BadValue text) line)))
           (\<lambda>bs.
              if width < length bs \<and>
                 \<not> list_all (\<lambda>c. c = CHR ''0'') (take (length bs - width) bs)
              then Inl (XvecError (DoesNotFit field text width) line)
              else Inr (rjust width (drop (length bs - width) bs))))"

text \<open>Of at least one digit; on the empty text \<open>int\<close> would raise.\<close>

definition encode_value :: "string \<Rightarrow> string" where
  "encode_value bs =
     (if list_all (\<lambda>c. c = CHR ''0'' \<or> c = CHR ''1'') bs then
        (if length bs = 1 then bs
         else ''0x'' @ show_base 16 (case parse_base 2 bs of Some n \<Rightarrow> n | None \<Rightarrow> 0))
      else ''0b'' @ bs)"

section \<open>Quoting and comments\<close>

text \<open>\<open>s.replace(ab, r)\<close> for a pattern of two characters.\<close>

fun replace2 :: "char \<Rightarrow> char \<Rightarrow> string \<Rightarrow> string \<Rightarrow> string" where
  "replace2 a b r (x # y # zs) =
     (if x = a \<and> y = b then r @ replace2 a b r zs else x # replace2 a b r (y # zs))"
| "replace2 a b r s = s"

definition replace1 :: "char \<Rightarrow> string \<Rightarrow> string \<Rightarrow> string" where
  "replace1 a r s = concat (map (\<lambda>c. if c = a then r else [c]) s)"

definition unquote :: "string \<Rightarrow> string" where
  "unquote v =
     (if 2 \<le> length v \<and> hd v = DQ \<and> last v = DQ
      then replace2 BSL BSL [BSL] (replace2 BSL DQ [DQ] (butlast (tl v)))
      else v)"

fun strip_comment :: "bool \<Rightarrow> string \<Rightarrow> string" where
  "strip_comment in_quotes [] = []"
| "strip_comment in_quotes (c # cs) =
     (if c = BSL \<and> in_quotes then
        (case cs of [] \<Rightarrow> [c] | d # ds \<Rightarrow> c # d # strip_comment in_quotes ds)
      else if c = DQ then c # strip_comment (\<not> in_quotes) cs
      else if c = CHR ''#'' \<and> \<not> in_quotes then []
      else c # strip_comment in_quotes cs)"

definition is_control :: "char \<Rightarrow> bool" where
  "is_control c \<longleftrightarrow> code c < (32::nat) \<or> code c = (127::nat)"

definition check_representable :: "string \<Rightarrow> unit xres" where
  "check_representable v = (if list_ex is_control v then xerr (ControlChar v) else Inr ())"

definition escape_quoted :: "string \<Rightarrow> string xres" where
  "escape_quoted v =
     rbind (check_representable v) (\<lambda>_. Inr (replace1 DQ [BSL, DQ] (replace1 BSL [BSL, BSL] v)))"

definition needs_quote :: "string \<Rightarrow> bool" where
  "needs_quote v \<longleftrightarrow> list_ex (\<lambda>c. is_space c \<or> c = DQ \<or> c = CHR ''#'' \<or> c = BSL) v"

definition quote :: "string \<Rightarrow> string xres" where
  "quote v =
     (if v \<noteq> [] \<and> \<not> needs_quote v then rbind (check_representable v) (\<lambda>_. Inr v)
      else rbind (escape_quoted v) (\<lambda>e. Inr (DQ # e @ [DQ])))"

section \<open>The per-clock and per-event rules\<close>

definition check_clock :: "vec \<Rightarrow> clock \<Rightarrow> string set \<Rightarrow> string set xres" where
  "check_clock v c names =
     (if ck_name c \<noteq> ''clk'' @ show_int (ck_index c) \<or>
         \<not> (0 \<le> ck_index c \<and> ck_index c < hint v ''nclk'') \<or> ck_name c \<in> names
      then xerr (ClockIndex (ck_name c))
      else if ck_period c \<le> 0 \<or> \<not> (0 < ck_duty c \<and> ck_duty c < 100)
      then xerr (ClockPeriodDuty (ck_name c))
      else if ck_phase c < 0 then xerr (ClockPhase (ck_name c))
      else if ck_mode c \<notin> {''stepped'', ''free''} then xerr (ClockMode (ck_name c) (ck_mode c))
      else Inr (insert (ck_name c) names))"

definition check_event :: "vec \<Rightarrow> event \<Rightarrow> string set \<Rightarrow> string set xres" where
  "check_event v e labels =
     (if e_t e < 0 then xerr (NegativeTime (e_t e))
      else if e_t e < hint v ''settle_ps'' \<and> \<not> (e_t e = 0 \<and> e_op e = ''set'')
      then xerr (BeforeSettle (hint v ''settle_ps''))
      else if e_op e = ''set'' then
        (if e_target e \<noteq> ''in'' then xerr (SetTarget (e_target e))
         else if e_lsb e > e_msb e then xerr (MsbBelowLsb (e_msb e) (e_lsb e))
         else if e_lsb e < 0 \<or> e_msb e \<ge> hint v ''nin'' then xerr (OutOfRange (e_msb e) (hint v ''nin''))
         else let width = nat (e_msb e - e_lsb e + 1)
              in if length (e_value e) \<noteq> width \<or> \<not> list_all bit01xz (e_value e)
                 then xerr (BadSetValue (e_msb e) (e_lsb e) (e_value e) width)
                 else Inr labels)
      else if e_op e \<notin> {''glbl'', ''edge''} \<and> e_value e \<noteq> [] then
        xerr (TakesNoValue (e_op e) (e_value e))
      else if e_op e = ''edge'' then
        (if e_target e \<notin> ck_name ` set (v_clocks v) then xerr (UndeclaredClock (e_target e))
         else if e_value e \<notin> {''r'', ''f''} then xerr (EdgeValue (e_value e))
         else Inr labels)
      else if e_op e = ''glbl'' then
        (if e_target e \<notin> {''GSR'', ''GTS'', ''GRESTORE''} \<or> e_value e \<notin> {''0'', ''1''}
         then xerr (BadGlbl (e_target e) (e_value e)) else Inr labels)
      else if e_op e = ''sample'' then
        (if \<not> is_label (e_target e) then xerr (BadLabel (e_target e))
         else if e_target e \<in> labels then xerr (DuplicateLabel (e_target e))
         else Inr (insert (e_target e) labels))
      else if e_op e \<in> {''clock_start'', ''clock_stop''} then
        (if \<not> list_ex (\<lambda>c. ck_name c = e_target e \<and> ck_mode c = ''free'') (v_clocks v)
         then xerr (NeedsFreeClock (e_op e) (e_target e)) else Inr labels)
      else if e_op e = ''end'' then
        (if e_target e \<noteq> [] then xerr EndArgument else Inr labels)
      else xerr (UnknownOp (e_op e)))"

section \<open>Time order and co-timing\<close>

fun pairs_later :: "'a list \<Rightarrow> ('a \<times> 'a) list" where
  "pairs_later [] = []"
| "pairs_later (x # xs) = map (Pair x) xs @ pairs_later xs"

definition overlap :: "event \<Rightarrow> event \<Rightarrow> bool" where
  "overlap a b \<longleftrightarrow> e_lsb a \<le> e_msb b \<and> e_lsb b \<le> e_msb a"

text \<open>The group at one time, as indices into \<open>ev\<close>.\<close>

definition check_group :: "event list \<Rightarrow> (nat \<Rightarrow> nat option) \<Rightarrow> int \<times> nat list \<Rightarrow> unit xres" where
  "check_group ev lines = (\<lambda>(t, idxs).
     if length idxs = 1 then
       (let i = hd idxs
        in if e_sim (ev ! i) then Inl (XvecError (AloneSimultaneous t i) (lines i)) else Inr ())
     else
       (let unmarked = filter (\<lambda>i. \<not> e_sim (ev ! i)) idxs
        in if 0 < length unmarked \<and> length unmarked < length idxs
           then xerr (MixedMarking t unmarked)
           else if list_all (\<lambda>i. e_op (ev ! i) = ''set'') idxs then
             rall (\<lambda>(a, b). if overlap (ev ! a) (ev ! b) then xerr (OverlappingSets t a b) else Inr ())
               (pairs_later idxs)
           else if unmarked \<noteq> [] then xerr (NeedsSimultaneous t unmarked)
           else Inr ()))"

definition time_groups :: "event list \<Rightarrow> (int \<times> nat list) list" where
  "time_groups ev =
     map (\<lambda>t. (t, filter (\<lambda>i. e_t (ev ! i) = t) [0..<length ev])) (dedup (map e_t ev))"

text \<open>\<open>_check_structure\<close>; \<open>lines\<close> gives the line of an event of a parsed file.\<close>

definition check_order :: "event list \<Rightarrow> (nat \<Rightarrow> nat option) \<Rightarrow> unit xres" where
  "check_order ev lines =
     rbind (rall (\<lambda>i.
              if 0 < i \<and> e_t (ev ! i) < e_t (ev ! (i - 1))
              then Inl (XvecError (TimeBackwards i) (lines i))
              else if e_op (ev ! i) = ''end'' \<and> i \<noteq> length ev - 1
              then Inl (XvecError (EndNotLast i) (lines i))
              else Inr ()) [0..<length ev])
       (\<lambda>_. rall (check_group ev lines) (time_groups ev))"

section \<open>Free-running clocks\<close>

text \<open>What a loop over clocks may do besides returning: an unknown name, or no end.\<close>

datatype loop_error = KeyErr string | Diverges

definition the_clock :: "vec \<Rightarrow> string \<Rightarrow> (loop_error, clock) result" where
  "the_clock v n = (case vec_clock v n of Some c \<Rightarrow> Inr c | None \<Rightarrow> Inl (KeyErr n))"

type_synonym run = "clock \<times> int \<times> int option"

definition free_init :: "vec \<Rightarrow> (string, int) dict" where
  "free_init v =
     dict_of (map (\<lambda>c. (ck_name c, max 0 (ck_phase c)))
       (filter (\<lambda>c. ck_mode c = ''free'' \<and>
          \<not> list_ex (\<lambda>e. e_op e = ''clock_start'' \<and> e_target e = ck_name c) (v_events v)) (v_clocks v)))"

definition free_event ::
  "vec \<Rightarrow> run list \<times> (string, int) dict \<Rightarrow> event \<Rightarrow> (loop_error, run list \<times> (string, int) dict) result"
where
  "free_event v = (\<lambda>(runs, op) e.
     if e_op e = ''clock_start'' then Inr (runs, AList.update (e_target e) (e_t e) op)
     else if e_op e = ''clock_stop'' then
       (case map_of op (e_target e) of
          Some start \<Rightarrow>
            rbind (the_clock v (e_target e)) (\<lambda>c.
              Inr (runs @ [(c, start, Some (e_t e))], AList.delete (e_target e) op))
        | None \<Rightarrow> Inr (runs, op))
     else Inr (runs, op))"

definition free_runs :: "vec \<Rightarrow> (loop_error, run list) result" where
  "free_runs v =
     rbind (rfold (free_event v) ([], free_init v) (v_events v)) (\<lambda>(runs, op).
       rbind (rmap (\<lambda>(n, t0). rbind (the_clock v n) (\<lambda>c. Inr (c, t0, None))) op) (\<lambda>rest.
         Inr (runs @ rest)))"

text \<open>\<open>while t <= limit: ...; t += period\<close>: the values of \<open>t\<close>.\<close>

function ticks :: "int \<Rightarrow> int \<Rightarrow> int \<Rightarrow> int list" where
  "ticks period limit t =
     (if 0 < period \<and> t \<le> limit then t # ticks period limit (t + period) else [])"
  by pat_completeness auto
termination
  by (relation "measure (\<lambda>(p, limit, t). nat (limit + 1 - t))") auto

declare ticks.simps [simp del]

definition clock_high :: "clock \<Rightarrow> int" where
  "clock_high c = ck_period c * ck_duty c div 100"

definition run_edges :: "int \<Rightarrow> run \<Rightarrow> (loop_error, event list) result" where
  "run_edges end_t = (\<lambda>(c, start, stop).
     let limit = (case stop of None \<Rightarrow> end_t | Some s \<Rightarrow> s - 1); high = clock_high c
     in if ck_period c \<le> 0 \<and> start \<le> limit then Inl Diverges
        else Inr (concat (map (\<lambda>t.
               plain_event t ''edge'' (ck_name c) ''r'' False #
               (if t + high \<le> limit then [plain_event (t + high) ''edge'' (ck_name c) ''f'' False]
                else [])) (ticks (ck_period c) limit start))))"

definition free_clock_edges :: "vec \<Rightarrow> (loop_error, event list) result" where
  "free_clock_edges v =
     (let end_t = (if v_events v = [] then 0 else e_t (last (v_events v)))
      in rbind (free_runs v) (\<lambda>runs.
         rbind (rmap (run_edges end_t) runs) (\<lambda>ess. Inr (sort_key e_t (concat ess)))))"

section \<open>Values round trip\<close>

lemma to_lower_digit_chr [simp]: "d < 16 \<Longrightarrow> to_lower (digit_chr d) = digit_chr d"
  by (auto simp: to_lower_def digit_chr_def Let_def)

lemma lower_show_base: "b \<le> 16 \<Longrightarrow> lower (show_base b n) = show_base b n"
proof (induction n rule: less_induct)
  case (less n)
  show ?case
  proof (cases "b < 2 \<or> n < b")
    case True
    with less.prems show ?thesis by (subst (1 2) show_base.simps) (auto simp: lower_def)
  next
    case False
    then have "n div b < n" by (cases n) auto
    then have "lower (show_base b (n div b)) = show_base b (n div b)" by (rule less.IH) (rule less.prems)
    moreover have "n mod b < 16" using less.prems False mod_less_divisor[of b n] by linarith
    ultimately show ?thesis using False by (subst (1 2) show_base.simps) (simp add: lower_def)
  qed
qed

lemma bit01xz_lower: "bit01xz c \<Longrightarrow> to_lower c = c"
  by (auto simp: bit01xz_def to_lower_def)

lemma lower_bits: "list_all bit01xz bs \<Longrightarrow> lower bs = bs"
  by (induction bs) (auto simp: lower_def bit01xz_lower)

lemma rjust_self [simp]: "rjust (length s) s = s"
  by (simp add: rjust_def)

definition bin_digit :: "char \<Rightarrow> nat" where "bin_digit c = (if c = CHR ''1'' then 1 else 0)"

abbreviation is01 :: "char \<Rightarrow> bool" where "is01 c \<equiv> c = CHR ''0'' \<or> c = CHR ''1''"

lemma digit_chr_01 [simp]: "digit_chr 0 = CHR ''0''" "digit_chr (Suc 0) = CHR ''1''"
  by code_simp+

lemma is01_digit: "is01 c \<Longrightarrow> digit_val c = Some (bin_digit c) \<and> digit_chr (bin_digit c) = c \<and> bin_digit c < 2"
  by (auto simp: digit_val_def bin_digit_def Let_def)

text \<open>A binary numeral is its value in base 2, padded to its own length.\<close>

lemma binary_rjust:
  assumes "bs \<noteq> []" "list_all is01 bs"
  shows "\<exists>n. base_acc 2 0 bs = Some n \<and> length (show_base 2 n) \<le> length bs \<and>
     rjust (length bs) (show_base 2 n) = bs"
  using assms
proof (induction bs rule: rev_induct)
  case (snoc c bs)
  have c: "is01 c" using snoc.prems(2) by simp
  note d = is01_digit[OF c]
  show ?case
  proof (cases "bs = []")
    case True
    then show ?thesis using d by (subst (1 2) show_base.simps) (auto simp: rjust_def)
  next
    case False
    then obtain m where m: "base_acc 2 0 bs = Some m" "length (show_base 2 m) \<le> length bs"
      "rjust (length bs) (show_base 2 m) = bs"
      using snoc by auto
    have v: "base_acc 2 0 (bs @ [c]) = Some (2 * m + bin_digit c)"
      using m(1) d by (simp add: base_acc_append)
    have s: "show_base 2 (2 * m + bin_digit c) = (if m = 0 then [c] else show_base 2 m @ [c])"
      using d by (subst show_base.simps) auto
    have "show_base 2 0 = ''0''" by (subst show_base.simps) simp
    then have "rjust (length bs + 1) (show_base 2 (2 * m + bin_digit c)) = bs @ [c] \<and>
       length (show_base 2 (2 * m + bin_digit c)) \<le> length bs + 1"
      using m s False
      by (cases "m = 0") (auto simp: rjust_def replicate_append_same Suc_diff_le
          simp flip: replicate_Suc)
    then show ?thesis using v by auto
  qed
qed simp

text \<open>
  A value written by \<open>encode_value\<close> (hexadecimal when it has only 0 and 1, one character
  for a single bit, binary otherwise) is read back at its own width, leading zeros included.
\<close>

lemma decode_encode:
  assumes "bs \<noteq> []" "list_all bit01xz bs"
  shows "decode_value (encode_value bs) (length bs) line field = Inr bs"
proof (cases "list_all is01 bs")
  case False
  have l: "lower (''0b'' @ bs) = ''0b'' @ bs"
    using assms(2) lower_bits by (simp add: lower_def to_lower_def)
  have "encode_value bs = ''0b'' @ bs" using False by (simp add: encode_value_def)
  then show ?thesis using assms l by (simp add: decode_value_def starts_with_def)
next
  case True
  then obtain n where n: "base_acc 2 0 bs = Some n" "length (show_base 2 n) \<le> length bs"
    "rjust (length bs) (show_base 2 n) = bs"
    using binary_rjust[OF assms(1)] by blast
  show ?thesis
  proof (cases "length bs = 1")
    case one: True
    then obtain c where bs: "bs = [c]" by (cases bs) auto
    then have c: "is01 c" using True by simp
    have e: "encode_value bs = bs" using True one by (simp add: encode_value_def)
    have l: "lower bs = bs" using assms(2) by (rule lower_bits)
    have "\<not> starts_with ''0b'' bs" "\<not> starts_with ''0x'' bs" by (simp_all add: bs starts_with_def)
    moreover have "parse_base 10 bs = Some n"
      using n(1) is01_digit[OF c] by (simp add: bs parse_base_def split: if_splits)
    ultimately show ?thesis using n(2,3) by (simp add: decode_value_def e l)
  next
    case False
    have "encode_value bs = ''0x'' @ show_base 16 n"
      using True False n(1) assms(1) by (simp add: encode_value_def parse_base_def)
    moreover have "lower (''0x'' @ show_base 16 n) = ''0x'' @ show_base 16 n"
      using lower_show_base[of 16 n] by (simp add: lower_def to_lower_def)
    ultimately show ?thesis using n(2,3)
      by (simp add: decode_value_def parse_show_base starts_with_def)
  qed
qed

lemma show_base_2_bits: "list_all bit01xz (show_base 2 n)"
proof (induction n rule: less_induct)
  case (less n)
  have d: "bit01xz (digit_chr k)" if "k < 2" for k
    using that by (auto simp: bit01xz_def less_2_cases_iff)
  show ?case
  proof (cases "n < 2")
    case True
    then show ?thesis using d by (subst show_base.simps) simp
  next
    case False
    then have "list_all bit01xz (show_base 2 (n div 2))" by (intro less.IH) simp
    then show ?thesis using False d by (subst show_base.simps) simp
  qed
qed

lemma fit_length: "length (rjust w (drop (length s - w) s)) = w"
  by (simp add: rjust_def)

lemma fit_bits: "list_all bit01xz s \<Longrightarrow> list_all bit01xz (rjust w (drop (length s - w) s))"
proof -
  assume s: "list_all bit01xz s"
  have "list_all bit01xz (replicate k CHR ''0'')" for k
    by (induction k) (simp_all add: bit01xz_def)
  moreover have "list_all bit01xz (drop k s)" for k
    using s by (metis append_take_drop_id list_all_append)
  ultimately show ?thesis by (simp add: rjust_def)
qed

text \<open>
  \<open>decode_value\<close> gives exactly the width it was asked for, in 0, 1, x and z, whatever
  the notation of its input; and what it gives is written by \<open>encode_value\<close> and read back
  unchanged.
\<close>

theorem decode_value_exact:
  assumes "decode_value text w line field = Inr bs"
  shows "length bs = w \<and> list_all bit01xz bs \<and>
    (w = 0 \<or> decode_value (encode_value bs) w line' field' = Inr bs)"
proof -
  obtain s where s: "(if starts_with ''0b'' (lower text) then
              (if drop 2 (lower text) = [] \<or> \<not> list_all bit01xz (drop 2 (lower text))
               then Inl (XvecError (BadBinary text) line) else Inr (drop 2 (lower text)))
            else if starts_with ''0x'' (lower text) then
              (case parse_base 16 (drop 2 (lower text)) of
                 Some n \<Rightarrow> Inr (show_base 2 n) | None \<Rightarrow> Inl (XvecError (BadHex text) line))
            else
              (case parse_base 10 (lower text) of
                 Some n \<Rightarrow> Inr (show_base 2 n) | None \<Rightarrow> Inl (XvecError (BadValue text) line))) = Inr s"
    and f: "(if w < length s \<and> \<not> list_all (\<lambda>c. c = CHR ''0'') (take (length s - w) s)
              then Inl (XvecError (DoesNotFit field text w) line)
              else Inr (rjust w (drop (length s - w) s))) = Inr bs"
    using assms unfolding decode_value_def Let_def rbind_Inr_iff by (elim exE conjE) (rule that)
  have "list_all bit01xz s"
  proof (cases "starts_with ''0b'' (lower text)")
    case True
    then show ?thesis using s by (simp only: if_True if_False split: if_split_asm) simp_all
  next
    case False
    then obtain n where "s = show_base 2 n"
      using s by (auto split: if_split_asm option.splits)
    then show ?thesis using show_base_2_bits by simp
  qed
  moreover have "bs = rjust w (drop (length s - w) s)" using f by (simp split: if_split_asm)
  ultimately have l: "length bs = w" "list_all bit01xz bs" by (simp_all add: fit_length fit_bits)
  then show ?thesis using decode_encode[of bs line' field'] by auto
qed

theorem decode_value_exact_witness:
  "length ''0z1x'' = 4 \<and> decode_value (encode_value ''0z1x'') 4 None None = Inr ''0z1x''"
proof -
  have "decode_value ''0bZ1X'' 4 None None = Inr ''0z1x''" by code_simp
  from decode_value_exact[OF this, of None None] show ?thesis by simp
qed

section \<open>Quoting round trips\<close>

definition esc :: "char \<Rightarrow> string" where
  "esc c = (if c = BSL then [BSL, BSL] else if c = DQ then [BSL, DQ] else [c])"

lemma escape_concat: "replace1 DQ [BSL, DQ] (replace1 BSL [BSL, BSL] v) = concat (map esc v)"
  by (induction v) (auto simp: replace1_def esc_def)

lemma esc_concat_hd: "concat (map esc v) \<noteq> [] \<Longrightarrow> hd (concat (map esc v)) \<noteq> DQ"
  by (cases v) (auto simp: esc_def)

lemma replace2_other: "c \<noteq> a \<Longrightarrow> replace2 a b r (c # s) = c # replace2 a b r s"
  by (cases s) auto

lemma replace2_follow: "s = [] \<or> hd s \<noteq> b \<Longrightarrow> replace2 a b r (c # s) = c # replace2 a b r s"
  by (cases s) auto

lemma unescape_one:
  "s = [] \<or> hd s \<noteq> DQ \<Longrightarrow>
   replace2 BSL DQ [DQ] (esc c @ s) = (if c = BSL then [BSL, BSL] else [c]) @ replace2 BSL DQ [DQ] s"
  by (cases "c = BSL") (auto simp: esc_def replace2_other replace2_follow)

lemma unescape_quotes:
  "replace2 BSL DQ [DQ] (concat (map esc v)) =
   concat (map (\<lambda>c. if c = BSL then [BSL, BSL] else [c]) v)"
proof (induction v)
  case (Cons c v)
  have "concat (map esc v) = [] \<or> hd (concat (map esc v)) \<noteq> DQ" using esc_concat_hd by blast
  from unescape_one[OF this, of c] Cons.IH show ?case by simp
qed simp

lemma unescape_backslashes:
  "replace2 BSL BSL [BSL] (concat (map (\<lambda>c. if c = BSL then [BSL, BSL] else [c]) v)) = v"
  by (induction v) (auto simp: replace2_other)

lemma unquote_escaped: "unquote (DQ # concat (map esc v) @ [DQ]) = v"
  by (simp add: unquote_def unescape_quotes unescape_backslashes)

lemma escape_quoted_Inr:
  "escape_quoted v = Inr e \<longleftrightarrow> \<not> list_ex is_control v \<and> e = concat (map esc v)"
  by (auto simp: escape_quoted_def check_representable_def escape_concat)

lemma quote_cases:
  assumes "quote v = Inr q"
  shows "\<not> list_ex is_control v \<and>
     (q = DQ # concat (map esc v) @ [DQ] \<or> (q = v \<and> v \<noteq> [] \<and> \<not> needs_quote v))"
  using assms by (auto simp: quote_def rbind_Inr_iff check_representable_def escape_quoted_Inr split: if_splits)

lemma quote_ok: "\<not> list_ex is_control v \<Longrightarrow> \<exists>q. quote v = Inr q"
  by (auto simp: quote_def check_representable_def escape_quoted_def)

text \<open>Quoting loses nothing.\<close>

lemma unquote_quote:
  assumes "quote v = Inr q"
  shows "unquote q = v"
proof -
  have "unquote v = v" if "v \<noteq> []" "\<not> needs_quote v"
    using that by (cases v) (auto simp: unquote_def needs_quote_def)
  then show ?thesis using quote_cases[OF assms] unquote_escaped by auto
qed

lemma strip_comment_quoted:
  "strip_comment True (concat (map esc v) @ DQ # rest) =
   concat (map esc v) @ DQ # strip_comment False rest"
  by (induction v) (auto simp: esc_def)

lemma strip_comment_plain:
  "CHR ''#'' \<notin> set s \<Longrightarrow> DQ \<notin> set s \<Longrightarrow> strip_comment False (s @ t) = s @ strip_comment False t"
  by (induction s) auto

section \<open>Co-timing rules, declaratively\<close>

text \<open>
  The time and co-timing rules as the format states them: time never decreases, \<open>end\<close> is last,
  a lone event is unmarked, co-timed events agree on the marking, unmarked ones are \<open>set\<close>s, and
  where everything at that time is a \<open>set\<close> the bit ranges are disjoint. The module text forbids every
  overlap; the code compares ranges only there (\<open>overlapping_sets_accepted\<close>).
\<close>

definition order_ok :: "event list \<Rightarrow> bool" where
  "order_ok ev \<longleftrightarrow>
     sorted (map e_t ev) \<and>
     (\<forall>i < length ev. e_op (ev ! i) = ''end'' \<longrightarrow> i = length ev - 1) \<and>
     (\<forall>i < length ev. (\<forall>j < length ev. e_t (ev ! j) = e_t (ev ! i) \<longrightarrow> j = i) \<longrightarrow> \<not> e_sim (ev ! i)) \<and>
     (\<forall>i < length ev. \<forall>j < length ev. i \<noteq> j \<longrightarrow> e_t (ev ! i) = e_t (ev ! j) \<longrightarrow>
        e_sim (ev ! i) = e_sim (ev ! j) \<and> (e_sim (ev ! i) \<or> e_op (ev ! i) = ''set'') \<and>
        ((\<forall>k < length ev. e_t (ev ! k) = e_t (ev ! i) \<longrightarrow> e_op (ev ! k) = ''set'') \<longrightarrow>
         \<not> overlap (ev ! i) (ev ! j)))"

lemma pairs_later_all:
  assumes "distinct xs" "\<And>a b. R a b = R b a"
  shows "(\<forall>(a, b) \<in> set (pairs_later xs). R a b) \<longleftrightarrow> (\<forall>a \<in> set xs. \<forall>b \<in> set xs. a \<noteq> b \<longrightarrow> R a b)"
  using assms(1)
proof (induction xs)
  case (Cons x xs)
  have "(\<forall>(a, b) \<in> set (pairs_later (x # xs)). R a b) \<longleftrightarrow>
      (\<forall>b \<in> set xs. R x b) \<and> (\<forall>a \<in> set xs. \<forall>b \<in> set xs. a \<noteq> b \<longrightarrow> R a b)"
    using Cons by auto
  then show ?case using Cons.prems assms(2) by auto
qed simp

lemma overlap_sym: "overlap a b = overlap b a"
  by (auto simp: overlap_def)

lemma filter_some_not_all:
  "(0 < length (filter P xs) \<and> length (filter P xs) < length xs) \<longleftrightarrow>
   (\<exists>x \<in> set xs. P x) \<and> (\<exists>x \<in> set xs. \<not> P x)"
proof -
  have "length (filter P xs) < length xs \<longleftrightarrow> (\<exists>x \<in> set xs. \<not> P x)"
    by (metis filter_True length_filter_less less_irrefl)
  moreover have "0 < length (filter P xs) \<longleftrightarrow> (\<exists>x \<in> set xs. P x)"
    by (auto simp: filter_empty_conv)
  ultimately show ?thesis by blast
qed

lemma pair_rules_all:
  assumes "(\<forall>x \<in> S. s x) \<or> (\<forall>x \<in> S. \<not> s x)" "\<forall>i \<in> S. st i"
  shows "(\<forall>i \<in> S. \<forall>j \<in> S. i \<noteq> j \<longrightarrow>
        s i = s j \<and> (s i \<or> st i) \<and> ((\<forall>k \<in> S. st k) \<longrightarrow> \<not> ov i j)) \<longleftrightarrow>
    (\<forall>i \<in> S. \<forall>j \<in> S. i \<noteq> j \<longrightarrow> \<not> ov i j)" (is "?l \<longleftrightarrow> ?r")
proof
  assume l: ?l
  show ?r
  proof (intro ballI impI)
    fix i j assume "i \<in> S" "j \<in> S" "i \<noteq> j"
    then show "\<not> ov i j" using bspec[OF bspec[OF l]] assms(2) by simp
  qed
next
  assume r: ?r
  have e: "s i = s j" if "i \<in> S" "j \<in> S" for i j using assms(1) that by (elim disjE) simp_all
  show ?l
  proof (intro ballI impI conjI)
    fix i j assume "i \<in> S" "j \<in> S" "i \<noteq> j"
    then show "s i = s j" "s i \<or> st i" "\<not> ov i j" using assms(2) r e[of i j] by simp_all
  qed
qed

lemma pair_rules_some:
  assumes "(\<forall>x \<in> S. s x) \<or> (\<forall>x \<in> S. \<not> s x)" and k: "k \<in> S" "\<not> st k"
    and j: "j \<in> S" "j \<noteq> k"
  shows "(\<forall>i \<in> S. \<forall>j \<in> S. i \<noteq> j \<longrightarrow>
        s i = s j \<and> (s i \<or> st i) \<and> ((\<forall>k \<in> S. st k) \<longrightarrow> \<not> ov i j)) \<longleftrightarrow> (\<forall>i \<in> S. s i)"
    (is "?l \<longleftrightarrow> ?r")
proof
  assume l: ?l
  have "s k \<or> st k" using bspec[OF bspec[OF l k(1)] j(1)] j(2) by metis
  then show ?r using assms(1) k by blast
next
  assume r: ?r
  have n: "\<not> (\<forall>k \<in> S. st k)" using k by blast
  show ?l using r by (simp only: n) simp
qed

lemma check_group_iff:
  assumes "distinct idxs" "length idxs \<noteq> 1"
  shows "check_group ev lines (t, idxs) = Inr () \<longleftrightarrow>
    (\<forall>i \<in> set idxs. \<forall>j \<in> set idxs. i \<noteq> j \<longrightarrow>
        e_sim (ev ! i) = e_sim (ev ! j) \<and> (e_sim (ev ! i) \<or> e_op (ev ! i) = ''set'') \<and>
        ((\<forall>k \<in> set idxs. e_op (ev ! k) = ''set'') \<longrightarrow> \<not> overlap (ev ! i) (ev ! j)))"
    (is "_ \<longleftrightarrow> ?rules")
proof -
  let ?S = "set idxs" and ?s = "\<lambda>i. e_sim (ev ! i)" and ?st = "\<lambda>i. e_op (ev ! i) = ''set''"
  let ?u = "filter (\<lambda>i. \<not> ?s i) idxs"
  have other: "\<exists>j \<in> ?S. j \<noteq> i" if "i \<in> ?S" for i
  proof (rule ccontr)
    assume "\<not> ?thesis"
    then have "?S = {i}" using that by blast
    then show False using assms distinct_card[of idxs] by simp
  qed
  have pl: "rall (\<lambda>(a, b). if overlap (ev ! a) (ev ! b) then xerr (OverlappingSets t a b) else Inr ())
       (pairs_later idxs) = Inr () \<longleftrightarrow> (\<forall>a \<in> ?S. \<forall>b \<in> ?S. a \<noteq> b \<longrightarrow> \<not> overlap (ev ! a) (ev ! b))"
    unfolding pairs_later_all[OF assms(1), of "\<lambda>a b. \<not> overlap (ev ! a) (ev ! b)",
        OF overlap_sym[THEN arg_cong[of _ _ Not]], symmetric]
    by (auto simp: rall_Inr_iff split: if_splits)
  have mixed: "(0 < length ?u \<and> length ?u < length idxs) \<longleftrightarrow> (\<exists>x \<in> ?S. ?s x) \<and> (\<exists>x \<in> ?S. \<not> ?s x)"
    using filter_some_not_all[of "\<lambda>i. \<not> ?s i" idxs] by blast
  show ?thesis
  proof (cases "(\<exists>x \<in> ?S. ?s x) \<and> (\<exists>x \<in> ?S. \<not> ?s x)")
    case True
    then have "0 < length ?u \<and> length ?u < length idxs" using mixed by blast
    then have "check_group ev lines (t, idxs) = xerr (MixedMarking t ?u)"
      using assms(2) unfolding check_group_def Let_def prod.case by (simp only: simp_thms if_True if_False)
    moreover have "\<not> ?rules"
    proof
      assume r: ?rules
      obtain x y where "x \<in> ?S" "?s x" "y \<in> ?S" "\<not> ?s y" using True by blast
      then show False using bspec[OF bspec[OF r], of x y] by metis
    qed
    ultimately show ?thesis by simp
  next
    case False
    then have same: "(\<forall>x \<in> ?S. ?s x) \<or> (\<forall>x \<in> ?S. \<not> ?s x)" by blast
    have nm: "\<not> (0 < length ?u \<and> length ?u < length idxs)" using mixed False by blast
    have c: "check_group ev lines (t, idxs) =
      (if list_all ?st idxs then
             rall (\<lambda>(a, b). if overlap (ev ! a) (ev ! b) then xerr (OverlappingSets t a b) else Inr ())
               (pairs_later idxs)
           else if ?u \<noteq> [] then xerr (NeedsSimultaneous t ?u)
           else Inr ())"
      using nm assms(2) unfolding check_group_def Let_def prod.case by (simp only: if_False)
    show ?thesis
    proof (cases "\<forall>i \<in> ?S. ?st i")
      case True
      then have "check_group ev lines (t, idxs) = Inr () \<longleftrightarrow>
         (\<forall>a \<in> ?S. \<forall>b \<in> ?S. a \<noteq> b \<longrightarrow> \<not> overlap (ev ! a) (ev ! b))"
        unfolding c pl[symmetric] by (simp add: list_all_iff)
      then show ?thesis
        using pair_rules_all[where s = ?s and st = ?st and ov = "\<lambda>i j. overlap (ev ! i) (ev ! j)",
            OF same True] by simp
    next
      case False
      then have g: "check_group ev lines (t, idxs) = Inr () \<longleftrightarrow> (\<forall>i \<in> ?S. ?s i)"
        using c by (auto simp: list_all_iff filter_empty_conv)
      obtain k where k: "k \<in> ?S" "\<not> ?st k" using False by blast
      obtain j where j: "j \<in> ?S" "j \<noteq> k" using other[OF k(1)] by blast
      show ?thesis
        unfolding g using pair_rules_some[where s = ?s and st = ?st and ov = "\<lambda>i j. overlap (ev ! i) (ev ! j)",
            OF same k j] by simp
    qed
  qed
qed

lemma group_single:
  assumes "i < length ev"
  shows "length (filter (\<lambda>j. e_t (ev ! j) = e_t (ev ! i)) [0..<length ev]) = 1 \<longleftrightarrow>
    (\<forall>j < length ev. e_t (ev ! j) = e_t (ev ! i) \<longrightarrow> j = i)"
    (is "length ?f = 1 \<longleftrightarrow> ?u")
proof
  have mem: "j \<in> set ?f \<longleftrightarrow> j < length ev \<and> e_t (ev ! j) = e_t (ev ! i)" for j by auto
  {
    assume "length ?f = 1"
    then obtain k where "?f = [k]" by (cases ?f) auto
    then have "set ?f = {k}" by simp
    then show ?u using mem assms by (metis singletonD)
  }
  {
    assume u: ?u
    have "set ?f = {i}" using mem u assms by blast
    moreover have "distinct ?f" by simp
    ultimately show "length ?f = 1" using distinct_card[of ?f] by simp
  }
qed

lemma order_prefix_iff:
  "(\<forall>i \<in> set [0..<length ev]. (if 0 < i \<and> e_t (ev ! i) < e_t (ev ! (i - 1))
              then Inl (XvecError (TimeBackwards i) (lines i))
              else if e_op (ev ! i) = ''end'' \<and> i \<noteq> length ev - 1
              then Inl (XvecError (EndNotLast i) (lines i))
              else Inr ()) = Inr ()) \<longleftrightarrow>
   sorted (map e_t ev) \<and> (\<forall>i < length ev. e_op (ev ! i) = ''end'' \<longrightarrow> i = length ev - 1)"
    (is "?l \<longleftrightarrow> ?s \<and> ?e")
proof -
  have s: "?s \<longleftrightarrow> (\<forall>i < length ev. \<not> (0 < i \<and> e_t (ev ! i) < e_t (ev ! (i - 1))))"
  proof
    assume ?s
    then show "\<forall>i < length ev. \<not> (0 < i \<and> e_t (ev ! i) < e_t (ev ! (i - 1)))"
      by (auto simp: sorted_iff_nth_mono not_less)
  next
    assume a: "\<forall>i < length ev. \<not> (0 < i \<and> e_t (ev ! i) < e_t (ev ! (i - 1)))"
    then have "e_t (ev ! i) \<le> e_t (ev ! Suc i)" if "Suc i < length ev" for i
      using that a[rule_format, of "Suc i"] by auto
    then show ?s by (simp add: sorted_iff_nth_Suc)
  qed
  have i: "(if P then Inl a else if Q then Inl b else Inr ()) = Inr () \<longleftrightarrow> \<not> P \<and> \<not> Q"
    for P Q and a b :: xvec_error by simp
  have "?l \<longleftrightarrow> (\<forall>i < length ev. \<not> (0 < i \<and> e_t (ev ! i) < e_t (ev ! (i - 1))) \<and>
      \<not> (e_op (ev ! i) = ''end'' \<and> i \<noteq> length ev - 1))"
    unfolding i by (simp only: set_upt atLeastLessThan_iff Ball_def) simp
  then show ?thesis unfolding s by blast
qed

text \<open>What the group of one event must satisfy.\<close>

definition pair_rule :: "event list \<Rightarrow> nat \<Rightarrow> nat \<Rightarrow> bool" where
  "pair_rule ev i j \<longleftrightarrow> e_sim (ev ! i) = e_sim (ev ! j) \<and> (e_sim (ev ! i) \<or> e_op (ev ! i) = ''set'') \<and>
        ((\<forall>k < length ev. e_t (ev ! k) = e_t (ev ! i) \<longrightarrow> e_op (ev ! k) = ''set'') \<longrightarrow>
         \<not> overlap (ev ! i) (ev ! j))"

definition alone :: "event list \<Rightarrow> nat \<Rightarrow> bool" where
  "alone ev i \<longleftrightarrow> (\<forall>j < length ev. e_t (ev ! j) = e_t (ev ! i) \<longrightarrow> j = i)"

lemma group_of_iff:
  assumes i: "i < length ev"
  defines "g \<equiv> filter (\<lambda>j. e_t (ev ! j) = e_t (ev ! i)) [0..<length ev]"
  shows "check_group ev lines (e_t (ev ! i), g) = Inr () \<longleftrightarrow>
     (alone ev i \<longrightarrow> \<not> e_sim (ev ! i)) \<and>
     (\<forall>a \<in> set g. \<forall>b \<in> set g. a \<noteq> b \<longrightarrow> pair_rule ev a b)"
proof (cases "length g = 1")
  case True
  then have u: "alone ev i" using group_single[OF i] unfolding g_def alone_def by blast
  then have sg: "set g = {i}" using i by (auto simp: g_def alone_def)
  then have "g = [i]" using True by (cases g) auto
  then show ?thesis using u by (simp add: check_group_def)
next
  case False
  then have "\<not> alone ev i" using group_single[OF i] unfolding g_def alone_def by blast
  moreover have "(\<forall>k \<in> set g. e_op (ev ! k) = ''set'') \<longleftrightarrow>
     (\<forall>k < length ev. e_t (ev ! k) = e_t (ev ! a) \<longrightarrow> e_op (ev ! k) = ''set'')" if "a \<in> set g" for a
    using that by (auto simp: g_def)
  ultimately show ?thesis
    by (subst check_group_iff) (use False in \<open>simp_all add: pair_rule_def g_def\<close>)
qed

text \<open>The code accepts exactly the sequences that satisfy these rules.\<close>

lemma check_order_iff: "check_order ev lines = Inr () \<longleftrightarrow> order_ok ev"
proof -
  let ?g = "\<lambda>t. filter (\<lambda>i. e_t (ev ! i) = t) [0..<length ev]"
  have "check_order ev lines = Inr () \<longleftrightarrow>
     (sorted (map e_t ev) \<and> (\<forall>i < length ev. e_op (ev ! i) = ''end'' \<longrightarrow> i = length ev - 1)) \<and>
     (\<forall>i < length ev. check_group ev lines (e_t (ev ! i), ?g (e_t (ev ! i))) = Inr ())"
    unfolding order_prefix_iff[symmetric, of ev lines]
    by (simp add: check_order_def rbind_Inr_iff rall_Inr_iff time_groups_def all_set_conv_all_nth)
  also have "\<dots> \<longleftrightarrow> (sorted (map e_t ev) \<and> (\<forall>i < length ev. e_op (ev ! i) = ''end'' \<longrightarrow> i = length ev - 1)) \<and>
     (\<forall>i < length ev. alone ev i \<longrightarrow> \<not> e_sim (ev ! i)) \<and>
     (\<forall>i < length ev. \<forall>j < length ev. i \<noteq> j \<longrightarrow> e_t (ev ! i) = e_t (ev ! j) \<longrightarrow> pair_rule ev i j)"
  proof -
    have "(\<forall>i < length ev. check_group ev lines (e_t (ev ! i), ?g (e_t (ev ! i))) = Inr ()) \<longleftrightarrow>
       (\<forall>i < length ev. (alone ev i \<longrightarrow> \<not> e_sim (ev ! i)) \<and>
         (\<forall>a \<in> set (?g (e_t (ev ! i))). \<forall>b \<in> set (?g (e_t (ev ! i))). a \<noteq> b \<longrightarrow> pair_rule ev a b))"
      using group_of_iff by blast
    also have "\<dots> \<longleftrightarrow> (\<forall>i < length ev. alone ev i \<longrightarrow> \<not> e_sim (ev ! i)) \<and>
       (\<forall>i < length ev. \<forall>j < length ev. i \<noteq> j \<longrightarrow> e_t (ev ! i) = e_t (ev ! j) \<longrightarrow> pair_rule ev i j)"
      by fastforce
    finally show ?thesis by blast
  qed
  finally show ?thesis unfolding order_ok_def pair_rule_def alone_def by blast
qed

text \<open>
  The format's text says that overlapping ranges at one time are always an error; the code
  compares ranges only in groups made of \<open>set\<close>s alone.
\<close>

lemma overlapping_sets_accepted:
  "check_order
     [\<lparr>e_t = 9, e_op = ''set'', e_target = ''in'', e_lsb = 0, e_msb = 1, e_value = ''01'', e_sim = True\<rparr>,
      \<lparr>e_t = 9, e_op = ''set'', e_target = ''in'', e_lsb = 1, e_msb = 1, e_value = ''1'', e_sim = True\<rparr>,
      plain_event 9 ''edge'' ''clk0'' ''r'' True] (\<lambda>_. None) = Inr ()"
  by code_simp

section \<open>Free-clock edges, exactly\<close>

lemma ticks_iff:
  "0 < p \<Longrightarrow> t' \<in> set (ticks p limit t) \<longleftrightarrow> (\<exists>k::nat. t' = t + int k * p \<and> t' \<le> limit)"
proof (induction p limit t rule: ticks.induct)
  case (1 p limit t)
  show ?case
  proof (cases "t \<le> limit")
    case False
    have "t \<le> t + int k * p" for k :: nat using 1(2) by simp
    then have "\<not> (\<exists>k::nat. t' = t + int k * p \<and> t' \<le> limit)" using False by (meson order_trans)
    then show ?thesis using False by (subst ticks.simps) simp
  next
    case True
    have "t' \<in> set (ticks p limit t) \<longleftrightarrow> t' = t \<or> (\<exists>k::nat. t' = t + p + int k * p \<and> t' \<le> limit)"
      using 1 True by (subst ticks.simps) auto
    also have "\<dots> \<longleftrightarrow> (\<exists>k::nat. t' = t + int k * p \<and> t' \<le> limit)" (is "?l \<longleftrightarrow> ?r")
    proof
      assume ?l
      then show ?r
      proof (elim disjE exE)
        assume "t' = t" then show ?r using True by (intro exI[of _ 0]) simp
      next
        fix k :: nat assume "t' = t + p + int k * p \<and> t' \<le> limit"
        then show ?r by (intro exI[of _ "Suc k"]) (simp add: algebra_simps)
      qed
    next
      assume ?r
      then obtain k :: nat where k: "t' = t + int k * p \<and> t' \<le> limit" by blast
      show ?l
      proof (cases k)
        case 0 then show ?thesis using k by simp
      next
        case (Suc j)
        then show ?thesis using k by (intro disjI2 exI[of _ j]) (simp add: algebra_simps)
      qed
    qed
    finally show ?thesis .
  qed
qed

lemma vec_clock_in: "vec_clock v n = Some c \<Longrightarrow> c \<in> set (v_clocks v) \<and> ck_name c = n"
  by (auto simp: vec_clock_def find_Some_iff)

lemma vec_clock_declared: "c \<in> set (v_clocks v) \<Longrightarrow> vec_clock v (ck_name c) \<noteq> None"
  by (auto simp: vec_clock_def find_None_iff)

definition clocks_named :: "vec \<Rightarrow> bool" where
  "clocks_named v \<longleftrightarrow> (\<forall>e \<in> set (v_events v).
     e_op e \<in> {''clock_start'', ''clock_stop''} \<longrightarrow> vec_clock v (e_target e) \<noteq> None)"

definition runs_ok :: "vec \<Rightarrow> run list \<times> (string, int) dict \<Rightarrow> bool" where
  "runs_ok v = (\<lambda>(runs, op).
     (\<forall>(c, s) \<in> set runs. c \<in> set (v_clocks v)) \<and> (\<forall>n \<in> fst ` set op. vec_clock v n \<noteq> None))"

lemma keys_update: "fst ` set (AList.update k v d) = insert k (fst ` set d)"
  by (induction d) auto

lemma dict_of_keys: "fst ` set (dict_of ps) = fst ` set ps"
proof -
  have "fst ` set (fold (\<lambda>(k, v) d. AList.update k v d) ps d) = fst ` set d \<union> fst ` set ps" for d :: "('a, 'b) dict"
    by (induction ps arbitrary: d) (simp_all add: case_prod_beta keys_update)
  then show ?thesis by (simp add: dict_of_def)
qed

lemma free_runs_total:
  assumes "clocks_named v"
  shows "\<exists>runs. free_runs v = Inr runs \<and> (\<forall>(c, s) \<in> set runs. c \<in> set (v_clocks v))"
proof -
  have "runs_ok v ([], free_init v)"
  proof -
    have "fst ` set (free_init v) \<subseteq> ck_name ` set (v_clocks v)"
      unfolding free_init_def dict_of_keys by auto
    then have "\<forall>n \<in> fst ` set (free_init v). vec_clock v n \<noteq> None"
      using vec_clock_declared[of _ v] by (metis imageE subsetD)
    then show ?thesis by (simp only: runs_ok_def prod.case) simp
  qed
  moreover have "\<exists>s'. free_event v s e = Inr s' \<and> runs_ok v s'"
    if "e \<in> set (v_events v)" "runs_ok v s" for s e
  proof -
    obtain runs op where s: "s = (runs, op)" by (cases s)
    have named: "e_op e = ''clock_start'' \<or> e_op e = ''clock_stop'' \<Longrightarrow> vec_clock v (e_target e) \<noteq> None"
      using assms that(1) unfolding clocks_named_def insert_iff empty_iff by metis
    consider "e_op e = ''clock_start''" | "e_op e = ''clock_stop''" "e_op e \<noteq> ''clock_start''"
      | "e_op e \<noteq> ''clock_start''" "e_op e \<noteq> ''clock_stop''" by blast
    then show ?thesis
    proof cases
      case 1
      then have n: "vec_clock v (e_target e) \<noteq> None" using named by blast
      have "\<forall>n \<in> insert (e_target e) (fst ` set op). vec_clock v n \<noteq> None"
        using n that(2) unfolding s runs_ok_def prod.case by blast
      then have "runs_ok v (runs, AList.update (e_target e) (e_t e) op)"
        using that(2) unfolding runs_ok_def prod.case s keys_update by blast
      then show ?thesis using 1 s by (simp add: free_event_def)
    next
      case 2
      from 2 named obtain c where c: "vec_clock v (e_target e) = Some c" by auto
      have d: "fst ` set (AList.delete (e_target e) op) \<subseteq> fst ` set op"
        by (auto simp: AList.delete_eq)
      show ?thesis
      proof (cases "map_of op (e_target e)")
        case None
        then show ?thesis using 2 that(2) s by (simp add: free_event_def)
      next
        case (Some start)
        have "runs_ok v (runs @ [(c, start, Some (e_t e))], AList.delete (e_target e) op)"
        proof -
          have "\<forall>n \<in> fst ` set (AList.delete (e_target e) op). vec_clock v n \<noteq> None"
            using that(2) d unfolding runs_ok_def prod.case s by (metis subsetD)
          then show ?thesis
            using that(2) vec_clock_in[OF c] unfolding runs_ok_def prod.case s by simp
        qed
        then show ?thesis using Some 2 s c by (simp add: free_event_def the_clock_def)
      qed
    next
      case 3
      then show ?thesis using that(2) s by (simp add: free_event_def)
    qed
  qed
  ultimately obtain runs op where r: "rfold (free_event v) ([], free_init v) (v_events v) = Inr (runs, op)"
    "runs_ok v (runs, op)"
    using rfold_total[of "runs_ok v" "([], free_init v)" "v_events v" "free_event v"] by auto
  have rst: "\<exists>rest. rmap (\<lambda>(n, t0). rbind (the_clock v n) (\<lambda>c. Inr (c, t0, None :: int option))) xs = Inr rest \<and>
      (\<forall>(c, s) \<in> set rest. c \<in> set (v_clocks v))"
    if "\<forall>n \<in> fst ` set xs. vec_clock v n \<noteq> None" for xs :: "(string, int) dict"
    using that
  proof (induction xs)
    case (Cons x xs)
    obtain n t0 where x: "x = (n, t0)" by (cases x)
    then obtain c where "vec_clock v n = Some c" using Cons.prems by auto
    then show ?case using Cons vec_clock_in x by (auto simp: the_clock_def)
  qed simp
  have "\<forall>n \<in> fst ` set op. vec_clock v n \<noteq> None" using r(2) unfolding runs_ok_def prod.case by (rule conjunct2)
  from rst[OF this] obtain rest where
    "rmap (\<lambda>(n, t0). rbind (the_clock v n) (\<lambda>c. Inr (c, t0, None :: int option))) op = Inr rest"
    "\<forall>(c, s) \<in> set rest. c \<in> set (v_clocks v)"
    by (elim exE conjE) (rule that)
  then show ?thesis using r by (auto simp: free_runs_def runs_ok_def)
qed

definition run_limit :: "int \<Rightarrow> run \<Rightarrow> int" where
  "run_limit end_t r = (case snd (snd r) of None \<Rightarrow> end_t | Some s \<Rightarrow> s - 1)"

text \<open>The edges one run should have, from the format's description of free clocks.\<close>

definition run_edge :: "int \<Rightarrow> run \<Rightarrow> event \<Rightarrow> bool" where
  "run_edge end_t r e \<longleftrightarrow> (\<exists>k::nat.
     (let c = fst r; rise = fst (snd r) + int k * ck_period c in
      (e = plain_event rise ''edge'' (ck_name c) ''r'' False \<and> rise \<le> run_limit end_t r) \<or>
      (e = plain_event (rise + clock_high c) ''edge'' (ck_name c) ''f'' False \<and>
       rise \<le> run_limit end_t r \<and> rise + clock_high c \<le> run_limit end_t r)))"

definition end_time :: "vec \<Rightarrow> int" where
  "end_time v = (if v_events v = [] then 0 else e_t (last (v_events v)))"

lemma run_edges_iff:
  assumes "0 < ck_period c"
  shows "\<exists>es. run_edges end_t (c, start, stop) = Inr es \<and> (\<forall>e. e \<in> set es \<longleftrightarrow> run_edge end_t (c, start, stop) e)"
proof -
  let ?r = "(c, start, stop)"
  let ?es = "concat (map (\<lambda>t. plain_event t ''edge'' (ck_name c) ''r'' False #
               (if t + clock_high c \<le> run_limit end_t ?r
                then [plain_event (t + clock_high c) ''edge'' (ck_name c) ''f'' False]
                else [])) (ticks (ck_period c) (run_limit end_t ?r) start))"
  have "run_edges end_t ?r = Inr ?es"
    using assms by (simp add: run_edges_def run_limit_def Let_def)
  moreover have "e \<in> set ?es \<longleftrightarrow> run_edge end_t ?r e" for e
    using ticks_iff[OF assms] by (auto simp: run_edge_def Let_def split: if_splits)
  ultimately show ?thesis by blast
qed

lemma run_edges_all:
  assumes "list_all (\<lambda>c. 0 < ck_period c) (v_clocks v)" "\<forall>(c, s) \<in> set rs. c \<in> set (v_clocks v)"
  shows "\<exists>ess. rmap (run_edges (end_time v)) rs = Inr ess \<and>
      set (concat ess) = {e. \<exists>r \<in> set rs. run_edge (end_time v) r e}"
  using assms(2)
proof (induction rs)
  case (Cons r rs)
  obtain c start stop where rr: "r = (c, start, stop)" by (cases r)
  have "0 < ck_period c" using Cons.prems assms(1) rr by (auto simp: list_all_iff)
  from run_edges_iff[OF this, of "end_time v" start stop] obtain es where
    "run_edges (end_time v) r = Inr es" "\<forall>e. e \<in> set es \<longleftrightarrow> run_edge (end_time v) r e"
    using rr by blast
  moreover obtain ess where "rmap (run_edges (end_time v)) rs = Inr ess"
    "set (concat ess) = {e. \<exists>r \<in> set rs. run_edge (end_time v) r e}"
    using Cons by auto
  ultimately show ?case by auto
qed simp

lemma free_clock_edges_total:
  assumes "list_all (\<lambda>c. 0 < ck_period c) (v_clocks v)" "clocks_named v"
  shows "\<exists>es. free_clock_edges v = Inr es \<and>
    (\<forall>e \<in> set es. e_op e = ''edge'' \<and> e_target e \<in> ck_name ` set (v_clocks v))"
proof -
  obtain runs where r: "free_runs v = Inr runs" "\<forall>(c, s) \<in> set runs. c \<in> set (v_clocks v)"
    using free_runs_total[OF assms(2)] by blast
  obtain ess where ess: "rmap (run_edges (end_time v)) runs = Inr ess"
     "set (concat ess) = {e. \<exists>r \<in> set runs. run_edge (end_time v) r e}"
    using run_edges_all[OF assms(1) r(2)] by blast
  have "free_clock_edges v = Inr (sort_key e_t (concat ess))"
    using r(1) ess(1) by (simp add: free_clock_edges_def end_time_def Let_def)
  moreover have "e_op e = ''edge'' \<and> e_target e \<in> ck_name ` set (v_clocks v)"
    if "e \<in> set (concat ess)" for e
  proof -
    obtain q where q: "q \<in> set runs" "run_edge (end_time v) q e" using \<open>e \<in> set (concat ess)\<close> ess(2) by blast
    then have "fst q \<in> set (v_clocks v)" using r(2) by (cases q) auto
    then show ?thesis using q(2) by (auto simp: run_edge_def Let_def plain_event_def)
  qed
  ultimately show ?thesis by (metis set_sort)
qed


definition free_example :: vec where
  "free_example =
     \<lparr>v_header = [],
      v_clocks = [\<lparr>ck_name = ''clk0'', ck_index = 0, ck_period = 10, ck_phase = 2, ck_duty = 50, ck_mode = ''free''\<rparr>],
      v_events = [plain_event 0 ''glbl'' ''GSR'' ''0'' False, plain_event 14 ''clock_stop'' ''clk0'' [] False,
                  plain_event 40 ''end'' [] [] False],
      v_hw = None, v_reason = []\<rparr>"


end
