(* ===== verification/Xvec_Text.thy ===== *)
theory Xvec_Text
  imports Xvec
begin

text \<open>
  The text of a stimulus: the regular expressions of \<open>tools/xut/formats/xvec.py\<close>, its parser
  \<open>loads\<close>, its writer \<open>dumps\<close>, and \<open>check_structure\<close>, which runs both.

  Each regular expression is written as the function that computes its match. Where the
  expression leaves a choice, the function makes the choice the matcher makes (greedy first);
  the only one that ever has to be taken back, the optional \<open>simultaneous\<close> of an event, is
  tried both ways.
\<close>

section \<open>The regular expressions\<close>

definition drop_prefix :: "string \<Rightarrow> string \<Rightarrow> string option" where
  "drop_prefix p s = (if starts_with p s then Some (drop (length p) s) else None)"

lemma drop_prefix_append [simp]: "drop_prefix p (p @ s) = Some s"
  by (simp add: drop_prefix_def)

text \<open>\<open>\s+\<close> followed by something that does not start with a space.\<close>

definition spaces1 :: "string \<Rightarrow> string option" where
  "spaces1 s = (case s of [] \<Rightarrow> None | c # cs \<Rightarrow> if is_space c then Some (dropWhile is_space cs) else None)"

definition obind :: "'a option \<Rightarrow> ('a \<Rightarrow> 'b option) \<Rightarrow> 'b option" where
  "obind r k = (case r of Some a \<Rightarrow> k a | None \<Rightarrow> None)"

lemma obind_simps [simp]: "obind None k = None" "obind (Some a) k = k a"
  by (simp_all add: obind_def)

text \<open>\<open>(\d+)\<close> and what follows: the text of the digits, and the number they read as.\<close>

definition digits_text :: "string \<Rightarrow> (string \<times> string) option" where
  "digits_text s = (let (ds, rest) = span is_digit s in if ds = [] then None else Some (ds, rest))"

definition digits1 :: "string \<Rightarrow> (int \<times> string) option" where
  "digits1 s = obind (digits_text s) (\<lambda>(ds, rest).
     map_option (\<lambda>n. (int n, rest)) (parse_base 10 ds))"

text \<open>\<open>_HEADER\<close>: the version and the rest of the line.\<close>

definition match_header :: "string \<Rightarrow> (int \<times> string) option" where
  "match_header s =
     obind (drop_prefix ''#'' s) (\<lambda>s.
     obind (drop_prefix ''xut-vec'' (dropWhile is_space s)) (\<lambda>s.
     obind (spaces1 s) (\<lambda>s.
     obind (digits1 s) (\<lambda>(n, rest).
       if rest \<noteq> [] \<and> is_word (hd rest) then None else Some (n, rest)))))"

text \<open>The body of a quoted token up to its closing quote, escapes kept, and what follows.\<close>

fun quoted_body :: "string \<Rightarrow> (string \<times> string) option" where
  "quoted_body [] = None"
| "quoted_body (c # cs) =
     (if c = DQ then Some ([], cs)
      else if c = BSL then
        (case cs of [] \<Rightarrow> None
         | d # ds \<Rightarrow> if d = LF then None
                    else obind (quoted_body ds) (\<lambda>(b, r). Some (c # d # b, r)))
      else obind (quoted_body cs) (\<lambda>(b, r). Some (c # b, r)))"

definition nonspace1 :: "string \<Rightarrow> (string \<times> string) option" where
  "nonspace1 s = (let (a, r) = span (\<lambda>c. \<not> is_space c) s in if a = [] then None else Some (a, r))"

definition kv_value :: "string \<Rightarrow> (string \<times> string) option" where
  "kv_value s =
     (case s of [] \<Rightarrow> None
      | c # cs \<Rightarrow>
          if c = DQ then
            (case quoted_body cs of Some (b, r) \<Rightarrow> Some (DQ # b @ [DQ], r) | None \<Rightarrow> nonspace1 s)
          else nonspace1 s)"

text \<open>\<open>_KV\<close> at one position, and its \<open>findall\<close>.\<close>

definition kv_at :: "string \<Rightarrow> ((string \<times> string) \<times> string) option" where
  "kv_at s =
     (case s of [] \<Rightarrow> None
      | c # cs \<Rightarrow>
          if name_start c then
            (let (a, r) = span (\<lambda>d. is_word d \<or> d = CHR ''.'') cs
             in obind (drop_prefix ''='' r) (\<lambda>q.
                obind (kv_value q) (\<lambda>(v, rest). Some ((c # a, v), rest))))
          else None)"

lemma quoted_body_length: "quoted_body s = Some (b, r) \<Longrightarrow> length r < length s"
proof (induction s arbitrary: b r rule: quoted_body.induct)
  case (2 c cs)
  show ?case
  proof (cases "c = DQ")
    case False
    show ?thesis
    proof (cases "c = BSL")
      case True
      then obtain d ds b' where "cs = d # ds" "quoted_body ds = Some (b', r)"
        using 2(3) False by (auto simp: obind_def split: list.splits if_splits option.splits)
      then show ?thesis using 2(1)[of d ds b' r] False True 2(3)
        by (auto simp: obind_def split: if_splits)
    next
      case False
      then obtain b' where "quoted_body cs = Some (b', r)"
        using 2(3) \<open>c \<noteq> DQ\<close> by (auto simp: obind_def split: option.splits)
      then show ?thesis using 2(2)[of b' r] False \<open>c \<noteq> DQ\<close> by simp
    qed
  qed (use 2 in simp)
qed simp

lemma nonspace1_length: "nonspace1 s = Some (v, r) \<Longrightarrow> length r \<le> length s"
  by (auto simp: nonspace1_def span_def Let_def length_dropWhile_le split: if_splits)

lemma kv_value_length: "kv_value s = Some (v, r) \<Longrightarrow> length r \<le> length s"
  by (auto simp: kv_value_def dest: quoted_body_length nonspace1_length
      split: list.splits if_splits option.splits)

lemma kv_at_length: "kv_at s = Some (kv, r) \<Longrightarrow> length r < length s"
proof (cases s)
  case (Cons c cs)
  assume a: "kv_at s = Some (kv, r)"
  let ?r = "dropWhile (\<lambda>d. is_word d \<or> d = CHR ''.'') cs"
  obtain q v where q: "drop_prefix ''='' ?r = Some q" "kv_value q = Some (v, r)"
    using a Cons by (auto simp: kv_at_def span_def obind_def Let_def split: if_splits option.splits)
  have "length q \<le> length ?r" using q(1) by (auto simp: drop_prefix_def split: if_splits)
  moreover have "length ?r \<le> length cs" by (rule length_dropWhile_le)
  ultimately show ?thesis using kv_value_length[OF q(2)] Cons by simp
qed (simp add: kv_at_def)

function kv_findall :: "string \<Rightarrow> (string \<times> string) list" where
  "kv_findall s =
     (case s of [] \<Rightarrow> []
      | c # cs \<Rightarrow> (case kv_at s of Some (kv, rest) \<Rightarrow> kv # kv_findall rest | None \<Rightarrow> kv_findall cs))"
  by pat_completeness auto
termination
  by (relation "measure length") (auto dest: kv_at_length)

declare kv_findall.simps [simp del]

text \<open>\<open>_CLOCK\<close>: \<open>name=(\d+)\<close> after spaces, four times.\<close>

definition int_field :: "string \<Rightarrow> string \<Rightarrow> (int \<times> string) option" where
  "int_field name s = obind (spaces1 s) (\<lambda>s. obind (drop_prefix name s) digits1)"

definition match_clock :: "string \<Rightarrow> clock option" where
  "match_clock s =
     obind (drop_prefix ''clock'' s) (\<lambda>s.
     obind (spaces1 s) (\<lambda>s.
     obind (drop_prefix ''clk'' s) (\<lambda>s.
     obind (digits_text s) (\<lambda>(ds, _).
     obind (digits1 s) (\<lambda>(idx, s).
     obind (int_field ''period='' s) (\<lambda>(period, s).
     obind (int_field ''phase='' s) (\<lambda>(phase, s).
     obind (int_field ''duty='' s) (\<lambda>(duty, s).
     obind (spaces1 s) (\<lambda>s.
     obind (drop_prefix ''mode='' s) (\<lambda>mode.
       if mode = ''stepped'' \<or> mode = ''free''
       then Some \<lparr>ck_name = ''clk'' @ ds, ck_index = idx, ck_period = period, ck_phase = phase,
                  ck_duty = duty, ck_mode = mode\<rparr>
       else None))))))))))"

text \<open>\<open>_HW\<close> and the unquoting of its reason.\<close>

definition match_hw :: "string \<Rightarrow> (bool \<times> string) option" where
  "match_hw s =
     obind (drop_prefix ''hw_renderable'' s) (\<lambda>s.
     obind (spaces1 s) (\<lambda>s.
       if s = ''yes'' then Some (True, [])
       else
         obind (drop_prefix ''no'' s) (\<lambda>s.
         obind (spaces1 s) (\<lambda>s.
         obind (drop_prefix (''reason='' @ [DQ]) s) (\<lambda>s.
         obind (quoted_body s) (\<lambda>(b, r).
           if r = [] then Some (False, unquote (DQ # b @ [DQ])) else None))))))"

text \<open>\<open>(\w+)(?:\s+(.*))?$\<close>: the operation and its argument.\<close>

definition match_op :: "string \<Rightarrow> (string \<times> string) option" where
  "match_op s =
     (let (w, r) = span is_word s
      in if w = [] then None
         else (case r of [] \<Rightarrow> Some (w, []) | c # cs \<Rightarrow>
                 if is_space c then Some (w, dropWhile is_space cs) else None))"

text \<open>\<open>_EVENT\<close>: time, marking, operation and argument.\<close>

definition match_event :: "string \<Rightarrow> (int \<times> bool \<times> string \<times> string) option" where
  "match_event s =
     obind (drop_prefix ''t='' s) (\<lambda>s.
     obind (digits1 s) (\<lambda>(t, s).
     obind (spaces1 s) (\<lambda>s.
       (case obind (drop_prefix ''simultaneous'' s) (\<lambda>q. obind (spaces1 q) match_op) of
          Some (op, arg) \<Rightarrow> Some (t, True, op, arg)
        | None \<Rightarrow> map_option (\<lambda>(op, arg). (t, False, op, arg)) (match_op s)))))"

text \<open>\<open>_SET\<close>: the two bounds as they are written and the value's text.\<close>

definition match_set :: "string \<Rightarrow> (int \<times> int option \<times> string) option" where
  "match_set s =
     obind (drop_prefix ''in['' s) (\<lambda>s.
     obind (digits1 s) (\<lambda>(msb, s).
     obind (case drop_prefix '':'' s of
              None \<Rightarrow> Some (None, s)
            | Some q \<Rightarrow> obind (digits1 q) (\<lambda>(lsb, r). Some (Some lsb, r))) (\<lambda>(lsb, s).
     obind (drop_prefix '']='' s) (\<lambda>v.
       if v \<noteq> [] \<and> list_all (\<lambda>c. \<not> is_space c) v then Some (msb, lsb, v) else None))))"

definition match_edge :: "string \<Rightarrow> (string \<times> string) option" where
  "match_edge s =
     obind (drop_prefix ''clk'' s) (\<lambda>s.
     obind (digits_text s) (\<lambda>(ds, s).
     obind (spaces1 s) (\<lambda>d.
       if d = ''r'' \<or> d = ''f'' then Some (''clk'' @ ds, d) else None)))"

definition match_glbl :: "string \<Rightarrow> (string \<times> string) option" where
  "match_glbl s =
     (let (sig, r) = span (\<lambda>c. c \<noteq> CHR ''='') s
      in if sig \<in> {''GSR'', ''GTS'', ''GRESTORE''} \<and> r \<in> {''=0'', ''=1''}
         then Some (sig, tl r) else None)"

section \<open>The parser\<close>

text \<open>\<open>except XvecError as x: raise XvecError(str(x), n)\<close>.\<close>

definition at_line :: "nat \<Rightarrow> 'a xres \<Rightarrow> 'a xres" where
  "at_line n r = (case r of Inl (XvecError m _) \<Rightarrow> Inl (XvecError m (Some n)) | Inr a \<Rightarrow> Inr a)"

lemma at_line_Inr [simp]: "at_line n (Inr a) = Inr a" "at_line n r = Inr a \<longleftrightarrow> r = Inr a"
  by (auto simp: at_line_def split: sum.splits xvec_error.splits)

definition range_text :: "int \<Rightarrow> int \<Rightarrow> string" where
  "range_text msb lsb = (if msb = lsb then show_int msb else show_int msb @ '':'' @ show_int lsb)"

definition err_at :: "nat \<Rightarrow> xmsg \<Rightarrow> 'a xres" where
  "err_at n m = Inl (XvecError m (Some n))"

text \<open>\<open>_event\<close>: the operand text of one event, then the rules of \<open>check_event\<close>.\<close>

definition operand :: "vec \<Rightarrow> int \<Rightarrow> string \<Rightarrow> string \<Rightarrow> bool \<Rightarrow> nat \<Rightarrow> event xres" where
  "operand v t op arg sim n =
     (if op = ''set'' then
        (case match_set arg of
           None \<Rightarrow> err_at n (BadSetArg arg)
         | Some (msb, lsb', val) \<Rightarrow>
             (let lsb = (case lsb' of Some l \<Rightarrow> l | None \<Rightarrow> msb)
              in if lsb > msb then err_at n (MsbBelowLsb msb lsb)
                 else if msb \<ge> hint v ''nin'' then err_at n (OutOfRange msb (hint v ''nin''))
                 else rbind (decode_value val (nat (msb - lsb + 1)) (Some n)
                               (Some (''in['' @ range_text msb lsb @ '']''))) (\<lambda>bs.
                   Inr \<lparr>e_t = t, e_op = ''set'', e_target = ''in'', e_lsb = lsb, e_msb = msb,
                        e_value = bs, e_sim = sim\<rparr>)))
      else if op = ''edge'' then
        (case match_edge arg of
           None \<Rightarrow> err_at n (UndeclaredClock arg)
         | Some (clk, d) \<Rightarrow> Inr (plain_event t ''edge'' clk d sim))
      else if op = ''glbl'' then
        (case match_glbl arg of
           None \<Rightarrow> err_at n (BadGlbl arg [])
         | Some (sig, d) \<Rightarrow> Inr (plain_event t ''glbl'' sig d sim))
      else if op = ''end'' then
        (if arg \<noteq> [] then err_at n EndArgument else Inr (plain_event t ''end'' [] [] sim))
      else Inr (plain_event t op arg [] sim))"

definition parse_event ::
  "vec \<Rightarrow> int \<Rightarrow> string \<Rightarrow> string \<Rightarrow> bool \<Rightarrow> string set \<Rightarrow> nat \<Rightarrow> (event \<times> string set) xres" where
  "parse_event v t op arg sim labels n =
     rbind (operand v t op arg sim n) (\<lambda>e.
     rbind (at_line n (check_event v e labels)) (\<lambda>labels'. Inr (e, labels')))"

text \<open>What \<open>loads\<close> has read so far: the stimulus, the labels, the lines of the events.\<close>

type_synonym parsed = "vec \<times> string set \<times> nat list"

definition parse_line :: "parsed \<Rightarrow> nat \<times> string \<Rightarrow> parsed xres" where
  "parse_line = (\<lambda>(v, labels, lines) (n, raw).
     (let line = strip (strip_comment False raw)
      in if line = [] then Inr (v, labels, lines)
         else (case match_clock line of
           Some c \<Rightarrow>
             rbind (at_line n (check_clock v c (ck_name ` set (v_clocks v)))) (\<lambda>_.
               Inr (v\<lparr>v_clocks := v_clocks v @ [c]\<rparr>, labels, lines))
         | None \<Rightarrow>
             (case match_hw line of
                Some (yes, reason) \<Rightarrow> Inr (v\<lparr>v_hw := Some yes, v_reason := reason\<rparr>, labels, lines)
              | None \<Rightarrow>
                  (case match_event line of
                     None \<Rightarrow> err_at n (Unrecognised (strip raw))
                   | Some (t, sim, op, arg) \<Rightarrow>
                       rbind (parse_event v t op (strip arg) sim labels n) (\<lambda>(e, labels').
                         Inr (v\<lparr>v_events := v_events v @ [e]\<rparr>, labels', lines @ [n])))))))"

definition line_of :: "nat list \<Rightarrow> nat \<Rightarrow> nat option" where
  "line_of ls i = (if i < length ls then Some (ls ! i) else None)"

definition VERSION :: int where
  "VERSION = 2"

definition loads :: "string \<Rightarrow> vec xres" where
  "loads text =
     (case splitlines text of
        [] \<Rightarrow> xerr EmptyFile
      | first # rest \<Rightarrow>
          (case match_header first of
             None \<Rightarrow> err_at 1 BadFirstLine
           | Some (version, kvs) \<Rightarrow>
               if version \<noteq> VERSION then err_at 1 (BadVersion (nat version))
               else
                 (let header = dict_of (map (\<lambda>(k, s). (k, unquote s)) (kv_findall kvs));
                      v = \<lparr>v_header = header, v_clocks = [], v_events = [], v_hw = None, v_reason = []\<rparr>
                  in rbind (at_line 1 (check_header header)) (\<lambda>_.
                     rbind (rfold parse_line (v, {}, []) (zip [2..<length rest + 2] rest))
                       (\<lambda>(v, _, lines).
                     rbind (check_order (v_events v) (line_of lines)) (\<lambda>_. Inr v))))))"

section \<open>The writer\<close>

definition fmt_event :: "event \<Rightarrow> string" where
  "fmt_event e =
     (let head = ''t='' @ show_int (e_t e) @ (if e_sim e then '' simultaneous'' else [])
      in if e_op e = ''set'' then
           head @ ''  set in['' @ range_text (e_msb e) (e_lsb e) @ '']='' @ encode_value (e_value e)
         else if e_op e = ''edge'' then head @ ''  edge '' @ e_target e @ '' '' @ e_value e
         else if e_op e = ''glbl'' then head @ ''  glbl '' @ e_target e @ ''='' @ e_value e
         else if e_op e = ''end'' then head @ ''  end''
         else head @ ''  '' @ e_op e @ '' '' @ e_target e)"

definition fmt_clock :: "clock \<Rightarrow> string" where
  "fmt_clock c =
     ''clock '' @ ck_name c @ '' period='' @ show_int (ck_period c) @ '' phase='' @ show_int (ck_phase c) @
     '' duty='' @ show_int (ck_duty c) @ '' mode='' @ ck_mode c"

definition header_keys :: "(string, string) dict \<Rightarrow> string list" where
  "header_keys h = filter (dict_has h) HEADER_ORDER @
     sort (filter (\<lambda>k. k \<notin> set HEADER_ORDER) (dict_keys h))"

definition fmt_pair :: "(string, string) dict \<Rightarrow> string \<Rightarrow> string xres" where
  "fmt_pair h k =
     rbind (quote (case map_of h k of Some s \<Rightarrow> s | None \<Rightarrow> [])) (\<lambda>q. Inr (k @ ''='' @ q))"

definition fmt_hw :: "vec \<Rightarrow> string list xres" where
  "fmt_hw v =
     (case v_hw v of
        None \<Rightarrow> Inr []
      | Some yes \<Rightarrow>
          if yes then Inr [''hw_renderable yes'']
          else rbind (escape_quoted (v_reason v)) (\<lambda>e.
            Inr [''hw_renderable no reason='' @ [DQ] @ e @ [DQ]]))"

definition dumps :: "vec \<Rightarrow> string xres" where
  "dumps v =
     rbind (rall (\<lambda>(k, _). if is_header_key k then Inr () else xerr (BadHeaderKey k)) (v_header v)) (\<lambda>_.
     rbind (rall (\<lambda>e. if e_op e = ''sample'' \<and> \<not> is_label (e_target e)
                      then xerr (BadLabel (e_target e)) else Inr ()) (v_events v)) (\<lambda>_.
     rbind (rmap (fmt_pair (v_header v)) (header_keys (v_header v))) (\<lambda>kvs.
     rbind (fmt_hw v) (\<lambda>hw.
       Inr (join [LF]
              ([''# xut-vec 2  '' @ join '' '' kvs] @ hw @ map fmt_clock (v_clocks v) @
               map fmt_event (v_events v)) @ [LF])))))"

section \<open>Checking a stimulus in memory\<close>

text \<open>\<open>loads(dumps(vec)) != vec\<close>: dataclass equality, dictionaries in any order.\<close>

definition vec_eq :: "vec \<Rightarrow> vec \<Rightarrow> bool" where
  "vec_eq a b \<longleftrightarrow> dict_eq (v_header a) (v_header b) \<and> v_clocks a = v_clocks b \<and>
     v_events a = v_events b \<and> v_hw a = v_hw b \<and> v_reason a = v_reason b"

definition check_clocks :: "vec \<Rightarrow> unit xres" where
  "check_clocks v = rbind (rfold (\<lambda>names c. check_clock v c names) {} (v_clocks v)) (\<lambda>_. Inr ())"

definition at_event :: "nat \<Rightarrow> 'a xres \<Rightarrow> 'a xres" where
  "at_event i r = (case r of Inl (XvecError m _) \<Rightarrow> xerr (AtEvent (i + 1) m) | Inr a \<Rightarrow> Inr a)"

definition check_events :: "vec \<Rightarrow> unit xres" where
  "check_events v =
     rbind (rfold (\<lambda>labels (i, e). at_event i (check_event v e labels)) {}
              (zip [0..<length (v_events v)] (v_events v))) (\<lambda>_. Inr ())"

definition check_structure :: "vec \<Rightarrow> unit xres" where
  "check_structure v =
     rbind (check_header (v_header v)) (\<lambda>_.
     rbind (check_clocks v) (\<lambda>_.
     rbind (check_events v) (\<lambda>_.
     rbind (check_order (v_events v) (\<lambda>_. None)) (\<lambda>_.
     rbind (dumps v) (\<lambda>text.
     rbind (loads text) (\<lambda>w.
       if vec_eq w v then Inr () else xerr NoRoundTrip))))))"

text \<open>
  \<open>checkable\<close>: the clocks and events no rule refuses on their own, the events in order. A clock
  refused for its numbers or mode has already entered its name in the set.
\<close>

definition keep_clocks :: "vec \<Rightarrow> clock list" where
  "keep_clocks v = fst (fold (\<lambda>c (cs, names).
     case check_clock v c names of
       Inl (XvecError m _) \<Rightarrow>
         (cs, if m = ClockIndex (ck_name c) then names else insert (ck_name c) names)
     | Inr names' \<Rightarrow> (cs @ [c], names'))
     (v_clocks v) ([], {}))"

definition ok_event :: "vec \<Rightarrow> event \<Rightarrow> bool" where
  "ok_event v e \<longleftrightarrow> (case check_event v e {} of Inl _ \<Rightarrow> False | Inr _ \<Rightarrow> True)"

definition checkable :: "vec \<Rightarrow> vec xres" where
  "checkable v =
     rbind (check_header (v_header v)) (\<lambda>_.
       let out = v\<lparr>v_clocks := keep_clocks v, v_events := []\<rparr>
       in Inr (out\<lparr>v_events := sort_key e_t (filter (ok_event out) (v_events v))\<rparr>))"

end
