(* ===== verification/Xvec_Lines.thy ===== *)
theory Xvec_Lines
  imports Xvec_Text
begin

text \<open>
  \<open>loads\<close> reads line by line, so no value it returns has a character \<open>str.splitlines\<close> breaks lines
  at; U+0085 is the one such character \<open>_check_representable\<close> lets through.
\<close>

section \<open>What is read has no line break\<close>

definition nel_free :: "string \<Rightarrow> bool" where
  "nel_free s \<longleftrightarrow> CHR 0x85 \<notin> set s"

definition no_break :: "string \<Rightarrow> bool" where
  "no_break s \<longleftrightarrow> list_all (\<lambda>c. \<not> is_linebreak c) s"

definition nel_free_vec :: "vec \<Rightarrow> bool" where
  "nel_free_vec v \<longleftrightarrow> list_all (\<lambda>(k, s). nel_free s) (v_header v) \<and> nel_free (v_reason v)"

lemma set_takeWhile_sub: "set (takeWhile P s) \<subseteq> set s" "set (dropWhile P s) \<subseteq> set s"
  by (auto dest: set_takeWhileD set_dropWhileD)

lemma splitlines_no_break: "l \<in> set (splitlines s) \<Longrightarrow> no_break l"
proof (induction s rule: splitlines.induct)
  case (1 s)
  let ?t = "takeWhile (\<lambda>c. \<not> is_linebreak c) s" and ?r = "dropWhile (\<lambda>c. \<not> is_linebreak c) s"
  have t: "no_break ?t" by (auto simp: no_break_def list_all_iff dest: set_takeWhileD)
  show ?case
  proof (cases ?r)
    case Nil
    then show ?thesis using 1(2) t by (simp add: splitlines.simps[of s] Let_def del: dropWhile_eq_Nil_conv split: if_split_asm)
  next
    case (Cons c cs)
    then have "s \<noteq> []" by auto
    then have "l = ?t \<or> l \<in> set (splitlines (if c = CR then (case cs of d # ds \<Rightarrow> if d = LF then ds else cs | [] \<Rightarrow> []) else cs))"
      using 1(2) Cons by (simp add: splitlines.simps[of s])
    then show ?thesis using 1(1)[OF \<open>s \<noteq> []\<close> refl refl Cons] t by blast
  qed
qed

lemma replace2_sub: "set (replace2 a b [b] s) \<subseteq> set s"
  by (induction a b "[b]" s rule: replace2.induct) auto

lemma unquote_sub: "set (unquote v) \<subseteq> set v"
proof -
  have "set (butlast (tl v)) \<subseteq> set v" by (cases v) (auto dest!: in_set_butlastD)
  moreover have "set (replace2 BSL BSL [BSL] (replace2 BSL DQ [DQ] u)) \<subseteq> set u" for u
    by (rule order_trans[OF replace2_sub replace2_sub])
  ultimately have q: "set (replace2 BSL BSL [BSL] (replace2 BSL DQ [DQ] (butlast (tl v)))) \<subseteq> set v" by (rule order_trans[rotated])
  show ?thesis unfolding unquote_def by (simp add: q)
qed

lemma quoted_body_sub: "quoted_body s = Some (b, r) \<Longrightarrow> set b \<subseteq> set s \<and> set r \<subseteq> set s \<and> DQ \<in> set s"
proof (induction s arbitrary: b r rule: quoted_body.induct)
  case (2 c cs)
  show ?case
  proof (cases "c = DQ")
    case True
    then show ?thesis using 2(3) by auto
  next
    case nq: False
    show ?thesis
    proof (cases "c = BSL")
      case True
      then obtain d ds b' where d: "cs = d # ds" "d \<noteq> LF" "quoted_body ds = Some (b', r)" "b = c # d # b'"
        using 2(3) nq by (auto simp: obind_def split: list.splits if_splits option.splits)
      from 2(1)[OF nq True d(1,2,3)] show ?thesis using d(1,4) by auto
    next
      case False
      then obtain b' where d: "quoted_body cs = Some (b', r)" "b = c # b'"
        using 2(3) nq by (auto simp: obind_def split: option.splits)
      from 2(2)[OF nq False d(1)] show ?thesis using d(2) by auto
    qed
  qed
qed simp

lemma kv_value_sub: "kv_value s = Some (v, r) \<Longrightarrow> set v \<subseteq> set s \<and> set r \<subseteq> set s"
  using set_takeWhile_sub quoted_body_sub
  by (fastforce simp: kv_value_def nonspace1_def span_def Let_def split: list.split_asm if_split_asm option.split_asm)

lemma kv_at_sub: "kv_at s = Some ((k, v), r) \<Longrightarrow> set v \<subseteq> set s \<and> set r \<subseteq> set s"
proof (cases s)
  case (Cons c cs)
  assume a: "kv_at s = Some ((k, v), r)"
  let ?r = "dropWhile (\<lambda>d. is_word d \<or> d = CHR ''.'') cs"
  obtain q where q: "drop_prefix ''='' ?r = Some q" "kv_value q = Some (v, r)"
    using a Cons by (auto simp: kv_at_def span_def obind_def Let_def split: if_splits option.splits)
  have "set q \<subseteq> set ?r" using q(1) by (auto simp: drop_prefix_def split: if_splits dest: in_set_dropD)
  then show ?thesis using kv_value_sub[OF q(2)] set_takeWhile_sub(2)[of _ cs] Cons by fastforce
qed (simp add: kv_at_def)

lemma kv_findall_sub: "(k, v) \<in> set (kv_findall s) \<Longrightarrow> set v \<subseteq> set s"
proof (induction s rule: kv_findall.induct)
  case (1 s)
  show ?case
  proof (cases s)
    case (Cons c cs)
    show ?thesis
    proof (cases "kv_at s")
      case None
      then have "kv_findall s = kv_findall cs" using Cons by (subst kv_findall.simps) simp
      then show ?thesis using 1 None Cons by auto
    next
      case (Some x)
      obtain k' v' rest where x: "x = ((k', v'), rest)" by (cases x) auto
      have "kv_findall s = (k', v') # kv_findall rest" using Cons Some x by (subst kv_findall.simps) simp
      then have "(k, v) = (k', v') \<or> (k, v) \<in> set (kv_findall rest)" using 1(3) by simp
      moreover have "(k, v) \<in> set (kv_findall rest) \<Longrightarrow> set v \<subseteq> set rest" using 1(2) Cons Some x by blast
      ultimately show ?thesis using kv_at_sub[OF Some[unfolded x]] by blast
    qed
  qed (use 1(3) in \<open>simp add: kv_findall.simps\<close>)
qed

lemma obind_Some_iff: "obind x f = Some y \<longleftrightarrow> (\<exists>a. x = Some a \<and> f a = Some y)"
  by (cases x) (simp_all add: obind_def)

lemma drop_prefix_sub: "drop_prefix p s = Some r \<Longrightarrow> set r \<subseteq> set s"
  by (auto simp: drop_prefix_def split: if_split_asm dest: in_set_dropD)

lemma spaces1_sub: "spaces1 s = Some r \<Longrightarrow> set r \<subseteq> set s"
  by (auto simp: spaces1_def split: list.split_asm if_split_asm dest: set_dropWhileD)

lemma digits1_sub: "digits1 s = Some (n, r) \<Longrightarrow> set r \<subseteq> set s"
  by (auto simp: digits1_def digits_text_def obind_Some_iff span_def Let_def split: if_split_asm option.split_asm dest: set_dropWhileD)

lemma match_header_sub: "match_header s = Some (n, r) \<Longrightarrow> set r \<subseteq> set s"
  by (auto simp: match_header_def obind_Some_iff split: if_split_asm
    dest!: drop_prefix_sub spaces1_sub digits1_sub set_dropWhileD subsetD)

lemma match_hw_sub: "match_hw s = Some (y, r) \<Longrightarrow> set r \<subseteq> insert DQ (set s)"
proof -
  assume "match_hw s = Some (y, r)"
  then consider "r = []" | s1 s2 s3 s4 s5 b where "drop_prefix ''hw_renderable'' s = Some s1" "spaces1 s1 = Some s2"
    "drop_prefix ''no'' s2 = Some s3" "spaces1 s3 = Some s4" "drop_prefix (''reason='' @ [DQ]) s4 = Some s5"
    "quoted_body s5 = Some (b, [])" "r = unquote (DQ # b @ [DQ])"
    by (auto simp: match_hw_def obind_Some_iff split: if_split_asm)
  then show ?thesis
  proof cases
    case 2
    have "set b \<subseteq> set s"
      using drop_prefix_sub[OF 2(1)] spaces1_sub[OF 2(2)] drop_prefix_sub[OF 2(3)] spaces1_sub[OF 2(4)]
        drop_prefix_sub[OF 2(5)] quoted_body_sub[OF 2(6)] by blast
    then show ?thesis using unquote_sub[of "DQ # b @ [DQ]"] 2(7) by auto
  qed simp
qed

lemma strip_comment_sub: "set (strip_comment q s) \<subseteq> set s"
proof (induction q s rule: strip_comment.induct)
  case (2 q c cs)
  show ?case
  proof (cases "c = BSL \<and> q")
    case True
    show ?thesis
    proof (cases cs)
      case (Cons d ds)
      then show ?thesis using 2(1)[OF True Cons] True by auto
    qed (use True in simp)
  next
    case False
    then show ?thesis using 2(2,3) by auto
  qed
qed simp

lemma strip_sub: "set (strip s) \<subseteq> set s"
  by (auto simp: strip_def rstrip_def lstrip_def dest!: set_dropWhileD)

lemma nel_break: "no_break s \<Longrightarrow> nel_free s"
proof -
  have "is_linebreak (CHR 0x85)" by code_simp
  then show "no_break s \<Longrightarrow> nel_free s" by (auto simp: no_break_def nel_free_def list_all_iff)
qed

lemma nel_sub: "nel_free s \<Longrightarrow> set r \<subseteq> insert DQ (set s) \<Longrightarrow> nel_free r"
  by (auto simp: nel_free_def)

lemma dict_of_sub: "set (dict_of ps) \<subseteq> set ps"
proof -
  have up: "set (AList.update k v d) \<subseteq> insert (k, v) (set d)" for k :: 'a and v :: 'b and d by (induction d) auto
  have "set (fold (\<lambda>(k, v) d. AList.update k v d) qs d) \<subseteq> set qs \<union> set d" for qs :: "('a \<times> 'b) list" and d
  proof (induction qs arbitrary: d)
    case (Cons q qs)
    then show ?case using up[of "fst q" "snd q" d] Cons[of "AList.update (fst q) (snd q) d"] by (cases q) auto
  qed simp
  then show ?thesis unfolding dict_of_def by (metis empty_set sup_bot_right)
qed

lemma parse_line_nel:
  assumes "parse_line (w, l, ls) (n, raw) = Inr (w', l', ls')" and "nel_free raw" and "nel_free (v_reason w)"
  shows "nel_free (v_reason w') \<and> v_header w' = v_header w"
proof -
  let ?l = "strip (strip_comment False raw)"
  have "nel_free r" if "match_hw ?l = Some (y, r)" for y r
    using match_hw_sub[OF that] strip_comment_sub[of False raw] strip_sub[of "strip_comment False raw"]
    by (intro nel_sub[OF assms(2)]) blast
  then show ?thesis using assms(1,3)
    by (auto simp: parse_line_def Let_def rbind_Inr_iff err_at_def split: if_split_asm option.split_asm)
qed

lemma loads_nel_free:
  assumes "loads tx = Inr v"
  shows "nel_free_vec v"
proof -
  obtain first rest where 1: "splitlines tx = first # rest"
    using assms by (cases "splitlines tx") (auto simp: loads_def)
  have nel: "nel_free l" if "l \<in> set (first # rest)" for l
    using splitlines_no_break[of l tx] that 1 by (auto intro!: nel_break)
  obtain kvs where 2: "match_header first = Some (VERSION, kvs)"
    using assms 1 by (auto simp: loads_def err_at_def split: option.splits if_splits)
  define h where "h = dict_of (map (\<lambda>(k, s). (k, unquote s)) (kv_findall kvs))"
  let ?w = "\<lparr>v_header = h, v_clocks = [], v_events = [], v_hw = None, v_reason = []\<rparr>"
  obtain w l ls where 3: "rfold parse_line (?w, {}, []) (zip [2..<length rest + 2] rest) = Inr (w, l, ls)" "v = w"
    using assms 1 2 by (auto simp: loads_def Let_def h_def rbind_Inr_iff simp del: upt_Suc)
  let ?I = "\<lambda>(u, _, _). nel_free (v_reason u) \<and> v_header u = h"
  have "?I (w, l, ls)"
  proof (rule rfold_invariant[OF 3(1)])
    show "?I (?w, {}, [])" by (simp add: nel_free_def)
  next
    fix s x s' assume s: "?I s" "x \<in> set (zip [2..<length rest + 2] rest)" "parse_line s x = Inr s'"
    obtain u a b where e: "s = (u, a, b)" by (cases s)
    obtain n raw where f: "x = (n, raw)" by (cases x)
    have "nel_free raw" using set_zip_rightD[OF s(2)[unfolded f]] nel by simp
    obtain u' a' b' where g: "s' = (u', a', b')" by (cases s')
    show "?I s'" using parse_line_nel[OF s(3)[unfolded e f g]] s(1) \<open>nel_free raw\<close> by (simp add: e f g)
  qed
  moreover have "nel_free s" if mem: "(k, s) \<in> set h" for k s
  proof -
    obtain q where q: "(k, q) \<in> set (kv_findall kvs)" "s = unquote q" using subsetD[OF dict_of_sub mem[unfolded h_def]] by auto
    have "set s \<subseteq> set first" using q(2) unquote_sub kv_findall_sub[OF q(1)] match_header_sub[OF 2] by blast
    then show ?thesis using nel[of first] by (auto simp: nel_free_def)
  qed
  ultimately show ?thesis using 3(2) by (auto simp: nel_free_vec_def list_all_iff)
qed

end
