(* ===== verification/Xvec_RoundTrip.thy ===== *)
theory Xvec_RoundTrip
  imports Xvec_Lines
begin

text \<open>
  What \<open>dumps\<close> writes, \<open>loads\<close> reads: each matcher on the line the writer makes, each
  line through the parser, the whole file; then what the parser guarantees of any text it
  accepts, and what \<open>check_structure\<close> decides.
\<close>

section \<open>The matchers on what the writer writes\<close>

lemma show_int_nat: "0 \<le> i \<Longrightarrow> show_int i = show_nat (nat i)"
  by (simp add: show_int_def)

lemma digits_text_show:
  "rest = [] \<or> \<not> is_digit (hd rest) \<Longrightarrow> digits_text (show_nat n @ rest) = Some (show_nat n, rest)"
  by (subst digits_text_def, subst span_append) (auto simp: show_nat_digits)

lemma digits1_show:
  "rest = [] \<or> \<not> is_digit (hd rest) \<Longrightarrow> digits1 (show_nat n @ rest) = Some (int n, rest)"
  by (simp add: digits1_def digits_text_show)

lemma spaces1_one: "s = [] \<or> \<not> is_space (hd s) \<Longrightarrow> spaces1 (CHR '' '' # s) = Some s"
  by (cases s) (auto simp: spaces1_def is_space_def)

lemma spaces1_two: "s = [] \<or> \<not> is_space (hd s) \<Longrightarrow> spaces1 (CHR '' '' # CHR '' '' # s) = Some s"
  by (cases s) (auto simp: spaces1_def is_space_def)

lemma space_not_digit [simp]: "\<not> is_digit CHR '' ''" "is_space CHR '' ''" "\<not> is_word CHR '' ''"
  by (simp_all add: char_class_defs)

lemma show_nat_hd: "show_nat n \<noteq> [] \<and> is_digit (hd (show_nat n))"
  using show_nat_digits[of "hd (show_nat n)" n] by simp

lemma int_field_show:
  assumes "name \<noteq> []" "\<not> is_space (hd name)" "rest = [] \<or> \<not> is_digit (hd rest)"
  shows "int_field name (CHR '' '' # name @ show_nat n @ rest) = Some (int n, rest)"
  using assms spaces1_one[of "name @ show_nat n @ rest"]
  by (simp add: int_field_def digits1_show hd_append)

lemma match_header_dumps: "match_header (''# xut-vec 2  '' @ s) = Some (2, ''  '' @ s)"
proof -
  have "dropWhile is_space ('' xut-vec 2  '' @ s) = ''xut-vec 2  '' @ s"
    by (simp add: is_space_def)
  moreover have "drop_prefix ''#'' (''# xut-vec 2  '' @ s) = Some ('' xut-vec 2  '' @ s)"
    "drop_prefix ''xut-vec'' (''xut-vec 2  '' @ s) = Some ('' 2  '' @ s)"
    by (simp_all add: drop_prefix_def starts_with_def)
  moreover have "spaces1 ('' 2  '' @ s) = Some (''2  '' @ s)"
    by (simp add: spaces1_def is_space_def)
  moreover have "digits1 (''2  '' @ s) = Some (2, ''  '' @ s)"
    by (simp add: digits1_def digits_text_def span_def is_digit_def parse_base_def digit_val_def Let_def)
  ultimately show ?thesis by (simp add: match_header_def)
qed

lemma quoted_body_esc:
  "quoted_body (concat (map esc v) @ DQ # rest) = Some (concat (map esc v), rest)"
  by (induction v) (auto simp: esc_def)

lemma kv_value_quote:
  assumes "quote v = Inr q" "rest = [] \<or> is_space (hd rest)"
  shows "kv_value (q @ rest) = Some (q, rest)"
proof (cases "q = DQ # concat (map esc v) @ [DQ]")
  case True
  then show ?thesis using quoted_body_esc[of v rest] by (simp add: kv_value_def)
next
  case False
  then have q: "q = v" "v \<noteq> []" "\<not> needs_quote v" using quote_cases[OF assms(1)] by blast+
  then have ns: "\<forall>c \<in> set v. \<not> is_space c" "hd v \<noteq> DQ"
    by (auto simp: needs_quote_def list_ex_iff hd_in_set)
  have "span (\<lambda>c. \<not> is_space c) (v @ rest) = (v, rest)"
    using ns(1) assms(2) by (intro span_append) auto
  then have "nonspace1 (v @ rest) = Some (v, rest)" using q(2) by (simp add: nonspace1_def)
  then show ?thesis using q ns(2) by (cases v) (simp_all add: kv_value_def)
qed

lemma header_key_span:
  assumes "is_header_key k"
  shows "kv_at (k @ CHR ''='' # s) = obind (kv_value s) (\<lambda>(v, rest). Some ((k, v), rest))"
proof (cases k)
  case (Cons c cs)
  have cs: "name_start c" "\<forall>d \<in> set cs. is_word d \<or> d = CHR ''.''"
    using assms Cons name_start_word is_digit_word by (auto simp: is_header_key_def list_all_iff)
  have "\<not> (is_word CHR ''='' \<or> CHR ''='' = CHR ''.'')" by (simp add: char_class_defs)
  then have "span (\<lambda>d. is_word d \<or> d = CHR ''.'') (cs @ CHR ''='' # s) = (cs, CHR ''='' # s)"
    using cs(2) by (intro span_append) auto
  then show ?thesis using cs(1) Cons drop_prefix_append[of "''=''" s] by (simp add: kv_at_def)
qed (use assms in \<open>simp add: is_header_key_def\<close>)

lemma kv_findall_space: "kv_findall (CHR '' '' # s) = kv_findall s"
proof -
  have "kv_at (CHR '' '' # s) = None" by (simp add: kv_at_def name_start_def char_class_defs)
  then show ?thesis by (subst kv_findall.simps) simp
qed

lemma kv_findall_pair:
  assumes "is_header_key k" "quote v = Inr q" "rest = [] \<or> is_space (hd rest)"
  shows "kv_findall (k @ ''='' @ q @ rest) = (k, q) # kv_findall rest"
proof -
  have at: "kv_at (k @ ''='' @ q @ rest) = Some ((k, q), rest)"
    using header_key_span[OF assms(1), of "q @ rest"] kv_value_quote[OF assms(2,3)] by simp
  obtain c cs where "k @ ''='' @ q @ rest = c # cs" by (cases "k @ ''='' @ q @ rest") auto
  then show ?thesis using at by (subst kv_findall.simps) simp
qed

lemma kv_findall_dumps:
  assumes "list_all2 (\<lambda>(k, v) s. is_header_key k \<and> (\<exists>q. quote v = Inr q \<and> s = k @ ''='' @ q)) kvs ss"
  shows "map (\<lambda>(k, s). (k, unquote s)) (kv_findall (join '' '' ss)) = kvs"
  using assms
proof (induction rule: list_all2_induct)
  case Nil
  then show ?case by (simp add: kv_findall.simps)
next
  case (Cons kv kvs s ss)
  obtain k v q where kv: "kv = (k, v)" "is_header_key k" "quote v = Inr q" "s = k @ ''='' @ q"
    using Cons(1) by auto
  show ?case
  proof (cases "ss = []")
    case True
    then have "kvs = []" using Cons(2) by simp
    moreover have "kv_findall s = (k, q) # kv_findall []"
      using kv_findall_pair[OF kv(2,3), of "[]"] kv(4) by simp
    moreover have "kv_findall [] = []" by (simp add: kv_findall.simps)
    ultimately show ?thesis using True kv unquote_quote[OF kv(3)] by simp
  next
    case False
    have "kv_findall (join '' '' (s # ss)) = (k, q) # kv_findall ('' '' @ join '' '' ss)"
      using kv_findall_pair[OF kv(2,3), of "'' '' @ join '' '' ss"] kv(4) False by (simp add: join_Cons)
    then show ?thesis using Cons(3) kv unquote_quote[OF kv(3)] by (simp add: kv_findall_space)
  qed
qed

lemma match_clock_fmt:
  assumes "check_clock v c names = Inr names'"
  shows "match_clock (fmt_clock c) = Some c"
proof -
  have c: "ck_name c = ''clk'' @ show_int (ck_index c)" "0 \<le> ck_index c" "0 < ck_period c" "0 < ck_duty c"
    "0 \<le> ck_phase c" "ck_mode c = ''stepped'' \<or> ck_mode c = ''free''"
    using assms by (auto simp: check_clock_def split: if_splits)
  let ?i = "nat (ck_index c)" and ?p = "nat (ck_period c)" and ?h = "nat (ck_phase c)" and ?d = "nat (ck_duty c)"
  let ?m = "'' '' @ ''mode='' @ ck_mode c"
  let ?du = "'' '' @ ''duty='' @ show_nat ?d @ ?m"
  let ?ph = "'' '' @ ''phase='' @ show_nat ?h @ ?du"
  let ?pe = "'' '' @ ''period='' @ show_nat ?p @ ?ph"
  have f: "fmt_clock c = ''clock'' @ '' '' @ ''clk'' @ show_nat ?i @ ?pe"
    using c by (simp add: fmt_clock_def show_int_nat)
  have 1: "drop_prefix ''clock'' (fmt_clock c) = Some ('' '' @ ''clk'' @ show_nat ?i @ ?pe)"
    unfolding f by (rule drop_prefix_append)
  have 2: "spaces1 ('' '' @ ''clk'' @ show_nat ?i @ ?pe) = Some (''clk'' @ show_nat ?i @ ?pe)"
    by (simp add: spaces1_def is_space_def)
  have 3: "digits_text (show_nat ?i @ ?pe) = Some (show_nat ?i, ?pe)"
    "digits1 (show_nat ?i @ ?pe) = Some (int ?i, ?pe)"
    by (simp_all add: digits_text_show digits1_show)
  have 4: "int_field ''period='' ?pe = Some (int ?p, ?ph)"
    using int_field_show[of "''period=''" ?ph ?p] by (simp add: is_space_def)
  have 5: "int_field ''phase='' ?ph = Some (int ?h, ?du)"
    using int_field_show[of "''phase=''" ?du ?h] by (simp add: is_space_def)
  have 6: "int_field ''duty='' ?du = Some (int ?d, ?m)"
    using int_field_show[of "''duty=''" ?m ?d] by (simp add: is_space_def)
  have 7: "spaces1 ?m = Some (''mode='' @ ck_mode c)" by (simp add: spaces1_def is_space_def)
  show ?thesis
    unfolding match_clock_def 1 obind_simps 2 drop_prefix_append 3 prod.case 4 5 6 7
    using c by (auto simp: show_int_nat)
qed

definition event_ops :: "string list" where
  "event_ops = [''set'', ''edge'', ''glbl'', ''sample'', ''clock_start'', ''clock_stop'', ''end'']"

lemma is_word_az: "is_alpha_az c \<Longrightarrow> is_word c" "is_word US"
  by (auto simp: is_word_def char_class_defs)

lemma event_ops_word: "op \<in> set event_ops \<Longrightarrow> op \<noteq> [] \<and> list_all is_word op \<and> \<not> is_space (hd op)"
  by (auto simp: event_ops_def is_word_def char_class_defs)

lemma event_ops_not_sim:
  "op \<in> set event_ops \<Longrightarrow> drop_prefix ''simultaneous'' (op @ s) = None"
  by (auto simp: event_ops_def drop_prefix_def starts_with_def)

lemma match_op_word:
  assumes "op \<in> set event_ops" "tail = [] \<or> (\<exists>a. tail = '' '' @ a)"
  shows "match_op (op @ tail) = Some (op, dropWhile is_space tail)"
proof -
  have "span is_word (op @ tail) = (op, tail)"
    using event_ops_word[OF assms(1)] assms(2) by (intro span_append) (auto simp: list_all_iff)
  then show ?thesis using event_ops_word[OF assms(1)] assms(2) by (auto simp: match_op_def)
qed

lemma match_event_fmt:
  assumes "op \<in> set event_ops" "tail = [] \<or> (\<exists>a. tail = '' '' @ a)"
  shows "match_event (''t='' @ show_nat t @ (if sim then '' simultaneous'' else []) @ ''  '' @ op @ tail) =
    Some (int t, sim, op, dropWhile is_space tail)"
proof -
  let ?s = "(if sim then '' simultaneous'' else []) @ ''  '' @ op @ tail"
  note w = event_ops_word[OF assms(1)]
  have hd: "\<not> is_space (hd (op @ tail))" using w by simp
  have 1: "drop_prefix ''t='' (''t='' @ show_nat t @ ?s) = Some (show_nat t @ ?s)" by (rule drop_prefix_append)
  have 2: "digits1 (show_nat t @ ?s) = Some (int t, ?s)" by (simp add: digits1_show)
  have two: "spaces1 (''  '' @ op @ tail) = Some (op @ tail)" using hd spaces1_two by simp
  note m = match_op_word[OF assms]
  show ?thesis
  proof (cases sim)
    case True
    then have "spaces1 ?s = Some (''simultaneous'' @ ''  '' @ op @ tail)"
      by (simp add: spaces1_def is_space_def)
    then show ?thesis unfolding match_event_def 1 obind_simps 2 prod.case
      using True two m by (simp only: obind_simps drop_prefix_append) simp
  next
    case False
    then have "spaces1 ?s = Some (op @ tail)" using two by simp
    then show ?thesis unfolding match_event_def 1 obind_simps 2 prod.case
      using False m event_ops_not_sim[OF assms(1)] by (simp only: obind_simps) simp
  qed
qed

lemma match_set_range:
  assumes "0 \<le> lsb" "lsb \<le> msb" "enc \<noteq> []" "list_all (\<lambda>c. \<not> is_space c) enc"
  shows "match_set (''in['' @ range_text msb lsb @ '']='' @ enc) =
    Some (msb, (if msb = lsb then None else Some lsb), enc)"
proof -
  have m: "show_int msb = show_nat (nat msb)" "show_int lsb = show_nat (nat lsb)"
    using assms by (simp_all add: show_int_nat)
  have nd: "\<not> is_digit (CHR '']'')" "\<not> is_digit (CHR '':'')" by (simp_all add: is_digit_def)
  have np: "drop_prefix '':'' ('']='' @ enc) = None" by (simp add: drop_prefix_def starts_with_def)
  show ?thesis
  proof (cases "msb = lsb")
    case True
    then have r: "range_text msb lsb = show_nat (nat msb)" by (simp add: range_text_def m)
    have d: "digits1 (show_nat (nat msb) @ '']='' @ enc) = Some (msb, '']='' @ enc)"
      using digits1_show[of "'']='' @ enc" "nat msb"] assms nd by simp
    show ?thesis unfolding r match_set_def drop_prefix_append obind_simps d prod.case np option.case
      using True assms by simp
  next
    case False
    then have r: "range_text msb lsb = show_nat (nat msb) @ '':'' @ show_nat (nat lsb)"
      by (simp add: range_text_def m)
    have d: "digits1 (show_nat (nat msb) @ '':'' @ show_nat (nat lsb) @ '']='' @ enc) =
        Some (msb, '':'' @ show_nat (nat lsb) @ '']='' @ enc)"
      "digits1 (show_nat (nat lsb) @ '']='' @ enc) = Some (lsb, '']='' @ enc)"
      using digits1_show[of "'':'' @ show_nat (nat lsb) @ '']='' @ enc" "nat msb"]
        digits1_show[of "'']='' @ enc" "nat lsb"] assms nd by simp_all
    show ?thesis unfolding r match_set_def append_assoc drop_prefix_append obind_simps d prod.case option.case
      using False assms by simp
  qed
qed

lemma match_edge_fmt:
  assumes "0 \<le> i" "d = ''r'' \<or> d = ''f''"
  shows "match_edge ((''clk'' @ show_int i) @ '' '' @ d) = Some (''clk'' @ show_int i, d)"
proof -
  have i: "show_int i = show_nat (nat i)" using assms by (simp add: show_int_nat)
  have "digits_text (show_nat (nat i) @ '' '' @ d) = Some (show_nat (nat i), '' '' @ d)"
    by (rule digits_text_show) simp
  moreover have "spaces1 ('' '' @ d) = Some d" using assms(2) by (auto simp: spaces1_def is_space_def)
  ultimately show ?thesis unfolding i match_edge_def append_assoc drop_prefix_append obind_simps
    using assms(2) by auto
qed

lemma match_glbl_fmt:
  assumes "sig \<in> {''GSR'', ''GTS'', ''GRESTORE''}" "d = ''0'' \<or> d = ''1''"
  shows "match_glbl (sig @ ''='' @ d) = Some (sig, d)"
proof -
  have "span (\<lambda>c. c \<noteq> CHR ''='') (sig @ ''='' @ d) = (sig, ''='' @ d)"
    using assms(1) by (intro span_append) auto
  then show ?thesis using assms by (auto simp: match_glbl_def)
qed

section \<open>Tokens and lines\<close>

definition plain_char :: "char \<Rightarrow> bool" where
  "plain_char c \<longleftrightarrow> \<not> is_space c \<and> c \<noteq> CHR ''#'' \<and> c \<noteq> DQ"

definition tok :: "string \<Rightarrow> bool" where
  "tok s \<longleftrightarrow> list_all plain_char s"

definition body_line :: "string \<Rightarrow> bool" where
  "body_line s \<longleftrightarrow> list_all (\<lambda>c. plain_char c \<or> c = CHR '' '') s"

lemma tok_append [simp]: "tok (a @ b) \<longleftrightarrow> tok a \<and> tok b" "tok []" "tok (c # s) \<longleftrightarrow> plain_char c \<and> tok s"
  by (simp_all add: tok_def)

lemma body_append [simp]:
  "body_line (a @ b) \<longleftrightarrow> body_line a \<and> body_line b" "body_line []"
  "body_line (c # s) \<longleftrightarrow> (plain_char c \<or> c = CHR '' '') \<and> body_line s"
  by (simp_all add: body_line_def)

lemma tok_body: "tok s \<Longrightarrow> body_line s"
  by (auto simp: tok_def body_line_def list_all_iff)

lemma tok_nonspace: "tok s \<Longrightarrow> list_all (\<lambda>c. \<not> is_space c) s"
  by (auto simp: tok_def plain_char_def list_all_iff)

lemma plain_alnum: "is_alpha_az c \<or> is_digit c \<Longrightarrow> plain_char c"
  by (auto simp: plain_char_def char_class_defs Let_def)

lemma show_base_alnum: "b \<le> 16 \<Longrightarrow> list_all (\<lambda>c. is_alpha_az c \<or> is_digit c) (show_base b n)"
proof (induction n rule: less_induct)
  case (less n)
  have d: "is_alpha_az (digit_chr k) \<or> is_digit (digit_chr k)" if "k < 16" for k
    using that by (auto simp: digit_chr_def char_class_defs)
  show ?case
  proof (cases "b < 2 \<or> n < b")
    case True
    then show ?thesis using d less.prems by (subst show_base.simps) auto
  next
    case False
    then have "n div b < n" by (cases n) auto
    moreover have "n mod b < 16" using less.prems False mod_less_divisor[of b n] by linarith
    ultimately show ?thesis using less False d by (subst show_base.simps) simp
  qed
qed

lemma tok_show_base: "b \<le> 16 \<Longrightarrow> tok (show_base b n)"
  unfolding tok_def using show_base_alnum plain_alnum by (metis (mono_tags, lifting) list.pred_mono_strong)

lemma tok_show [simp]: "tok (show_nat n)" "tok (show_int i)"
  by (simp_all add: show_nat_def show_int_def tok_show_base plain_char_def is_space_def)

lemma tok_label: "is_label s \<Longrightarrow> tok s"
  using label_plain[of s] unfolding tok_def plain_char_def list_all_iff by simp

lemma tok_bits: "list_all bit01xz s \<Longrightarrow> tok s"
proof -
  have "plain_char c" if "bit01xz c" for c using that by (auto simp: plain_char_def bit01xz_def is_space_def)
  then show "list_all bit01xz s \<Longrightarrow> tok s" by (simp add: tok_def list_all_iff)
qed

lemma tok_encode:
  assumes "list_all bit01xz bs" "bs \<noteq> []"
  shows "tok (encode_value bs) \<and> encode_value bs \<noteq> []"
  using tok_bits[OF assms(1)] tok_show_base[of 16] assms(2)
  by (auto simp: encode_value_def plain_char_def is_space_def)

lemma tok_range: "tok (range_text msb lsb)"
  by (simp add: range_text_def plain_char_def is_space_def)

lemma body_strip_comment: "body_line s \<Longrightarrow> strip_comment False s = s"
  using strip_comment_plain[of s "[]"]
  by (auto simp: body_line_def plain_char_def list_all_iff)

lemma tight_append:
  "a \<noteq> [] \<Longrightarrow> \<not> is_space (hd a) \<Longrightarrow> b \<noteq> [] \<Longrightarrow> \<not> is_space (last b) \<Longrightarrow> tight (a @ b)"
  by (simp add: tight_def)

lemma tok_ends: "tok s \<Longrightarrow> s \<noteq> [] \<Longrightarrow> \<not> is_space (hd s) \<and> \<not> is_space (last s)"
  by (auto simp: tok_def plain_char_def list_all_iff)

lemma tok_tight: "tok s \<Longrightarrow> tight s"
  using tok_ends by (auto simp: tight_def)

lemma body_no_break: "body_line s \<Longrightarrow> list_all (\<lambda>c. \<not> is_linebreak c) s"
proof -
  have "\<not> is_linebreak c" if "plain_char c \<or> c = CHR '' ''" for c
    using that is_linebreak_space[of c] by (auto simp: plain_char_def is_linebreak_def)
  then show "body_line s \<Longrightarrow> list_all (\<lambda>c. \<not> is_linebreak c) s"
    by (simp add: body_line_def list_all_iff)
qed

section \<open>Events\<close>

definition canon_event :: "event \<Rightarrow> bool" where
  "canon_event e \<longleftrightarrow> e_op e = ''set'' \<or> (e_lsb e = 0 \<and> e_msb e = 0)"

definition clock_names :: "vec \<Rightarrow> bool" where
  "clock_names v \<longleftrightarrow> list_all (\<lambda>c. ck_name c = ''clk'' @ show_int (ck_index c) \<and> 0 \<le> ck_index c) (v_clocks v)"

definition event_arg :: "event \<Rightarrow> string" where
  "event_arg e =
     (if e_op e = ''set'' then ''in['' @ range_text (e_msb e) (e_lsb e) @ '']='' @ encode_value (e_value e)
      else if e_op e = ''edge'' then e_target e @ '' '' @ e_value e
      else if e_op e = ''glbl'' then e_target e @ ''='' @ e_value e
      else if e_op e = ''end'' then [] else e_target e)"

lemma fmt_event_arg:
  assumes "0 \<le> e_t e"
  shows "fmt_event e = ''t='' @ show_nat (nat (e_t e)) @ (if e_sim e then '' simultaneous'' else []) @
    ''  '' @ e_op e @ (if e_op e = ''end'' then [] else '' '' @ event_arg e)"
  using assms by (simp add: fmt_event_def event_arg_def show_int_nat Let_def)

lemma check_event_general:
  assumes "check_event v e labels = Inr l"
  shows "0 \<le> e_t e \<and> e_op e \<in> set event_ops"
  using assms by (simp add: check_event_def event_ops_def Let_def split: if_split_asm) auto

lemma check_event_set:
  assumes "check_event v e labels = Inr l" "e_op e = ''set''"
  shows "e_target e = ''in'' \<and> e_lsb e \<le> e_msb e \<and> 0 \<le> e_lsb e \<and> e_msb e < hint v ''nin'' \<and>
    length (e_value e) = nat (e_msb e - e_lsb e + 1) \<and> list_all bit01xz (e_value e) \<and> l = labels"
  using assms by (simp add: check_event_def Let_def split: if_split_asm)

lemma check_event_novalue:
  assumes "check_event v e labels = Inr l" "e_op e \<noteq> ''set''" "e_op e \<noteq> ''edge''" "e_op e \<noteq> ''glbl''"
  shows "e_value e = []"
  using assms by (simp add: check_event_def Let_def split: if_split_asm)

lemma check_event_edge:
  assumes "check_event v e labels = Inr l" "e_op e = ''edge''"
  shows "e_target e \<in> ck_name ` set (v_clocks v) \<and> (e_value e = ''r'' \<or> e_value e = ''f'') \<and> l = labels"
  using assms by (simp add: check_event_def Let_def split: if_split_asm)

lemma check_event_glbl:
  assumes "check_event v e labels = Inr l" "e_op e = ''glbl''"
  shows "e_target e \<in> {''GSR'', ''GTS'', ''GRESTORE''} \<and> (e_value e = ''0'' \<or> e_value e = ''1'') \<and> l = labels"
  using assms by (simp add: check_event_def Let_def split: if_split_asm)

lemma check_event_sample:
  assumes "check_event v e labels = Inr l" "e_op e = ''sample''"
  shows "is_label (e_target e)"
  using assms by (simp add: check_event_def Let_def split: if_split_asm)

lemma check_event_startstop:
  assumes "check_event v e labels = Inr l" "e_op e = ''clock_start'' \<or> e_op e = ''clock_stop''"
  shows "e_target e \<in> ck_name ` set (v_clocks v)"
proof -
  have "list_ex (\<lambda>c. ck_name c = e_target e \<and> ck_mode c = ''free'') (v_clocks v)"
    using assms(2)
  proof
    assume "e_op e = ''clock_start''"
    then show ?thesis using assms(1) by (simp add: check_event_def Let_def split: if_split_asm)
  next
    assume "e_op e = ''clock_stop''"
    then show ?thesis using assms(1) by (simp add: check_event_def Let_def split: if_split_asm)
  qed
  then obtain c where "c \<in> set (v_clocks v)" "ck_name c = e_target e" by (auto simp: list_ex_iff)
  then show ?thesis by (metis imageI)
qed

lemma check_event_end:
  assumes "check_event v e labels = Inr l" "e_op e = ''end''"
  shows "e_target e = []"
  using assms by (simp add: check_event_def Let_def split: if_split_asm)

lemma clock_name_tok:
  assumes "clock_names v" "n \<in> ck_name ` set (v_clocks v)"
  shows "\<exists>i. 0 \<le> i \<and> n = ''clk'' @ show_int i"
  using assms unfolding clock_names_def list_all_iff by blast

lemma tok_clock_name: "tok (''clk'' @ show_int i)"
  by (simp add: plain_char_def is_space_def)

lemma value_nonempty:
  assumes "check_event v e labels = Inr l" "e_op e = ''set''"
  shows "e_value e \<noteq> []"
  using check_event_set[OF assms] by auto

lemma event_arg_ok:
  assumes "check_event v e labels = Inr l" "clock_names v"
  shows "body_line (event_arg e) \<and> tight (event_arg e) \<and> (event_arg e = [] \<longleftrightarrow> e_op e = ''end'')"
proof -
  have "e_op e \<in> set event_ops" using check_event_general[OF assms(1)] by blast
  then consider "e_op e = ''set''" | "e_op e = ''edge''" | "e_op e = ''glbl''" | "e_op e = ''sample''"
    | "e_op e = ''clock_start'' \<or> e_op e = ''clock_stop''" | "e_op e = ''end''"
    by (auto simp: event_ops_def)
  then show ?thesis
  proof cases
    case 1
    have "tok (encode_value (e_value e))"
      using tok_encode[of "e_value e"] check_event_set[OF assms(1) 1] value_nonempty[OF assms(1) 1] by blast
    then have "tok (event_arg e)"
      using 1 tok_range by (simp add: event_arg_def plain_char_def is_space_def)
    then show ?thesis using 1 tok_body tok_tight by (simp add: event_arg_def)
  next
    case 2
    obtain i where i: "e_target e = ''clk'' @ show_int i" "e_value e = ''r'' \<or> e_value e = ''f''"
      using check_event_edge[OF assms(1) 2] clock_name_tok[OF assms(2)] by blast
    have a: "event_arg e = (''clk'' @ show_int i) @ ('' '' @ e_value e)"
      using 2 i by (simp add: event_arg_def)
    have "tight (event_arg e)" unfolding a using i(2) by (intro tight_append) (auto simp: is_space_def)
    moreover have "body_line (event_arg e)"
      unfolding a using tok_body[OF tok_clock_name[of i]] i(2) by (auto simp: plain_char_def is_space_def)
    ultimately show ?thesis using 2 a by simp
  next
    case 3
    then have "tok (event_arg e)" "event_arg e \<noteq> []"
      using check_event_glbl[OF assms(1) 3] by (auto simp: event_arg_def plain_char_def is_space_def)
    then show ?thesis using 3 tok_body tok_tight by simp
  next
    case 4
    then have "tok (event_arg e)" "event_arg e \<noteq> []"
      using check_event_sample[OF assms(1) 4] tok_label by (auto simp: event_arg_def is_label_def)
    then show ?thesis using 4 tok_body tok_tight by simp
  next
    case 5
    obtain i where i: "e_target e = ''clk'' @ show_int i"
      using check_event_startstop[OF assms(1) 5] clock_name_tok[OF assms(2)] by blast
    have a: "event_arg e = e_target e" using 5 by (auto simp: event_arg_def)
    have "tok (event_arg e)" "event_arg e \<noteq> []" unfolding a i using tok_clock_name by simp_all
    then show ?thesis using 5 tok_body tok_tight by auto
  next
    case 6
    then show ?thesis by (simp add: event_arg_def tight_def)
  qed
qed

lemma event_line:
  assumes "check_event v e labels = Inr l" "clock_names v"
  shows "body_line (fmt_event e) \<and> tight (fmt_event e) \<and>
    match_event (fmt_event e) = Some (e_t e, e_sim e, e_op e, event_arg e)"
proof -
  note g = check_event_general[OF assms(1)]
  note a = event_arg_ok[OF assms]
  let ?tail = "if e_op e = ''end'' then [] else '' '' @ event_arg e"
  have f: "fmt_event e = (''t='' @ show_nat (nat (e_t e)) @ (if e_sim e then '' simultaneous'' else [])) @
      ''  '' @ e_op e @ ?tail"
    using fmt_event_arg[of e] g by simp
  have "dropWhile is_space ?tail = event_arg e"
  proof (cases "event_arg e")
    case Nil
    then show ?thesis using a by simp
  next
    case (Cons c cs)
    then have "\<not> is_space c" using a by (simp add: tight_def)
    then show ?thesis using Cons a by auto
  qed
  then have "match_event (fmt_event e) = Some (int (nat (e_t e)), e_sim e, e_op e, event_arg e)"
    using match_event_fmt[of "e_op e" ?tail "nat (e_t e)" "e_sim e"] g unfolding f by auto
  moreover have op: "tok (e_op e)" "e_op e \<noteq> []"
    using g by (auto simp: event_ops_def plain_char_def is_space_def)
  moreover have "body_line (fmt_event e)"
    unfolding f using a tok_body[OF op(1)] tok_body[OF tok_show(1)]
    by (auto simp: plain_char_def is_space_def)
  moreover have "tight (fmt_event e)"
  proof -
    have "\<not> is_space (last (''  '' @ e_op e @ ?tail))"
      using a tok_ends[OF op] op(2) by (auto simp: tight_def)
    then show ?thesis unfolding f by (intro tight_append) (auto simp: is_space_def)
  qed
  ultimately show ?thesis using g by simp
qed

lemma operand_fmt:
  assumes "check_event v e labels = Inr l" "clock_names v" "canon_event e"
    and "hint w ''nin'' = hint v ''nin''"
  shows "operand w (e_t e) (e_op e) (event_arg e) (e_sim e) n = Inr e"
proof -
  have "e_op e \<in> set event_ops" using check_event_general[OF assms(1)] by blast
  then consider "e_op e = ''set''" | "e_op e = ''edge''" | "e_op e = ''glbl''" | "e_op e = ''sample''"
    | "e_op e = ''clock_start'' \<or> e_op e = ''clock_stop''" | "e_op e = ''end''"
    by (auto simp: event_ops_def)
  then show ?thesis
  proof cases
    case 1
    note s = check_event_set[OF assms(1) 1]
    note enc = tok_encode[of "e_value e"]
    have "match_set (event_arg e) =
        Some (e_msb e, (if e_msb e = e_lsb e then None else Some (e_lsb e)), encode_value (e_value e))"
      using match_set_range[of "e_lsb e" "e_msb e" "encode_value (e_value e)"] 1 s enc
        value_nonempty[OF assms(1) 1] tok_nonspace by (simp add: event_arg_def)
    moreover have "decode_value (encode_value (e_value e)) (nat (e_msb e - e_lsb e + 1)) x y = Inr (e_value e)" for x y
      using decode_encode[of "e_value e" x y] value_nonempty[OF assms(1) 1] s by metis
    ultimately show ?thesis using 1 s assms(4)
      by (cases "e_msb e = e_lsb e") (simp_all add: operand_def Let_def)
  next
    case 2
    obtain i where i: "0 \<le> i" "e_target e = ''clk'' @ show_int i" "e_value e = ''r'' \<or> e_value e = ''f''"
      using check_event_edge[OF assms(1) 2] clock_name_tok[OF assms(2)] by blast
    have "event_arg e = (''clk'' @ show_int i) @ '' '' @ e_value e" using 2 i by (simp add: event_arg_def)
    then have "match_edge (event_arg e) = Some (e_target e, e_value e)"
      using match_edge_fmt[OF i(1,3)] i(2) by simp
    then show ?thesis using 2 assms(3) by (simp add: operand_def plain_event_def canon_event_def)
  next
    case 3
    then have "event_arg e = e_target e @ ''='' @ e_value e" by (simp add: event_arg_def)
    then have "match_glbl (event_arg e) = Some (e_target e, e_value e)"
      using match_glbl_fmt check_event_glbl[OF assms(1) 3] by metis
    then show ?thesis using 3 assms(3) by (simp add: operand_def plain_event_def canon_event_def)
  next
    case 4
    then show ?thesis using check_event_novalue[OF assms(1)] assms(3)
      by (simp add: operand_def plain_event_def canon_event_def event_arg_def)
  next
    case 5
    then show ?thesis using check_event_novalue[OF assms(1)] assms(3)
      by (auto simp: operand_def plain_event_def canon_event_def event_arg_def)
  next
    case 6
    then show ?thesis using check_event_novalue[OF assms(1)] check_event_end[OF assms(1)] assms(3)
      by (simp add: operand_def plain_event_def canon_event_def event_arg_def)
  qed
qed

section \<open>Reading back one line\<close>

lemma hint_cong: "map_of (v_header v) = map_of (v_header w) \<Longrightarrow> hint v k = hint w k"
  by (simp add: hint_def vec_int_def)

lemma check_clock_cong:
  "hint w ''nclk'' = hint v ''nclk'' \<Longrightarrow> check_clock w c names = check_clock v c names"
  by (simp add: check_clock_def)

lemma check_event_cong:
  "hint w ''settle_ps'' = hint v ''settle_ps'' \<Longrightarrow> hint w ''nin'' = hint v ''nin'' \<Longrightarrow>
   v_clocks w = v_clocks v \<Longrightarrow> check_event w e labels = check_event v e labels"
  by (simp add: check_event_def)

lemma parse_body_line:
  assumes "body_line s" "tight s" "s \<noteq> []"
  shows "strip (strip_comment False s) = s"
  using assms body_strip_comment strip_tight by simp

lemma check_clock_facts:
  assumes "check_clock v c names = Inr names'"
  shows "ck_name c = ''clk'' @ show_int (ck_index c) \<and> 0 \<le> ck_index c \<and> 0 < ck_period c \<and>
    0 < ck_duty c \<and> 0 \<le> ck_phase c \<and> (ck_mode c = ''stepped'' \<or> ck_mode c = ''free'') \<and>
    names' = insert (ck_name c) names \<and> ck_name c \<notin> names"
  using assms by (simp add: check_clock_def split: if_split_asm)

lemma clock_line:
  assumes "check_clock v c names = Inr names'"
  shows "body_line (fmt_clock c) \<and> tight (fmt_clock c) \<and> fmt_clock c \<noteq> []"
proof -
  note c = check_clock_facts[OF assms]
  have m: "tok (ck_mode c)" "ck_mode c \<noteq> []" using c by (auto simp: plain_char_def is_space_def)
  have "body_line (fmt_clock c)"
    unfolding fmt_clock_def using c tok_body[OF m(1)] tok_body[OF tok_show(2)]
    by (simp add: plain_char_def is_space_def)
  moreover have "tight (''clock '' @ (ck_name c @ '' period='' @ show_int (ck_period c) @ '' phase='' @
      show_int (ck_phase c) @ '' duty='' @ show_int (ck_duty c) @ '' mode='' @ ck_mode c))"
    using tok_ends[OF m] m(2) by (intro tight_append) (auto simp: is_space_def)
  ultimately show ?thesis by (simp add: fmt_clock_def)
qed

lemma parse_clock_line:
  assumes "check_clock v c (ck_name ` set (v_clocks w)) = Inr names'" "hint w ''nclk'' = hint v ''nclk''"
  shows "parse_line (w, labels, lines) (n, fmt_clock c) =
    Inr (w\<lparr>v_clocks := v_clocks w @ [c]\<rparr>, labels, lines)"
proof -
  have s: "strip (strip_comment False (fmt_clock c)) = fmt_clock c"
    using clock_line[OF assms(1)] parse_body_line by blast
  have cc: "check_clock w c (ck_name ` set (v_clocks w)) = Inr names'"
    using assms check_clock_cong by metis
  show ?thesis
    using match_clock_fmt[OF assms(1)] clock_line[OF assms(1)] cc
    by (simp add: parse_line_def s Let_def)
qed

lemma fold_clock_lines:
  assumes "rfold (\<lambda>names c. check_clock v c names) (ck_name ` set (v_clocks w)) cs = Inr names'"
    "hint w ''nclk'' = hint v ''nclk''" "length ns = length cs"
  shows "rfold parse_line (w, labels, lines) (zip ns (map fmt_clock cs)) =
    Inr (w\<lparr>v_clocks := v_clocks w @ cs\<rparr>, labels, lines)"
  using assms
proof (induction cs arbitrary: w ns)
  case (Cons c cs)
  obtain n ms where ns: "ns = n # ms" "length ms = length cs" using Cons.prems(3) by (cases ns) auto
  obtain names1 where 1: "check_clock v c (ck_name ` set (v_clocks w)) = Inr names1"
    "rfold (\<lambda>names c. check_clock v c names) names1 cs = Inr names'"
    using Cons.prems(1) by (auto simp: rbind_Inr_iff)
  let ?w = "w\<lparr>v_clocks := v_clocks w @ [c]\<rparr>"
  have "names1 = ck_name ` set (v_clocks ?w)" using check_clock_facts[OF 1(1)] by simp
  moreover have "hint ?w ''nclk'' = hint v ''nclk''" using Cons.prems(2) hint_cong[of ?w w] by simp
  ultimately have "rfold parse_line (?w, labels, lines) (zip ms (map fmt_clock cs)) =
      Inr (?w\<lparr>v_clocks := v_clocks ?w @ cs\<rparr>, labels, lines)"
    using Cons.IH[of ?w ms] 1(2) ns(2) by simp
  then show ?case using parse_clock_line[OF 1(1) Cons.prems(2)] ns(1) by simp
qed simp

lemma parse_event_line:
  assumes "check_event v e labels = Inr l" "clock_names v" "canon_event e"
    and "map_of (v_header w) = map_of (v_header v)" "v_clocks w = v_clocks v"
  shows "parse_line (w, labels, lines) (n, fmt_event e) =
    Inr (w\<lparr>v_events := v_events w @ [e]\<rparr>, l, lines @ [n])"
proof -
  note h = hint_cong[OF assms(4)]
  note g = check_event_general[OF assms(1)]
  have t: "\<exists>r. fmt_event e = CHR ''t'' # r" using fmt_event_arg[of e] g by auto
  have ne: "fmt_event e \<noteq> []" using t by auto
  have s: "strip (strip_comment False (fmt_event e)) = fmt_event e"
    using event_line[OF assms(1,2)] parse_body_line ne by blast
  have no: "match_clock (fmt_event e) = None" "match_hw (fmt_event e) = None"
    using t by (auto simp: match_clock_def match_hw_def drop_prefix_def starts_with_def)
  have "strip (event_arg e) = event_arg e" using event_arg_ok[OF assms(1,2)] strip_tight by blast
  moreover have "operand w (e_t e) (e_op e) (event_arg e) (e_sim e) n = Inr e"
    using operand_fmt[OF assms(1-3)] h by blast
  moreover have "check_event w e labels = Inr l"
    using check_event_cong[OF h h assms(5)] assms(1) by simp
  ultimately have "parse_event w (e_t e) (e_op e) (strip (event_arg e)) (e_sim e) labels n = Inr (e, l)"
    by (simp add: parse_event_def)
  then show ?thesis
    using event_line[OF assms(1,2)] ne no by (simp add: parse_line_def s Let_def)
qed

lemma at_event_Inr [simp]: "at_event i r = Inr a \<longleftrightarrow> r = Inr a"
  by (auto simp: at_event_def split: sum.splits xvec_error.splits)

lemma fold_event_lines:
  assumes "rfold (\<lambda>labels (i, e). at_event i (check_event v e labels)) labels (zip is es) = Inr l"
    "clock_names v" "list_all canon_event es" "map_of (v_header w) = map_of (v_header v)"
    "v_clocks w = v_clocks v" "length ns = length es" "length is = length es"
  shows "rfold parse_line (w, labels, lines) (zip ns (map fmt_event es)) =
    Inr (w\<lparr>v_events := v_events w @ es\<rparr>, l, lines @ ns)"
  using assms
proof (induction es arbitrary: w ns "is" labels lines)
  case (Cons e es)
  obtain n ms where ns: "ns = n # ms" "length ms = length es" using Cons.prems(6) by (cases ns) auto
  obtain i js where js: "is = i # js" "length js = length es" using Cons.prems(7) by (cases "is") auto
  obtain l1 where 1: "check_event v e labels = Inr l1"
    "rfold (\<lambda>labels (i, e). at_event i (check_event v e labels)) l1 (zip js es) = Inr l"
    using Cons.prems(1) js by (auto simp: rbind_Inr_iff)
  let ?w = "w\<lparr>v_events := v_events w @ [e]\<rparr>"
  have "rfold parse_line (?w, l1, lines @ [n]) (zip ms (map fmt_event es)) =
      Inr (?w\<lparr>v_events := v_events ?w @ es\<rparr>, l, (lines @ [n]) @ ms)"
    using Cons.IH[OF 1(2)] Cons.prems ns(2) js(2) by simp
  moreover have "parse_line (w, labels, lines) (n, fmt_event e) = Inr (?w, l1, lines @ [n])"
    using parse_event_line[OF 1(1)] Cons.prems by simp
  ultimately show ?case using ns(1) by simp
qed simp

section \<open>Reading back the header and the hardware line\<close>

lemma control_break: "is_linebreak c \<Longrightarrow> is_control c \<or> c = CHR 0x85"
proof -
  assume "is_linebreak c"
  then have "is_control c \<or> code c = (133::nat)"
    by (auto simp: is_linebreak_def is_control_def Let_def)
  moreover have "c = CHR 0x85" if "code c = (133::nat)"
  proof -
    have "c = char_of (133::nat)" using that by (metis char_of_char)
    moreover have "char_of (133::nat) = CHR 0x85" by code_simp
    ultimately show ?thesis by simp
  qed
  ultimately show ?thesis by blast
qed

lemma no_break_append [simp]:
  "no_break (a @ b) \<longleftrightarrow> no_break a \<and> no_break b" "no_break []"
  "no_break (c # s) \<longleftrightarrow> \<not> is_linebreak c \<and> no_break s"
  by (simp_all add: no_break_def)

lemma no_break_esc:
  assumes "\<not> list_ex is_control v" "nel_free v"
  shows "no_break (concat (map esc v))"
  using assms
proof (induction v)
  case (Cons c v)
  then have "\<not> is_linebreak c" using control_break[of c] by (auto simp: nel_free_def)
  moreover have "\<not> is_linebreak BSL" "\<not> is_linebreak DQ" by (simp_all add: is_linebreak_def)
  ultimately have "no_break (esc c)" by (simp add: esc_def)
  then show ?case using Cons by (simp add: nel_free_def)
qed simp

lemma no_break_plain:
  assumes "\<not> list_ex is_control v" "nel_free v"
  shows "no_break v"
  using assms
proof (induction v)
  case (Cons c v)
  then show ?case using control_break[of c] by (auto simp: nel_free_def)
qed simp

lemma no_break_quote:
  assumes "quote v = Inr q" "nel_free v"
  shows "no_break q"
proof -
  note c = quote_cases[OF assms(1)]
  have "\<not> is_linebreak DQ" by (simp add: is_linebreak_def)
  then show ?thesis using c no_break_esc[OF _ assms(2)] no_break_plain[OF _ assms(2)] by auto
qed

lemma no_break_key: "is_header_key k \<Longrightarrow> no_break k"
proof -
  assume k: "is_header_key k"
  have w: "\<not> is_linebreak c" if "is_word c \<or> c = CHR ''.''" for c
    using that is_linebreak_space[of c] is_word_not_space[of c] by (auto simp: is_linebreak_def)
  show ?thesis
  proof (cases k)
    case (Cons c cs)
    have "\<forall>d \<in> set (c # cs). is_word d \<or> d = CHR ''.''"
      using k Cons name_start_word is_digit_word by (auto simp: is_header_key_def list_all_iff)
    then show ?thesis using w Cons unfolding no_break_def list_all_iff by blast
  qed simp
qed

lemma no_break_join: "\<forall>s \<in> set ss. no_break s \<Longrightarrow> no_break sep \<Longrightarrow> no_break (join sep ss)"
proof (induction ss)
  case (Cons s ss)
  then show ?case by (cases "ss = []") (simp_all add: join_Cons)
qed simp

lemma header_keys_set: "set (header_keys h) = fst ` set h"
  by (auto simp: header_keys_def dict_has_iff dict_keys_def)

lemma header_keys_distinct: "distinct (map fst h) \<Longrightarrow> distinct (header_keys h)"
proof -
  assume "distinct (map fst h)"
  moreover have "distinct HEADER_ORDER" by code_simp
  ultimately show ?thesis by (auto simp: header_keys_def dict_keys_def)
qed

text \<open>The pairs in the order they are written.\<close>

definition written :: "(string, string) dict \<Rightarrow> (string, string) dict" where
  "written h = map (\<lambda>k. (k, case map_of h k of Some s \<Rightarrow> s | None \<Rightarrow> [])) (header_keys h)"

lemma map_of_written: "map_of (written h) = map_of h"
proof
  fix k
  show "map_of (written h) k = map_of h k"
  proof (cases "k \<in> set (header_keys h)")
    case True
    then have "map_of h k \<noteq> None" by (simp add: header_keys_set map_of_eq_None_iff)
    then show ?thesis using True by (auto simp: written_def map_of_map_restrict restrict_map_def)
  next
    case False
    then have "map_of h k = None" by (simp add: header_keys_set map_of_eq_None_iff)
    then show ?thesis using False by (simp add: written_def map_of_map_restrict restrict_map_def)
  qed
qed

lemma written_distinct: "distinct (map fst h) \<Longrightarrow> distinct (map fst (written h))"
  by (simp add: written_def comp_def header_keys_distinct)

lemma check_header_iff:
  "check_header h = Inr () \<longleftrightarrow>
     (\<forall>k \<in> fst ` set h. is_header_key k) \<and> (\<forall>k \<in> set REQUIRED. map_of h k \<noteq> None) \<and>
     (\<forall>k \<in> set INT_KEYS. \<forall>s. map_of h k = Some s \<longrightarrow> is_digits s)"
proof -
  have i: "(case map_of h k of Some s \<Rightarrow> if is_digits s then Inr () else xerr (NotNonNegative k)
      | None \<Rightarrow> Inr ()) = Inr () \<longleftrightarrow> (\<forall>s. map_of h k = Some s \<longrightarrow> is_digits s)" for k
    by (simp split: option.splits)
  have j: "(case p of (k, _) \<Rightarrow> if is_header_key k then Inr () else xerr (BadHeaderKey k)) = Inr () \<longleftrightarrow>
      is_header_key (fst p)" for p :: "string \<times> string"
    by (simp split: prod.splits)
  show ?thesis
    by (simp add: check_header_def rbind_Inr_iff rall_Inr_iff i j Let_def dict_has_def filter_empty_conv)
qed

lemma check_header_cong:
  assumes "map_of h = map_of h'" "check_header h' = Inr ()"
  shows "check_header h = Inr ()"
proof -
  have "fst ` set h = fst ` set h'" using assms(1) by (metis dom_map_of_conv_image_fst)
  then show ?thesis using assms by (simp add: check_header_iff)
qed

lemma header_text:
  assumes "check_header h = Inr ()" "distinct (map fst h)"
    and "\<forall>(k, s) \<in> set h. \<not> list_ex is_control s \<and> nel_free s"
  shows "\<exists>kvs. rmap (fmt_pair h) (header_keys h) = Inr kvs \<and>
    no_break (''# xut-vec 2  '' @ join '' '' kvs) \<and>
    map (\<lambda>(k, s). (k, unquote s)) (kv_findall (join '' '' kvs)) = written h"
proof -
  have val: "is_header_key k \<and> (\<exists>s. map_of h k = Some s \<and> \<not> list_ex is_control s \<and> nel_free s)"
    if "k \<in> set (header_keys h)" for k
  proof -
    have "k \<in> fst ` set h" using that by (simp add: header_keys_set)
    moreover from this obtain s where "map_of h k = Some s"
      by (cases "map_of h k") (simp_all add: map_of_eq_None_iff)
    ultimately show ?thesis using assms(1,3) map_of_SomeD[of h k] by (auto simp: check_header_iff)
  qed
  have "\<exists>kvs. rmap (fmt_pair h) ks = Inr kvs \<and> (\<forall>s \<in> set kvs. no_break s) \<and>
      list_all2 (\<lambda>(k, v) s. is_header_key k \<and> (\<exists>q. quote v = Inr q \<and> s = k @ ''='' @ q))
        (map (\<lambda>k. (k, case map_of h k of Some s \<Rightarrow> s | None \<Rightarrow> [])) ks) kvs"
    if "\<forall>k \<in> set ks. is_header_key k \<and> (\<exists>s. map_of h k = Some s \<and> \<not> list_ex is_control s \<and> nel_free s)"
    for ks
    using that
  proof (induction ks)
    case (Cons k ks)
    then obtain s kvs where s: "is_header_key k" "map_of h k = Some s" "\<not> list_ex is_control s" "nel_free s"
      and kvs: "rmap (fmt_pair h) ks = Inr kvs" "\<forall>s \<in> set kvs. no_break s"
        "list_all2 (\<lambda>(k, v) s. is_header_key k \<and> (\<exists>q. quote v = Inr q \<and> s = k @ ''='' @ q))
        (map (\<lambda>k. (k, case map_of h k of Some s \<Rightarrow> s | None \<Rightarrow> [])) ks) kvs"
      by (auto simp del: not_None_eq)
    obtain q where q: "quote s = Inr q" using quote_ok[OF s(3)] by blast
    have "no_break (k @ ''='' @ q)"
      using no_break_key[OF s(1)] no_break_quote[OF q s(4)] by (simp add: is_linebreak_def)
    moreover have "fmt_pair h k = Inr (k @ ''='' @ q)" using s(2) q by (simp add: fmt_pair_def)
    ultimately show ?case using kvs s q by simp
  qed simp
  then obtain kvs where kvs: "rmap (fmt_pair h) (header_keys h) = Inr kvs" "\<forall>s \<in> set kvs. no_break s"
    "list_all2 (\<lambda>(k, v) s. is_header_key k \<and> (\<exists>q. quote v = Inr q \<and> s = k @ ''='' @ q)) (written h) kvs"
    using val unfolding written_def by blast
  have "no_break (''# xut-vec 2  '' @ join '' '' kvs)"
    using no_break_join[OF kvs(2), of "'' ''"] by (simp add: is_linebreak_def)
  then show ?thesis using kvs kv_findall_dumps[OF kvs(3)] by blast
qed

lemma parse_hw_match:
  assumes "strip (strip_comment False l) = l" "l \<noteq> []" "match_clock l = None" "match_hw l = Some (y, r)"
  shows "parse_line (w, labels, lines) (n, l) = Inr (w\<lparr>v_hw := Some y, v_reason := r\<rparr>, labels, lines)"
  using assms by (simp add: parse_line_def Let_def)

lemma parse_hw_line:
  assumes "fmt_hw v = Inr hw" "v_hw v = Some False \<or> v_reason v = []" "length ns = length hw"
  shows "rfold parse_line (w, labels, lines) (zip ns hw) =
    Inr (if v_hw v = None then w else w\<lparr>v_hw := v_hw v, v_reason := v_reason v\<rparr>, labels, lines)"
proof (cases "v_hw v")
  case None
  then show ?thesis using assms(1) by (simp add: fmt_hw_def)
next
  case (Some yes)
  show ?thesis
  proof (cases yes)
    case True
    let ?l = "''hw_renderable yes''"
    have hw: "hw = [?l]" using assms(1) Some True by (simp add: fmt_hw_def)
    have "strip (strip_comment False ?l) = ?l" by code_simp
    moreover have "match_clock ?l = None" "match_hw ?l = Some (True, [])" by code_simp+
    ultimately have "parse_line (w, labels, lines) (n, ?l) = Inr (w\<lparr>v_hw := Some True, v_reason := []\<rparr>, labels, lines)" for n
      by (simp add: parse_line_def Let_def)
    then show ?thesis using hw Some True assms(2,3) by (cases ns) auto
  next
    case False
    let ?e = "concat (map esc (v_reason v))"
    let ?p = "''hw_renderable no reason=''"
    let ?l = "?p @ DQ # ?e @ [DQ]"
    have hw: "hw = [?l]"
      using assms(1) Some False by (auto simp: fmt_hw_def rbind_Inr_iff escape_quoted_Inr)
    have 1: "strip_comment False ?l = ?l"
      using strip_comment_plain[of ?p "DQ # ?e @ [DQ]"] strip_comment_quoted[of "v_reason v" "[]"] by simp
    have 2: "tight ?l" by (simp add: tight_def is_space_def)
    have 3: "match_clock ?l = None" by (simp add: match_clock_def drop_prefix_def starts_with_def)
    have s: "drop_prefix ''hw_renderable'' ?l = Some ('' no reason='' @ DQ # ?e @ [DQ])"
      "spaces1 ('' no reason='' @ DQ # ?e @ [DQ]) = Some (''no reason='' @ DQ # ?e @ [DQ])"
      "drop_prefix ''no'' (''no reason='' @ DQ # ?e @ [DQ]) = Some ('' reason='' @ DQ # ?e @ [DQ])"
      "spaces1 ('' reason='' @ DQ # ?e @ [DQ]) = Some (''reason='' @ DQ # ?e @ [DQ])"
      "drop_prefix (''reason='' @ [DQ]) (''reason='' @ DQ # ?e @ [DQ]) = Some (?e @ [DQ])"
      by (simp_all add: drop_prefix_def starts_with_def spaces1_def is_space_def)
    have 4: "match_hw ?l = Some (False, v_reason v)"
      unfolding match_hw_def s obind_simps using quoted_body_esc[of "v_reason v" "[]"]
      by (simp add: s unquote_escaped)
    have "parse_line (w, labels, lines) (n, ?l) =
        Inr (w\<lparr>v_hw := Some False, v_reason := v_reason v\<rparr>, labels, lines)" for n
      by (rule parse_hw_match[OF _ _ 3 4]) (simp_all only: 1 strip_tight[OF 2], simp)
    then show ?thesis using hw Some False assms(3) by (cases ns) auto
  qed
qed

section \<open>Round trip\<close>

text \<open>The rules of the format, the order rules in their declarative form.\<close>

definition vec_rules :: "vec \<Rightarrow> bool" where
  "vec_rules v \<longleftrightarrow> check_header (v_header v) = Inr () \<and> check_clocks v = Inr () \<and>
     check_events v = Inr () \<and> order_ok (v_events v)"

text \<open>Fields the text does not carry are at their defaults.\<close>

definition canonical :: "vec \<Rightarrow> bool" where
  "canonical v \<longleftrightarrow> list_all canon_event (v_events v) \<and> (v_hw v = Some False \<or> v_reason v = [])"

definition representable :: "vec \<Rightarrow> bool" where
  "representable v \<longleftrightarrow> list_all (\<lambda>(k, s). \<not> list_ex is_control s) (v_header v) \<and>
     (v_hw v = Some False \<longrightarrow> \<not> list_ex is_control (v_reason v))"

definition events_fold :: "vec \<Rightarrow> string set xres" where
  "events_fold v = rfold (\<lambda>L e. check_event v e L) {} (v_events v)"

lemma rfold_indexed:
  "length is = length es \<Longrightarrow>
   rfold (\<lambda>L (i, e). at_event i (f e L)) s (zip is es) = Inr l \<longleftrightarrow> rfold (\<lambda>L e. f e L) s es = Inr l"
proof (induction es arbitrary: "is" s)
  case (Cons e es)
  obtain i js where js: "is = i # js" "length js = length es" using Cons.prems by (cases "is") auto
  have s: "rfold (\<lambda>L (i, e). at_event i (f e L)) s' (zip js es) = Inr l \<longleftrightarrow> rfold (\<lambda>L e. f e L) s' es = Inr l"
    for s' using Cons.IH[OF js(2)] by simp
  show ?case unfolding js(1) by (simp add: rbind_Inr_iff s)
qed simp

lemma check_events_iff: "check_events v = Inr () \<longleftrightarrow> (\<exists>l. events_fold v = Inr l)"
proof -
  have r: "rbind r (\<lambda>_. Inr ()) = Inr () \<longleftrightarrow> (\<exists>l. r = Inr l)" for r :: "string set xres"
    by (cases r) auto
  show ?thesis by (simp add: check_events_def events_fold_def r rfold_indexed)
qed

lemma check_clocks_iff:
  "check_clocks v = Inr () \<longleftrightarrow> (\<exists>l. rfold (\<lambda>names c. check_clock v c names) {} (v_clocks v) = Inr l)"
proof -
  have r: "rbind r (\<lambda>_. Inr ()) = Inr () \<longleftrightarrow> (\<exists>l. r = Inr l)" for r :: "string set xres"
    by (cases r) auto
  show ?thesis by (simp add: check_clocks_def r)
qed

lemma rfold_each: "rfold f s xs = Inr l \<Longrightarrow> x \<in> set xs \<Longrightarrow> \<exists>s s'. f s x = Inr s'"
proof (induction xs arbitrary: s)
  case (Cons y xs)
  then obtain s1 where "f s y = Inr s1" "rfold f s1 xs = Inr l" by (auto simp: rbind_Inr_iff)
  then show ?case using Cons.IH[of s1] Cons.prems(2) by auto
qed simp

lemma rules_clock_names: "check_clocks v = Inr () \<Longrightarrow> clock_names v"
proof -
  assume "check_clocks v = Inr ()"
  then obtain l where l: "rfold (\<lambda>names c. check_clock v c names) {} (v_clocks v) = Inr l"
    using check_clocks_iff by blast
  have "ck_name c = ''clk'' @ show_int (ck_index c) \<and> 0 \<le> ck_index c" if c: "c \<in> set (v_clocks v)" for c
    using rfold_each[OF l c] check_clock_facts by blast
  then show ?thesis by (simp add: clock_names_def list_all_iff)
qed

lemma rules_clock_line: "check_clocks v = Inr () \<Longrightarrow> c \<in> set (v_clocks v) \<Longrightarrow> no_break (fmt_clock c)"
proof -
  assume "check_clocks v = Inr ()" and c: "c \<in> set (v_clocks v)"
  then obtain l where l: "rfold (\<lambda>names c. check_clock v c names) {} (v_clocks v) = Inr l"
    using check_clocks_iff by blast
  obtain names names' where "check_clock v c names = Inr names'" using rfold_each[OF l c] by blast
  then show ?thesis using clock_line body_no_break by (simp add: no_break_def)
qed

lemma rules_event: "check_events v = Inr () \<Longrightarrow> e \<in> set (v_events v) \<Longrightarrow> \<exists>L l. check_event v e L = Inr l"
proof -
  assume "check_events v = Inr ()" and e: "e \<in> set (v_events v)"
  then obtain l where l: "events_fold v = Inr l" using check_events_iff by blast
  show ?thesis using rfold_each[OF l[unfolded events_fold_def] e] by blast
qed

lemma fmt_hw_no_break:
  assumes "fmt_hw v = Inr hw" "nel_free (v_reason v)" "s \<in> set hw"
  shows "no_break s"
proof (cases "v_hw v")
  case None
  then show ?thesis using assms by (simp add: fmt_hw_def)
next
  case (Some yes)
  show ?thesis
  proof (cases yes)
    case True
    then show ?thesis using assms Some by (auto simp: fmt_hw_def is_linebreak_def)
  next
    case False
    then obtain e where e: "escape_quoted (v_reason v) = Inr e"
      "hw = [''hw_renderable no reason='' @ [DQ] @ e @ [DQ]]"
      using assms(1) Some by (auto simp: fmt_hw_def rbind_Inr_iff)
    have "no_break e" using e(1) no_break_esc[OF _ assms(2)] by (simp add: escape_quoted_Inr)
    then show ?thesis using e(2) assms(3) by (simp add: is_linebreak_def)
  qed
qed

lemma fmt_hw_total: "representable v \<Longrightarrow> \<exists>hw. fmt_hw v = Inr hw"
proof -
  assume r: "representable v"
  have "escape_quoted (v_reason v) = Inr (concat (map esc (v_reason v)))" if "v_hw v = Some False"
    using r that by (simp add: representable_def escape_quoted_Inr)
  then show ?thesis by (cases "v_hw v") (auto simp: fmt_hw_def)
qed

lemma zip_append_split:
  "length ns = length xs + length ys \<Longrightarrow>
   zip ns (xs @ ys) = zip (take (length xs) ns) xs @ zip (drop (length xs) ns) ys"
  by (simp add: zip_append2)

lemma loads_steps:
  assumes "splitlines text = first # rest" "match_header first = Some (VERSION, kvs)"
    "dict_of (map (\<lambda>(k, s). (k, unquote s)) (kv_findall kvs)) = h" "check_header h = Inr ()"
    "rfold parse_line (\<lparr>v_header = h, v_clocks = [], v_events = [], v_hw = None, v_reason = []\<rparr>, {}, [])
       (zip [2..<length rest + 2] rest) = Inr (w, l, ls)"
    "check_order (v_events w) (line_of ls) = Inr ()"
  shows "loads text = Inr w"
  using assms by (simp add: loads_def Let_def del: upt_Suc)

lemma loads_dumps_vec:
  assumes "vec_rules v" "canonical v" "representable v" "nel_free_vec v" "distinct (map fst (v_header v))"
  shows "\<exists>text. dumps v = Inr text \<and> loads text = Inr (v\<lparr>v_header := written (v_header v)\<rparr>)"
proof -
  let ?h = "v_header v"
  have rules: "check_header ?h = Inr ()" "check_clocks v = Inr ()" "check_events v = Inr ()"
    "order_ok (v_events v)" using assms(1) by (auto simp: vec_rules_def)
  note names = rules_clock_names[OF rules(2)]
  have "\<forall>(k, s) \<in> set ?h. \<not> list_ex is_control s \<and> nel_free s"
    using assms(3,4) by (auto simp: representable_def nel_free_vec_def list_all_iff)
  from header_text[OF rules(1) assms(5) this] obtain kvs where
    kvs: "rmap (fmt_pair ?h) (header_keys ?h) = Inr kvs" "no_break (''# xut-vec 2  '' @ join '' '' kvs)"
    "map (\<lambda>(k, s). (k, unquote s)) (kv_findall (join '' '' kvs)) = written ?h" by blast
  obtain hw where hw: "fmt_hw v = Inr hw"
    using fmt_hw_total[OF assms(3)] by blast
  let ?hd = "''# xut-vec 2  '' @ join '' '' kvs"
  let ?cl = "map fmt_clock (v_clocks v)" and ?ev = "map fmt_event (v_events v)"
  let ?rest = "hw @ ?cl @ ?ev"
  let ?text = "join [LF] (?hd # ?rest) @ [LF]"
  have d: "dumps v = Inr ?text"
  proof -
    have "rall (\<lambda>(k, _). if is_header_key k then Inr () else xerr (BadHeaderKey k)) ?h = Inr ()"
      using rules(1) by (auto simp: rall_Inr_iff check_header_iff)
    moreover have "rall (\<lambda>e. if e_op e = ''sample'' \<and> \<not> is_label (e_target e)
        then xerr (BadLabel (e_target e)) else Inr ()) (v_events v) = Inr ()"
      using rules_event[OF rules(3)] check_event_sample by (simp add: rall_Inr_iff) blast
    ultimately show ?thesis using kvs(1) hw by (simp add: dumps_def)
  qed
  have nb: "\<forall>l \<in> set (?hd # ?rest). \<forall>c \<in> set l. \<not> is_linebreak c"
  proof -
    have "no_break (fmt_event e)" if "e \<in> set (v_events v)" for e
      using rules_event[OF rules(3) that] event_line[OF _ names] body_no_break by (auto simp: no_break_def)
    moreover have "no_break s" if "s \<in> set hw" for s
      using fmt_hw_no_break[OF hw _ that] assms(4) by (simp add: nel_free_vec_def)
    ultimately have "\<forall>l \<in> set (?hd # ?rest). no_break l"
      using kvs(2) rules_clock_line[OF rules(2)] by auto
    then show ?thesis by (simp add: no_break_def list_all_iff)
  qed
  have lines: "splitlines ?text = ?hd # ?rest"
    using join_LF_unlines[of "?hd # ?rest"] splitlines_unlines[OF nb] by simp
  let ?w = "\<lparr>v_header = written ?h, v_clocks = [], v_events = [], v_hw = None, v_reason = []\<rparr>"
  have mh: "map_of (written ?h) = map_of ?h" by (rule map_of_written)
  define ns where "ns = [2..<length ?rest + 2]"
  have nl: "length ns = length hw + (length ?cl + length ?ev)" unfolding ns_def length_upt by simp
  let ?n1 = "take (length hw) ns" and ?n2 = "drop (length hw) ns"
  let ?n3 = "take (length ?cl) ?n2" and ?n4 = "drop (length ?cl) ?n2"
  have z: "zip ns ?rest = zip ?n1 hw @ zip ?n3 ?cl @ zip ?n4 ?ev"
    using zip_append_split[of ns hw "?cl @ ?ev"] zip_append_split[of ?n2 ?cl ?ev] nl by simp
  let ?w1 = "?w\<lparr>v_hw := v_hw v, v_reason := v_reason v\<rparr>"
  have 1: "rfold parse_line (?w, {}, []) (zip ?n1 hw) = Inr (?w1, {}, [])"
    using parse_hw_line[OF hw, of ?n1 ?w "{}" "[]"] assms(2) nl by (auto simp: canonical_def)
  obtain ls where "rfold (\<lambda>names c. check_clock v c names) {} (v_clocks v) = Inr ls"
    using rules(2) check_clocks_iff by blast
  then have 2: "rfold parse_line (?w1, {}, []) (zip ?n3 ?cl) = Inr (?w1\<lparr>v_clocks := v_clocks v\<rparr>, {}, [])"
    using fold_clock_lines[of v ?w1 "v_clocks v" ls ?n3 "{}" "[]"] hint_cong[of ?w1 v] mh nl by simp
  let ?w2 = "?w1\<lparr>v_clocks := v_clocks v\<rparr>"
  obtain l where l: "rfold (\<lambda>labels (i, e). at_event i (check_event v e labels)) {}
      (zip [0..<length (v_events v)] (v_events v)) = Inr l"
    using rules(3) by (auto simp: check_events_def rbind_Inr_iff)
  have 3: "rfold parse_line (?w2, {}, []) (zip ?n4 ?ev) = Inr (?w2\<lparr>v_events := v_events v\<rparr>, l, ?n4)"
    using fold_event_lines[OF l names, of ?w2 ?n4 "[]"] assms(2) mh nl by (simp add: canonical_def)
  have f: "rfold parse_line (?w, {}, []) (zip [2..<length ?rest + 2] ?rest) = Inr (v\<lparr>v_header := written ?h\<rparr>, l, ?n4)"
    unfolding ns_def[symmetric] z rfold_append 1 rbind_simps 2 3 by simp
  have ch: "check_header (written ?h) = Inr ()" using check_header_cong[OF mh rules(1)] .
  have k: "kv_findall (''  '' @ join '' '' kvs) = kv_findall (join '' '' kvs)"
    by (simp add: kv_findall_space)
  have "dict_of (map (\<lambda>(k, s). (k, unquote s)) (kv_findall (''  '' @ join '' '' kvs))) = written ?h"
    unfolding k kvs(3) by (rule dict_of_distinct) (rule written_distinct[OF assms(5)])
  moreover have "match_header ?hd = Some (VERSION, ''  '' @ join '' '' kvs)"
    by (simp only: match_header_dumps VERSION_def)
  moreover have "check_order (v_events v) (line_of ?n4) = Inr ()" using rules(4) check_order_iff by blast
  ultimately have "loads ?text = Inr (v\<lparr>v_header := written ?h\<rparr>)"
    using f by (intro loads_steps[OF lines _ _ ch]) simp_all
  then show ?thesis using d by blast
qed

section \<open>What the parser guarantees\<close>

lemma operand_canon: "operand v t op arg sim n = Inr e \<Longrightarrow> canon_event e"
  by (simp add: operand_def err_at_def canon_event_def plain_event_def Let_def rbind_Inr_iff
      split: if_split_asm option.splits prod.splits) auto

lemma check_event_mono:
  assumes "check_event v e L = Inr l" "set (v_clocks v) \<subseteq> set (v_clocks w)" "v_header w = v_header v"
  shows "check_event w e L = Inr l"
proof -
  have h: "hint w k = hint v k" for k using hint_cong[of w v] assms(3) by simp
  have n: "x \<in> ck_name ` set (v_clocks v) \<Longrightarrow> x \<in> ck_name ` set (v_clocks w)" for x
    using assms(2) by blast
  have x: "list_ex (\<lambda>c. ck_name c = e_target e \<and> ck_mode c = ''free'') (v_clocks v) \<Longrightarrow>
      list_ex (\<lambda>c. ck_name c = e_target e \<and> ck_mode c = ''free'') (v_clocks w)"
    using assms(2) unfolding list_ex_iff by blast
  consider "e_op e = ''edge''" | "e_op e = ''clock_start'' \<or> e_op e = ''clock_stop''"
    | "e_op e \<noteq> ''edge''" "\<not> (e_op e = ''clock_start'' \<or> e_op e = ''clock_stop'')" by blast
  then show ?thesis
  proof cases
    case 1
    then show ?thesis using assms(1) n[OF conjunct1[OF check_event_edge[OF assms(1) 1]]]
      by (simp add: check_event_def h split: if_split_asm)
  next
    case 2
    then have "e_op e \<in> {''clock_start'', ''clock_stop''}" by simp
    moreover from 2 have "list_ex (\<lambda>c. ck_name c = e_target e \<and> ck_mode c = ''free'') (v_clocks v)"
      using assms(1) by (elim disjE; simp add: check_event_def split: if_split_asm)
    ultimately show ?thesis using assms(1) x 2
      by (elim disjE; simp add: check_event_def h split: if_split_asm)
  next
    case 3
    then have "check_event w e L = check_event v e L" by (simp add: check_event_def h)
    then show ?thesis using assms(1) by simp
  qed
qed

definition parse_inv :: "(string, string) dict \<Rightarrow> parsed \<Rightarrow> bool" where
  "parse_inv h = (\<lambda>(w, labels, lines).
     v_header w = h \<and>
     rfold (\<lambda>names c. check_clock w c names) {} (v_clocks w) = Inr (ck_name ` set (v_clocks w)) \<and>
     events_fold w = Inr labels \<and> canonical w)"

lemma rfold_weaken:
  assumes "rfold f s xs = Inr l" "\<And>s x l. x \<in> set xs \<Longrightarrow> f s x = Inr l \<Longrightarrow> g s x = Inr l"
  shows "rfold g s xs = Inr l"
  using assms
proof (induction xs arbitrary: s)
  case (Cons x xs)
  then obtain s1 where "f s x = Inr s1" "rfold f s1 xs = Inr l" by (auto simp: rbind_Inr_iff)
  then show ?case using Cons.IH[of s1] Cons.prems(2) by simp
qed simp

lemma parse_inv_clock:
  assumes "parse_inv h (w, labels, lines)" "check_clock w c (ck_name ` set (v_clocks w)) = Inr x"
  shows "parse_inv h (w\<lparr>v_clocks := v_clocks w @ [c]\<rparr>, labels, lines)"
proof -
  let ?w = "w\<lparr>v_clocks := v_clocks w @ [c]\<rparr>"
  have hc: "hint ?w k = hint w k" for k using hint_cong[of ?w w] by simp
  have cc: "check_clock ?w c' names = check_clock w c' names" for c' names
    using check_clock_cong[OF hc] by blast
  have x: "x = insert (ck_name c) (ck_name ` set (v_clocks w))" using check_clock_facts[OF assms(2)] by blast
  have "rfold (\<lambda>names c. check_clock ?w c names) {} (v_clocks ?w) = Inr (ck_name ` set (v_clocks ?w))"
    using assms x unfolding cc by (simp add: parse_inv_def rfold_append)
  moreover have "events_fold ?w = Inr labels"
  proof -
    have "rfold (\<lambda>L e. check_event w e L) {} (v_events w) = Inr labels"
      using assms(1) by (simp add: parse_inv_def events_fold_def)
    then have "rfold (\<lambda>L e. check_event ?w e L) {} (v_events w) = Inr labels"
      by (rule rfold_weaken) (rule check_event_mono, auto)
    then show ?thesis by (simp add: events_fold_def)
  qed
  ultimately show ?thesis using assms(1) by (simp add: parse_inv_def canonical_def)
qed

lemma parse_inv_hw:
  assumes "parse_inv h (w, labels, lines)" "match_hw s = Some (yes, reason)"
  shows "parse_inv h (w\<lparr>v_hw := Some yes, v_reason := reason\<rparr>, labels, lines)"
proof -
  let ?w = "w\<lparr>v_hw := Some yes, v_reason := reason\<rparr>"
  have hc: "hint ?w k = hint w k" for k using hint_cong[of ?w w] by simp
  have c: "check_clock ?w = check_clock w" "check_event ?w = check_event w"
    by (intro ext check_clock_cong hc, intro ext check_event_cong hc) simp
  have "yes \<longrightarrow> reason = []"
    using assms(2) by (auto simp: match_hw_def obind_def split: option.splits if_splits)
  then show ?thesis using assms(1) by (simp add: parse_inv_def events_fold_def canonical_def c)
qed

lemma parse_inv_event:
  assumes "parse_inv h (w, labels, lines)" "parse_event w t op arg sim labels n = Inr (e, l)"
  shows "parse_inv h (w\<lparr>v_events := v_events w @ [e]\<rparr>, l, lines')"
proof -
  let ?w = "w\<lparr>v_events := v_events w @ [e]\<rparr>"
  have e: "operand w t op arg sim n = Inr e" "check_event w e labels = Inr l"
    using assms(2) by (auto simp: parse_event_def rbind_Inr_iff)
  have hc: "hint ?w k = hint w k" for k using hint_cong[of ?w w] by simp
  have c: "check_clock ?w = check_clock w" "check_event ?w = check_event w"
    by (intro ext check_clock_cong hc, intro ext check_event_cong hc) simp
  show ?thesis
    using assms(1) e(2) operand_canon[OF e(1)]
    by (simp add: parse_inv_def events_fold_def canonical_def c rfold_append)
qed

lemma parse_line_inv:
  assumes "parse_inv h s" "parse_line s (n, raw) = Inr s'"
  shows "parse_inv h s'"
proof -
  obtain w labels lines where s: "s = (w, labels, lines)" by (cases s)
  let ?l = "strip (strip_comment False raw)"
  note p = assms(2)[unfolded s parse_line_def prod.case Let_def]
  show ?thesis
  proof (cases "?l = []")
    case True
    then show ?thesis using p assms(1) s by simp
  next
    case False
    show ?thesis
    proof (cases "match_clock ?l")
      case (Some c)
      then show ?thesis using p False assms(1) s parse_inv_clock by (auto simp: rbind_Inr_iff)
    next
      case no_clock: None
      show ?thesis
      proof (cases "match_hw ?l")
        case (Some yr)
        obtain yes reason where "yr = (yes, reason)" by (cases yr)
        then show ?thesis using p False no_clock Some assms(1) s parse_inv_hw[of h w labels lines] by auto
      next
        case None
        show ?thesis
        proof (cases "match_event ?l")
          case (Some m)
          obtain t sim op arg where m: "m = (t, sim, op, arg)" by (cases m)
          obtain e l where "parse_event w t op (strip arg) sim labels n = Inr (e, l)"
            "s' = (w\<lparr>v_events := v_events w @ [e]\<rparr>, l, lines @ [n])"
            using p False no_clock None Some m by (auto simp: rbind_Inr_iff)
          then show ?thesis using parse_inv_event assms(1) s by blast
        next
          case no_event: None
          then show ?thesis using p False no_clock None by (simp add: err_at_def)
        qed
      qed
    qed
  qed
qed

lemma loads_rules:
  assumes "loads text = Inr v"
  shows "vec_rules v \<and> canonical v \<and> distinct (map fst (v_header v))"
proof -
  obtain first rest where 1: "splitlines text = first # rest"
    using assms by (cases "splitlines text") (auto simp: loads_def)
  obtain kvs where 2: "match_header first = Some (VERSION, kvs)"
    using assms 1 by (auto simp: loads_def err_at_def split: option.splits if_splits)
  define h where "h = dict_of (map (\<lambda>(k, s). (k, unquote s)) (kv_findall kvs))"
  let ?w = "\<lparr>v_header = h, v_clocks = [], v_events = [], v_hw = None, v_reason = []\<rparr>"
  obtain w l ls where 3: "check_header h = Inr ()"
    "rfold parse_line (?w, {}, []) (zip [2..<length rest + 2] rest) = Inr (w, l, ls)"
    "check_order (v_events w) (line_of ls) = Inr ()" "v = w"
    using assms 1 2 by (auto simp: loads_def Let_def h_def rbind_Inr_iff simp del: upt_Suc)
  have "parse_inv h (?w, {}, [])"
    by (simp add: parse_inv_def events_fold_def canonical_def)
  then have "parse_inv h (w, l, ls)"
    using rfold_invariant[OF 3(2), of "parse_inv h"] parse_line_inv by fastforce
  then show ?thesis using 3 check_order_iff
    by (auto simp: parse_inv_def vec_rules_def check_clocks_iff check_events_iff h_def)
qed

section \<open>Properties\<close>

lemma written_vec_eq: "vec_eq (v\<lparr>v_header := written (v_header v)\<rparr>) v"
  by (simp add: vec_eq_def dict_eq_iff map_of_written)

lemma rmap_Inr_each: "rmap f xs = Inr ys \<Longrightarrow> x \<in> set xs \<Longrightarrow> \<exists>y. f x = Inr y"
  by (induction xs arbitrary: ys) (auto simp: rbind_Inr_iff)

lemma quote_representable: "quote s = Inr q \<Longrightarrow> \<not> list_ex is_control s"
  using quote_cases by blast

lemma dumps_representable:
  assumes "dumps v = Inr tx" "distinct (map fst (v_header v))"
  shows "representable v"
proof -
  obtain kvs hw where 1: "rmap (fmt_pair (v_header v)) (header_keys (v_header v)) = Inr kvs" "fmt_hw v = Inr hw"
    using assms(1) by (auto simp: dumps_def rbind_Inr_iff)
  have "\<not> list_ex is_control s" if "(k, s) \<in> set (v_header v)" for k s
  proof -
    have "k \<in> set (header_keys (v_header v))" using that by (force simp: header_keys_set)
    then obtain y where "fmt_pair (v_header v) k = Inr y"
      using rmap_Inr_each[OF 1(1)] by blast
    moreover have "map_of (v_header v) k = Some s" using that assms(2) by simp
    ultimately show ?thesis using quote_representable by (auto simp: fmt_pair_def rbind_Inr_iff)
  qed
  moreover have "\<not> list_ex is_control (v_reason v)" if "v_hw v = Some False"
    using 1(2) that by (auto simp: fmt_hw_def rbind_Inr_iff escape_quoted_Inr)
  ultimately show ?thesis by (auto simp: representable_def list_all_iff)
qed

lemma vec_eq_canonical: "vec_eq w v \<Longrightarrow> canonical w \<Longrightarrow> canonical v"
  by (simp add: vec_eq_def canonical_def)

lemma vec_eq_nel_free:
  assumes "vec_eq w v" "nel_free_vec w" "distinct (map fst (v_header v))"
  shows "nel_free_vec v"
proof -
  have "nel_free s" if "(k, s) \<in> set (v_header v)" for k s
  proof -
    have "map_of (v_header w) k = Some s" using that assms(1,3) by (simp add: vec_eq_def dict_eq_iff)
    then show ?thesis using assms(2) map_of_SomeD by (fastforce simp: nel_free_vec_def list_all_iff)
  qed
  then show ?thesis using assms(1,2) by (auto simp: nel_free_vec_def list_all_iff vec_eq_def)
qed

text \<open>
  C5. A stimulus that obeys the rules, whose unused fields are at their defaults, is written by \<open>dumps\<close>
  and read back by \<open>loads\<close> equal to what it was (as dataclass equality, so the header in any order)
  exactly when no header value and no reason has a control character, which \<open>dumps\<close> refuses, or U+0085,
  which \<open>dumps\<close> writes and \<open>str.splitlines\<close> breaks the line at. The header is a dictionary.
\<close>

theorem loads_dumps:
  assumes "vec_rules v" "canonical v" "distinct (map fst (v_header v))"
  shows "(\<exists>text w. dumps v = Inr text \<and> loads text = Inr w \<and> vec_eq w v) \<longleftrightarrow> representable v \<and> nel_free_vec v"
proof
  assume "\<exists>text w. dumps v = Inr text \<and> loads text = Inr w \<and> vec_eq w v"
  then obtain tx w where "dumps v = Inr tx" "loads tx = Inr w" "vec_eq w v" by blast
  then show "representable v \<and> nel_free_vec v"
    using dumps_representable loads_nel_free vec_eq_nel_free assms(3) by blast
next
  assume "representable v \<and> nel_free_vec v"
  then show "\<exists>text w. dumps v = Inr text \<and> loads text = Inr w \<and> vec_eq w v"
    using loads_dumps_vec[OF assms(1,2)] assms(3) written_vec_eq by blast
qed

definition hdr_example :: "(string, string) dict" where
  "hdr_example = [(''cfg'', ''a b#''), (''prim'', ''FDRE''), (''nin'', ''4''), (''nout'', ''1''), (''nclk'', ''1''),
     (''settle_ps'', ''100''), (''seed'', ''7''), (''attr.INIT'', [SQ, CHR ''1'', BSL])]"

definition vec_example :: vec where
  "vec_example =
     \<lparr>v_header = hdr_example,
      v_clocks = [\<lparr>ck_name = ''clk0'', ck_index = 0, ck_period = 10, ck_phase = 2, ck_duty = 50, ck_mode = ''free''\<rparr>],
      v_events =
       [\<lparr>e_t = 0, e_op = ''set'', e_target = ''in'', e_lsb = 0, e_msb = 3, e_value = ''01x1'', e_sim = False\<rparr>,
        \<lparr>e_t = 200, e_op = ''set'', e_target = ''in'', e_lsb = 1, e_msb = 2, e_value = ''01'', e_sim = True\<rparr>,
        plain_event 200 ''edge'' ''clk0'' ''r'' True, plain_event 250 ''glbl'' ''GSR'' ''1'' False,
        plain_event 260 ''clock_stop'' ''clk0'' [] False,
        plain_event 300 ''sample'' ''s/1'' [] False, plain_event 400 ''end'' [] [] False],
      v_hw = Some False, v_reason = ''see # 3''\<rparr>"

lemma vec_example_ok:
  "check_header (v_header vec_example) = Inr ()" "check_clocks vec_example = Inr ()"
  "check_events vec_example = Inr ()" "check_order (v_events vec_example) (\<lambda>_. None) = Inr ()"
  "canonical vec_example" "representable vec_example" "nel_free_vec vec_example"
  "distinct (map fst (v_header vec_example))"
  by code_simp+

lemma vec_example_rules: "vec_rules vec_example"
  using vec_example_ok check_order_iff by (simp add: vec_rules_def)

theorem loads_dumps_witness:
  "\<exists>text w. dumps vec_example = Inr text \<and> loads text = Inr w \<and> vec_eq w vec_example"
  using loads_dumps[OF vec_example_rules vec_example_ok(5,8)] vec_example_ok(6,7) by blast

text \<open>
  C6. Whatever text \<open>loads\<close> accepts, the stimulus it returns obeys every rule the code checks (of two
  set ranges that overlap only those where every event at that time is a set are refused, see
  \<open>order_ok\<close>), has its unused fields at their defaults and no U+0085. It can be written and read again
  without change if its values have no control character; otherwise \<open>dumps\<close> refuses to write it.
\<close>

theorem loads_sound:
  assumes "loads text = Inr v"
  shows "vec_rules v \<and> canonical v \<and> nel_free_vec v \<and> distinct (map fst (v_header v)) \<and>
    (if representable v then \<exists>text' w. dumps v = Inr text' \<and> loads text' = Inr w \<and> vec_eq w v
     else \<exists>e. dumps v = Inl e)"
proof -
  note r = loads_rules[OF assms] and n = loads_nel_free[OF assms]
  have "\<exists>text' w. dumps v = Inr text' \<and> loads text' = Inr w \<and> vec_eq w v" if "representable v"
    using loads_dumps_vec r n that written_vec_eq by blast
  moreover have "\<exists>e. dumps v = Inl e" if "\<not> representable v"
    using dumps_representable r that by (cases "dumps v") auto
  ultimately show ?thesis using r n by simp
qed

theorem loads_sound_witness: "\<exists>tx v. loads tx = Inr v \<and> vec_rules v \<and> canonical v"
proof -
  obtain tx where tx: "loads tx = Inr (vec_example\<lparr>v_header := written (v_header vec_example)\<rparr>)"
    using loads_dumps_vec[OF vec_example_rules vec_example_ok(5-8)] by (elim exE conjE)
  from loads_sound[OF tx] show ?thesis using tx by (intro exI conjI) (rule tx, simp_all)
qed

lemma structure_iff:
  assumes "distinct (map fst (v_header v))"
  shows "check_structure v = Inr () \<longleftrightarrow> vec_rules v \<and> canonical v \<and> representable v \<and> nel_free_vec v"
proof
  assume c: "check_structure v = Inr ()"
  obtain tx w where 1: "check_header (v_header v) = Inr ()" "check_clocks v = Inr ()"
    "check_events v = Inr ()" "check_order (v_events v) (\<lambda>_. None) = Inr ()"
    "dumps v = Inr tx" "loads tx = Inr w" "vec_eq w v"
    using c by (auto simp: check_structure_def rbind_Inr_iff split: if_split_asm)
  then show "vec_rules v \<and> canonical v \<and> representable v \<and> nel_free_vec v"
    using loads_rules[OF 1(6)] vec_eq_canonical dumps_representable[OF 1(5) assms] check_order_iff
      vec_eq_nel_free[OF 1(7) loads_nel_free[OF 1(6)] assms]
    by (auto simp: vec_rules_def)
next
  assume r: "vec_rules v \<and> canonical v \<and> representable v \<and> nel_free_vec v"
  then obtain tx where "dumps v = Inr tx" "loads tx = Inr (v\<lparr>v_header := written (v_header v)\<rparr>)"
    using loads_dumps_vec assms by blast
  then show "check_structure v = Inr ()"
    using r written_vec_eq check_order_iff[of "v_events v" "\<lambda>_. None"]
    by (simp add: check_structure_def vec_rules_def)
qed

text \<open>
  C7. \<open>check_structure\<close> accepts a stimulus built in memory (its header is a dictionary) exactly when it
  obeys the rules the code checks (\<open>order_ok\<close> for the order and the co-timed events: overlapping set
  ranges are refused where every event at that time is a set), its unused fields are at their defaults,
  and its texts have no control character and no U+0085: the write/read round trip it ends with refuses
  nothing else.
\<close>

theorem check_structure_iff:
  assumes "distinct (map fst (v_header v))"
  shows "check_structure v = Inr () \<longleftrightarrow> vec_rules v \<and> canonical v \<and> representable v \<and> nel_free_vec v"
  using assms by (rule structure_iff)

theorem check_structure_iff_witness: "check_structure vec_example = Inr ()"
  using check_structure_iff[of vec_example] vec_example_rules vec_example_ok by simp

text \<open>
  A header value with U+0085 is no control character to \<open>_check_representable\<close>, is written
  by \<open>dumps\<close>, and cannot be read back.
\<close>

lemma nel_breaks_line:
  "quote [CHR 0x85] = Inr [DQ, CHR 0x85, DQ]"
  "splitlines (''attr.X='' @ [DQ, CHR 0x85, DQ]) = [''attr.X='' @ [DQ], [DQ]]"
  by code_simp+

end
