(* ===== verification/Xtr.thy ===== *)
theory Xtr
  imports Model_Base "HOL-Library.Product_Lexorder"
begin

text \<open>
  \<open>tools/xut/formats/xtr.py\<close>, the trace format: traces, the checks of samples and headers, the
  parser and the writer, \<open>compare\<close> (expected against actual), \<open>diff\<close> (two actual traces) and
  \<open>concat\<close>. A constructor of \<open>tmsg\<close> stands for one message of \<open>XtrError\<close>.
\<close>

section \<open>Data\<close>

type_synonym sample = "(string, string) dict"

record trace =
  t_header :: "(string, string) dict"
  t_samples :: "(string, sample) dict"
  t_prov :: "(string, sample) dict"

record mismatch =
  m_label :: string
  m_port :: string
  m_bit :: int
  m_expected :: string
  m_actual :: string
  m_prov :: "string option"
  m_kind :: string

definition mismatch_of ::
  "string \<Rightarrow> string \<Rightarrow> int \<Rightarrow> string \<Rightarrow> string \<Rightarrow> string option \<Rightarrow> string \<Rightarrow> mismatch" where
  "mismatch_of label port b e a p k =
     \<lparr>m_label = label, m_port = port, m_bit = b, m_expected = e, m_actual = a, m_prov = p, m_kind = k\<rparr>"

datatype tmsg =
    BadProv string
  | BadKey string
  | BadHeaderValue string string
  | BadKind string
  | TBadLabel string
  | BadPort string string
  | TBadBits string string string
  | DashInActual string string
  | ProvNoValue string string
  | TDuplicateLabel string
  | FirstLine
  | BadHeaderToken string
  | MissingLabel
  | TBadValue string
  | PortTwice string
  | BadProvToken string
  | ProvNoSample "string list"
  | BadCfg string

datatype xtr_error = XtrError tmsg "nat option"

abbreviation terr :: "tmsg \<Rightarrow> (xtr_error, 'a) result" where
  "terr m \<equiv> Inl (XtrError m None)"

type_synonym 'a tres = "(xtr_error, 'a) result"

definition tline :: "nat \<Rightarrow> 'a tres \<Rightarrow> 'a tres" where
  "tline n r = (case r of Inl (XtrError m _) \<Rightarrow> Inl (XtrError m (Some n)) | Inr a \<Rightarrow> Inr a)"

lemma tline_Inr [simp]: "tline n (Inr a) = Inr a" "tline n r = Inr a \<longleftrightarrow> r = Inr a"
  by (auto simp: tline_def split: sum.splits xtr_error.splits)

definition tall :: "('a \<Rightarrow> unit tres) \<Rightarrow> 'a list \<Rightarrow> unit tres" where
  "tall f xs = rfold (\<lambda>_ x. f x) () xs"

lemma tall_simps [simp]:
  "tall f [] = Inr ()" "tall f (x # xs) = rbind (f x) (\<lambda>_. tall f xs)"
  by (simp_all add: tall_def rbind_def split: sum.splits)

lemma tall_Inr_iff: "tall f xs = Inr () \<longleftrightarrow> (\<forall>x \<in> set xs. f x = Inr ())"
  by (induction xs) (auto simp: rbind_Inr_iff)

section \<open>Checks\<close>

definition prov_bad :: "char \<Rightarrow> bool" where
  "prov_bad c \<longleftrightarrow> is_space c \<or> c = CHR ''#'' \<or> c = CHR ''|''"

definition check_prov :: "string \<Rightarrow> unit tres" where
  "check_prov tag = (if tag = [] \<or> list_ex prov_bad tag then terr (BadProv tag) else Inr ())"

definition prov_token :: "prov \<Rightarrow> string" where
  "prov_token p =
     (case p of
        Tag t \<Rightarrow> t
      | Tags ts \<Rightarrow> if length (remdups ts) = 1 then ts ! 0 else join '','' ts)"

definition KINDS :: "string list" where
  "KINDS = [''actual'', ''expected'']"

definition header_bad :: "char \<Rightarrow> bool" where
  "header_bad c \<longleftrightarrow> is_space c \<or> c = CHR ''#''"

definition header_kind :: "(string, string) dict \<Rightarrow> string" where
  "header_kind h = (case map_of h ''kind'' of Some k \<Rightarrow> k | None \<Rightarrow> ''actual'')"

definition xtr_check_header :: "(string, string) dict \<Rightarrow> unit tres" where
  "xtr_check_header h =
     rbind (tall (\<lambda>(k, v).
              if \<not> is_header_key k then terr (BadKey k)
              else if v = [] \<or> list_ex header_bad v then terr (BadHeaderValue k v)
              else Inr ()) h) (\<lambda>_.
       if header_kind h \<notin> set KINDS then terr (BadKind (header_kind h)) else Inr ())"

definition bit_char :: "char \<Rightarrow> bool" where
  "bit_char c \<longleftrightarrow> c \<in> {CHR ''0'', CHR ''1'', CHR ''x'', CHR ''z'', CHR ''-''}"

definition check_sample :: "string \<Rightarrow> sample \<Rightarrow> sample \<Rightarrow> string \<Rightarrow> unit tres" where
  "check_sample label values pv kind =
     (if \<not> is_label label then terr (TBadLabel label)
      else
        rbind (tall (\<lambda>(port, bs).
                 if \<not> is_port port then terr (BadPort label port)
                 else if bs = [] \<or> \<not> list_all bit_char bs then terr (TBadBits label port bs)
                 else if kind \<noteq> ''expected'' \<and> CHR ''-'' \<in> set bs then terr (DashInActual label port)
                 else Inr ()) values) (\<lambda>_.
        tall (\<lambda>(port, tag).
           if \<not> dict_has values port then terr (ProvNoValue label port) else check_prov tag) pv))"

definition kind_of :: "trace \<Rightarrow> string" where
  "kind_of t = header_kind (t_header t)"

text \<open>\<open>Trace.add\<close>; no provenance is the empty dictionary.\<close>

definition add :: "trace \<Rightarrow> string \<times> sample \<times> sample \<Rightarrow> trace tres" where
  "add t = (\<lambda>(label, values, pv).
     if dict_has (t_samples t) label then terr (TDuplicateLabel label)
     else rbind (check_sample label values pv (kind_of t)) (\<lambda>_.
       let t' = t\<lparr>t_samples := AList.update label values (t_samples t)\<rparr>
       in Inr (if pv \<noteq> [] then t'\<lparr>t_prov := AList.update label pv (t_prov t')\<rparr> else t')))"

definition new_trace :: "(string, string) dict \<Rightarrow> trace" where
  "new_trace h = \<lparr>t_header = h, t_samples = [], t_prov = []\<rparr>"

section \<open>The writer\<close>

function chunks4 :: "string \<Rightarrow> string list" where
  "chunks4 s = (if s = [] then [] else take 4 s # chunks4 (drop 4 s))"
  by pat_completeness auto
termination
  by (relation "measure length") auto

declare chunks4.simps [simp del]

definition group_bits :: "string \<Rightarrow> string" where
  "group_bits bs =
     (if length bs \<le> 4 then bs
      else let h = length bs mod 4;
               parts = (if h \<noteq> 0 then [take h bs] else []) @ chunks4 (drop h bs)
           in join [US] parts)"

definition fmt_value :: "string \<times> string \<Rightarrow> string" where
  "fmt_value = (\<lambda>(p, b). p @ ''='' @ group_bits b)"

definition fmt_tag :: "string \<times> string \<Rightarrow> string" where
  "fmt_tag = (\<lambda>(p, v). p @ ''='' @ v)"

definition prov_for :: "trace \<Rightarrow> string \<Rightarrow> sample" where
  "prov_for t label = (case map_of (t_prov t) label of Some p \<Rightarrow> p | None \<Rightarrow> [])"

definition fmt_sample :: "string \<times> sample \<times> sample \<Rightarrow> string" where
  "fmt_sample = (\<lambda>(label, values, pv).
     label @ ''  '' @ join '' '' (map fmt_value values) @
     (if pv \<noteq> [] then ''  | '' @ join '' '' (map fmt_tag pv) else []))"

definition xtr_header_line :: "(string, string) dict \<Rightarrow> string" where
  "xtr_header_line h = ''# xut-trace 2  '' @ join '' '' (map (\<lambda>(k, v). k @ ''='' @ v) h)"

definition xtr_dumps :: "trace \<Rightarrow> string tres" where
  "xtr_dumps t =
     rbind (xtr_check_header (t_header t)) (\<lambda>_.
     rbind (rmap (\<lambda>(label, ports).
              rbind (check_sample label ports (prov_for t label) (kind_of t)) (\<lambda>_.
                Inr (fmt_sample (label, ports, prov_for t label)))) (t_samples t)) (\<lambda>ls.
     let extra = sort (filter (\<lambda>k. \<not> dict_has (t_samples t) k) (dict_keys (t_prov t)))
     in if extra \<noteq> [] then terr (ProvNoSample extra)
        else Inr (join [LF] (xtr_header_line (t_header t) # ls) @ [LF])))"

section \<open>The parser\<close>

text \<open>\<open>s.partition(c)\<close>.\<close>

definition partition_at :: "char \<Rightarrow> string \<Rightarrow> string \<times> bool \<times> string" where
  "partition_at c s =
     (let (a, r) = span (\<lambda>d. d \<noteq> c) s in (a, r \<noteq> [], drop 1 r))"

definition xtr_match_header :: "string \<Rightarrow> (int \<times> string) option" where
  "xtr_match_header s =
     (if starts_with ''#'' s then
        (let s1 = dropWhile is_space (drop 1 s)
         in if starts_with ''xut-trace'' s1 then
              (let s2 = drop 9 s1
               in if s2 \<noteq> [] \<and> is_space (hd s2) then
                    (let (ds, rest) = span is_digit (dropWhile is_space s2)
                     in case parse_base 10 ds of
                          Some n \<Rightarrow> if rest \<noteq> [] \<and> is_word (hd rest) then None else Some (int n, rest)
                        | None \<Rightarrow> None)
                  else None)
            else None)
      else None)"

definition header_token :: "(string, string) dict \<Rightarrow> string \<Rightarrow> (string, string) dict tres" where
  "header_token h tok =
     (let (k, eq, v) = partition_at (CHR ''='') tok
      in if \<not> eq \<or> dict_has h k then Inl (XtrError (BadHeaderToken tok) (Some 1)) else Inr (h @ [(k, v)]))"

definition value_char :: "char \<Rightarrow> bool" where
  "value_char c \<longleftrightarrow> bit_char c \<or> c = US"

definition value_token :: "nat \<Rightarrow> sample \<Rightarrow> string \<Rightarrow> sample tres" where
  "value_token n values tok =
     (let (p, eq, b) = partition_at (CHR ''='') tok
      in if \<not> eq \<or> b = [] \<or> \<not> list_all value_char b then Inl (XtrError (TBadValue tok) (Some n))
         else if dict_has values p then Inl (XtrError (PortTwice p) (Some n))
         else Inr (values @ [(p, no_us b)]))"

definition prov_entry :: "nat \<Rightarrow> sample \<Rightarrow> string \<Rightarrow> sample tres" where
  "prov_entry n pv tok =
     (let (p, eq, tag) = partition_at (CHR ''='') tok
      in if \<not> eq \<or> tag = [] \<or> dict_has pv p then Inl (XtrError (BadProvToken tok) (Some n))
         else Inr (pv @ [(p, tag)]))"

text \<open>One line that is not blank: label, values, provenance.\<close>

definition parse_sample :: "nat \<Rightarrow> string \<Rightarrow> (string \<times> sample \<times> sample) tres" where
  "parse_sample n line =
     (let (vpart, _, ppart) = partition_at (CHR ''|'') line
      in case words vpart of
           [] \<Rightarrow> Inl (XtrError MissingLabel (Some n))
         | label # toks \<Rightarrow>
             rbind (rfold (value_token n) [] toks) (\<lambda>values.
             rbind (rfold (prov_entry n) [] (words ppart)) (\<lambda>pv.
               Inr (label, values, pv))))"

definition xtr_line :: "trace \<Rightarrow> nat \<times> string \<Rightarrow> trace tres" where
  "xtr_line t = (\<lambda>(n, raw).
     let line = strip (takeWhile (\<lambda>c. c \<noteq> CHR ''#'') raw)
     in if line = [] then Inr t
        else rbind (parse_sample n line) (\<lambda>s. tline n (add t s)))"

definition XTR_VERSION :: int where
  "XTR_VERSION = 2"

definition xtr_loads :: "string \<Rightarrow> trace tres" where
  "xtr_loads text =
     (case splitlines text of
        [] \<Rightarrow> Inl (XtrError FirstLine (Some 1))
      | first # rest \<Rightarrow>
          (case xtr_match_header first of
             None \<Rightarrow> Inl (XtrError FirstLine (Some 1))
           | Some (version, toks) \<Rightarrow>
               if version \<noteq> XTR_VERSION then Inl (XtrError FirstLine (Some 1))
               else rbind (rfold header_token [] (words toks)) (\<lambda>h.
                    rbind (tline 1 (xtr_check_header h)) (\<lambda>_.
                      rfold xtr_line (new_trace h) (zip [2..<length rest + 2] rest)))))"

section \<open>Comparing traces\<close>

abbreviation is_xz :: "char \<Rightarrow> bool" where
  "is_xz c \<equiv> c = CHR ''x'' \<or> c = CHR ''z''"

fun index_of :: "'a \<Rightarrow> 'a list \<Rightarrow> nat" where
  "index_of x [] = 0"
| "index_of x (y # ys) = (if x = y then 0 else Suc (index_of x ys))"

fun first_difference :: "nat \<Rightarrow> 'a list \<Rightarrow> 'a list \<Rightarrow> (nat \<times> 'a) option" where
  "first_difference i (x # xs) (y # ys) =
     (if y \<noteq> x then Some (i, x) else first_difference (Suc i) xs ys)"
| "first_difference i xs ys = None"

definition order_mismatch :: "string list \<Rightarrow> string list \<Rightarrow> mismatch option" where
  "order_mismatch a_order b_order =
     (let common_a = filter (\<lambda>l. l \<in> set b_order) a_order;
          common_b = filter (\<lambda>l. l \<in> set a_order) b_order
      in case first_difference 0 common_a common_b of
           None \<Rightarrow> None
         | Some (i, l) \<Rightarrow>
             Some (mismatch_of l ''*'' (- 1) (show_nat i) (show_nat (index_of l common_b)) None ''sample-order''))"

definition compare_bits ::
  "string \<Rightarrow> string \<Rightarrow> string option \<Rightarrow> bool \<Rightarrow> string \<Rightarrow> string \<Rightarrow> mismatch list" where
  "compare_bits label port pv x_obs e a =
     concat (map (\<lambda>(i, (ec, ac)).
       if ec = CHR ''-'' \<or> (is_xz ec \<and> \<not> x_obs) then []
       else if ec \<noteq> ac then [mismatch_of label port (int i) [ec] [ac] pv ''value''] else [])
       (enumerate 0 (zip (rev e) (rev a))))"

definition compare_port ::
  "trace \<Rightarrow> bool \<Rightarrow> string \<Rightarrow> sample \<Rightarrow> string \<times> string \<Rightarrow> mismatch list" where
  "compare_port ex x_obs label got = (\<lambda>(port, e).
     let pv = map_of (prov_for ex label) port
     in case map_of got port of
          None \<Rightarrow> [mismatch_of label port (- 1) e ''missing'' pv ''missing-port'']
        | Some a \<Rightarrow>
            if length a \<noteq> length e then [mismatch_of label port (- 1) e a pv ''port-width'']
            else compare_bits label port pv x_obs e a)"

definition compare_sample :: "trace \<Rightarrow> trace \<Rightarrow> bool \<Rightarrow> string \<times> sample \<Rightarrow> mismatch list" where
  "compare_sample ex ac x_obs = (\<lambda>(label, ports).
     case map_of (t_samples ac) label of
       None \<Rightarrow> [mismatch_of label ''*'' (- 1) ''present'' ''missing'' None ''missing-sample'']
     | Some got \<Rightarrow> concat (map (compare_port ex x_obs label got) ports))"

definition option_list :: "'a option \<Rightarrow> 'a list" where
  "option_list r = (case r of Some a \<Rightarrow> [a] | None \<Rightarrow> [])"

definition compare :: "trace \<Rightarrow> trace \<Rightarrow> bool \<Rightarrow> mismatch list" where
  "compare ex ac x_obs =
     concat (map (compare_sample ex ac x_obs) (t_samples ex)) @
     map (\<lambda>l. mismatch_of l ''*'' (- 1) ''missing'' ''present'' None ''extra-sample'')
       (filter (\<lambda>l. \<not> dict_has (t_samples ex) l) (dict_keys (t_samples ac))) @
     option_list (order_mismatch (dict_keys (t_samples ex)) (dict_keys (t_samples ac)))"

text \<open>
  \<open>diff\<close> runs over \<open>keys() | keys()\<close>, whose order is not fixed: \<open>labels\<close> and \<open>ports\<close> are the
  enumerations one run happens to use.
\<close>

definition diff_bits :: "string \<Rightarrow> string \<Rightarrow> bool \<Rightarrow> bool \<Rightarrow> string \<Rightarrow> string \<Rightarrow> mismatch list" where
  "diff_bits label port a_x b_x va vb =
     concat (map (\<lambda>(i, (ca, cb)).
       if ca = cb \<or> (is_xz ca \<and> \<not> b_x) \<or> (is_xz cb \<and> \<not> a_x) then []
       else [mismatch_of label port (int i) [ca] [cb] None ''value''])
       (enumerate 0 (zip (rev va) (rev vb))))"

definition or_missing :: "string option \<Rightarrow> string" where
  "or_missing v = (case v of Some s \<Rightarrow> if s = [] then ''missing'' else s | None \<Rightarrow> ''missing'')"

definition diff_port ::
  "string \<Rightarrow> bool \<Rightarrow> bool \<Rightarrow> sample \<Rightarrow> sample \<Rightarrow> string \<Rightarrow> mismatch list" where
  "diff_port label a_x b_x pa pb port =
     (case (map_of pa port, map_of pb port) of
        (Some va, Some vb) \<Rightarrow>
          if length va \<noteq> length vb then [mismatch_of label port (- 1) va vb None ''port-width'']
          else diff_bits label port a_x b_x va vb
      | (va, vb) \<Rightarrow> [mismatch_of label port (- 1) (or_missing va) (or_missing vb) None ''missing-port''])"

definition presence :: "'a option \<Rightarrow> string" where
  "presence r = (if r = None then ''missing'' else ''present'')"

definition diff_sample ::
  "trace \<Rightarrow> trace \<Rightarrow> bool \<Rightarrow> bool \<Rightarrow> (string \<Rightarrow> string list) \<Rightarrow> string \<Rightarrow> mismatch list" where
  "diff_sample a b a_x b_x ports label =
     (case (map_of (t_samples a) label, map_of (t_samples b) label) of
        (Some pa, Some pb) \<Rightarrow> concat (map (diff_port label a_x b_x pa pb) (ports label))
      | (pa, pb) \<Rightarrow>
          [mismatch_of label ''*'' (- 1) (presence pa) (presence pb) None ''missing-sample''])"

definition mkey :: "mismatch \<Rightarrow> string \<times> string \<times> int" where
  "mkey m = (m_label m, m_port m, m_bit m)"

definition diff_with ::
  "string list \<Rightarrow> (string \<Rightarrow> string list) \<Rightarrow> trace \<Rightarrow> trace \<Rightarrow> bool \<Rightarrow> bool \<Rightarrow> mismatch list" where
  "diff_with labels ports a b a_x b_x =
     sort_key mkey
       (concat (map (diff_sample a b a_x b_x ports) labels) @
        option_list (order_mismatch (dict_keys (t_samples a)) (dict_keys (t_samples b))))"

definition diff_labels :: "trace \<Rightarrow> trace \<Rightarrow> string list" where
  "diff_labels a b = dedup (dict_keys (t_samples a) @ dict_keys (t_samples b))"

definition sample_of :: "trace \<Rightarrow> string \<Rightarrow> sample" where
  "sample_of t label = (case map_of (t_samples t) label of Some s \<Rightarrow> s | None \<Rightarrow> [])"

definition diff_ports :: "trace \<Rightarrow> trace \<Rightarrow> string \<Rightarrow> string list" where
  "diff_ports a b label = dedup (dict_keys (sample_of a label) @ dict_keys (sample_of b label))"

definition diff :: "trace \<Rightarrow> trace \<Rightarrow> bool \<Rightarrow> bool \<Rightarrow> mismatch list" where
  "diff a b a_x b_x = diff_with (diff_labels a b) (diff_ports a b) a b a_x b_x"

section \<open>One trace of several configurations\<close>

definition concat_part :: "trace \<Rightarrow> string \<times> trace \<Rightarrow> trace tres" where
  "concat_part t = (\<lambda>(cfg, part).
     if \<not> is_cfg cfg then terr (BadCfg cfg)
     else rfold (\<lambda>t (label, ports). add t (cfg @ ''/'' @ label, ports, prov_for part label)) t
            (t_samples part))"

definition concat_traces :: "(string \<times> trace) list \<Rightarrow> (string, string) dict \<Rightarrow> trace tres" where
  "concat_traces parts h =
     rbind (xtr_check_header h) (\<lambda>_. rfold concat_part (new_trace h) parts)"

section \<open>Bits in groups of four\<close>

lemma no_us_append [simp]: "no_us (a @ b) = no_us a @ no_us b" "no_us [US] = []"
  by (simp_all add: no_us_def)

lemma no_us_self: "US \<notin> set s \<Longrightarrow> no_us s = s"
  by (simp add: no_us_def filter_id_conv) metis

lemma no_us_join: "no_us (join [US] ss) = no_us (concat ss)"
proof (induction ss)
  case (Cons s ss)
  then show ?case by (cases "ss = []") (simp_all add: join_Cons no_us_def)
qed (simp add: no_us_def)

lemma concat_chunks4: "concat (chunks4 s) = s"
proof (induction s rule: chunks4.induct)
  case (1 s)
  then show ?case by (subst chunks4.simps) simp
qed

lemma chunks4_ne: "s \<noteq> [] \<Longrightarrow> chunks4 s \<noteq> []"
  by (subst chunks4.simps) simp

lemma no_us_group: "US \<notin> set bs \<Longrightarrow> no_us (group_bits bs) = bs"
proof -
  assume u: "US \<notin> set bs"
  have "concat ((if length bs mod 4 \<noteq> 0 then [take (length bs mod 4) bs] else []) @
      chunks4 (drop (length bs mod 4) bs)) = bs"
    by (simp add: concat_chunks4)
  then show ?thesis using no_us_self[OF u] by (simp add: group_bits_def Let_def no_us_join)
qed

lemma set_join: "set (join sep ss) \<subseteq> set sep \<union> set (concat ss)"
proof (induction ss)
  case (Cons s ss)
  then show ?case by (cases "ss = []") (auto simp: join_Cons)
qed simp

lemma set_group: "set (group_bits bs) \<subseteq> insert US (set bs)"
proof (cases "length bs \<le> 4")
  case False
  let ?parts = "(if length bs mod 4 \<noteq> 0 then [take (length bs mod 4) bs] else []) @
      chunks4 (drop (length bs mod 4) bs)"
  have "concat ?parts = bs" by (simp add: concat_chunks4)
  then have "set (join [US] ?parts) \<subseteq> {US} \<union> set bs" using set_join[of "[US]" ?parts] by simp
  then show ?thesis using False by (simp add: group_bits_def Let_def)
qed (auto simp: group_bits_def)

lemma join_ne: "concat ss \<noteq> [] \<Longrightarrow> join sep ss \<noteq> []"
proof (induction ss)
  case (Cons s ss)
  then show ?case by (cases "ss = []") (auto simp: join_Cons)
qed simp

lemma group_ne: "bs \<noteq> [] \<Longrightarrow> group_bits bs \<noteq> []"
proof -
  assume b: "bs \<noteq> []"
  let ?parts = "(if length bs mod 4 \<noteq> 0 then [take (length bs mod 4) bs] else []) @
      chunks4 (drop (length bs mod 4) bs)"
  have "concat ?parts = bs" by (simp add: concat_chunks4)
  then have "join [US] ?parts \<noteq> []" using b by (intro join_ne) simp
  then show ?thesis using b by (simp add: group_bits_def Let_def)
qed

section \<open>One line\<close>

lemma label_chars: "is_label s \<Longrightarrow> s \<noteq> [] \<and> (\<forall>c \<in> set s. \<not> is_space c \<and> c \<noteq> CHR ''#'' \<and> c \<noteq> CHR ''|'' \<and> c \<noteq> CHR ''='')"
  using label_char_plain by (simp add: is_label_def list_all_iff)

lemma port_chars:
  assumes "is_port s"
  shows "s \<noteq> [] \<and> (\<forall>c \<in> set s. \<not> is_space c \<and> c \<noteq> CHR ''#'' \<and> c \<noteq> CHR ''|'' \<and> c \<noteq> CHR ''='')"
proof -
  have p: "\<not> is_space c \<and> c \<noteq> CHR ''#'' \<and> c \<noteq> CHR ''|'' \<and> c \<noteq> CHR ''=''"
    if "name_start c \<or> is_digit c \<or> c = CHR ''$''" for c
    using that by (auto simp: name_start_def char_class_defs Let_def)
  have "\<forall>c \<in> set s. name_start c \<or> is_digit c \<or> c = CHR ''$''"
    using assms by (cases s) (auto simp: is_port_def list_all_iff)
  then show ?thesis using p assms by (simp add: is_port_def)
qed

definition value_ok :: "string \<times> string \<Rightarrow> bool" where
  "value_ok = (\<lambda>(p, b). is_port p \<and> b \<noteq> [] \<and> list_all bit_char b)"

definition tag_ok :: "string \<times> string \<Rightarrow> bool" where
  "tag_ok = (\<lambda>(p, t). is_port p \<and> t \<noteq> [] \<and> \<not> list_ex prov_bad t)"

lemma check_sample_ok:
  assumes "check_sample label values pv kind = Inr ()"
  shows "is_label label \<and> list_all value_ok values \<and> list_all tag_ok pv"
proof -
  have 1: "is_label label" using assms by (auto simp: check_sample_def split: if_split_asm)
  then have 2: "\<forall>x \<in> set values. (case x of (port, bs) \<Rightarrow>
      if \<not> is_port port then terr (BadPort label port)
      else if bs = [] \<or> \<not> list_all bit_char bs then terr (TBadBits label port bs)
      else if kind \<noteq> ''expected'' \<and> CHR ''-'' \<in> set bs then terr (DashInActual label port)
      else Inr ()) = Inr ()"
    and 3: "\<forall>x \<in> set pv. (case x of (port, tag) \<Rightarrow>
      if \<not> dict_has values port then terr (ProvNoValue label port) else check_prov tag) = Inr ()"
    using assms by (simp_all add: check_sample_def rbind_Inr_iff tall_Inr_iff)
  have v: "list_all value_ok values"
    unfolding list_all_iff
  proof
    fix x assume x: "x \<in> set values"
    show "value_ok x" using bspec[OF 2 x] by (cases x) (simp add: value_ok_def split: if_split_asm)
  qed
  have "list_all tag_ok pv"
    unfolding list_all_iff
  proof
    fix x assume x: "x \<in> set pv"
    obtain p t where xx: "x = (p, t)" by (cases x)
    have h: "dict_has values p" "check_prov t = Inr ()"
      using bspec[OF 3 x] xx by (auto split: if_split_asm)
    then have "p \<in> fst ` set values" by (simp add: dict_has_iff)
    then have "is_port p" using v by (auto simp: list_all_iff value_ok_def)
    then show "tag_ok x" using h(2) xx by (auto simp: tag_ok_def check_prov_def split: if_split_asm)
  qed
  then show ?thesis using 1 v by blast
qed

lemma partition_first: "c \<notin> set a \<Longrightarrow> partition_at c (a @ c # b) = (a, True, b)"
proof -
  assume "c \<notin> set a"
  then have "span (\<lambda>d. d \<noteq> c) (a @ c # b) = (a, c # b)" by (intro span_append) auto
  then show ?thesis by (simp add: partition_at_def)
qed

lemma partition_none: "c \<notin> set a \<Longrightarrow> partition_at c a = (a, False, [])"
proof -
  assume "c \<notin> set a"
  then have "span (\<lambda>d. d \<noteq> c) (a @ []) = (a, [])" by (intro span_append) auto
  then show ?thesis by (simp add: partition_at_def)
qed

lemma bit_char_facts: "bit_char c \<Longrightarrow> c \<noteq> US \<and> \<not> is_space c \<and> c \<noteq> CHR ''#'' \<and> c \<noteq> CHR ''|''"
  by (auto simp: bit_char_def is_space_def)

lemma group_chars: "list_all bit_char b \<Longrightarrow> list_all value_char (group_bits b)"
  using set_group[of b] by (auto simp: list_all_iff value_char_def)

lemma value_token_fmt:
  assumes "value_ok (p, b)" "p \<notin> fst ` set values"
  shows "value_token n values (fmt_value (p, b)) = Inr (values @ [(p, b)])"
proof -
  have eq: "CHR ''='' \<notin> set p" using assms(1) port_chars[of p] by (auto simp: value_ok_def)
  have b: "b \<noteq> []" "list_all bit_char b" using assms(1) by (auto simp: value_ok_def)
  have "US \<notin> set b" using b(2) bit_char_facts by (auto simp: list_all_iff)
  then have "no_us (group_bits b) = b" by (rule no_us_group)
  then show ?thesis
    using partition_first[OF eq, of "group_bits b"] group_ne[OF b(1)] group_chars[OF b(2)] assms(2)
    by (simp add: value_token_def fmt_value_def dict_has_iff)
qed

lemma value_tokens_fmt:
  assumes "list_all value_ok vs" "distinct (map fst (vals @ vs))"
  shows "rfold (value_token n) vals (map fmt_value vs) = Inr (vals @ vs)"
  using assms
proof (induction vs arbitrary: vals)
  case (Cons v vs)
  obtain p b where v: "v = (p, b)" by (cases v)
  have "value_token n vals (fmt_value v) = Inr (vals @ [v])"
    using value_token_fmt[of p b vals n] Cons.prems v by auto
  then show ?case using Cons.IH[of "vals @ [v]"] Cons.prems by simp
qed simp

lemma prov_entries_fmt:
  assumes "list_all tag_ok vs" "distinct (map fst (pv @ vs))"
  shows "rfold (prov_entry n) pv (map fmt_tag vs) = Inr (pv @ vs)"
  using assms
proof (induction vs arbitrary: pv)
  case (Cons v vs)
  obtain p b where v: "v = (p, b)" by (cases v)
  have "CHR ''='' \<notin> set p" using Cons.prems(1) v port_chars[of p] by (auto simp: tag_ok_def)
  from partition_first[OF this, of b] have "prov_entry n pv (fmt_tag v) = Inr (pv @ [v])"
    using Cons.prems v by (auto simp: prov_entry_def fmt_tag_def tag_ok_def dict_has_iff)
  then show ?case using Cons.IH[of "pv @ [v]"] Cons.prems by simp
qed simp

text \<open>The characters of a token of a line.\<close>

definition clean :: "char \<Rightarrow> bool" where
  "clean c \<longleftrightarrow> \<not> is_space c \<and> c \<noteq> CHR ''#'' \<and> c \<noteq> CHR ''|''"

lemma fmt_value_clean: "value_ok v \<Longrightarrow> fmt_value v \<noteq> [] \<and> list_all clean (fmt_value v)"
proof -
  assume v: "value_ok v"
  obtain p b where vv: "v = (p, b)" by (cases v)
  have p: "is_port p" and b: "list_all bit_char b" using v vv by (auto simp: value_ok_def)
  have "clean c" if "value_char c" for c
    using that by (auto simp: clean_def value_char_def bit_char_def is_space_def)
  then have "list_all clean (group_bits b)" using group_chars[OF b] by (simp add: list_all_iff)
  moreover have "list_all clean p" using port_chars[OF p] by (simp add: clean_def list_all_iff)
  ultimately show ?thesis using vv by (simp add: fmt_value_def clean_def is_space_def)
qed

lemma fmt_tag_clean: "tag_ok v \<Longrightarrow> fmt_tag v \<noteq> [] \<and> list_all clean (fmt_tag v)"
proof -
  assume v: "tag_ok v"
  obtain p t where vv: "v = (p, t)" by (cases v)
  have "list_all clean p" using v vv port_chars[of p] by (simp add: tag_ok_def clean_def list_all_iff)
  moreover have "list_all clean t"
    using v vv by (simp add: tag_ok_def clean_def list_all_iff list_ex_iff prov_bad_def)
  ultimately show ?thesis using vv by (simp add: fmt_tag_def clean_def is_space_def)
qed

lemma join_chars: "\<forall>s \<in> set ss. list_all P s \<Longrightarrow> list_all P sep \<Longrightarrow> list_all P (join sep ss)"
proof (induction ss)
  case (Cons s ss)
  then show ?case by (cases "ss = []") (simp_all add: join_Cons)
qed simp

lemma parse_sample_fmt:
  assumes "check_sample label values pv kind = Inr ()" "distinct (map fst values)" "distinct (map fst pv)"
  defines "line \<equiv> fmt_sample (label, values, pv)"
  shows "parse_sample n (strip (takeWhile (\<lambda>c. c \<noteq> CHR ''#'') line)) = Inr (label, values, pv) \<and>
    strip (takeWhile (\<lambda>c. c \<noteq> CHR ''#'') line) \<noteq> [] \<and> list_all (\<lambda>c. \<not> is_linebreak c) line"
proof -
  have ok: "is_label label" "list_all value_ok values" "list_all tag_ok pv"
    using check_sample_ok[OF assms(1)] by auto
  let ?sp = "\<lambda>c. clean c \<or> c = CHR '' ''"
  let ?v = "label @ ''  '' @ join '' '' (map fmt_value values)"
  let ?t = "join '' '' (map fmt_tag pv)"
  have cl: "list_all clean label" using label_chars[OF ok(1)] by (simp add: clean_def list_all_iff)
  have mono: "list_all clean s \<Longrightarrow> list_all ?sp s" for s by (simp add: list_all_iff)
  have cv: "list_all ?sp (join '' '' (map fmt_value values))"
    using ok(2) fmt_value_clean mono by (intro join_chars) (auto simp: list_all_iff)
  have ct: "list_all ?sp ?t"
    using ok(3) fmt_tag_clean mono by (intro join_chars) (auto simp: list_all_iff)
  have v: "list_all ?sp ?v" using mono[OF cl] cv by simp
  have nob: "\<not> is_linebreak c" if "?sp c \<or> c = CHR ''|''" for c
    using that is_linebreak_space[of c] by (auto simp: clean_def is_linebreak_def)
  have line: "line = ?v @ (if pv \<noteq> [] then ''  | '' @ ?t else [])" by (simp add: line_def fmt_sample_def)
  have noh: "CHR ''#'' \<notin> set ?v" "CHR ''#'' \<notin> set ?t" "CHR ''|'' \<notin> set ?v"
    using v ct by (auto simp: list_all_iff clean_def)
  then have tw: "takeWhile (\<lambda>c. c \<noteq> CHR ''#'') line = line"
    unfolding line by (subst takeWhile_eq_all_conv) auto
  have br: "list_all (\<lambda>c. \<not> is_linebreak c) line"
  proof -
    have "list_all (\<lambda>c. \<not> is_linebreak c) ?v" "list_all (\<lambda>c. \<not> is_linebreak c) ?t"
      using v ct nob by (simp_all only: list_all_iff) blast+
    then show ?thesis unfolding line by (simp add: is_linebreak_def)
  qed
  have wv: "words ?v = label # map fmt_value values"
  proof -
    have "words ?v = words label @ words ('' '' @ join '' '' (map fmt_value values))"
      using words_split[of "CHR '' ''" label "'' '' @ join '' '' (map fmt_value values)"]
      by (simp add: is_space_def)
    moreover have "words label = [label]" using words_token label_chars[OF ok(1)] by blast
    moreover have "words ('' '' @ join '' '' (map fmt_value values)) = words (join '' '' (map fmt_value values))"
      using words_split[of "CHR '' ''" "[]"] by (simp add: is_space_def)
    moreover have "words (join '' '' (map fmt_value values)) = map fmt_value values"
      using ok(2) fmt_value_clean by (intro words_join) (auto simp: list_all_iff clean_def)
    ultimately show ?thesis by simp
  qed
  have wt: "words ?t = map fmt_tag pv"
    using ok(3) fmt_tag_clean by (intro words_join) (auto simp: list_all_iff clean_def)
  have vals: "rfold (value_token n) [] (map fmt_value values) = Inr values"
    using value_tokens_fmt[OF ok(2), of "[]"] assms(2) by simp
  have tags: "rfold (prov_entry n) [] (map fmt_tag pv) = Inr pv"
    using prov_entries_fmt[OF ok(3), of "[]"] assms(3) by simp
  show ?thesis
  proof (cases "pv = []")
    case True
    have "CHR ''|'' \<notin> set (strip line)"
      using noh(3) True line
      by (auto simp: strip_def lstrip_def rstrip_def dest!: set_dropWhileD)
    then have "parse_sample n (strip line) = Inr (label, values, pv)"
      using partition_none[of "CHR ''|''" "strip line"] words_strip[of line] wv vals True line
      by (simp add: parse_sample_def)
    moreover have "strip line \<noteq> []" using words_strip[of line] wv True line by auto
    ultimately show ?thesis unfolding tw using br by simp
  next
    case False
    have tne: "?t \<noteq> []" using wt False by auto
    have "last ?t \<in> set ?t" using tne by simp
    have lt: "\<not> is_space (last ?t)"
    proof -
      obtain pre q where pq: "pv = pre @ [q]" using False by (cases pv rule: rev_cases) auto
      have q: "fmt_tag q \<noteq> []" "list_all clean (fmt_tag q)" using fmt_tag_clean ok(3) pq by auto
      have "last (join sep (ss @ [s])) = last s" if "s \<noteq> []" for sep s and ss :: "string list"
        using that
      proof (induction ss)
        case (Cons u us)
        have "join sep (us @ [s]) \<noteq> []" using that by (intro join_ne) simp
        then show ?case using Cons by (simp add: join_Cons)
      qed simp
      then have "last ?t = last (fmt_tag q)" using pq q(1) by simp
      then show ?thesis using q by (auto simp: list_all_iff clean_def)
    qed
    have "\<not> is_space (hd label)" "label \<noteq> []" using label_chars[OF ok(1)] by auto
    then have "tight line" using lt tne False by (simp add: line tight_def)
    then have s: "strip line = line" by (rule strip_tight)
    have "line = (?v @ ''  '') @ CHR ''|'' # ('' '' @ ?t)" using False line by simp
    then have "partition_at (CHR ''|'') line = (?v @ ''  '', True, '' '' @ ?t)"
      using partition_first[of "CHR ''|''" "?v @ ''  ''" "'' '' @ ?t"] noh(3) by simp
    moreover have "words (?v @ ''  '') = words ?v"
      using words_split[of "CHR '' ''" ?v "'' ''"] words_spaces[of "'' ''"] by (simp add: is_space_def)
    moreover have "words ('' '' @ ?t) = words ?t"
      using words_split[of "CHR '' ''" "[]" ?t] by (simp add: is_space_def)
    ultimately have "parse_sample n line = Inr (label, values, pv)"
      using wv wt vals tags by (simp add: parse_sample_def)
    then show ?thesis unfolding tw s using br \<open>label \<noteq> []\<close> by (simp add: line)
  qed
qed


end
