(* ===== verification/Xtr_Facts.thy ===== *)
theory Xtr_Facts
  imports Xtr "HOL-Library.Multiset"
begin

text \<open>
  What holds of traces: a trace built by \<open>add\<close> survives the text, \<open>compare\<close> is silent exactly
  when the traces agree, and the report of \<open>diff\<close> does not depend on the iteration order of
  Python's sets.
\<close>

section \<open>Whole traces\<close>

definition header_of_items :: "(string \<times> sample \<times> sample) list \<Rightarrow> (string, sample) dict" where
  "header_of_items items = map (\<lambda>(l, v, p). (l, v)) items"

definition items_prov :: "(string \<times> sample \<times> sample) list \<Rightarrow> (string, sample) dict" where
  "items_prov items = map (\<lambda>(l, v, p). (l, p)) (filter (\<lambda>(l, v, p). p \<noteq> []) items)"

lemma keys_items: "fst ` set (header_of_items items) = fst ` set items"
  by (induction items) (auto simp: header_of_items_def)

lemma items_prov_Cons:
  "items_prov (x # items) = (if snd (snd x) = [] then [] else [(fst x, snd (snd x))]) @ items_prov items"
  by (cases x) (simp add: items_prov_def)

lemma keys_prov: "fst ` set (items_prov items) \<subseteq> fst ` set items"
proof (induction items)
  case (Cons x items)
  then show ?case unfolding items_prov_Cons by auto
qed (simp add: items_prov_def)

lemma adds_fields:
  assumes "rfold add (new_trace h) items = Inr t"
  shows "t = \<lparr>t_header = h, t_samples = header_of_items items, t_prov = items_prov items\<rparr> \<and>
    distinct (map fst items) \<and> (\<forall>(l, v, p) \<in> set items. check_sample l v p (header_kind h) = Inr ())"
  using assms
proof (induction items arbitrary: t rule: rev_induct)
  case Nil
  then show ?case by (simp add: new_trace_def header_of_items_def items_prov_def)
next
  case (snoc x items)
  obtain l v p where x: "x = (l, v, p)" by (cases x)
  obtain t1 where t1: "rfold add (new_trace h) items = Inr t1" "add t1 x = Inr t"
    using snoc.prems by (auto simp: rfold_append rbind_Inr_iff)
  note IH = snoc.IH[OF t1(1)]
  have k: "kind_of t1 = header_kind h" using IH by (simp add: kind_of_def)
  have new: "l \<notin> fst ` set items"
    using t1(2) IH x by (simp add: add_def dict_has_iff keys_items split: if_split_asm)
  have n1: "l \<notin> fst ` set (header_of_items items)" "l \<notin> fst ` set (items_prov items)"
    using new keys_prov[of items] by (auto simp only: keys_items)
  have "check_sample l v p (header_kind h) = Inr ()"
    using t1(2) x k by (auto simp: add_def rbind_Inr_iff split: if_split_asm)
  moreover have "t = \<lparr>t_header = h, t_samples = header_of_items (items @ [x]), t_prov = items_prov (items @ [x])\<rparr>"
    using t1(2) x IH n1 update_new[OF n1(1)] update_new[OF n1(2)]
    by (auto simp: add_def rbind_Inr_iff Let_def header_of_items_def items_prov_def split: if_split_asm)
  ultimately show ?case using IH new x by auto
qed

lemma prov_for_items:
  assumes "distinct (map fst items)" "(l, v, p) \<in> set items"
  shows "prov_for \<lparr>t_header = h, t_samples = s, t_prov = items_prov items\<rparr> l = p"
proof -
  have d: "distinct (map fst (items_prov items))"
    using assms(1)
  proof (induction items)
    case (Cons x items)
    then have "fst x \<notin> fst ` set (items_prov items)" using keys_prov[of items] by auto
    then show ?case using Cons unfolding items_prov_Cons by simp
  qed (simp add: items_prov_def)
  have other: "(l, q) \<in> set (items_prov items) \<Longrightarrow> q = p" for q
  proof -
    assume "(l, q) \<in> set (items_prov items)"
    then obtain v' where "(l, v', q) \<in> set items" by (auto simp: items_prov_def)
    then show "q = p" using assms by (auto dest: eq_key_imp_eq_value)
  qed
  show ?thesis
  proof (cases "p = []")
    case False
    then have "(l, p) \<in> set (items_prov items)" using assms(2) by (force simp: items_prov_def)
    then have "map_of (items_prov items) l = Some p" using d by simp
    then show ?thesis by (simp add: prov_for_def)
  next
    case True
    have "map_of (items_prov items) l = None"
    proof (rule ccontr)
      assume "map_of (items_prov items) l \<noteq> None"
      then obtain q where "(l, q) \<in> set (items_prov items)" by (auto dest: map_of_SomeD)
      moreover from this have "q \<noteq> []" by (auto simp: items_prov_def)
      ultimately show False using other True by blast
    qed
    then show ?thesis using True by (simp add: prov_for_def)
  qed
qed

lemma header_tokens:
  assumes "xtr_check_header h = Inr ()" "distinct (map fst h)"
  shows "words (''  '' @ join '' '' (map (\<lambda>(k, v). k @ ''='' @ v) h)) = map (\<lambda>(k, v). k @ ''='' @ v) h \<and>
    rfold header_token [] (map (\<lambda>(k, v). k @ ''='' @ v) h) = Inr h \<and>
    list_all (\<lambda>c. \<not> is_linebreak c) (xtr_header_line h)"
proof -
  let ?f = "\<lambda>(k, v). k @ ''='' @ v"
  have each: "is_header_key k \<and> v \<noteq> [] \<and> \<not> list_ex header_bad v" if "(k, v) \<in> set h" for k v
    using assms(1) that by (force simp: xtr_check_header_def rbind_Inr_iff tall_Inr_iff split: if_split_asm)
  have key: "\<forall>c \<in> set k. \<not> is_space c \<and> c \<noteq> CHR ''=''" if "is_header_key k" for k
  proof -
    have c: "\<not> is_space c \<and> c \<noteq> CHR ''=''" if "name_start c \<or> is_digit c \<or> c = CHR ''.''" for c
      using that by (auto simp: name_start_def char_class_defs Let_def)
    have "\<forall>c \<in> set k. name_start c \<or> is_digit c \<or> c = CHR ''.''"
      using that by (cases k) (auto simp: is_header_key_def list_all_iff)
    then show ?thesis using c by blast
  qed
  have val: "\<forall>c \<in> set v. \<not> is_space c" if "\<not> list_ex header_bad v" for v
    using that by (simp add: list_ex_iff header_bad_def)
  have tok: "?f x \<noteq> [] \<and> (\<forall>c \<in> set (?f x). \<not> is_space c)" if "x \<in> set h" for x
  proof -
    obtain k v where x: "x = (k, v)" by (cases x)
    then show ?thesis using each[of k v] key[of k] val[of v] that by (auto simp: is_space_def)
  qed
  have w: "words (join '' '' (map ?f h)) = map ?f h" using tok by (intro words_join) auto
  have "words (''  '' @ join '' '' (map ?f h)) = words (join '' '' (map ?f h))"
    using words_split[of "CHR '' ''" "[]" "'' '' @ join '' '' (map ?f h)"]
      words_split[of "CHR '' ''" "[]" "join '' '' (map ?f h)"] by (simp add: is_space_def)
  moreover have "rfold header_token pre (map ?f hs) = Inr (pre @ hs)"
    if "distinct (map fst (pre @ hs))" "set hs \<subseteq> set h" for pre hs
    using that
  proof (induction hs arbitrary: pre)
    case (Cons x hs)
    obtain k v where x: "x = (k, v)" by (cases x)
    have "CHR ''='' \<notin> set k" using each[of k v] key[of k] Cons.prems(2) x by auto
    from partition_first[OF this, of v] have "header_token pre (?f x) = Inr (pre @ [x])"
      using Cons.prems(1) x by (auto simp: header_token_def dict_has_iff)
    then show ?case using Cons.IH[of "pre @ [x]"] Cons.prems by simp
  qed simp
  moreover have "list_all (\<lambda>c. \<not> is_linebreak c) (xtr_header_line h)"
  proof -
    let ?P = "\<lambda>c. \<not> is_linebreak c"
    have "list_all ?P (?f x)" if "x \<in> set h" for x
      using tok[OF that] is_linebreak_space by (auto simp: list_all_iff)
    then have "list_all ?P (join '' '' (map ?f h))"
      by (intro join_chars) (auto simp: is_linebreak_def)
    then show ?thesis by (simp add: xtr_header_line_def is_linebreak_def)
  qed
  ultimately show ?thesis using w assms(2) by auto
qed

lemma xtr_match_header_line: "xtr_match_header (xtr_header_line h) =
    Some (2, ''  '' @ join '' '' (map (\<lambda>(k, v). k @ ''='' @ v) h))"
proof -
  let ?j = "join '' '' (map (\<lambda>(k, v). k @ ''='' @ v) h)"
  have "span is_digit (''2  '' @ ?j) = (''2'', ''  '' @ ?j)" by (simp add: span_def is_digit_def)
  moreover have "parse_base 10 ''2'' = Some 2" by code_simp
  ultimately show ?thesis
    by (simp add: xtr_match_header_def xtr_header_line_def starts_with_def is_space_def is_word_def
        char_class_defs Let_def)
qed

text \<open>What one \<open>add\<close> needs of its dictionaries.\<close>

definition dict_item :: "string \<times> sample \<times> sample \<Rightarrow> bool" where
  "dict_item = (\<lambda>(l, v, p). distinct (map fst v) \<and> distinct (map fst p))"

lemma xtr_lines:
  assumes "\<forall>(l, v, p) \<in> set items. check_sample l v p k = Inr ()" "list_all dict_item items"
    "length ns = length items" "rfold add t items = Inr t'"
  shows "rfold xtr_line t (zip ns (map fmt_sample items)) = Inr t'"
  using assms
proof (induction items arbitrary: t ns)
  case (Cons x items)
  obtain n ms where ns: "ns = n # ms" "length ms = length items" using Cons.prems(3) by (cases ns) auto
  obtain l v p where x: "x = (l, v, p)" by (cases x)
  obtain t1 where t1: "add t x = Inr t1" "rfold add t1 items = Inr t'"
    using Cons.prems(4) by (auto simp: rbind_Inr_iff)
  have "check_sample l v p k = Inr ()" "distinct (map fst v)" "distinct (map fst p)"
    using Cons.prems(1,2) x by (auto simp: dict_item_def)
  from parse_sample_fmt[OF this, of n] have "xtr_line t (n, fmt_sample x) = Inr t1"
    using t1(1) x by (simp add: xtr_line_def Let_def)
  then show ?case using Cons.IH[of ms t1] Cons.prems t1(2) ns by simp
qed simp

text \<open>
  C8. A trace built by \<open>add\<close> is written by \<open>dumps\<close> and read back by \<open>loads\<close> exactly:
  labels, ports, bits (grouped by four in the text) and provenance, in order.
\<close>

theorem xtr_loads_dumps:
  assumes "rfold add (new_trace h) items = Inr t" "xtr_check_header h = Inr ()"
    "distinct (map fst h)" "list_all dict_item items"
  shows "\<exists>tx. xtr_dumps t = Inr tx \<and> xtr_loads tx = Inr t"
proof -
  have t: "t = \<lparr>t_header = h, t_samples = header_of_items items, t_prov = items_prov items\<rparr>"
    and d: "distinct (map fst items)"
    and ok: "\<forall>(l, v, p) \<in> set items. check_sample l v p (header_kind h) = Inr ()"
    using adds_fields[OF assms(1)] by auto
  have "rmap (\<lambda>(label, ports). rbind (check_sample label ports (prov_for t label) (kind_of t)) (\<lambda>_.
                Inr (fmt_sample (label, ports, prov_for t label)))) (header_of_items xs) =
      Inr (map fmt_sample xs)" if "set xs \<subseteq> set items" for xs
    using that
  proof (induction xs)
    case (Cons x xs)
    obtain l v p where x: "x = (l, v, p)" by (cases x)
    then have m: "(l, v, p) \<in> set items" using Cons.prems by simp
    have "prov_for t l = p" using prov_for_items[OF d m] t by simp
    moreover have "kind_of t = header_kind h" using t by (simp add: kind_of_def)
    ultimately show ?case using Cons x ok m by (auto simp: header_of_items_def)
  qed (simp add: header_of_items_def)
  then have lines: "rmap (\<lambda>(label, ports). rbind (check_sample label ports (prov_for t label) (kind_of t)) (\<lambda>_.
                Inr (fmt_sample (label, ports, prov_for t label)))) (t_samples t) = Inr (map fmt_sample items)"
    using t by simp
  have noextra: "filter (\<lambda>k. \<not> dict_has (t_samples t) k) (dict_keys (t_prov t)) = []"
    using t by (force simp: filter_empty_conv dict_has_iff dict_keys_def header_of_items_def items_prov_def)
  have hd: "t_header t = h" using t by simp
  let ?tx = "join [LF] (xtr_header_line h # map fmt_sample items) @ [LF]"
  have dumps: "xtr_dumps t = Inr ?tx"
    unfolding xtr_dumps_def lines hd assms(2) noextra by simp
  note ht = header_tokens[OF assms(2,3)]
  have "\<forall>l \<in> set (xtr_header_line h # map fmt_sample items). \<forall>c \<in> set l. \<not> is_linebreak c"
  proof -
    have "list_all (\<lambda>c. \<not> is_linebreak c) (fmt_sample x)" if "x \<in> set items" for x
    proof -
      obtain l v p where x: "x = (l, v, p)" by (cases x)
      have "check_sample l v p (header_kind h) = Inr ()" "distinct (map fst v)" "distinct (map fst p)"
        using ok assms(4) x that by (auto simp: dict_item_def list_all_iff)
      from parse_sample_fmt[OF this] show ?thesis using x by simp
    qed
    then show ?thesis using ht by (simp add: list_all_iff)
  qed
  then have sl: "splitlines ?tx = xtr_header_line h # map fmt_sample items"
    using join_LF_unlines[of "xtr_header_line h # map fmt_sample items"] splitlines_unlines by simp
  have "rfold xtr_line (new_trace h) (zip [2..<length (map fmt_sample items) + 2] (map fmt_sample items)) = Inr t"
    using xtr_lines[OF ok assms(4) _ assms(1)] by (simp del: upt_Suc)
  then have "xtr_loads ?tx = Inr t"
    using ht assms(2) xtr_match_header_line[of h]
    by (simp add: xtr_loads_def sl XTR_VERSION_def del: upt_Suc)
  then show ?thesis using dumps by blast
qed

definition items_example :: "(string \<times> sample \<times> sample) list" where
  "items_example = [(''a/1'', [(''Q'', ''01x1z0''), (''Y'', ''1'')], [(''Q'', ''doc:375'')]), (''b'', [(''Q'', ''1'')], [])]"

theorem xtr_loads_dumps_witness:
  "\<exists>t tx. rfold add (new_trace [(''runner'', ''python'')]) items_example = Inr t \<and>
     xtr_dumps t = Inr tx \<and> xtr_loads tx = Inr t"
proof -
  obtain t where t: "rfold add (new_trace [(''runner'', ''python'')]) items_example = Inr t"
  proof -
    have "(case rfold add (new_trace [(''runner'', ''python'')]) items_example of Inl _ \<Rightarrow> False | Inr _ \<Rightarrow> True)"
      by code_simp
    then show ?thesis using that by (cases "rfold add (new_trace [(''runner'', ''python'')]) items_example") auto
  qed
  have "xtr_check_header [(''runner'', ''python'')] = Inr ()" "list_all dict_item items_example" by code_simp+
  then show ?thesis using xtr_loads_dumps[OF t] t by auto
qed

section \<open>When compare reports nothing\<close>

lemma first_difference_None:
  "length xs = length ys \<Longrightarrow> first_difference i xs ys = None \<longleftrightarrow> xs = ys"
  by (induction i xs ys rule: first_difference.induct) auto

definition bit_agrees :: "bool \<Rightarrow> char \<Rightarrow> char \<Rightarrow> bool" where
  "bit_agrees x_obs e a \<longleftrightarrow> e = CHR ''-'' \<or> (is_xz e \<and> \<not> x_obs) \<or> e = a"

lemma enumerate_all:
  "(\<forall>(i, x) \<in> set (enumerate k xs). P x) \<longleftrightarrow> (\<forall>x \<in> set xs. P x)"
  by (induction xs arbitrary: k) auto

lemma compare_bits_empty:
  assumes "length a = length e"
  shows "compare_bits label port pv x_obs e a = [] \<longleftrightarrow> list_all2 (bit_agrees x_obs) e a"
proof -
  have z: "zip (rev e) (rev a) = rev (zip e a)" using assms by (simp add: zip_rev)
  have "compare_bits label port pv x_obs e a = [] \<longleftrightarrow>
      (\<forall>(i, x) \<in> set (enumerate 0 (zip (rev e) (rev a))). (case x of (ec, ac) \<Rightarrow> bit_agrees x_obs ec ac))"
    unfolding compare_bits_def concat_eq_Nil_conv by (auto simp: bit_agrees_def split: if_split_asm)
  also have "\<dots> \<longleftrightarrow> (\<forall>x \<in> set (zip e a). case x of (ec, ac) \<Rightarrow> bit_agrees x_obs ec ac)"
    unfolding enumerate_all z by simp
  finally show ?thesis using assms by (auto simp: list_all2_iff)
qed

definition port_agrees :: "bool \<Rightarrow> sample \<Rightarrow> string \<times> string \<Rightarrow> bool" where
  "port_agrees x_obs got = (\<lambda>(port, e).
     case map_of got port of None \<Rightarrow> False | Some a \<Rightarrow> list_all2 (bit_agrees x_obs) e a)"

definition sample_agrees :: "trace \<Rightarrow> bool \<Rightarrow> string \<times> sample \<Rightarrow> bool" where
  "sample_agrees ac x_obs = (\<lambda>(label, ports).
     case map_of (t_samples ac) label of None \<Rightarrow> False | Some got \<Rightarrow> list_all (port_agrees x_obs got) ports)"

lemma compare_port_empty:
  "compare_port ex x_obs label got pe = [] \<longleftrightarrow> port_agrees x_obs got pe"
proof -
  obtain p e where pe: "pe = (p, e)" by (cases pe)
  show ?thesis
  proof (cases "map_of got p")
    case None
    then show ?thesis by (simp add: pe compare_port_def port_agrees_def)
  next
    case (Some a)
    show ?thesis
    proof (cases "length a = length e")
      case True
      then show ?thesis using Some compare_bits_empty[OF True] by (simp add: pe compare_port_def port_agrees_def)
    next
      case False
      then have "\<not> list_all2 (bit_agrees x_obs) e a" using list_all2_lengthD by fastforce
      then show ?thesis using Some False by (simp add: pe compare_port_def port_agrees_def)
    qed
  qed
qed

lemma compare_sample_empty:
  "compare_sample ex ac x_obs s = [] \<longleftrightarrow> sample_agrees ac x_obs s"
  by (cases s) (auto simp: compare_sample_def sample_agrees_def compare_port_empty list_all_iff split: option.splits)

lemma map_of_agrees: "sample_agrees ac x_obs (l, p) \<Longrightarrow> l \<in> set (dict_keys (t_samples ac))"
  by (auto simp: sample_agrees_def dict_keys_def split: option.splits dest: map_of_SomeD) (force dest: map_of_SomeD)

text \<open>
  C9. \<open>compare\<close> reports nothing exactly when both traces have the same samples in the same
  order and every expected port is there at its width with every expected bit, bits the model
  masks and x or z a two-state runner cannot show aside.
\<close>

theorem compare_empty_iff:
  assumes "distinct (dict_keys (t_samples ex))" "distinct (dict_keys (t_samples ac))"
  shows "compare ex ac x_obs = [] \<longleftrightarrow>
    dict_keys (t_samples ex) = dict_keys (t_samples ac) \<and> list_all (sample_agrees ac x_obs) (t_samples ex)"
proof
  assume c: "compare ex ac x_obs = []"
  then have s: "list_all (sample_agrees ac x_obs) (t_samples ex)"
    by (simp add: compare_def compare_sample_empty list_all_iff)
  have sub: "set (dict_keys (t_samples ex)) \<subseteq> set (dict_keys (t_samples ac))"
  proof
    fix l assume "l \<in> set (dict_keys (t_samples ex))"
    then obtain p where "(l, p) \<in> set (t_samples ex)" by (auto simp: dict_keys_def)
    then have "sample_agrees ac x_obs (l, p)" using s by (simp add: list_all_iff)
    then show "l \<in> set (dict_keys (t_samples ac))" by (rule map_of_agrees)
  qed
  have sup: "set (dict_keys (t_samples ac)) \<subseteq> set (dict_keys (t_samples ex))"
    using c by (auto simp: compare_def filter_empty_conv dict_has_iff dict_keys_def)
  let ?a = "dict_keys (t_samples ex)" and ?b = "dict_keys (t_samples ac)"
  have f: "filter (\<lambda>l. l \<in> set ?b) ?a = ?a" "filter (\<lambda>l. l \<in> set ?a) ?b = ?b"
    using sub sup by (auto simp: filter_id_conv)
  have len: "length ?a = length ?b"
    using sub sup assms by (metis distinct_card subset_antisym)
  have "order_mismatch ?a ?b = None" using c by (simp add: compare_def option_list_def split: option.splits)
  then have "first_difference 0 ?a ?b = None" by (simp add: order_mismatch_def f Let_def split: option.splits prod.splits)
  then show "?a = ?b \<and> list_all (sample_agrees ac x_obs) (t_samples ex)"
    using first_difference_None[OF len] s by blast
next
  assume a: "dict_keys (t_samples ex) = dict_keys (t_samples ac) \<and> list_all (sample_agrees ac x_obs) (t_samples ex)"
  let ?a = "dict_keys (t_samples ex)" and ?b = "dict_keys (t_samples ac)"
  have ab: "?a = ?b" and s: "list_all (sample_agrees ac x_obs) (t_samples ex)" using a by auto
  have "first_difference 0 ?b ?b = None" using first_difference_None[of ?b ?b] by blast
  then have "order_mismatch ?a ?b = None" by (simp add: order_mismatch_def ab)
  moreover have "filter (\<lambda>l. \<not> dict_has (t_samples ex) l) ?b = []"
    using ab by (auto simp: filter_empty_conv dict_has_iff dict_keys_def simp flip: set_map)
  moreover have "concat (map (compare_sample ex ac x_obs) (t_samples ex)) = []"
    using s by (auto simp: compare_sample_empty list_all_iff)
  ultimately show "compare ex ac x_obs = []" by (simp add: compare_def option_list_def)
qed

theorem compare_empty_iff_witness:
  "compare \<lparr>t_header = [], t_samples = [(''s'', [(''Q'', ''1-'')])], t_prov = []\<rparr>
     \<lparr>t_header = [], t_samples = [(''s'', [(''Q'', ''10'')])], t_prov = []\<rparr> True = []"
  by (subst compare_empty_iff)
    (simp_all add: dict_keys_def sample_agrees_def port_agrees_def bit_agrees_def)

section \<open>Diff does not depend on the order of sets\<close>

lemma mset_concat_map: "mset (concat (map f xs)) = (\<Sum>x \<in># mset xs. mset (f x))"
  by (induction xs) auto

lemma mset_concat_perm:
  assumes "mset xs = mset ys" "\<And>x. x \<in> set xs \<Longrightarrow> mset (f x) = mset (g x)"
  shows "mset (concat (map f xs)) = mset (concat (map g ys))"
proof -
  have "mset (concat (map f xs)) = (\<Sum>x \<in># mset xs. mset (g x))"
    unfolding mset_concat_map
    by (rule arg_cong[of _ _ sum_mset], rule image_mset_cong) (use assms(2) in auto)
  then show ?thesis unfolding mset_concat_map assms(1) .
qed

lemma diff_bits_key:
  assumes "m \<in> set (diff_bits l p a_x b_x va vb)"
  shows "m_label m = l \<and> m_port m = p \<and> 0 \<le> m_bit m"
  using assms by (auto simp: diff_bits_def mismatch_of_def in_set_enumerate_eq split: if_split_asm)

lemma diff_bits_inj: "inj_on m_bit (set (diff_bits l p a_x b_x va vb))"
proof (rule inj_onI)
  fix m n assume m: "m \<in> set (diff_bits l p a_x b_x va vb)" and n: "n \<in> set (diff_bits l p a_x b_x va vb)"
    and eq: "m_bit m = m_bit n"
  let ?z = "zip (rev va) (rev vb)"
  have f: "\<exists>i < length ?z. x = mismatch_of l p (int i) [fst (?z ! i)] [snd (?z ! i)] None ''value''"
    if x: "x \<in> set (diff_bits l p a_x b_x va vb)" for x
    using x by (auto simp: diff_bits_def in_set_enumerate_eq split: if_split_asm prod.splits)
  obtain i where i: "m = mismatch_of l p (int i) [fst (?z ! i)] [snd (?z ! i)] None ''value''" using f[OF m] by blast
  obtain j where j: "n = mismatch_of l p (int j) [fst (?z ! j)] [snd (?z ! j)] None ''value''" using f[OF n] by blast
  have "i = j" using eq i j by (simp add: mismatch_of_def)
  then show "m = n" using i j by simp
qed

lemma diff_port_key: "m \<in> set (diff_port l a_x b_x pa pb p) \<Longrightarrow> m_label m = l \<and> m_port m = p"
  by (auto simp: diff_port_def mismatch_of_def dest: diff_bits_key split: option.splits if_split_asm)

lemma diff_port_inj: "inj_on m_bit (set (diff_port l a_x b_x pa pb p))"
  using diff_bits_inj by (auto simp: diff_port_def split: option.splits)

definition both :: "trace \<Rightarrow> trace \<Rightarrow> string \<Rightarrow> bool" where
  "both a b l \<longleftrightarrow> map_of (t_samples a) l \<noteq> None \<and> map_of (t_samples b) l \<noteq> None"

lemma diff_sample_key:
  assumes "m \<in> set (diff_sample a b a_x b_x ports l)"
  shows "m_label m = l \<and> (both a b l \<longrightarrow> m_port m \<in> set (ports l) \<and>
      m \<in> set (diff_port l a_x b_x (sample_of a l) (sample_of b l) (m_port m))) \<and>
    (\<not> both a b l \<longrightarrow> m_port m = ''*'' \<and>
      m = mismatch_of l ''*'' (- 1) (presence (map_of (t_samples a) l)) (presence (map_of (t_samples b) l)) None ''missing-sample'')"
proof (cases "both a b l")
  case True
  then obtain pa pb where p: "map_of (t_samples a) l = Some pa" "map_of (t_samples b) l = Some pb"
    by (auto simp: both_def)
  then obtain q where q: "q \<in> set (ports l)" "m \<in> set (diff_port l a_x b_x pa pb q)"
    using assms by (auto simp: diff_sample_def)
  then show ?thesis using diff_port_key[OF q(2)] p True by (simp add: sample_of_def)
next
  case False
  then have "m = mismatch_of l ''*'' (- 1) (presence (map_of (t_samples a) l)) (presence (map_of (t_samples b) l)) None ''missing-sample''"
    using assms by (auto simp: diff_sample_def both_def split: option.splits)
  then show ?thesis using False by (simp add: mismatch_of_def)
qed

lemma order_mismatch_key:
  assumes "order_mismatch (dict_keys (t_samples a)) (dict_keys (t_samples b)) = Some m"
  shows "m_port m = ''*'' \<and> both a b (m_label m)"
proof -
  have fd: "first_difference i xs ys = Some (j, l) \<Longrightarrow> l \<in> set xs" for i j l and xs ys :: "string list"
    by (induction i xs ys rule: first_difference.induct) (auto split: if_split_asm)
  obtain i l where "first_difference 0 (filter (\<lambda>l. l \<in> set (dict_keys (t_samples b))) (dict_keys (t_samples a)))
       (filter (\<lambda>l. l \<in> set (dict_keys (t_samples a))) (dict_keys (t_samples b))) = Some (i, l)"
    "m_port m = ''*''" "m_label m = l"
    using assms by (auto simp: order_mismatch_def Let_def mismatch_of_def split: option.splits)
  then show ?thesis using fd by (fastforce simp: both_def dict_keys_def map_of_eq_None_iff)
qed

text \<open>The mismatches before they are sorted.\<close>

definition diff_raw :: "string list \<Rightarrow> (string \<Rightarrow> string list) \<Rightarrow> trace \<Rightarrow> trace \<Rightarrow> bool \<Rightarrow> bool \<Rightarrow> mismatch list" where
  "diff_raw labels ports a b a_x b_x =
     concat (map (diff_sample a b a_x b_x ports) labels) @
     option_list (order_mismatch (dict_keys (t_samples a)) (dict_keys (t_samples b)))"

lemma diff_raw_inj:
  assumes "\<And>l. ''*'' \<notin> set (ports l)"
  shows "inj_on mkey (set (diff_raw labels ports a b a_x b_x))"
proof (rule inj_onI)
  fix m n
  assume m: "m \<in> set (diff_raw labels ports a b a_x b_x)" and n: "n \<in> set (diff_raw labels ports a b a_x b_x)"
    and eq: "mkey m = mkey n"
  have k: "m_label m = m_label n" "m_port m = m_port n" "m_bit m = m_bit n" using eq by (simp_all add: mkey_def)
  have c: "(\<exists>l. x \<in> set (diff_sample a b a_x b_x ports l)) \<or>
      order_mismatch (dict_keys (t_samples a)) (dict_keys (t_samples b)) = Some x"
    if "x \<in> set (diff_raw labels ports a b a_x b_x)" for x
    using that by (auto simp: diff_raw_def option_list_def split: option.splits)
  have star: "\<not> both a b l" if "x \<in> set (diff_sample a b a_x b_x ports l)" "m_port x = ''*''" for x l
    using diff_sample_key[OF that(1)] that(2) assms by metis
  consider (ss) l l' where "m \<in> set (diff_sample a b a_x b_x ports l)" "n \<in> set (diff_sample a b a_x b_x ports l')"
    | (so) l where "m \<in> set (diff_sample a b a_x b_x ports l)"
        "order_mismatch (dict_keys (t_samples a)) (dict_keys (t_samples b)) = Some n"
    | (os) l where "n \<in> set (diff_sample a b a_x b_x ports l)"
        "order_mismatch (dict_keys (t_samples a)) (dict_keys (t_samples b)) = Some m"
    | (oo) "m = n"
    using c[OF m] c[OF n] by auto
  then show "m = n"
  proof cases
    case ss
    have l: "l' = l" using diff_sample_key[OF ss(1)] diff_sample_key[OF ss(2)] k by metis
    show ?thesis
    proof (cases "both a b l")
      case True
      then have "m \<in> set (diff_port l a_x b_x (sample_of a l) (sample_of b l) (m_port m))"
        "n \<in> set (diff_port l a_x b_x (sample_of a l) (sample_of b l) (m_port m))"
        using diff_sample_key[OF ss(1)] diff_sample_key[OF ss(2)] k l by metis+
      then show ?thesis using diff_port_inj k(3) by (metis inj_onD)
    next
      case False
      then show ?thesis using diff_sample_key[OF ss(1)] diff_sample_key[OF ss(2)] l by metis
    qed
  next
    case so
    then show ?thesis using order_mismatch_key[OF so(2)] star[OF so(1)] diff_sample_key[OF so(1)] k by metis
  next
    case os
    then show ?thesis using order_mismatch_key[OF os(2)] star[OF os(1)] diff_sample_key[OF os(1)] k by metis
  qed
qed

text \<open>
  The report of \<open>diff\<close> does not depend on the order in which a run enumerates the two
  sets of labels and, per label, of ports: every enumeration gives the same list.
\<close>

theorem diff_order_free:
  assumes "distinct labels" "set labels = set (diff_labels a b)"
    and "\<And>l. distinct (ports l) \<and> set (ports l) = set (diff_ports a b l) \<and> ''*'' \<notin> set (ports l)"
  shows "diff_with labels ports a b a_x b_x = diff a b a_x b_x"
proof -
  have lb: "mset labels = mset (diff_labels a b)"
    using assms(1,2) by (simp add: diff_labels_def set_eq_iff_mset_eq_distinct[symmetric])
  have pt: "mset (ports l) = mset (diff_ports a b l)" for l
    using assms(3)[of l] by (simp add: diff_ports_def set_eq_iff_mset_eq_distinct[symmetric])
  have "mset (diff_sample a b a_x b_x ports l) = mset (diff_sample a b a_x b_x (diff_ports a b) l)" for l
    using mset_concat_perm[OF pt[of l], of "diff_port l a_x b_x pa pb" "diff_port l a_x b_x pa pb" for pa pb]
    by (auto simp: diff_sample_def split: option.splits)
  then have sm: "mset (concat (map (diff_sample a b a_x b_x ports) labels)) =
      mset (concat (map (diff_sample a b a_x b_x (diff_ports a b)) (diff_labels a b)))"
    by (intro mset_concat_perm[OF lb])
  have ms: "mset (diff_raw labels ports a b a_x b_x) =
      mset (diff_raw (diff_labels a b) (diff_ports a b) a b a_x b_x)"
    unfolding diff_raw_def mset_append sm ..
  have "sort_key mkey (diff_raw labels ports a b a_x b_x) =
      sort_key mkey (diff_raw (diff_labels a b) (diff_ports a b) a b a_x b_x)"
  proof (rule sort_key_inj_key_eq)
    show "inj_on mkey (set (diff_raw labels ports a b a_x b_x))"
      by (rule diff_raw_inj) (use assms(3) in blast)
    show "sorted (map mkey (sort_key mkey (diff_raw (diff_labels a b) (diff_ports a b) a b a_x b_x)))"
      by (rule sorted_sort_key)
  qed (simp only: mset_sort ms)
  then show ?thesis by (simp add: diff_with_def diff_def diff_raw_def)
qed

definition ta_example :: trace where
  "ta_example = \<lparr>t_header = [], t_samples = [(''s'', [(''Q'', ''1x''), (''P'', ''0'')]), (''t'', [])], t_prov = []\<rparr>"

definition tb_example :: trace where
  "tb_example = \<lparr>t_header = [], t_samples = [(''s'', [(''Q'', ''01'')]), (''u'', [])], t_prov = []\<rparr>"

theorem diff_order_free_witness:
  "diff_with [''u'', ''t'', ''s''] (\<lambda>l. if l = ''s'' then [''P'', ''Q''] else []) ta_example tb_example True True =
   diff ta_example tb_example True True"
proof (rule diff_order_free)
  show "set [''u'', ''t'', ''s''] = set (diff_labels ta_example tb_example)" by code_simp
  show "distinct (if l = ''s'' then [''P'', ''Q''] else []) \<and>
      set (if l = ''s'' then [''P'', ''Q''] else []) = set (diff_ports ta_example tb_example l) \<and>
      ''*'' \<notin> set (if l = ''s'' then [''P'', ''Q''] else [])" for l
  proof (cases "l = ''s''")
    case True
    have "set [''P'', ''Q''] = set (diff_ports ta_example tb_example ''s'')" by code_simp
    moreover have "distinct [''P'', ''Q'']" "''*'' \<notin> set [''P'', ''Q'']" by simp_all
    ultimately show ?thesis using True by presburger
  qed (simp add: diff_ports_def sample_of_def ta_example_def tb_example_def dict_keys_def)
qed simp

end
