(* ===== verification/Py_Values.thy ===== *)
theory Py_Values
  imports Prelude
begin

text \<open>
  Values as YAML and JSON give them to the tools: a dictionary is an association list in
  insertion order. A float is kept as the text of its \<open>repr\<close>, the only thing the sources do
  with one.
\<close>

datatype pyval =
    PNone
  | PBool bool
  | PInt int
  | PFloat string
  | PStr string
  | PList "pyval list"
  | PDict "(string \<times> pyval) list"

text \<open>\<open>bool(v)\<close>; a float's text is falsy for the two zeros.\<close>

fun truthy :: "pyval \<Rightarrow> bool" where
  "truthy PNone = False"
| "truthy (PBool b) = b"
| "truthy (PInt i) = (i \<noteq> 0)"
| "truthy (PFloat s) = (s \<noteq> ''0.0'' \<and> s \<noteq> ''-0.0'')"
| "truthy (PStr s) = (s \<noteq> [])"
| "truthy (PList xs) = (xs \<noteq> [])"
| "truthy (PDict d) = (d \<noteq> [])"

fun as_dict :: "pyval \<Rightarrow> (string \<times> pyval) list option" where
  "as_dict (PDict d) = Some d"
| "as_dict v = None"

fun as_list :: "pyval \<Rightarrow> pyval list option" where
  "as_list (PList xs) = Some xs"
| "as_list v = None"

fun as_str :: "pyval \<Rightarrow> string option" where
  "as_str (PStr s) = Some s"
| "as_str v = None"

text \<open>\<open>d.get(k)\<close> on a value that must be a dictionary.\<close>

definition dget :: "(string \<times> pyval) list \<Rightarrow> string \<Rightarrow> pyval" where
  "dget d k = (case map_of d k of Some v \<Rightarrow> v | None \<Rightarrow> PNone)"

text \<open>\<open>d.update(u)\<close>.\<close>

definition dict_update :: "('k, 'v) dict \<Rightarrow> ('k, 'v) dict \<Rightarrow> ('k, 'v) dict" where
  "dict_update d u = fold (\<lambda>(k, v) d. AList.update k v d) u d"

lemma map_of_dict_update:
  "distinct (map fst u) \<Longrightarrow> map_of (dict_update d u) k = (case map_of u k of Some v \<Rightarrow> Some v | None \<Rightarrow> map_of d k)"
proof (induction u arbitrary: d)
  case (Cons x u)
  obtain a v where x: "x = (a, v)" by (cases x)
  have a: "a \<notin> fst ` set u" and d: "distinct (map fst u)" using Cons.prems x by auto
  have "map_of u a = None" using a by (simp add: map_of_eq_None_iff)
  then show ?case using Cons.IH[OF d, of "AList.update a v d"] x
    by (auto simp: dict_update_def update_conv' split: option.splits)
qed (simp add: dict_update_def)

end
