(* ===== verification/Catalog.thy ===== *)
theory Catalog
  imports Py_Values
begin

text \<open>
  The catalog: \<open>tools/xut/catalog/model.py\<close> (enumerated attributes, overrides layered on a
  generated entry) and \<open>tools/xut/catalog/portclass.py\<close> (default port classes).
\<close>

section \<open>Enumerated attribute values\<close>

definition enum_char :: "char \<Rightarrow> bool" where
  "enum_char c \<longleftrightarrow> is_alpha_az c \<or> is_digit c \<or> c \<in> {US, CHR ''.'', SQ}"

text \<open>A quoted text without quotes inside, or a run of literal characters.\<close>

definition discrete_literal :: "string \<Rightarrow> bool" where
  "discrete_literal v \<longleftrightarrow>
     (2 \<le> length v \<and> hd v = DQ \<and> last v = DQ \<and> DQ \<notin> set (butlast (tl v))) \<or>
     (v \<noteq> [] \<and> list_all enum_char v)"

definition digit_range :: "string \<Rightarrow> bool" where
  "digit_range v \<longleftrightarrow>
     (case span is_digit v of (a, r) \<Rightarrow>
        a \<noteq> [] \<and> r \<noteq> [] \<and> hd r = CHR ''-'' \<and> tl r \<noteq> [] \<and> list_all is_digit (tl r))"

definition is_enumerated :: "string list \<Rightarrow> bool" where
  "is_enumerated vs \<longleftrightarrow> vs \<noteq> [] \<and> list_all (\<lambda>v. discrete_literal v \<and> \<not> digit_range v) vs"

section \<open>Overrides\<close>

datatype catalog_error =
    UnknownName string string
  | MustBeMapping string
  | UnknownCross "string list"
  | SchemaError
  | PyError

text \<open>\<open>by_name\<close>: the last item of a name is the one a patch updates.\<close>

definition item_name :: "pyval \<Rightarrow> (catalog_error, pyval) result" where
  "item_name it =
     (case as_dict it of
        Some d \<Rightarrow> (case map_of d ''name'' of Some n \<Rightarrow> Inr n | None \<Rightarrow> Inl PyError)
      | None \<Rightarrow> Inl PyError)"

definition last_index :: "pyval list \<Rightarrow> pyval \<Rightarrow> nat option" where
  "last_index names n = (case rev (filter (\<lambda>i. names ! i = n) [0..<length names]) of [] \<Rightarrow> None | i # _ \<Rightarrow> Some i)"

definition update_item :: "pyval \<Rightarrow> (string \<times> pyval) list \<Rightarrow> pyval" where
  "update_item it u = (case as_dict it of Some d \<Rightarrow> PDict (dict_update d u) | None \<Rightarrow> it)"

definition patch_item ::
  "string \<Rightarrow> pyval list \<Rightarrow> pyval list \<Rightarrow> string \<times> pyval \<Rightarrow> (catalog_error, pyval list) result" where
  "patch_item what names items = (\<lambda>(name, upd).
     case last_index names (PStr name) of
       None \<Rightarrow> Inl (UnknownName what name)
     | Some i \<Rightarrow>
         (case as_dict upd of
            Some u \<Rightarrow> Inr (items[i := update_item (items ! i) u])
          | None \<Rightarrow> Inl PyError))"

definition merge_named ::
  "pyval list \<Rightarrow> (string \<times> pyval) list \<Rightarrow> string \<Rightarrow> (catalog_error, pyval list) result" where
  "merge_named items patch what =
     rbind (rmap item_name items) (\<lambda>names. rfold (patch_item what names) items patch)"

definition merge_key ::
  "(string \<times> pyval) list \<Rightarrow> string \<times> pyval \<Rightarrow> (catalog_error, (string \<times> pyval) list) result" where
  "merge_key out = (\<lambda>(key, val).
     if key = ''ports'' \<or> key = ''attributes'' then
       (case as_dict val of
          None \<Rightarrow> Inl (MustBeMapping key)
        | Some patch \<Rightarrow>
            (case (case map_of out key of None \<Rightarrow> Some [] | Some v \<Rightarrow> as_list v) of
               None \<Rightarrow> Inl PyError
             | Some items \<Rightarrow>
                 rbind (merge_named items patch (butlast key)) (\<lambda>items'.
                   Inr (AList.update key (PList items') out))))
     else Inr (AList.update key val out))"

definition merge ::
  "(string \<times> pyval) list \<Rightarrow> (string \<times> pyval) list \<Rightarrow> (catalog_error, (string \<times> pyval) list) result" where
  "merge generated overrides = rfold merge_key generated overrides"

text \<open>
  \<open>load_entry\<close> after the YAML is read; \<open>schema_ok\<close> is the JSON schema check, which is done by
  the jsonschema package.
\<close>

definition names_of :: "pyval list \<Rightarrow> pyval list" where
  "names_of items = map (\<lambda>it. case as_dict it of Some d \<Rightarrow> dget d ''name'' | None \<Rightarrow> PNone) items"

definition list_field :: "(string \<times> pyval) list \<Rightarrow> string \<Rightarrow> pyval list" where
  "list_field d k = (case as_list (dget d k) of Some xs \<Rightarrow> xs | None \<Rightarrow> [])"

definition cross_unknown :: "pyval list \<Rightarrow> pyval \<Rightarrow> pyval list" where
  "cross_unknown names cross =
     filter (\<lambda>a. a \<notin> set names) (case as_list cross of Some xs \<Rightarrow> xs | None \<Rightarrow> [])"

definition load_entry ::
  "((string \<times> pyval) list \<Rightarrow> bool) \<Rightarrow> (string \<times> pyval) list \<Rightarrow> (string \<times> pyval) list option \<Rightarrow>
   (catalog_error, (string \<times> pyval) list) result" where
  "load_entry schema_ok data overrides =
     rbind (case overrides of None \<Rightarrow> Inr data | Some ov \<Rightarrow> merge data ov) (\<lambda>d.
       if \<not> schema_ok d then Inl SchemaError
       else rfold (\<lambda>d cross.
              let unknown = cross_unknown (names_of (list_field d ''attributes'')) cross
              in if unknown \<noteq> [] then Inl (UnknownCross (map (\<lambda>v. case as_str v of Some s \<Rightarrow> s | None \<Rightarrow> []) unknown))
                 else Inr d) d (list_field d ''crosses''))"

section \<open>Default port classes\<close>

definition CLASSES :: "string list" where
  "CLASSES = [''clock'', ''async'', ''gate'', ''data'', ''inout'', ''clock_out'', ''pad'', ''drp'']"

definition CLOCKS :: "string list" where
  "CLOCKS =
     [''C'', ''CLK'', ''CLKARDCLK'', ''CLKBWRCLK'', ''RDCLK'', ''WRCLK'', ''CLKIN1'', ''CLKIN2'', ''CLKFBIN'',
      ''CLKDIV'', ''CLKB'', ''OCLK'', ''OCLKB'', ''CLKDIVP'', ''DCLK'', ''REFCLK'', ''C0'', ''C1'', ''WCLK'',
      ''PSCLK'', ''CONVSTCLK'', ''CLKIN'', ''USRCCLKO'']"

text \<open>A \<open>dict[port, set of primitives]\<close> with a missing port read as the empty set.\<close>

definition on :: "(string \<times> string list) list \<Rightarrow> string \<Rightarrow> string \<Rightarrow> bool" where
  "on table port prim \<longleftrightarrow> (case map_of table port of Some ps \<Rightarrow> prim \<in> set ps | None \<Rightarrow> False)"

definition NOT_CLOCK_ON :: "(string \<times> string list) list" where
  "NOT_CLOCK_ON = [(''C'', [''DSP48E1''])]"

definition CLOCK_OUT_ON :: "(string \<times> string list) list" where
  "CLOCK_OUT_ON =
     [(''CFGCLK'', [''STARTUPE2'', ''USR_ACCESSE2'']), (''CFGMCLK'', [''STARTUPE2'']), (''TCK'', [''BSCANE2'']),
      (''DRCK'', [''BSCANE2'']), (''O'', [''IBUFDS_GTE2'']), (''ODIV2'', [''IBUFDS_GTE2''])]"

definition PAD_ON :: "(string \<times> string list) list" where
  "PAD_ON = map (\<lambda>p. (p, [''XADC''])) [''VP'', ''VN'', ''VAUXP'', ''VAUXN'']"

definition GATE_ON :: "(string \<times> string list) list" where
  "GATE_ON = map (\<lambda>p. (p, [''LDCE'', ''LDPE''])) [''G'', ''GE'']"

definition ASYNC :: "string list" where
  "ASYNC = [''CLR'', ''PRE'', ''PWRDWN'', ''GSR'', ''GTS'']"

definition ASYNC_ON :: "(string \<times> string list) list" where
  "ASYNC_ON =
     map (\<lambda>p. (p, [''BUFGCTRL''])) [''S0'', ''S1'', ''CE0'', ''CE1'', ''IGNORE0'', ''IGNORE1''] @
     [(''S'', [''BUFGMUX'', ''BUFGMUX_1'', ''BUFGMUX_CTRL'']),
      (''CE'', [''BUFGCE'', ''BUFGCE_1'', ''BUFHCE'', ''BUFMRCE'', ''BUFR'']),
      (''RESET'', [''XADC'', ''IN_FIFO'', ''OUT_FIFO''])]"

definition RST_ASYNC_PREFIXES :: "string list" where
  "RST_ASYNC_PREFIXES = [''FIFO'', ''MMCM'', ''PLL'', ''ISERDES'', ''OSERDES'', ''IDELAYCTRL'']"

definition SRTYPE_DEPENDENT :: "string list" where
  "SRTYPE_DEPENDENT = [''IDDR'', ''IDDR_2CLK'', ''ODDR'']"

definition DRP :: "string list" where
  "DRP = [''DADDR'', ''DI'', ''DO'', ''DEN'', ''DWE'', ''DRDY'']"

definition DRP_PREFIXES :: "string list" where
  "DRP_PREFIXES = [''MMCM'', ''PLL'', ''XADC'']"

definition starts_any :: "string list \<Rightarrow> string \<Rightarrow> bool" where
  "starts_any ps s \<longleftrightarrow> list_ex (\<lambda>p. starts_with p s) ps"

definition is_buf :: "string \<Rightarrow> bool" where
  "is_buf prim \<longleftrightarrow> starts_with ''BUF'' prim"

definition default_class :: "string \<Rightarrow> string \<Rightarrow> string \<Rightarrow> string" where
  "default_class prim port direction =
     (if direction = ''inout'' then ''inout''
      else if direction = ''input'' then
        (if (starts_with ''IBUF'' prim \<and> port \<in> {''I'', ''IB''}) \<or> on PAD_ON port prim then ''pad''
         else if starts_any DRP_PREFIXES prim \<and> port \<in> set DRP then ''drp''
         else if on GATE_ON port prim then ''gate''
         else if port \<in> set CLOCKS \<and> \<not> on NOT_CLOCK_ON port prim then ''clock''
         else if port \<in> {''I0'', ''I1''} \<and> starts_any [''BUFGCTRL'', ''BUFGMUX''] prim then ''clock''
         else if port = ''I'' \<and> is_buf prim then ''clock''
         else if port \<in> set ASYNC \<or> on ASYNC_ON port prim then ''async''
         else if port = ''RST'' \<and> starts_any RST_ASYNC_PREFIXES prim then ''async''
         else ''data'')
      else if starts_with ''OBUF'' prim \<and> port \<in> {''O'', ''OB''} then ''pad''
      else if starts_any DRP_PREFIXES prim \<and> port \<in> set DRP then ''drp''
      else if starts_any [''CLKOUT'', ''CLKFBOUT''] port \<or> on CLOCK_OUT_ON port prim then ''clock_out''
      else if port = ''O'' \<and> is_buf prim then ''clock_out''
      else ''data'')"

datatype port_note = SrtypeNote | ClkDataNote

definition class_note :: "string \<Rightarrow> string \<Rightarrow> string \<Rightarrow> port_note option" where
  "class_note prim port direction =
     (if prim \<in> set SRTYPE_DEPENDENT \<and> port \<in> {''S'', ''R''} then Some SrtypeNote
      else if contains ''CLK'' port \<and> default_class prim port direction = ''data'' then Some ClkDataNote
      else None)"

end
