(* ===== verification/Dut_Map.thy ===== *)
theory Dut_Map
  imports Catalog Formats_Common
begin

text \<open>
  \<open>tools/xut/wrap.py\<close>, the DUT map: which primitive port bit sits on which bit of \<open>clk\<close>,
  \<open>in_vec\<close> and \<open>out_vec\<close>, the checks of a map read back, and \<open>build_map\<close>. A constructor of
  \<open>wrap_error\<close> stands for one \<open>raise\<close> of the file.
\<close>

section \<open>Specifications and maps\<close>

record port_spec =
  ps_name :: string
  ps_dir :: string
  ps_width :: int
  ps_cls :: string

record dut_spec =
  ds_prim :: string
  ds_family :: string
  ds_cfg :: string
  ds_ports :: "port_spec list"
  ds_attrs :: "(string \<times> string) list"
  ds_raw_clock_out :: bool
  ds_min_gap :: "int option"

record wbit =
  w_vec :: string
  w_bit :: int
  w_port :: string
  w_index :: int
  w_cls :: string
  w_role :: string

record dut_map =
  m_prim :: string
  m_family :: string
  m_cfg :: string
  m_attrs :: "(string, string) dict"
  m_nclk :: int
  m_nin :: int
  m_nout :: int
  m_bits :: "wbit list"
  m_min_gap :: "int option"

datatype wrap_error =
    UnknownVector string
  | NotClockInput string "string list"
  | NoClock string int
  | NoPort string
  | NotMapFile
  | MapKeys "string list" "string list"
  | BitsOrAttrsType
  | MustBeString string
  | MustBeNonNegative string
  | BadMinGap
  | AttrNotString string
  | BadBitKeys nat
  | BadBit
  | WrongCount string int int
  | NotInOrder string
  | DuplicatePort string
  | UnknownDirection string
  | ClassForbidden string string
  | BadWidth int
  | ClockOutRefused string
  | MapSpecMismatch string
  | NotLiteral string
  | HasXZ string
  | BadDigits string
  | IsBool
  | BadType
  | NotSized string
  | WrongSize string string nat
  | DoesNotFit string nat
  | BadString char
  | NotDecimal string
  | NotInt32 int
  | NotReal
  | NotFinite
  | FloatValue
  | UnknownKind string
  | CannotCompare string
  | NotAllowed string
  | UnknownAttrs "string list"
  | BadCfg string
  | WrapIndexError
  | WrapPyError

definition VEC_SIGNAL :: "(string, string) dict" where
  "VEC_SIGNAL = [(''clk'', ''clk''), (''in'', ''in_vec''), (''out'', ''out_vec'')]"

definition CLASSES_FOR :: "(string, string list) dict" where
  "CLASSES_FOR =
     [(''input'', [''clock'', ''async'', ''gate'', ''data'', ''pad'', ''drp'']),
      (''output'', [''data'', ''clock_out'', ''pad'', ''drp'']),
      (''inout'', [''inout''])]"

definition ROLES :: "string list" where
  "ROLES = ['''', ''drive_en'', ''drive_val'', ''obs'']"

section \<open>Reading a map\<close>

definition of_vec :: "dut_map \<Rightarrow> string \<Rightarrow> (wrap_error, wbit list) result" where
  "of_vec m vec =
     (if \<not> dict_has VEC_SIGNAL vec then Inl (UnknownVector vec)
      else Inr (filter (\<lambda>b. w_vec b = vec) (m_bits m)))"

text \<open>\<open>of\<close> with one of the three vector names, which cannot raise.\<close>

definition on_vec :: "dut_map \<Rightarrow> string \<Rightarrow> wbit list" where
  "on_vec m vec = filter (\<lambda>b. w_vec b = vec) (m_bits m)"

definition port_bits :: "dut_map \<Rightarrow> string \<Rightarrow> string \<Rightarrow> string \<Rightarrow> wbit list" where
  "port_bits m vec port role = filter (\<lambda>b. w_port b = port \<and> w_role b = role) (on_vec m vec)"

definition clock_name :: "dut_map \<Rightarrow> string \<Rightarrow> (wrap_error, string) result" where
  "clock_name m port =
     (case port_bits m ''clk'' port '''' of
        [b] \<Rightarrow> Inr (''clk'' @ show_int (w_bit b))
      | _ \<Rightarrow> Inl (NotClockInput port (map w_port (on_vec m ''clk''))))"

text \<open>\<open>fullmatch("clk(\d+)")\<close>, the map's bound, then an index into the clock bits.\<close>

definition clock_number :: "string \<Rightarrow> nat option" where
  "clock_number name =
     (if starts_with ''clk'' name \<and> drop 3 name \<noteq> [] \<and> list_all is_digit (drop 3 name)
      then parse_base 10 (drop 3 name) else None)"

definition clock_port :: "dut_map \<Rightarrow> string \<Rightarrow> (wrap_error, string) result" where
  "clock_port m name =
     (case clock_number name of
        None \<Rightarrow> Inl (NoClock name (m_nclk m))
      | Some n \<Rightarrow>
          if m_nclk m \<le> int n then Inl (NoClock name (m_nclk m))
          else if n < length (on_vec m ''clk'') then Inr (w_port (on_vec m ''clk'' ! n))
          else Inl WrapIndexError)"

definition in_ports :: "dut_map \<Rightarrow> string list" where
  "in_ports m = dedup (map w_port (filter (\<lambda>b. w_role b = '''') (on_vec m ''in'')))"

definition out_ports :: "dut_map \<Rightarrow> string list" where
  "out_ports m = dedup (map w_port (on_vec m ''out''))"

definition cls_of :: "dut_map \<Rightarrow> string \<Rightarrow> (wrap_error, string) result" where
  "cls_of m port =
     (case find (\<lambda>b. w_port b = port) (m_bits m) of
        Some b \<Rightarrow> Inr (w_cls b)
      | None \<Rightarrow> Inl (NoPort port))"

section \<open>Checks of a map read back\<close>

definition count_of :: "dut_map \<Rightarrow> string \<Rightarrow> int" where
  "count_of m vec =
     (if vec = ''clk'' then m_nclk m else if vec = ''in'' then m_nin m else m_nout m)"

definition check_vector :: "dut_map \<Rightarrow> string \<times> string \<Rightarrow> (wrap_error, unit) result" where
  "check_vector m = (\<lambda>(vec, sig).
     let n = count_of m vec; got = map w_bit (on_vec m vec)
     in if int (length got) \<noteq> n then Inl (WrongCount sig (int (length got)) n)
        else if got \<noteq> map int [0..<nat n] then Inl (NotInOrder sig)
        else Inr ())"

definition check_map :: "dut_map \<Rightarrow> (wrap_error, unit) result" where
  "check_map m =
     rbind (rfold (\<lambda>_ b.
        if \<not> dict_has VEC_SIGNAL (w_vec b) \<or> w_role b \<notin> set ROLES then Inl BadBit else Inr ())
        () (m_bits m)) (\<lambda>_.
     rfold (\<lambda>_. check_vector m) () VEC_SIGNAL)"

text \<open>The JSON object of a map (\<open>asdict\<close> with the format), and back.\<close>

definition MAP_FORMAT :: string where
  "MAP_FORMAT = ''xut-map 1''"

definition MAP_KEYS :: "string list" where
  "MAP_KEYS = [''prim'', ''family'', ''cfg'', ''attrs'', ''nclk'', ''nin'', ''nout'', ''bits'', ''min_event_gap_ps'']"

definition BIT_KEYS :: "string list" where
  "BIT_KEYS = [''vec'', ''bit'', ''port'', ''index'', ''cls'', ''role'']"

definition bit_json :: "wbit \<Rightarrow> pyval" where
  "bit_json b = PDict
     [(''vec'', PStr (w_vec b)), (''bit'', PInt (w_bit b)), (''port'', PStr (w_port b)),
      (''index'', PInt (w_index b)), (''cls'', PStr (w_cls b)), (''role'', PStr (w_role b))]"

definition to_json :: "dut_map \<Rightarrow> pyval" where
  "to_json m = PDict
     [(''format'', PStr MAP_FORMAT),
      (''prim'', PStr (m_prim m)), (''family'', PStr (m_family m)), (''cfg'', PStr (m_cfg m)),
      (''attrs'', PDict (map (\<lambda>(k, v). (k, PStr v)) (m_attrs m))),
      (''nclk'', PInt (m_nclk m)), (''nin'', PInt (m_nin m)), (''nout'', PInt (m_nout m)),
      (''bits'', PList (map bit_json (m_bits m))),
      (''min_event_gap_ps'', case m_min_gap m of None \<Rightarrow> PNone | Some g \<Rightarrow> PInt g)]"

fun is_int :: "pyval \<Rightarrow> int option" where
  "is_int (PInt i) = Some i"
| "is_int v = None"

definition check_scalars :: "(string, pyval) dict \<Rightarrow> (wrap_error, unit) result" where
  "check_scalars d =
     rbind (rfold (\<lambda>_ k. case as_str (dget d k) of None \<Rightarrow> Inl (MustBeString k) | Some _ \<Rightarrow> Inr ())
        () [''prim'', ''family'', ''cfg'']) (\<lambda>_.
     rbind (rfold (\<lambda>_ k. case is_int (dget d k) of
                 Some i \<Rightarrow> if i < 0 then Inl (MustBeNonNegative k) else Inr ()
               | None \<Rightarrow> Inl (MustBeNonNegative k))
        () [''nclk'', ''nin'', ''nout'']) (\<lambda>_.
     rbind (case dget d ''min_event_gap_ps'' of
              PNone \<Rightarrow> Inr ()
            | g \<Rightarrow> (case is_int g of Some i \<Rightarrow> if i < 1 then Inl BadMinGap else Inr () | None \<Rightarrow> Inl BadMinGap)) (\<lambda>_.
     rfold (\<lambda>_ (k, v). case as_str v of None \<Rightarrow> Inl (AttrNotString k) | Some _ \<Rightarrow> Inr ())
        () (the (as_dict (dget d ''attrs''))))))"

text \<open>
  \<open>Bit(**b)\<close> takes any value; a bit whose fields are not of the types of its annotations is
  outside the typed map and gives \<open>WrapPyError\<close> here.
\<close>

definition bit_of_json :: "nat \<times> pyval \<Rightarrow> (wrap_error, wbit) result" where
  "bit_of_json = (\<lambda>(i, v).
     case as_dict v of
       None \<Rightarrow> Inl (BadBitKeys i)
     | Some b \<Rightarrow>
         if set (map fst b) \<noteq> set BIT_KEYS then Inl (BadBitKeys i)
         else (case (as_str (dget b ''vec''), is_int (dget b ''bit''), as_str (dget b ''port''),
                     is_int (dget b ''index''), as_str (dget b ''cls''), as_str (dget b ''role'')) of
                 (Some vec, Some n, Some port, Some idx, Some cls, Some role) \<Rightarrow>
                   Inr \<lparr>w_vec = vec, w_bit = n, w_port = port, w_index = idx, w_cls = cls, w_role = role\<rparr>
               | _ \<Rightarrow> Inl WrapPyError))"

text \<open>\<open>from_json\<close> after \<open>json.loads\<close>.\<close>

definition from_json :: "pyval \<Rightarrow> (wrap_error, dut_map) result" where
  "from_json v =
     (case as_dict v of
        None \<Rightarrow> Inl NotMapFile
      | Some d0 \<Rightarrow>
          if dget d0 ''format'' \<noteq> PStr MAP_FORMAT then Inl NotMapFile else
          let d = filter (\<lambda>(k, _). k \<noteq> ''format'') d0;
              missing = filter (\<lambda>k. \<not> dict_has d k) MAP_KEYS;
              unknown = sort (filter (\<lambda>k. k \<notin> set MAP_KEYS) (map fst d))
          in if missing \<noteq> [] \<or> unknown \<noteq> [] then Inl (MapKeys missing unknown) else
          (case (as_list (dget d ''bits''), as_dict (dget d ''attrs'')) of
             (Some bs, Some at) \<Rightarrow>
               rbind (check_scalars d) (\<lambda>_.
               rbind (rmap bit_of_json (List.enumerate 0 bs)) (\<lambda>bits.
               let m = \<lparr>m_prim = the (as_str (dget d ''prim'')), m_family = the (as_str (dget d ''family'')),
                        m_cfg = the (as_str (dget d ''cfg'')),
                        m_attrs = map (\<lambda>(k, v). (k, the (as_str v))) at,
                        m_nclk = the (is_int (dget d ''nclk'')), m_nin = the (is_int (dget d ''nin'')),
                        m_nout = the (is_int (dget d ''nout'')), m_bits = bits,
                        m_min_gap = is_int (dget d ''min_event_gap_ps'')\<rparr>
               in rbind (check_map m) (\<lambda>_. Inr m)))
           | _ \<Rightarrow> Inl BitsOrAttrsType))"

section \<open>Building a map\<close>

definition check_port :: "dut_spec \<Rightarrow> port_spec \<Rightarrow> string list \<Rightarrow> (wrap_error, string list) result" where
  "check_port spec p seen =
     (if ps_name p \<in> set seen then Inl (DuplicatePort (ps_name p))
      else case map_of CLASSES_FOR (ps_dir p) of
        None \<Rightarrow> Inl (UnknownDirection (ps_dir p))
      | Some cs \<Rightarrow>
          if ps_cls p \<notin> set cs then Inl (ClassForbidden (ps_dir p) (ps_cls p))
          else if ps_width p < 1 then Inl (BadWidth (ps_width p))
          else if ps_cls p = ''clock_out'' \<and> \<not> ds_raw_clock_out spec then Inl (ClockOutRefused (ps_name p))
          else Inr (ps_name p # seen))"

text \<open>The state of the loop: the bits so far, and the next free bit of each vector.\<close>

type_synonym assign = "wbit list \<times> (string \<Rightarrow> int)"

definition add_bits :: "string \<Rightarrow> port_spec \<Rightarrow> string \<Rightarrow> assign \<Rightarrow> assign" where
  "add_bits vec p role st =
     fold (\<lambda>i (bits, n).
       (bits @ [\<lparr>w_vec = vec, w_bit = n vec, w_port = ps_name p, w_index = int i, w_cls = ps_cls p, w_role = role\<rparr>],
        n(vec := n vec + 1))) [0..<nat (ps_width p)] st"

definition add_port :: "port_spec \<Rightarrow> assign \<Rightarrow> assign" where
  "add_port p st =
     (if ps_dir p = ''inout'' then
        add_bits ''out'' p ''obs'' (add_bits ''in'' p ''drive_val'' (add_bits ''in'' p ''drive_en'' st))
      else if ps_dir p = ''input'' then add_bits (if ps_cls p = ''clock'' then ''clk'' else ''in'') p '''' st
      else add_bits ''out'' p '''' st)"

definition build_ports :: "dut_spec \<Rightarrow> (wrap_error, string list \<times> assign) result" where
  "build_ports spec =
     rfold (\<lambda>(seen, st) p. rbind (check_port spec p seen) (\<lambda>seen'. Inr (seen', add_port p st)))
       ([], [], \<lambda>_. 0) (ds_ports spec)"

definition build_map :: "dut_spec \<Rightarrow> (wrap_error, dut_map) result" where
  "build_map spec =
     rbind (build_ports spec) (\<lambda>(_, bits, n). Inr
       \<lparr>m_prim = ds_prim spec, m_family = ds_family spec, m_cfg = ds_cfg spec,
        m_attrs = dict_of (ds_attrs spec), m_nclk = n ''clk'', m_nin = n ''in'', m_nout = n ''out'',
        m_bits = bits, m_min_gap = ds_min_gap spec\<rparr>)"

end
