(* ===== verification/Attr_Values.thy ===== *)
theory Attr_Values
  imports Dut_Map
begin

text \<open>
  \<open>tools/xut/wrap.py\<close>, attribute values: Verilog literals, rendering a value by the attribute's
  kind, the \<open>allowed\<close> list, and the two ways to make a specification. Floating point is the
  parameter \<open>fl\<close>: \<open>fl s\<close> is the \<open>repr\<close> of \<open>float(s)\<close>, None when \<open>float\<close> refuses the text.
\<close>

record attr_decl =
  ad_name :: string
  ad_kind :: string
  ad_width :: nat
  ad_allowed :: "string list"

section \<open>Verilog literals\<close>

text \<open>\<open>_BASED\<close>: the size digits, the base letter in lower case and the digits.\<close>

definition base_letter :: "char \<Rightarrow> bool" where
  "base_letter c \<longleftrightarrow> to_lower c \<in> {CHR ''b'', CHR ''o'', CHR ''d'', CHR ''h''}"

definition xz_char :: "char \<Rightarrow> bool" where
  "xz_char c \<longleftrightarrow> c \<in> {CHR ''x'', CHR ''X'', CHR ''z'', CHR ''Z'', CHR ''?''}"

definition based_char :: "char \<Rightarrow> bool" where
  "based_char c \<longleftrightarrow> digit_val c \<noteq> None \<or> c = US \<or> xz_char c"

definition BASED :: "string \<Rightarrow> (string \<times> char \<times> string) option" where
  "BASED s =
     (case span is_digit s of
        (sz, q # r) \<Rightarrow>
          if q \<noteq> SQ then None else
          (case (case r of c # r' \<Rightarrow> if c = CHR ''s'' \<or> c = CHR ''S'' then r' else r | [] \<Rightarrow> []) of
             b # ds \<Rightarrow>
               if base_letter b \<and> ds \<noteq> [] \<and> list_all based_char ds then Some (sz, to_lower b, ds) else None
           | [] \<Rightarrow> None)
      | _ \<Rightarrow> None)"

definition DECIMAL :: "string \<Rightarrow> bool" where
  "DECIMAL s \<longleftrightarrow>
     (let u = (case s of c # r \<Rightarrow> if c = CHR ''+'' \<or> c = CHR ''-'' then r else s | [] \<Rightarrow> [])
      in u \<noteq> [] \<and> is_digit (hd u) \<and> list_all (\<lambda>c. is_digit c \<or> c = US) u)"

definition parse_literal :: "string \<Rightarrow> (wrap_error, nat option \<times> int) result" where
  "parse_literal lit =
     (let s = strip lit in
      case BASED s of
        None \<Rightarrow>
          if DECIMAL s then (case py_int (no_us s) of Some i \<Rightarrow> Inr (None, i) | None \<Rightarrow> Inl WrapPyError)
          else Inl (NotLiteral lit)
      | Some (sz, b, ds) \<Rightarrow>
          let digits = no_us ds in
          if list_ex xz_char digits then Inl (HasXZ lit)
          else case py_int_base (the (radix_of b)) digits of
                 None \<Rightarrow> Inl (BadDigits lit)
               | Some v \<Rightarrow> Inr (if sz = [] then None else parse_base 10 sz, int v))"

definition literal_value :: "pyval \<Rightarrow> (wrap_error, int) result" where
  "literal_value v =
     (case v of
        PBool b \<Rightarrow> Inl IsBool
      | PInt i \<Rightarrow> Inr i
      | PStr s \<Rightarrow> map_sum id snd (parse_literal s)
      | _ \<Rightarrow> Inl BadType)"

section \<open>Rendering by kind\<close>

definition max_digit :: "char \<Rightarrow> char" where
  "max_digit b = (if b = CHR ''b'' then CHR ''1'' else if b = CHR ''o'' then CHR ''7'' else CHR ''f'')"

text \<open>\<open>_render_x_bits\<close>: None in the result when the literal has no x or z digit.\<close>

definition render_x_bits :: "nat \<Rightarrow> string \<Rightarrow> (wrap_error, string option) result" where
  "render_x_bits width lit =
     (case BASED lit of
        None \<Rightarrow> Inr None
      | Some (sz, b, ds) \<Rightarrow>
          if \<not> list_ex xz_char ds then Inr None else
          let digits = no_us ds in
          if sz = [] then Inl (NotSized lit)
          else if parse_base 10 sz \<noteq> Some width then Inl (WrongSize lit sz width)
          else if b = CHR ''d'' then (if length digits \<noteq> 1 then Inl (BadDigits lit) else Inr (Some lit))
          else case py_int_base (the (radix_of b)) (map (\<lambda>c. if xz_char c then max_digit b else c) digits) of
                 None \<Rightarrow> Inl (BadDigits lit)
               | Some largest \<Rightarrow> if 2 ^ width \<le> largest then Inl (DoesNotFit lit width) else Inr (Some lit))"

definition pad_left :: "nat \<Rightarrow> string \<Rightarrow> string" where
  "pad_left n s = replicate (n - length s) (CHR ''0'') @ s"

text \<open>\<open>_render_bits\<close> for an \<open>int\<close>: one binary digit, or zero-padded hexadecimal.\<close>

definition render_int_bits :: "nat \<Rightarrow> nat \<Rightarrow> string" where
  "render_int_bits width v =
     (if width = 1 then ''1'' @ [SQ] @ ''b'' @ show_nat v
      else show_nat width @ [SQ] @ ''h'' @ pad_left ((width + 3) div 4) (show_base 16 v))"

definition sized_literal :: "nat \<Rightarrow> string \<Rightarrow> (wrap_error, string) result" where
  "sized_literal width lit =
     rbind (parse_literal lit) (\<lambda>(sz, v).
       case sz of
         None \<Rightarrow> Inl (NotSized lit)
       | Some n \<Rightarrow>
           if n \<noteq> width then Inl (WrongSize lit (show_nat n) width)
           else if 2 ^ width \<le> v then Inl (DoesNotFit lit width)
           else Inr lit)"

definition render_bits :: "nat \<Rightarrow> pyval \<Rightarrow> bool \<Rightarrow> (wrap_error, string) result" where
  "render_bits width value allow_x =
     (case value of
        PBool _ \<Rightarrow> Inl IsBool
      | PInt i \<Rightarrow>
          if \<not> (0 \<le> i \<and> i < 2 ^ width) then Inl (DoesNotFit (show_int i) width)
          else Inr (render_int_bits width (nat i))
      | PStr s \<Rightarrow>
          let lit = strip s in
          rbind (if allow_x then render_x_bits width lit else Inr None) (\<lambda>x.
            case x of Some l \<Rightarrow> Inr l | None \<Rightarrow> sized_literal width lit)
      | _ \<Rightarrow> Inl BadType)"

definition unquoted :: "string \<Rightarrow> string" where
  "unquoted s = (if 2 \<le> length s \<and> hd s = DQ \<and> last s = DQ then butlast (tl s) else s)"

definition render_string :: "pyval \<Rightarrow> (wrap_error, string) result" where
  "render_string value =
     (case (case value of PInt i \<Rightarrow> Inr (show_int i) | PStr s \<Rightarrow> Inr s | PBool _ \<Rightarrow> Inl IsBool | _ \<Rightarrow> Inl BadType) of
        Inl e \<Rightarrow> Inl e
      | Inr s0 \<Rightarrow>
          let s = unquoted s0 in
          case filter (\<lambda>c. c \<in> set s) [DQ, BSL, LF, CR] of
            c # _ \<Rightarrow> Inl (BadString c)
          | [] \<Rightarrow> Inr (DQ # s @ [DQ]))"

definition signed_digits :: "string \<Rightarrow> bool" where
  "signed_digits s \<longleftrightarrow>
     (let u = (case s of c # r \<Rightarrow> if c = CHR ''+'' \<or> c = CHR ''-'' then r else s | [] \<Rightarrow> [])
      in u \<noteq> [] \<and> list_all is_digit u)"

definition int32 :: "int \<Rightarrow> (wrap_error, string) result" where
  "int32 i = (if - (2 ^ 31) \<le> i \<and> i \<le> 2 ^ 31 - 1 then Inr (show_int i) else Inl (NotInt32 i))"

definition render_integer :: "pyval \<Rightarrow> (wrap_error, string) result" where
  "render_integer value =
     (case value of
        PBool _ \<Rightarrow> Inl IsBool
      | PInt i \<Rightarrow> int32 i
      | PStr s \<Rightarrow>
          if \<not> signed_digits (strip s) then Inl (NotDecimal s)
          else (case py_int (strip s) of Some i \<Rightarrow> int32 i | None \<Rightarrow> Inl WrapPyError)
      | _ \<Rightarrow> Inl BadType)"

definition not_finite :: "string \<Rightarrow> bool" where
  "not_finite r \<longleftrightarrow> r \<in> {''inf'', ''-inf'', ''nan''}"

definition finite_repr :: "string \<Rightarrow> (wrap_error, string) result" where
  "finite_repr r = (if not_finite r then Inl NotFinite else Inr r)"

text \<open>\<open>float\<close> of an \<open>int\<close> beyond the range raises \<open>OverflowError\<close>, which nothing catches.\<close>

definition render_real :: "(string \<Rightarrow> string option) \<Rightarrow> pyval \<Rightarrow> (wrap_error, string) result" where
  "render_real fl value =
     (case value of
        PBool _ \<Rightarrow> Inl IsBool
      | PInt i \<Rightarrow> (case fl (show_int i) of Some r \<Rightarrow> if not_finite r then Inl WrapPyError else Inr r | None \<Rightarrow> Inl NotReal)
      | PFloat r \<Rightarrow> finite_repr r
      | PStr s \<Rightarrow> (case fl s of Some r \<Rightarrow> finite_repr r | None \<Rightarrow> Inl NotReal)
      | _ \<Rightarrow> Inl BadType)"

fun is_float :: "pyval \<Rightarrow> bool" where
  "is_float (PFloat r) = True"
| "is_float v = False"

definition render_attr ::
  "(string \<Rightarrow> string option) \<Rightarrow> attr_decl \<Rightarrow> pyval \<Rightarrow> bool \<Rightarrow> (wrap_error, string) result" where
  "render_attr fl a value allow_x =
     (if ad_kind a = ''bits'' then render_bits (ad_width a) value allow_x
      else if ad_kind a = ''string'' then (if is_float value then Inl FloatValue else render_string value)
      else if ad_kind a = ''integer'' then (if is_float value then Inl FloatValue else render_integer value)
      else if ad_kind a = ''real'' then render_real fl value
      else Inl (UnknownKind (ad_kind a)))"

section \<open>The allowed list\<close>

text \<open>
  The comparison key of a rendered literal; a float compares by value, so the two zeros are
  one key.
\<close>

datatype akey = IntKey int | RealKey string | TextKey string

definition strip_quotes :: "string \<Rightarrow> string" where
  "strip_quotes s = rev (dropWhile (\<lambda>c. c = DQ) (rev (dropWhile (\<lambda>c. c = DQ) s)))"

definition real_key :: "string \<Rightarrow> string" where
  "real_key r = (if r = ''-0.0'' then ''0.0'' else r)"

definition allowed_key ::
  "(string \<Rightarrow> string option) \<Rightarrow> attr_decl \<Rightarrow> string \<Rightarrow> (wrap_error, akey) result" where
  "allowed_key fl a lit =
     (if ad_kind a = ''bits'' then
        (case literal_value (PStr lit) of Inr i \<Rightarrow> Inr (IntKey i) | Inl _ \<Rightarrow> Inl (CannotCompare lit))
      else if ad_kind a = ''integer'' then
        (case py_int lit of Some i \<Rightarrow> Inr (IntKey i) | None \<Rightarrow> Inl (CannotCompare lit))
      else if ad_kind a = ''real'' then
        (case fl lit of Some r \<Rightarrow> Inr (RealKey (real_key r)) | None \<Rightarrow> Inl (CannotCompare lit))
      else Inr (TextKey (strip_quotes lit)))"

definition check_allowed ::
  "(string \<Rightarrow> string option) \<Rightarrow> attr_decl \<Rightarrow> string \<Rightarrow> (wrap_error, unit) result" where
  "check_allowed fl a lit =
     (if \<not> is_enumerated (ad_allowed a) then Inr ()
      else rbind (rmap (allowed_key fl a) (ad_allowed a)) (\<lambda>keys.
           rbind (allowed_key fl a lit) (\<lambda>k.
             if k \<notin> set keys then Inl (NotAllowed lit) else Inr ())))"

definition render_attrs ::
  "(string \<Rightarrow> string option) \<Rightarrow> attr_decl list \<Rightarrow> (string, pyval) dict \<Rightarrow> bool \<Rightarrow> bool \<Rightarrow>
   (wrap_error, (string \<times> string) list) result" where
  "render_attrs fl declared attrs allow_illegal allow_x =
     (let unknown = sort (filter (\<lambda>k. k \<notin> set (map ad_name declared)) (map fst attrs)) in
      if unknown \<noteq> [] then Inl (UnknownAttrs unknown)
      else rfold (\<lambda>out a.
         case map_of attrs (ad_name a) of
           None \<Rightarrow> Inr out
         | Some v \<Rightarrow>
             rbind (render_attr fl a v allow_x) (\<lambda>lit.
             rbind (if allow_illegal then Inr () else check_allowed fl a lit) (\<lambda>_.
               Inr (out @ [(ad_name a, lit)])))) [] declared)"

section \<open>Specifications\<close>

record catalog_entry =
  ce_name :: string
  ce_family :: string
  ce_ports :: "port_spec list"
  ce_attributes :: "attr_decl list"
  ce_min_gap :: "int option"

definition check_cfg :: "string \<Rightarrow> (wrap_error, unit) result" where
  "check_cfg cfg = (if is_cfg cfg then Inr () else Inl (BadCfg cfg))"

definition spec_from_catalog ::
  "(string \<Rightarrow> string option) \<Rightarrow> catalog_entry \<Rightarrow> string \<Rightarrow> (string, pyval) dict \<Rightarrow> bool \<Rightarrow> bool \<Rightarrow>
   (wrap_error, dut_spec) result" where
  "spec_from_catalog fl entry cfg attrs allow_illegal raw_clock_out =
     rbind (check_cfg cfg) (\<lambda>_.
     rbind (render_attrs fl (ce_attributes entry) attrs allow_illegal allow_illegal) (\<lambda>rendered. Inr
       \<lparr>ds_prim = ce_name entry, ds_family = ce_family entry, ds_cfg = cfg, ds_ports = ce_ports entry,
        ds_attrs = rendered, ds_raw_clock_out = raw_clock_out, ds_min_gap = ce_min_gap entry\<rparr>))"

text \<open>A parsed HDL module: its name, its ports (name, direction, width) and its parameters.\<close>

record hdl_module =
  hm_name :: string
  hm_ports :: "(string \<times> string \<times> int) list"
  hm_params :: "(string \<times> string \<times> nat) list"

definition spec_from_hdl ::
  "(string \<Rightarrow> string option) \<Rightarrow> hdl_module \<Rightarrow> string \<Rightarrow> (string, pyval) dict \<Rightarrow> bool \<Rightarrow> string \<Rightarrow>
   (wrap_error, dut_spec) result" where
  "spec_from_hdl fl md cfg attrs raw_clock_out family =
     rbind (check_cfg cfg) (\<lambda>_.
     let declared = map (\<lambda>(n, k, w). \<lparr>ad_name = n, ad_kind = k, ad_width = w, ad_allowed = []\<rparr>) (hm_params md)
     in rbind (render_attrs fl declared attrs True False) (\<lambda>rendered. Inr
       \<lparr>ds_prim = hm_name md, ds_family = family, ds_cfg = cfg,
        ds_ports = map (\<lambda>(n, dir, w). \<lparr>ps_name = n, ps_dir = dir, ps_width = w,
                                       ps_cls = default_class (hm_name md) n dir\<rparr>) (hm_ports md),
        ds_attrs = rendered, ds_raw_clock_out = raw_clock_out, ds_min_gap = None\<rparr>))"

section \<open>A rendered bit vector fits its attribute\<close>

lemma show_base_chars: "2 \<le> b \<Longrightarrow> b \<le> 16 \<Longrightarrow> c \<in> set (show_base b n) \<Longrightarrow> \<exists>d < 16. c = digit_chr d"
proof (induction n rule: less_induct)
  case (less n)
  show ?case
  proof (cases "n < b")
    case True
    then have "c = digit_chr n" using less.prems by (subst (asm) show_base.simps) simp
    then show ?thesis using True less.prems(2) by (intro exI[of _ n]) simp
  next
    case False
    then have "n div b < n" using less.prems(1) by (cases n) auto
    have "c \<in> set (show_base b (n div b)) \<or> c = digit_chr (n mod b)"
      using False less.prems show_base.simps[of b n] by (simp add: disj_commute)
    moreover have "n mod b < 16"
      using less.prems(1,2) mod_less_divisor[of b n] by linarith
    ultimately show ?thesis using less \<open>n div b < n\<close> by blast
  qed
qed

lemma code_digit_chr: "d < 16 \<Longrightarrow> code (digit_chr d) = (if d < 10 then 48 + d else 87 + d)"
  by (simp add: digit_chr_def)

lemma digit_chr_neq: "d < 16 \<Longrightarrow> code c < 48 \<or> 57 < code c \<and> code c < 97 \<or> 102 < code c \<Longrightarrow> digit_chr d \<noteq> c"
  using code_digit_chr[of d] by (auto split: if_splits)

lemma digit_chr_facts: "d < 16 \<Longrightarrow> based_char (digit_chr d) \<and> \<not> xz_char (digit_chr d) \<and> digit_chr d \<noteq> US \<and> \<not> is_space (digit_chr d)"
  by (auto simp: based_char_def digit_val_chr xz_char_def is_space_def code_digit_chr digit_chr_neq)

lemma base_acc_zeros: "2 \<le> b \<Longrightarrow> base_acc b 0 (replicate k (CHR ''0'') @ s) = base_acc b 0 s"
  by (induction k) (simp_all add: digit_val_def)

lemma pad_left_digits: "c \<in> set (pad_left k (show_base 16 n)) \<Longrightarrow> \<exists>d < 16. c = digit_chr d"
proof -
  have "CHR ''0'' = digit_chr 0" by (rule of_char_eqI[where ?'a = nat]) (simp add: digit_chr_def)
  assume "c \<in> set (pad_left k (show_base 16 n))"
  then have "c = CHR ''0'' \<or> c \<in> set (show_base 16 n)" by (auto simp: pad_left_def split: if_splits)
  then show ?thesis
  proof
    assume "c = CHR ''0''"
    then show ?thesis using \<open>CHR ''0'' = digit_chr 0\<close> by (intro exI[of _ 0]) simp
  qed (rule show_base_chars, simp_all)
qed

lemma parse_pad_left: "parse_base 16 (pad_left k (show_base 16 n)) = Some n"
  by (simp add: parse_base_def pad_left_def base_acc_zeros base_acc_show)

lemma strip_ends: "s \<noteq> [] \<Longrightarrow> \<not> is_space (hd s) \<Longrightarrow> \<not> is_space (last s) \<Longrightarrow> strip s = s"
  by (rule strip_tight) (simp add: tight_def)

text \<open>
  A sized literal as Verilog reads it: its size and the value of its digits, which are digits of its base
  (and underscores). Python's \<open>int\<close> also takes a \<open>0b\<close> prefix in base 2.
\<close>

definition verilog_literal :: "string \<Rightarrow> (nat \<times> nat) option" where
  "verilog_literal lit =
     (case BASED (strip lit) of
        None \<Rightarrow> None
      | Some (sz, b, ds) \<Rightarrow>
          (case (parse_base 10 sz, parse_base (the (radix_of b)) (no_us ds)) of
             (Some k, Some n) \<Rightarrow> Some (k, n)
           | _ \<Rightarrow> None))"

definition prefixed_binary :: "string \<Rightarrow> bool" where
  "prefixed_binary lit \<longleftrightarrow>
     (case BASED (strip lit) of
        Some (_, b, ds) \<Rightarrow> the (radix_of b) = 2 \<and> (take 2 (no_us ds) = ''0b'' \<or> take 2 (no_us ds) = ''0B'')
      | None \<Rightarrow> False)"

definition xz_literal :: "nat \<Rightarrow> string \<Rightarrow> bool" where
  "xz_literal w lit \<longleftrightarrow> (case BASED lit of Some (sz, _, ds) \<Rightarrow> parse_base 10 sz = Some w \<and> list_ex xz_char ds | None \<Rightarrow> False)"

lemma parse_rendered:
  "0 \<le> i \<Longrightarrow> i < 2 ^ w \<Longrightarrow> parse_literal (render_int_bits w (nat i)) = Inr (Some w, i) \<and>
    \<not> prefixed_binary (render_int_bits w (nat i))"
proof (cases "w = 1")
  case True
  assume "0 \<le> i" "i < 2 ^ w"
  with True have "i = 0 \<or> i = 1" by auto
  moreover have "parse_literal (render_int_bits 1 0) = Inr (Some 1, 0)" "parse_literal (render_int_bits 1 1) = Inr (Some 1, 1)"
    "\<not> prefixed_binary (render_int_bits 1 0)" "\<not> prefixed_binary (render_int_bits 1 1)"
    by code_simp+
  ultimately show ?thesis using True by auto
next
  case False
  assume i: "0 \<le> i" "i < 2 ^ w"
  define ds where "ds = pad_left ((w + 3) div 4) (show_base 16 (nat i))"
  have r: "render_int_bits w (nat i) = show_nat w @ SQ # CHR ''h'' # ds"
    using False by (simp add: render_int_bits_def ds_def)
  have ne: "ds \<noteq> []" by (simp add: ds_def pad_left_def)
  have dc: "based_char c \<and> \<not> xz_char c \<and> c \<noteq> US \<and> \<not> is_space c" if "c \<in> set ds" for c
  proof -
    have "\<exists>d < 16. c = digit_chr d" using that unfolding ds_def by (rule pad_left_digits)
    then show ?thesis using digit_chr_facts by (elim exE conjE) simp
  qed
  have "last ds \<in> set ds" using ne by simp
  have "hd (show_nat w) \<in> set (show_nat w)" by simp
  then have "\<not> is_space (hd (show_nat w))" using show_nat_digits is_digit_not_space by blast
  then have st: "strip (show_nat w @ SQ # CHR ''h'' # ds) = show_nat w @ SQ # CHR ''h'' # ds"
    using dc[OF \<open>last ds \<in> set ds\<close>] ne by (intro strip_ends) simp_all
  have sp: "span is_digit (show_nat w @ SQ # CHR ''h'' # ds) = (show_nat w, SQ # CHR ''h'' # ds)"
    using show_nat_digits by (intro span_append ballI) (blast, simp add: is_digit_def)
  have B: "BASED (show_nat w @ SQ # CHR ''h'' # ds) = Some (show_nat w, CHR ''h'', ds)"
    using ne dc by (simp add: BASED_def sp base_letter_def to_lower_def list_all_iff)
  have nu: "no_us ds = ds" using dc by (auto simp: no_us_def filter_id_conv)
  have x: "\<not> list_ex xz_char ds" using dc by (auto simp: list_ex_iff)
  have pb: "py_int_base 16 ds = Some (nat i)"
    by (simp add: py_int_base_def ds_def parse_pad_left)
  have rd: "radix_of (CHR ''h'') = Some 16" by code_simp
  show ?thesis unfolding r parse_literal_def prefixed_binary_def Let_def st B
    using i by (simp add: nu x pb rd)
qed

lemma parse_literal_nonneg: "parse_literal lit = Inr (Some n, v) \<Longrightarrow> 0 \<le> v"
  by (auto simp: parse_literal_def Let_def split: option.splits if_split_asm)

lemma parse_literal_verilog:
  assumes "parse_literal lit = Inr (Some w, n)"
  shows "prefixed_binary lit \<or> verilog_literal lit = Some (w, nat n)"
proof -
  obtain sz b ds k where b: "BASED (strip lit) = Some (sz, b, ds)" "py_int_base (the (radix_of b)) (no_us ds) = Some k"
    "n = int k" "sz \<noteq> []" "parse_base 10 sz = Some w"
    using assms by (auto simp: parse_literal_def Let_def split: option.splits if_split_asm)
  then show ?thesis by (auto simp: prefixed_binary_def verilog_literal_def py_int_base_def split: if_split_asm)
qed

lemma render_x_literal: "render_x_bits w lit = Inr (Some l) \<Longrightarrow> l = lit \<and> xz_literal w lit"
  by (auto simp: render_x_bits_def xz_literal_def Let_def split: option.splits if_split_asm)

text \<open>
  C13. A value accepted for a bit-vector attribute is never coerced. An \<open>int\<close> lies in range and is
  rendered as a Verilog literal of the declared size with that very value. A text is kept as it is
  (without surrounding blanks), and it is a Verilog literal of the declared size with a value in range.
  Two kinds of text are accepted beyond that: where x and z digits are allowed, a literal of the
  declared size that has some; and binary digits with a \<open>0b\<close> prefix, which Python's \<open>int\<close> reads.
\<close>

theorem render_bits_exact:
  assumes "render_bits w v allow_x = Inr lit"
  shows "case v of
      PInt i \<Rightarrow> 0 \<le> i \<and> i < 2 ^ w \<and> verilog_literal lit = Some (w, nat i)
    | PStr s \<Rightarrow> lit = strip s \<and>
        (allow_x \<and> xz_literal w lit \<or> prefixed_binary lit \<or> (\<exists>n. n < 2 ^ w \<and> verilog_literal lit = Some (w, n)))
    | _ \<Rightarrow> False"
proof (cases v)
  case (PInt i)
  then have i: "0 \<le> i" "i < 2 ^ w" "lit = render_int_bits w (nat i)"
    using assms by (auto simp: render_bits_def split: if_split_asm)
  then show ?thesis using PInt parse_rendered[OF i(1,2)] parse_literal_verilog[of lit w i] by simp
next
  case (PStr s)
  show ?thesis
  proof (cases "allow_x \<and> (\<exists>l. render_x_bits w (strip s) = Inr (Some l))")
    case True
    then obtain l where l: "allow_x" "render_x_bits w (strip s) = Inr (Some l)" by blast
    then have "lit = l" using assms PStr by (simp add: render_bits_def Let_def)
    then show ?thesis using l PStr render_x_literal[OF l(2)] by simp
  next
    case False
    then have "sized_literal w (strip s) = Inr lit"
      using assms PStr by (auto simp: render_bits_def Let_def rbind_Inr_iff split: if_split_asm option.split_asm)
    then obtain n where n: "parse_literal (strip s) = Inr (Some w, n)" "n < 2 ^ w" "lit = strip s"
      by (auto simp: sized_literal_def rbind_Inr_iff split: option.splits if_split_asm)
    have "nat n < 2 ^ w" using n(2) parse_literal_nonneg[OF n(1)] by (simp add: nat_less_iff)
    then show ?thesis using PStr n(3) parse_literal_verilog[OF n(1)] by auto
  qed
qed (use assms in \<open>auto simp: render_bits_def\<close>)

theorem render_bits_exact_witness:
  "render_bits 16 (PInt 165) False = Inr (''16'' @ [SQ] @ ''h00a5'') \<and> verilog_literal (''16'' @ [SQ] @ ''h00a5'') = Some (16, 165)"
proof -
  have r: "render_bits 16 (PInt 165) False = Inr (''16'' @ [SQ] @ ''h00a5'')" by code_simp
  then show ?thesis using render_bits_exact[OF r] by simp
qed

section \<open>A base prefix inside the digits\<close>

text \<open>
  Python's \<open>int\<close> takes a \<open>0b\<close> prefix in base 2 and \<open>_BASED\<close> lets the letter through, so a text
  that is no Verilog literal is accepted and kept verbatim.
\<close>

lemma prefixed_binary_accepted:
  "render_bits 1 (PStr (''1'' @ [SQ] @ ''b0b1'')) False = Inr (''1'' @ [SQ] @ ''b0b1'')"
  by code_simp

end
