(* ===== verification/Dut_Map_Facts.thy ===== *)
theory Dut_Map_Facts
  imports Dut_Map
begin

text \<open>
  What \<open>build_map\<close> promises: the checks of a map read back, every port bit on one vector bit,
  the JSON round trip and the inverse of \<open>clock_name\<close>.
\<close>

section \<open>Adding the bits of a port\<close>

definition new_bits :: "string \<Rightarrow> port_spec \<Rightarrow> string \<Rightarrow> int \<Rightarrow> wbit list" where
  "new_bits vec p role n =
     map (\<lambda>i. \<lparr>w_vec = vec, w_bit = n + int i, w_port = ps_name p, w_index = int i, w_cls = ps_cls p, w_role = role\<rparr>)
       [0..<nat (ps_width p)]"

lemma add_bits_eq:
  "add_bits vec p role (bits, n) =
     (bits @ new_bits vec p role (n vec), n(vec := n vec + int (nat (ps_width p))))"
proof -
  have "fold (\<lambda>i (bits, n).
       (bits @ [\<lparr>w_vec = vec, w_bit = n vec, w_port = ps_name p, w_index = int i, w_cls = ps_cls p, w_role = role\<rparr>],
        n(vec := n vec + 1))) [0..<k] (bits, n) =
     (bits @ map (\<lambda>i. \<lparr>w_vec = vec, w_bit = n vec + int i, w_port = ps_name p, w_index = int i, w_cls = ps_cls p, w_role = role\<rparr>) [0..<k],
      n(vec := n vec + int k))" for k
    by (induction k) (auto simp: algebra_simps)
  then show ?thesis by (simp add: add_bits_def new_bits_def)
qed

text \<open>The bits of each vector are numbered from 0 up to its counter.\<close>

definition numbered :: "assign \<Rightarrow> bool" where
  "numbered st \<longleftrightarrow>
     (\<forall>v. 0 \<le> snd st v \<and> map w_bit (filter (\<lambda>b. w_vec b = v) (fst st)) = map int [0..<nat (snd st v)]) \<and>
     (\<forall>b \<in> set (fst st). dict_has VEC_SIGNAL (w_vec b) \<and> w_role b \<in> set ROLES)"

lemma new_bits_filter:
  "filter (\<lambda>b. w_vec b = v) (new_bits vec p role n) = (if v = vec then new_bits vec p role n else [])"
  by (auto simp: new_bits_def filter_map o_def)

lemma map_bit_new: "0 \<le> n \<Longrightarrow>
   map int [0..<nat n] @ map w_bit (new_bits vec p role n) = map int [0..<nat (n + int (nat (ps_width p)))]"
proof -
  assume n: "0 \<le> n"
  let ?k = "nat (ps_width p)"
  have "[0..<nat n + ?k] = [0..<nat n] @ map (\<lambda>i. i + nat n) [0..<?k]"
    by (metis add.commute add_0 map_add_upt upt_add_eq_append zero_le)
  moreover have "nat (n + int ?k) = nat n + ?k" using n by (simp add: nat_add_distrib)
  ultimately show ?thesis using n by (simp add: new_bits_def o_def add.commute)
qed

lemma numbered_add:
  assumes "numbered st" "dict_has VEC_SIGNAL vec" "role \<in> set ROLES"
  shows "numbered (add_bits vec p role st)"
proof -
  obtain bits n where st: "st = (bits, n)" by (cases st)
  have "0 \<le> n vec" using assms(1) st by (simp add: numbered_def)
  then have "map w_bit (filter (\<lambda>b. w_vec b = v) (bits @ new_bits vec p role (n vec))) =
      map int [0..<nat ((n(vec := n vec + int (nat (ps_width p)))) v)]" for v
    using assms(1) st map_bit_new by (simp add: numbered_def new_bits_filter)
  moreover have "\<forall>b \<in> set (new_bits vec p role (n vec)). dict_has VEC_SIGNAL (w_vec b) \<and> w_role b \<in> set ROLES"
    using assms(2,3) by (simp add: new_bits_def)
  ultimately show ?thesis using assms(1) \<open>0 \<le> n vec\<close>
    unfolding st add_bits_eq numbered_def by (auto simp: Ball_def)
qed

lemma numbered_port: "numbered st \<Longrightarrow> numbered (add_port p st)"
proof -
  have "dict_has VEC_SIGNAL ''in''" "dict_has VEC_SIGNAL ''out''" "dict_has VEC_SIGNAL ''clk''"
    "'''' \<in> set ROLES" "''obs'' \<in> set ROLES" "''drive_en'' \<in> set ROLES" "''drive_val'' \<in> set ROLES"
    by (simp_all add: dict_has_iff VEC_SIGNAL_def ROLES_def)
  then show "numbered st \<Longrightarrow> numbered (add_port p st)"
    unfolding add_port_def by (simp add: numbered_add)
qed

lemma numbered_port_eq: "add_port p st = (bits, n) \<Longrightarrow> numbered st \<Longrightarrow> numbered (bits, n)"
  by (metis numbered_port)

lemma build_numbered:
  assumes "build_map spec = Inr m"
  shows "\<exists>n. numbered (m_bits m, n) \<and> m_nclk m = n ''clk'' \<and> m_nin m = n ''in'' \<and> m_nout m = n ''out''"
proof -
  obtain seen bits n where b: "build_ports spec = Inr (seen, bits, n)"
    and m: "m_bits m = bits" "m_nclk m = n ''clk''" "m_nin m = n ''in''" "m_nout m = n ''out''"
    using assms by (auto simp: build_map_def rbind_Inr_iff)
  have "numbered (snd (seen, bits, n))"
  proof (rule rfold_invariant[OF b[unfolded build_ports_def], where P = "\<lambda>s. numbered (snd s)"])
    show "numbered (snd ([], [], \<lambda>_. 0))" by (simp add: numbered_def)
  qed (auto simp: rbind_Inr_iff elim: numbered_port_eq)
  then show ?thesis using m by auto
qed

lemma rfold_unit: "(\<And>x. x \<in> set xs \<Longrightarrow> f () x = Inr ()) \<Longrightarrow> rfold f () xs = Inr ()"
  by (induction xs) simp_all

lemma rfold_unit_iff: "rfold f () xs = Inr () \<longleftrightarrow> (\<forall>x \<in> set xs. f () x = Inr ())"
  by (induction xs) (auto simp: rbind_Inr_iff)

lemma check_map_iff:
  "check_map m = Inr () \<longleftrightarrow>
     (\<forall>b \<in> set (m_bits m). dict_has VEC_SIGNAL (w_vec b) \<and> w_role b \<in> set ROLES) \<and>
     (\<forall>v \<in> {''clk'', ''in'', ''out''}. map w_bit (on_vec m v) = map int [0..<nat (count_of m v)] \<and> 0 \<le> count_of m v)"
proof -
  have 1: "check_vector m (v, s) = Inr () \<longleftrightarrow> map w_bit (on_vec m v) = map int [0..<nat (count_of m v)] \<and> 0 \<le> count_of m v" for v s
    by (auto simp: check_vector_def Let_def dest: arg_cong[of _ _ length])
  show ?thesis
    unfolding check_map_def rbind_Inr_iff rfold_unit_iff
    by (auto simp: VEC_SIGNAL_def 1 rfold_unit_iff split: if_splits)
qed

lemma built_map_ok: "build_map spec = Inr m \<Longrightarrow> check_map m = Inr ()"
proof -
  assume "build_map spec = Inr m"
  then obtain n where "numbered (m_bits m, n)" "m_nclk m = n ''clk''" "m_nin m = n ''in''" "m_nout m = n ''out''"
    using build_numbered by blast
  then show ?thesis unfolding check_map_iff by (auto simp: numbered_def on_vec_def count_of_def)
qed

text \<open>
  C11. Every map \<open>build_map\<close> makes passes the check of a map read back: the bits of \<open>clk\<close>,
  \<open>in_vec\<close> and \<open>out_vec\<close> are numbered from 0 in order, the recorded vector widths are their
  numbers, and every bit is on one of the three vectors with a known role.
\<close>

theorem build_map_checked:
  assumes "build_map spec = Inr m"
  shows "check_map m = Inr ()"
  using assms by (rule built_map_ok)

definition spec_example :: dut_spec where
  "spec_example =
     \<lparr>ds_prim = ''FDRE'', ds_family = ''7series'', ds_cfg = ''default'',
      ds_ports = [\<lparr>ps_name = ''C'', ps_dir = ''input'', ps_width = 1, ps_cls = ''clock''\<rparr>,
                  \<lparr>ps_name = ''D'', ps_dir = ''input'', ps_width = 2, ps_cls = ''data''\<rparr>,
                  \<lparr>ps_name = ''IO'', ps_dir = ''inout'', ps_width = 1, ps_cls = ''inout''\<rparr>,
                  \<lparr>ps_name = ''Q'', ps_dir = ''output'', ps_width = 1, ps_cls = ''data''\<rparr>],
      ds_attrs = [(''INIT'', ''1'' @ [SQ] @ ''b0'')], ds_raw_clock_out = False, ds_min_gap = None\<rparr>"

lemma spec_example_builds: "\<exists>m. build_map spec_example = Inr m"
proof -
  have "\<not> isl (build_map spec_example)" by code_simp
  then show ?thesis by (cases "build_map spec_example") auto
qed

theorem build_map_checked_witness: "\<exists>m. build_map spec_example = Inr m \<and> check_map m = Inr ()"
  using spec_example_builds build_map_checked by blast

section \<open>Every port bit has its vector bits\<close>

text \<open>The vectors and roles on which a port's bits are placed.\<close>

definition places :: "port_spec \<Rightarrow> (string \<times> string) set" where
  "places p =
     (if ps_dir p = ''inout'' then {(''in'', ''drive_en''), (''in'', ''drive_val''), (''out'', ''obs'')}
      else if ps_dir p = ''input'' then {(if ps_cls p = ''clock'' then ''clk'' else ''in'', '''')}
      else {(''out'', '''')})"

definition sel :: "wbit list \<Rightarrow> string \<Rightarrow> string \<Rightarrow> string \<Rightarrow> int list" where
  "sel bits v name r = map w_index (filter (\<lambda>b. w_vec b = v \<and> w_port b = name \<and> w_role b = r) bits)"

lemma sel_append: "sel (a @ b) v n r = sel a v n r @ sel b v n r"
  by (simp add: sel_def)

lemma sel_new: "sel (new_bits vec p role k) v name r =
   (if v = vec \<and> name = ps_name p \<and> r = role then map int [0..<nat (ps_width p)] else [])"
  by (auto simp: sel_def new_bits_def filter_map o_def)

lemma sel_add_port:
  "sel (fst (add_port p (bits, n))) v name r =
     sel bits v name r @ (if name = ps_name p \<and> (v, r) \<in> places p then map int [0..<nat (ps_width p)] else [])"
  by (auto simp: add_port_def add_bits_eq sel_append sel_new places_def)

definition placed :: "port_spec list \<Rightarrow> string list \<times> assign \<Rightarrow> bool" where
  "placed ps s \<longleftrightarrow>
     distinct (map ps_name ps) \<and> set (fst s) = ps_name ` set ps \<and>
     (\<forall>v name r. name \<notin> ps_name ` set ps \<longrightarrow> sel (fst (snd s)) v name r = []) \<and>
     (\<forall>p \<in> set ps. \<forall>v r. sel (fst (snd s)) v (ps_name p) r =
        (if (v, r) \<in> places p then map int [0..<nat (ps_width p)] else []))"

lemma check_port_Inr:
  "check_port spec p seen = Inr seen' \<Longrightarrow>
     seen' = ps_name p # seen \<and> ps_name p \<notin> set seen \<and> 1 \<le> ps_width p \<and>
     (\<exists>cs. map_of CLASSES_FOR (ps_dir p) = Some cs \<and> ps_cls p \<in> set cs) \<and>
     (ps_cls p = ''clock_out'' \<longrightarrow> ds_raw_clock_out spec)"
  by (auto simp: check_port_def split: if_split_asm option.splits)

lemma placed_step:
  assumes "placed ps (seen, st)" "check_port spec p seen = Inr seen'"
  shows "placed (ps @ [p]) (seen', add_port p st)"
proof -
  obtain bits n where st: "st = (bits, n)" by (cases st)
  have c: "seen' = ps_name p # seen" "ps_name p \<notin> ps_name ` set ps"
    using check_port_Inr[OF assms(2)] assms(1) by (auto simp: placed_def)
  have d: "distinct (map ps_name (ps @ [p]))" using c assms(1) by (auto simp: placed_def)
  have e: "sel bits v (ps_name p) r = []" for v r using assms(1) c(2) st by (simp add: placed_def)
  have f: "ps_name q \<noteq> ps_name p" if "q \<in> set ps" for q using c(2) that by (metis image_eqI)
  show ?thesis using assms(1) c d e f
    unfolding placed_def st by (auto simp: sel_add_port)
qed

lemma build_ports_placed:
  "rfold (\<lambda>(seen, st) p. rbind (check_port spec p seen) (\<lambda>seen'. Inr (seen', add_port p st))) s ps = Inr s' \<Longrightarrow>
   placed qs s \<Longrightarrow> placed (qs @ ps) s'"
proof (induction ps arbitrary: s qs)
  case (Cons p ps)
  obtain seen st where s: "s = (seen, st)" by (cases s)
  from Cons.prems(1) obtain seen' where c: "check_port spec p seen = Inr seen'"
    and r: "rfold (\<lambda>(seen, st) p. rbind (check_port spec p seen) (\<lambda>seen'. Inr (seen', add_port p st)))
       (seen', add_port p st) ps = Inr s'"
    unfolding s by (auto simp: rbind_Inr_iff)
  have "placed (qs @ [p]) (seen', add_port p st)" using Cons.prems(2) c placed_step s by blast
  from Cons.IH[OF r this] show ?case by simp
qed simp

lemma build_map_sel:
  assumes "build_map spec = Inr m" "p \<in> set (ds_ports spec)"
  shows "map w_index (port_bits m v (ps_name p) r) = (if (v, r) \<in> places p then map int [0..<nat (ps_width p)] else [])"
proof -
  obtain seen bits n where b: "build_ports spec = Inr (seen, bits, n)" and m: "m_bits m = bits"
    using assms(1) by (auto simp: build_map_def rbind_Inr_iff)
  have "placed [] ([], [], \<lambda>_. 0)" by (simp add: placed_def sel_def)
  then have "placed (ds_ports spec) (seen, bits, n)"
    using build_ports_placed[OF b[unfolded build_ports_def], of "[]"] by simp
  then show ?thesis using assms(2) m by (auto simp: placed_def sel_def port_bits_def on_vec_def conj_ac)
qed

lemma build_map_ports:
  assumes "build_map spec = Inr m"
  shows "\<forall>p \<in> set (ds_ports spec). 1 \<le> ps_width p \<and>
           (\<exists>cs. map_of CLASSES_FOR (ps_dir p) = Some cs \<and> ps_cls p \<in> set cs)"
proof -
  have "rfold (\<lambda>(seen, st) p. rbind (check_port spec p seen) (\<lambda>seen'. Inr (seen', add_port p st))) s ps = Inr s' \<Longrightarrow>
     \<forall>p \<in> set ps. 1 \<le> ps_width p \<and> (\<exists>cs. map_of CLASSES_FOR (ps_dir p) = Some cs \<and> ps_cls p \<in> set cs)" for s s' ps
    by (induction ps arbitrary: s) (auto simp: rbind_Inr_iff dest: check_port_Inr)
  then show ?thesis using assms by (fastforce simp: build_map_def build_ports_def rbind_Inr_iff)
qed

text \<open>
  C10. \<open>build_map\<close> loses no port bit and uses none twice: for every port of the specification
  the bits recorded for it, in order, are 0 to its width less one on each vector and role its
  direction asks for (an inout three times: drive enable, drive value, observation), and none
  elsewhere.
\<close>

theorem build_map_places:
  assumes "build_map spec = Inr m" "p \<in> set (ds_ports spec)"
  shows "map w_index (port_bits m v (ps_name p) r) =
     (if (v, r) \<in> places p then map int [0..<nat (ps_width p)] else [])"
  using assms by (rule build_map_sel)

theorem build_map_places_witness:
  "\<exists>m. build_map spec_example = Inr m \<and> map w_index (port_bits m ''in'' ''D'' '''') = [0, 1]"
proof -
  obtain m where m: "build_map spec_example = Inr m" using spec_example_builds by blast
  let ?p = "\<lparr>ps_name = ''D'', ps_dir = ''input'', ps_width = 2, ps_cls = ''data''\<rparr>"
  have p: "?p \<in> set (ds_ports spec_example)" by (simp add: spec_example_def)
  have "map w_index (port_bits m ''in'' ''D'' '''') = [0, 1]"
    using build_map_places[OF m p, of "''in''" "''''"] by (simp add: places_def numeral_2_eq_2)
  with m show ?thesis by (intro exI[of _ m] conjI)
qed

section \<open>The default classes are classes the wrapper accepts\<close>

lemma if_memI: "a \<in> S \<Longrightarrow> b \<in> S \<Longrightarrow> (if c then a else b) \<in> S"
  by simp

text \<open>
  The default class of a port is always one the wrapper accepts for its direction,
  whatever the primitive and the port, so a port without an override never makes
  \<open>build_map\<close> refuse its class.
\<close>

theorem default_class_accepted:
  "default_class prim port ''input'' \<in> set (the (map_of CLASSES_FOR ''input'')) \<and>
   default_class prim port ''output'' \<in> set (the (map_of CLASSES_FOR ''output'')) \<and>
   default_class prim port ''inout'' \<in> set (the (map_of CLASSES_FOR ''inout''))"
proof -
  have ne: "''input'' \<noteq> ''inout''" "''output'' \<noteq> ''inout''" "''output'' \<noteq> ''input''" by simp_all
  have i: "set (the (map_of CLASSES_FOR ''input'')) = {''clock'', ''async'', ''gate'', ''data'', ''pad'', ''drp''}"
    "set (the (map_of CLASSES_FOR ''output'')) = {''data'', ''clock_out'', ''pad'', ''drp''}"
    "set (the (map_of CLASSES_FOR ''inout'')) = {''inout''}"
    by (simp_all add: CLASSES_FOR_def)
  show ?thesis unfolding i default_class_def
    apply (simp only: ne if_False if_True refl)
    apply (intro conjI if_memI)
    by simp_all
qed

section \<open>Round trips\<close>

lemma rmap_bits: "rmap bit_of_json (List.enumerate k (map bit_json bs)) = Inr bs"
  by (induction bs arbitrary: k) (simp_all add: bit_of_json_def bit_json_def BIT_KEYS_def dget_def)

lemma attrs_back: "map ((\<lambda>(k, v). (k, the (as_str v))) \<circ> (\<lambda>(k, v). (k, PStr v))) at = at"
  by (induction at) auto

text \<open>The dictionary of a map without its format.\<close>

definition fields_json :: "dut_map \<Rightarrow> (string, pyval) dict" where
  "fields_json m =
     [(''prim'', PStr (m_prim m)), (''family'', PStr (m_family m)), (''cfg'', PStr (m_cfg m)),
      (''attrs'', PDict (map (\<lambda>(k, v). (k, PStr v)) (m_attrs m))),
      (''nclk'', PInt (m_nclk m)), (''nin'', PInt (m_nin m)), (''nout'', PInt (m_nout m)),
      (''bits'', PList (map bit_json (m_bits m))),
      (''min_event_gap_ps'', case m_min_gap m of None \<Rightarrow> PNone | Some g \<Rightarrow> PInt g)]"

lemma to_json_fields: "to_json m = PDict ((''format'', PStr MAP_FORMAT) # fields_json m)"
  by (simp add: to_json_def fields_json_def)

lemma fields_json_keys: "map fst (fields_json m) = MAP_KEYS"
  by (simp add: fields_json_def MAP_KEYS_def)

lemma fields_json_get:
  "dget (fields_json m) ''prim'' = PStr (m_prim m)"
  "dget (fields_json m) ''family'' = PStr (m_family m)"
  "dget (fields_json m) ''cfg'' = PStr (m_cfg m)"
  "dget (fields_json m) ''attrs'' = PDict (map (\<lambda>(k, v). (k, PStr v)) (m_attrs m))"
  "dget (fields_json m) ''nclk'' = PInt (m_nclk m)"
  "dget (fields_json m) ''nin'' = PInt (m_nin m)"
  "dget (fields_json m) ''nout'' = PInt (m_nout m)"
  "dget (fields_json m) ''bits'' = PList (map bit_json (m_bits m))"
  "dget (fields_json m) ''min_event_gap_ps'' = (case m_min_gap m of None \<Rightarrow> PNone | Some g \<Rightarrow> PInt g)"
  by (simp_all add: fields_json_def dget_def)

lemma scalars_ok:
  assumes "0 \<le> m_nclk m" "0 \<le> m_nin m" "0 \<le> m_nout m" "\<forall>g. m_min_gap m = Some g \<longrightarrow> 1 \<le> g"
  shows "check_scalars (fields_json m) = Inr ()"
proof -
  have "rfold (\<lambda>_ (k, v). case as_str v of None \<Rightarrow> Inl (AttrNotString k) | Some _ \<Rightarrow> Inr ()) ()
      (map (\<lambda>(k, v). (k, PStr v)) (m_attrs m)) = Inr ()"
    by (rule rfold_unit) auto
  moreover have "(case case m_min_gap m of None \<Rightarrow> PNone | Some g \<Rightarrow> PInt g of
      PNone \<Rightarrow> Inr ()
    | g \<Rightarrow> (case is_int g of Some i \<Rightarrow> if i < 1 then Inl BadMinGap else Inr () | None \<Rightarrow> Inl BadMinGap)) = Inr ()"
    using assms(4) by (cases "m_min_gap m") auto
  ultimately show ?thesis using assms(1-3)
    by (simp add: check_scalars_def fields_json_get)
qed

text \<open>
  C12. A map written as JSON reads back as itself: every map that passes its own checks and
  whose minimum event gap, when it has one, is positive.
\<close>

theorem from_json_to_json:
  assumes "check_map m = Inr ()" and "\<forall>g. m_min_gap m = Some g \<longrightarrow> 1 \<le> g"
  shows "from_json (to_json m) = Inr m"
proof -
  have n: "0 \<le> m_nclk m" "0 \<le> m_nin m" "0 \<le> m_nout m"
    using assms(1) by (auto simp: check_map_iff count_of_def)
  let ?d = "fields_json m"
  have f: "dget ((''format'', PStr MAP_FORMAT) # ?d) ''format'' = PStr MAP_FORMAT" by (simp add: dget_def)
  have d: "filter (\<lambda>(k, _). k \<noteq> ''format'') ((''format'', PStr MAP_FORMAT) # ?d) = ?d"
    by (simp add: fields_json_def)
  have k: "filter (\<lambda>k. \<not> dict_has ?d k) MAP_KEYS = []" "filter (\<lambda>k. k \<notin> set MAP_KEYS) (map fst ?d) = []"
    by (auto simp: dict_has_iff filter_empty_conv fields_json_keys simp flip: set_map)
  have g: "is_int (case m_min_gap m of None \<Rightarrow> PNone | Some g \<Rightarrow> PInt g) = m_min_gap m"
    by (cases "m_min_gap m") simp_all
  have e: "\<lparr>m_prim = m_prim m, m_family = m_family m, m_cfg = m_cfg m, m_attrs = m_attrs m,
      m_nclk = m_nclk m, m_nin = m_nin m, m_nout = m_nout m, m_bits = m_bits m,
      m_min_gap = m_min_gap m\<rparr> = m"
    by (cases m) simp
  show ?thesis
    unfolding from_json_def to_json_fields as_dict.simps option.case f d Let_def k
    using assms(1) by (simp add: fields_json_get scalars_ok[OF n assms(2)] rmap_bits attrs_back g e)
qed

theorem from_json_to_json_witness:
  "\<exists>m. build_map spec_example = Inr m \<and> from_json (to_json m) = Inr m"
proof -
  obtain m where m: "build_map spec_example = Inr m" using spec_example_builds by blast
  have "m_min_gap m = None" using m by (auto simp: build_map_def rbind_Inr_iff spec_example_def)
  then show ?thesis using m from_json_to_json[OF built_map_ok[OF m]] by auto
qed

lemma clock_number_show: "clock_number (''clk'' @ show_nat n) = Some n"
  by (simp add: clock_number_def starts_with_def list_all_iff show_nat_digits)

text \<open>
  \<open>clock_port\<close> inverts \<open>clock_name\<close>: on a checked map, the name of a clock input leads
  back to that input.
\<close>

theorem clock_port_clock_name:
  assumes "check_map m = Inr ()" and "clock_name m port = Inr name"
  shows "clock_port m name = Inr port"
proof -
  obtain b where b: "port_bits m ''clk'' port '''' = [b]" "name = ''clk'' @ show_int (w_bit b)"
    using assms(2) by (auto simp: clock_name_def split: list.splits)
  have "set (port_bits m ''clk'' port '''') = {b}" using b(1) by simp
  then have "b \<in> set (on_vec m ''clk'')" "w_port b = port" unfolding port_bits_def by auto
  then obtain i where i: "i < length (on_vec m ''clk'')" "on_vec m ''clk'' ! i = b" by (auto simp: in_set_conv_nth)
  have n: "map w_bit (on_vec m ''clk'') = map int [0..<nat (m_nclk m)]" "0 \<le> m_nclk m"
    using assms(1) by (auto simp: check_map_iff count_of_def)
  have l: "length (on_vec m ''clk'') = nat (m_nclk m)" using arg_cong[OF n(1), of length] by simp
  have "w_bit b = int i" using arg_cong[OF n(1), of "\<lambda>xs. xs ! i"] i l by simp
  then have "name = ''clk'' @ show_nat i" using b(2) by (simp add: show_int_def)
  then have "clock_number name = Some i" using clock_number_show by metis
  then show ?thesis using i l n(2) \<open>w_port b = port\<close> by (simp add: clock_port_def)
qed

theorem clock_port_clock_name_witness:
  "\<exists>m. build_map spec_example = Inr m \<and> clock_port m ''clk0'' = Inr ''C''"
proof -
  have e: "(case build_map spec_example of Inr m \<Rightarrow> check_map m = Inr () \<and> clock_name m ''C'' = Inr ''clk0'' | Inl _ \<Rightarrow> False)"
    by code_simp
  obtain m where m: "build_map spec_example = Inr m" using spec_example_builds by blast
  then have "clock_port m ''clk0'' = Inr ''C''" using e clock_port_clock_name by simp
  with m show ?thesis by blast
qed

end
