(* ===== verification/Wrapper_Text.thy ===== *)
theory Wrapper_Text
  imports Attr_Values Dut_Map_Facts
begin

text \<open>
  \<open>tools/xut/wrap.py\<close>, the generated files: \<open>xut_dut.v\<close>, \<open>xut_cfg.vh\<close> and
  \<open>xut_cocotb_top.v\<close>.
\<close>

definition HEADER :: string where
  "HEADER = ''// SPDX-License-Identifier: Apache-2.0'' @ [LF]"

definition KEEP_ATTRS :: string where
  "KEEP_ATTRS = ''(* DONT_TOUCH = '' @ [DQ] @ ''TRUE'' @ [DQ] @ '', KEEP_HIERARCHY = '' @ [DQ] @ ''TRUE'' @ [DQ] @ '', keep *)''"

definition bit_ref :: "string \<Rightarrow> int \<Rightarrow> string" where
  "bit_ref sig i = sig @ ''['' @ show_int i @ '']''"

text \<open>\<open>_slice\<close>: one bit, a range, or a concatenation with the last bit first.\<close>

definition slice :: "string \<Rightarrow> int list \<Rightarrow> (wrap_error, string) result" where
  "slice sig idx =
     (case idx of
        [] \<Rightarrow> Inl WrapIndexError
      | [i] \<Rightarrow> Inr (bit_ref sig i)
      | i # _ \<Rightarrow>
          if idx = [i..last idx] then Inr (sig @ ''['' @ show_int (last idx) @ '':'' @ show_int i @ '']'')
          else Inr (''{'' @ join '', '' (map (bit_ref sig) (rev idx)) @ ''}''))"

definition comma_list :: "string list \<Rightarrow> string \<Rightarrow> string list" where
  "comma_list items indent =
     map (\<lambda>(i, s). indent @ s @ (if Suc i < length items then '','' else '''')) (List.enumerate 0 items)"

definition vec_range :: "int \<Rightarrow> string" where
  "vec_range n = ''['' @ show_int (max 1 n - 1) @ '':0]''"

definition io_lines :: "string \<Rightarrow> (nat \<times> wbit \<times> wbit \<times> wbit) \<Rightarrow> string list" where
  "io_lines name = (\<lambda>(i, en, val, obs).
     [''  assign '' @ name @ ''__io['' @ show_nat i @ ''] = in_vec['' @ show_int (w_bit en) @ ''] ? in_vec['' @
        show_int (w_bit val) @ ''] : 1'' @ [SQ] @ ''bz;'',
      ''  assign out_vec['' @ show_int (w_bit obs) @ ''] = '' @ name @ ''__io['' @ show_nat i @ ''];''])"

text \<open>The lines a port adds and its connection.\<close>

definition port_text :: "dut_map \<Rightarrow> port_spec \<Rightarrow> (wrap_error, string list \<times> string) result" where
  "port_text m p =
     (let name = ps_name p in
      if ps_dir p = ''inout'' then
        let en = port_bits m ''in'' name ''drive_en''; val = port_bits m ''in'' name ''drive_val'';
            obs = port_bits m ''out'' name ''obs''
        in if \<not> (length en = length val \<and> length val = length obs \<and> int (length obs) = ps_width p)
           then Inl (MapSpecMismatch name)
           else Inr ((''  wire ['' @ show_int (ps_width p - 1) @ '':0] '' @ name @ ''__io;'') #
                     concat (map (io_lines name) (List.enumerate 0 (zip en (zip val obs)))),
                     ''.'' @ name @ ''('' @ name @ ''__io)'')
      else
        let vec = (if ps_dir p = ''output'' then ''out'' else if ps_cls p = ''clock'' then ''clk'' else ''in'');
            pb = port_bits m vec name ''''
        in if map w_index pb \<noteq> map int [0..<nat (ps_width p)] then Inl (MapSpecMismatch name)
           else rbind (slice (the (map_of VEC_SIGNAL vec)) (map w_bit pb)) (\<lambda>sl.
                Inr ([], ''.'' @ name @ ''('' @ sl @ '')'')))"

definition head_lines :: "dut_spec \<Rightarrow> dut_map \<Rightarrow> string list" where
  "head_lines spec m =
     [butlast HEADER,
      ''// GENERATED by xut wrap: prim='' @ ds_prim spec @ '' cfg='' @ ds_cfg spec @ ''. Do not edit.'',
      ''`timescale 1ps / 1ps'',
      ''module xut_dut ('',
      ''  input  wire '' @ vec_range (m_nclk m) @ '' clk,'',
      ''  input  wire '' @ vec_range (m_nin m) @ '' in_vec,'',
      ''  output wire '' @ vec_range (m_nout m) @ '' out_vec'',
      '');'']"

definition instance_lines :: "dut_spec \<Rightarrow> string list \<Rightarrow> string list" where
  "instance_lines spec conns =
     (if ds_attrs spec \<noteq> [] then
        [''  '' @ ds_prim spec @ '' #(''] @
        comma_list (map (\<lambda>(k, v). ''.'' @ k @ ''('' @ v @ '')'') (ds_attrs spec)) ''    '' @
        [''  ) dut ('']
      else [''  '' @ ds_prim spec @ '' dut ('']) @
     comma_list conns ''    '' @ [''  );'', ''endmodule'']"

definition render_wrapper :: "dut_spec \<Rightarrow> dut_map \<Rightarrow> (wrap_error, string) result" where
  "render_wrapper spec m =
     rbind (rmap (port_text m) (ds_ports spec)) (\<lambda>ps. Inr (join [LF]
       (head_lines spec m @ concat (map fst ps) @
        (if m_nout m = 0 then [''  assign out_vec = 1'' @ [SQ] @ ''b0;''] else []) @
        [''  '' @ KEEP_ATTRS] @ instance_lines spec (map snd ps)) @ [LF]))"

definition render_cfg_vh :: "dut_map \<Rightarrow> string" where
  "render_cfg_vh m =
     HEADER @ ''// GENERATED by xut wrap: prim='' @ m_prim m @ '' cfg='' @ m_cfg m @ ''. Do not edit.'' @ [LF] @
     ''`define XUT_NCLK '' @ show_int (max 1 (m_nclk m)) @ [LF] @
     ''`define XUT_NIN '' @ show_int (max 1 (m_nin m)) @ [LF] @
     ''`define XUT_NOUT '' @ show_int (max 1 (m_nout m)) @ [LF]"

definition render_cocotb_top :: "dut_map \<Rightarrow> string" where
  "render_cocotb_top m =
     HEADER @ unlines
       [''// GENERATED by xut wrap --cocotb-top: prim='' @ m_prim m @ '' cfg='' @ m_cfg m @ ''. Do not edit.'',
        ''`timescale 1ps / 1ps'',
        ''`include '' @ [DQ] @ ''xut_cfg.vh'' @ [DQ],
        ''module xut_cocotb_top;'',
        ''  reg  [`XUT_NCLK-1:0] clk = {`XUT_NCLK{1'' @ [SQ] @ ''b0}};'',
        ''  reg  [`XUT_NIN-1:0]  in_vec;  // x until the time-0 barrier'',
        ''  initial begin'',
        ''    in_vec <= {`XUT_NIN{1'' @ [SQ] @ ''b0}};'',
        ''  end'',
        ''  wire [`XUT_NOUT-1:0] out_vec;'',
        ''  glbl glbl ();'',
        ''  xut_dut dut (.clk(clk), .in_vec(in_vec), .out_vec(out_vec));'',
        ''endmodule'']"

text \<open>
  \<open>write_dut\<close>: the map and the files in the order they are written, Verilog as text and the map as the
  JSON value its file holds.
\<close>

datatype file_body = Verilog string | Json pyval

definition write_dut :: "dut_spec \<Rightarrow> bool \<Rightarrow> (wrap_error, dut_map \<times> (string \<times> file_body) list) result" where
  "write_dut spec cocotb_top =
     rbind (build_map spec) (\<lambda>m.
     rbind (render_wrapper spec m) (\<lambda>v. Inr (m,
       [(''xut_dut.v'', Verilog v), (''xut_dut.map.json'', Json (to_json m)), (''xut_cfg.vh'', Verilog (render_cfg_vh m))] @
       (if cocotb_top then [(''xut_cocotb_top.v'', Verilog (render_cocotb_top m))] else []))))"

section \<open>A map of the specification is always rendered\<close>

lemma slice_total: "idx \<noteq> [] \<Longrightarrow> \<exists>s. slice sig idx = Inr s"
  by (auto simp: slice_def split: list.splits)

lemma port_text_total:
  assumes "build_map spec = Inr m" "p \<in> set (ds_ports spec)"
  shows "\<exists>t. port_text m p = Inr t"
proof -
  have w: "1 \<le> ps_width p" "\<exists>cs. map_of CLASSES_FOR (ps_dir p) = Some cs"
    using build_map_ports[OF assms(1)] assms(2) by auto
  note sel = build_map_sel[OF assms]
  have len: "length (port_bits m v (ps_name p) r) = (if (v, r) \<in> places p then nat (ps_width p) else 0)" for v r
    using arg_cong[OF sel[of v r], of length] by simp
  show ?thesis
  proof (cases "ps_dir p = ''inout''")
    case True
    then have pl: "places p = {(''in'', ''drive_en''), (''in'', ''drive_val''), (''out'', ''obs'')}"
      by (simp add: places_def)
    show ?thesis using True w(1) by (simp add: port_text_def Let_def len pl)
  next
    case False
    define vec where "vec = (if ps_dir p = ''output'' then ''out'' else if ps_cls p = ''clock'' then ''clk'' else ''in'')"
    have "ps_dir p = ''input'' \<or> ps_dir p = ''output''"
      using w(2) False by (auto simp: CLASSES_FOR_def split: if_split_asm)
    then have pl: "(vec, '''') \<in> places p" using False by (auto simp: places_def vec_def)
    have ix: "map w_index (port_bits m vec (ps_name p) '''') = map int [0..<nat (ps_width p)]"
      using sel[of vec "''''"] by (simp only: pl if_True)
    then have "port_bits m vec (ps_name p) '''' \<noteq> []" using w(1) by auto
    then obtain s where "slice (the (map_of VEC_SIGNAL vec)) (map w_bit (port_bits m vec (ps_name p) '''')) = Inr s"
      using slice_total by blast
    then show ?thesis using False ix unfolding port_text_def Let_def by (simp flip: vec_def)
  qed
qed

text \<open>
  C14. \<open>write_dut\<close> fails only where \<open>build_map\<close> refuses the specification: once a map is built,
  the wrapper renders, never with a map that does not match the specification nor with an
  empty slice.
\<close>

theorem write_dut_total:
  assumes "build_map spec = Inr m"
  shows "\<exists>files. write_dut spec cocotb_top = Inr (m, files)"
proof -
  obtain ps where "rmap (port_text m) (ds_ports spec) = Inr ps"
    using rmap_total[of "ds_ports spec" "port_text m"] port_text_total[OF assms] by blast
  then show ?thesis using assms by (auto simp: write_dut_def render_wrapper_def)
qed

theorem write_dut_total_witness:
  "\<exists>m files. build_map spec_example = Inr m \<and> write_dut spec_example True = Inr (m, files)"
proof -
  obtain m where m: "build_map spec_example = Inr m" using spec_example_builds by blast
  then show ?thesis using write_dut_total[OF m, of True] by auto
qed

end
