(* ===== verification/Validate.thy ===== *)
theory Validate
  imports Xvec_RoundTrip Dut_Map_Facts
begin

text \<open>
  \<open>tools/xut/validate.py\<close>: the port-class rules of a stimulus against the DUT map, and whether
  it can be rendered for hardware. A check returns the messages it appends to the report; a
  constructor of \<open>vmsg\<close> or \<open>hmsg\<close> stands for one message and its arguments are the values the
  message prints.
\<close>

definition MIN_SEP_PS :: int where "MIN_SEP_PS = 1000"
definition DEFAULT_GAP_PS :: int where "DEFAULT_GAP_PS = MIN_SEP_PS"
definition DEFAULT_ASYNC_SEP_PS :: int where "DEFAULT_ASYNC_SEP_PS = MIN_SEP_PS"
definition ROC_WIDTH_PS :: int where "ROC_WIDTH_PS = 100000"
definition GRES_START_PS :: int where "GRES_START_PS = 10000"
definition GRES_WIDTH_PS :: int where "GRES_WIDTH_PS = 10000"
definition GRES_END_PS :: int where "GRES_END_PS = GRES_START_PS + GRES_WIDTH_PS"
definition SETTLE_MARGIN_PS :: int where "SETTLE_MARGIN_PS = MIN_SEP_PS"
definition MIN_SETTLE_PS :: int where "MIN_SETTLE_PS = max ROC_WIDTH_PS GRES_END_PS + SETTLE_MARGIN_PS"

definition NOT_CHANGES :: "string list" where
  "NOT_CHANGES = [''sample'', ''end'', ''clock_start'', ''clock_stop'']"

text \<open>\<open>m.min_event_gap_ps or MIN_SEP_PS\<close>: None and 0 are the default.\<close>

definition min_event_gap :: "int \<Rightarrow> dut_map \<Rightarrow> int" where
  "min_event_gap async_sep_ps m =
     max async_sep_ps (case m_min_gap m of Some g \<Rightarrow> if g = 0 then MIN_SEP_PS else g | None \<Rightarrow> MIN_SEP_PS)"

section \<open>Reports\<close>

datatype vmsg =
    V_Structure xvec_error
  | V_Header string int
  | V_Prim string
  | V_Cfg string
  | V_Attr string "string option" "string option"
  | V_Settle int
  | V_StopPhase int string
  | V_Restart int string
  | V_SetClock int
  | V_IllegalMissing
  | V_IllegalNotSet string
  | V_IllegalMeaningless
  | V_GsrRelease int
  | V_SepTooSmall int
  | V_NoSamples
  | V_SampleWithChange int
  | V_SampleGap int string int
  | V_MixedLine int event nat nat
  | V_Lonely int "event list"
  | V_FreeEdge int string
  | V_Alternate int string
  | V_AsyncNearEdge int bool int

datatype hmsg =
    H_XZ int
  | H_Pads "string list"
  | H_FreeClocks "string list"
  | H_Gap int int int
  | H_Simultaneous int
  | H_SimOnly int string
  | H_GSR int

record report =
  r_errors :: "vmsg list"
  r_hw :: "hmsg list"
  r_x :: bool

definition no_report :: report where
  "no_report = \<lparr>r_errors = [], r_hw = [], r_x = False\<rparr>"

definition radd :: "report \<Rightarrow> report \<Rightarrow> report" where
  "radd a b = \<lparr>r_errors = r_errors a @ r_errors b, r_hw = r_hw a @ r_hw b, r_x = (r_x a \<or> r_x b)\<rparr>"

definition rsum :: "report list \<Rightarrow> report" where
  "rsum rs = foldr radd rs no_report"

definition errs :: "vmsg list \<Rightarrow> report" where
  "errs ms = \<lparr>r_errors = ms, r_hw = [], r_x = False\<rparr>"

definition hws :: "hmsg list \<Rightarrow> report" where
  "hws ms = \<lparr>r_errors = [], r_hw = ms, r_x = False\<rparr>"

definition when_msg :: "bool \<Rightarrow> 'a \<Rightarrow> 'a list" where
  "when_msg c m = (if c then [m] else [])"

definition report_ok :: "report \<Rightarrow> bool" where
  "report_ok r \<longleftrightarrow> r_errors r = []"

definition hw_renderable :: "report \<Rightarrow> bool" where
  "hw_renderable r \<longleftrightarrow> r_errors r = [] \<and> r_hw r = []"

lemma report_simps [simp]:
  "r_errors (radd a b) = r_errors a @ r_errors b" "r_hw (radd a b) = r_hw a @ r_hw b"
  "r_errors (errs es) = es" "r_hw (errs es) = []" "r_errors (hws hs) = []" "r_hw (hws hs) = hs"
  "r_errors no_report = []" "r_hw no_report = []"
  by (simp_all add: radd_def errs_def hws_def no_report_def)

lemma rsum_simps [simp]: "rsum [] = no_report" "rsum (r # rs) = radd r (rsum rs)"
  by (simp_all add: rsum_def)

lemma when_msg_Nil [simp]: "when_msg c m = [] \<longleftrightarrow> \<not> c"
  by (simp add: when_msg_def)

section \<open>Checks of the whole file\<close>

definition header_msgs :: "vec \<Rightarrow> dut_map \<Rightarrow> vmsg list" where
  "header_msgs v m =
     concat (map (\<lambda>(key, want). when_msg (hint v key \<noteq> want) (V_Header key want))
       [(''nin'', m_nin m), (''nout'', m_nout m), (''nclk'', m_nclk m)]) @
     (let prim = the (map_of (v_header v) ''prim''); cfg = the (map_of (v_header v) ''cfg'')
      in when_msg (prim \<noteq> m_prim m) (V_Prim prim) @ when_msg (cfg \<noteq> m_cfg m) (V_Cfg cfg)) @
     concat (map (\<lambda>k.
        let have = map_of (vec_attrs v) k; want = map_of (m_attrs m) k
        in when_msg (have \<noteq> want) (V_Attr k have want))
       (sort (dedup (map fst (vec_attrs v) @ map fst (m_attrs m))))) @
     when_msg (hint v ''settle_ps'' < MIN_SETTLE_PS) (V_Settle (hint v ''settle_ps''))"

definition free_stop_msgs :: "vec \<Rightarrow> run \<Rightarrow> vmsg list" where
  "free_stop_msgs v = (\<lambda>(c, start, stop).
     case stop of
       None \<Rightarrow> []
     | Some s \<Rightarrow>
         let pos = (s - start) mod ck_period c
         in when_msg (\<not> clock_high c < pos) (V_StopPhase s (ck_name c)) @
            (case find (\<lambda>e. e_op e = ''clock_start'' \<and> e_target e = ck_name c \<and> s < e_t e) (v_events v) of
               None \<Rightarrow> []
             | Some e \<Rightarrow> when_msg (e_t e < s + (ck_period c - pos)) (V_Restart (e_t e) (ck_name c))))"

text \<open>\<open>[cls[b] for b in range(e.lsb, e.msb + 1)]\<close>.\<close>

definition in_class :: "dut_map \<Rightarrow> int \<Rightarrow> string option" where
  "in_class m i = map_of (rev (map (\<lambda>b. (w_bit b, w_cls b)) (on_vec m ''in''))) i"

definition classes_at :: "dut_map \<Rightarrow> event \<Rightarrow> (loop_error, string list) result" where
  "classes_at m e =
     rmap (\<lambda>b. case in_class m b of Some c \<Rightarrow> Inr c | None \<Rightarrow> Inl (KeyErr (show_int b))) [e_lsb e..e_msb e]"

definition has_xz :: "string \<Rightarrow> bool" where
  "has_xz s \<longleftrightarrow> \<not> list_all (\<lambda>c. c = CHR ''0'' \<or> c = CHR ''1'') s"

definition check_set_classes ::
  "dut_map \<Rightarrow> int \<Rightarrow> event \<Rightarrow> (loop_error, string list \<times> report) result" where
  "check_set_classes m t e =
     rbind (classes_at m e) (\<lambda>classes. Inr (classes,
       \<lparr>r_errors = when_msg (''clock'' \<in> set classes) (V_SetClock t),
        r_hw = when_msg (has_xz (e_value e)) (H_XZ t), r_x = has_xz (e_value e)\<rparr>))"

definition map_hw_msgs :: "vec \<Rightarrow> dut_map \<Rightarrow> hmsg list" where
  "map_hw_msgs v m =
     (let pads = map w_port (filter (\<lambda>b. w_cls b = ''pad'' \<or> w_cls b = ''inout'' \<or> w_role b \<noteq> []) (m_bits m));
          free = map ck_name (filter (\<lambda>c. ck_mode c = ''free'') (v_clocks v))
      in when_msg (pads \<noteq> []) (H_Pads (dedup pads)) @ when_msg (free \<noteq> []) (H_FreeClocks free))"

definition initial_set :: "event \<Rightarrow> bool" where
  "initial_set e \<longleftrightarrow> e_t e = 0 \<and> e_op e = ''set''"

definition gap_msgs :: "vec \<Rightarrow> int \<Rightarrow> hmsg list" where
  "gap_msgs v gap =
     (let ts = sort (dedup (map e_t (filter (\<lambda>e. \<not> initial_set e) (v_events v))))
      in concat (map (\<lambda>(prev, t). when_msg (t - prev < gap) (H_Gap t (t - prev) prev)) (zip ts (tl ts))))"

text \<open>\<open>_nearest\<close>: the entry of a sorted list nearest to \<open>t\<close>, the earlier of two at one distance.\<close>

definition bisect_left :: "int list \<Rightarrow> int \<Rightarrow> nat" where
  "bisect_left ts t = length (takeWhile (\<lambda>x. x < t) ts)"

definition nearest :: "int list \<Rightarrow> int \<Rightarrow> (int \<times> int) option" where
  "nearest ts t =
     (let i = bisect_left ts t; near = map (\<lambda>x. (\<bar>x - t\<bar>, x)) (take (i + 1 - (i - 1)) (drop (i - 1) ts))
      in case near of
           [] \<Rightarrow> None
         | p # ps \<Rightarrow> Some (fold (\<lambda>q p. if fst q < fst p \<or> (fst q = fst p \<and> snd q < snd p) then q else p) ps p))"

definition reject_msgs :: "vec \<Rightarrow> vmsg list" where
  "reject_msgs v =
     (if vec_expect v = Some ''reject'' then
        when_msg (vec_illegal v = []) V_IllegalMissing @
        concat (map (\<lambda>n. when_msg (\<not> dict_has (vec_attrs v) n) (V_IllegalNotSet n)) (vec_illegal v))
      else when_msg (dict_has (v_header v) ''illegal'') V_IllegalMeaningless)"

definition gsr_release_msgs :: "event list \<Rightarrow> int \<Rightarrow> vmsg list" where
  "gsr_release_msgs timed sep =
     concat (map (\<lambda>t. when_msg (\<bar>t - ROC_WIDTH_PS\<bar> < sep) (V_GsrRelease t)) (sort (dedup (map e_t timed))))"

section \<open>Checks of one event time\<close>

definition is_async_cls :: "string \<Rightarrow> bool" where
  "is_async_cls c \<longleftrightarrow> c = ''async'' \<or> c = ''gate''"

definition changes_of :: "event list \<Rightarrow> event list" where
  "changes_of grp = filter (\<lambda>e. e_op e \<notin> set NOT_CHANGES) grp"

text \<open>How many of the bits a \<open>set\<close> writes are async or gate, and how many are not.\<close>

definition class_count :: "dut_map \<Rightarrow> event \<Rightarrow> (loop_error, nat \<times> nat) result" where
  "class_count m e =
     (if e_op e = ''set'' then
        rbind (classes_at m e) (\<lambda>cs.
          Inr (length (filter is_async_cls cs), length (filter (\<lambda>c. \<not> is_async_cls c) cs)))
      else Inr (0, 0))"

definition must_be_alone :: "event \<times> nat \<times> nat \<Rightarrow> bool" where
  "must_be_alone = (\<lambda>(e, n_async, n_other). e_op e = ''edge'' \<or> e_op e = ''glbl'' \<or> (e_op e = ''set'' \<and> 0 < n_async))"

definition alone_msgs :: "int \<Rightarrow> (event \<times> nat \<times> nat) list \<Rightarrow> vmsg list" where
  "alone_msgs t counted =
     (let lonely = (if 1 < length counted then map fst (filter must_be_alone counted) else []);
          mixed = filter (\<lambda>(e, a, n). 1 < a \<or> (0 < a \<and> 0 < n)) counted
      in if list_all (\<lambda>(e, _). e_sim e) counted then []
         else map (\<lambda>(e, a, n). V_MixedLine t e a n) mixed @ when_msg (lonely \<noteq> []) (V_Lonely t lonely))"

definition sample_msgs :: "int \<Rightarrow> int \<Rightarrow> int option \<Rightarrow> event list \<Rightarrow> vmsg list" where
  "sample_msgs gap t last_change samples =
     concat (map (\<lambda>s. case last_change of
        None \<Rightarrow> [] | Some l \<Rightarrow> when_msg (t - l < gap) (V_SampleGap t (e_target s) (t - l))) samples)"

text \<open>What the checks of one change need of the file.\<close>

record vctx =
  x_vec :: vec
  x_map :: dut_map
  x_auto :: "(int \<times> string \<times> string) list"
  x_edges :: "int list"
  x_sep :: int
  x_gap :: int

definition near_edge_msgs :: "vctx \<Rightarrow> int \<Rightarrow> bool \<Rightarrow> vmsg list" where
  "near_edge_msgs x t gsr =
     (case nearest (x_edges x) t of
        None \<Rightarrow> [] | Some (d, _) \<Rightarrow> when_msg (d < x_sep x) (V_AsyncNearEdge t gsr d))"

definition edge_msgs :: "vctx \<Rightarrow> int \<Rightarrow> (string, string) dict \<Rightarrow> event \<Rightarrow> (loop_error, vmsg list) result" where
  "edge_msgs x t level e =
     rbind (the_clock (x_vec x) (e_target e)) (\<lambda>c. Inr
       (if ck_mode c = ''free'' then
          when_msg ((e_t e, e_target e, e_value e) \<notin> set (x_auto x)) (V_FreeEdge t (e_target e))
        else when_msg (map_of level (e_target e) = Some (e_value e)) (V_Alternate t (e_target e))))"

definition check_change ::
  "vctx \<Rightarrow> int \<Rightarrow> report \<times> (string, string) dict \<Rightarrow> event \<Rightarrow>
   (loop_error, report \<times> (string, string) dict) result" where
  "check_change x t = (\<lambda>(r, level) e.
     if e_op e = ''edge'' then
       rbind (edge_msgs x t level e) (\<lambda>ms.
         Inr (radd r (errs ms), AList.update (e_target e) (e_value e) level))
     else if e_op e = ''glbl'' \<and> e_target e \<noteq> ''GSR'' then
       Inr (radd r (hws [H_SimOnly t (e_target e)]), level)
     else if e_op e = ''glbl'' then
       Inr (radd r (radd (hws [H_GSR t]) (errs (if e_sim e then [] else near_edge_msgs x t True))), level)
     else if e_op e = ''set'' then
       rbind (check_set_classes (x_map x) t e) (\<lambda>(classes, s).
         Inr (radd r (radd s (errs (if list_ex is_async_cls classes \<and> \<not> e_sim e
                                    then near_edge_msgs x t False else []))), level))
     else Inr (r, level))"

type_synonym vstate = "report \<times> (string, string) dict \<times> int option"

definition check_time :: "vctx \<Rightarrow> vstate \<Rightarrow> int \<times> event list \<Rightarrow> (loop_error, vstate) result" where
  "check_time x = (\<lambda>(r, level, last_change) (t, grp).
     let changes = changes_of grp; samples = filter (\<lambda>e. e_op e = ''sample'') grp in
     rbind (rmap (\<lambda>e. rbind (class_count (x_map x) e) (\<lambda>c. Inr (e, c))) changes) (\<lambda>counted.
     let r1 = rsum
       [errs (when_msg (samples \<noteq> [] \<and> changes \<noteq> []) (V_SampleWithChange t) @
              sample_msgs (x_gap x) t last_change samples @ alone_msgs t counted),
        hws (when_msg (list_ex e_sim grp) (H_Simultaneous t))]
     in rbind (rfold (check_change x t) (radd r r1, level) changes) (\<lambda>(r2, level2).
        Inr (r2, level2, if changes \<noteq> [] then Some t else last_change))))"

section \<open>Validation\<close>

definition timeline :: "vec \<Rightarrow> event list \<Rightarrow> event list" where
  "timeline v computed = sort_key e_t (filter (\<lambda>e. \<not> initial_set e) (v_events v) @ computed)"

definition sep_of :: "vec \<Rightarrow> int" where
  "sep_of v =
     (case map_of (v_header v) ''async_sep_ps'' of
        None \<Rightarrow> DEFAULT_ASYNC_SEP_PS
      | Some s \<Rightarrow> (case py_int s of Some i \<Rightarrow> i | None \<Rightarrow> 0))"

definition ctx_of :: "vec \<Rightarrow> dut_map \<Rightarrow> int \<Rightarrow> event list \<Rightarrow> vctx" where
  "ctx_of v m gap computed =
     \<lparr>x_vec = v, x_map = m, x_auto = map (\<lambda>e. (e_t e, e_target e, e_value e)) computed,
      x_edges = map e_t (filter (\<lambda>e. e_op e = ''edge'') (timeline v computed)),
      x_sep = sep_of v, x_gap = gap\<rparr>"

text \<open>What is reported before the event times are checked.\<close>

definition file_report ::
  "vec \<Rightarrow> dut_map \<Rightarrow> run list \<Rightarrow> (string list \<times> report) list \<Rightarrow> event list \<Rightarrow> report \<Rightarrow> report" where
  "file_report v m runs inits timed r =
     rsum
       [r, errs (when_msg (sep_of v < MIN_SEP_PS) (V_SepTooSmall (sep_of v))), hws (map_hw_msgs v m),
        hws (gap_msgs v (min_event_gap (sep_of v) m)), errs (concat (map (free_stop_msgs v) runs)),
        rsum (map snd inits), errs (gsr_release_msgs timed (sep_of v)), errs (reject_msgs v),
        errs (when_msg (vec_expect v \<noteq> Some ''reject'' \<and>
                        \<not> list_ex (\<lambda>e. e_op e = ''sample'') (v_events v)) V_NoSamples)]"

definition validate_rest :: "vec \<Rightarrow> dut_map \<Rightarrow> int \<Rightarrow> report \<Rightarrow> (loop_error, report) result" where
  "validate_rest v m gap r =
     rbind (free_runs v) (\<lambda>runs.
     rbind (rmap (check_set_classes m 0) (filter initial_set (v_events v))) (\<lambda>inits.
     rbind (free_clock_edges v) (\<lambda>computed.
     rbind (rfold (check_time (ctx_of v m gap computed))
              (file_report v m runs inits (timeline v computed) r, map (\<lambda>c. (ck_name c, ''f'')) (v_clocks v), None)
              (groupby e_t (timeline v computed)))
       (\<lambda>(r2, _). Inr r2))))"

definition validate_header :: "vec \<Rightarrow> dut_map \<Rightarrow> int \<Rightarrow> report \<Rightarrow> (loop_error, report) result" where
  "validate_header v m gap r =
     (let r1 = radd r (errs (header_msgs v m))
      in if r_errors r1 \<noteq> [] \<and> (hint v ''nin'' \<noteq> m_nin m \<or> hint v ''nclk'' \<noteq> m_nclk m) then Inr r1
         else validate_rest v m gap r1)"

definition validate :: "vec \<Rightarrow> dut_map \<Rightarrow> int \<Rightarrow> (loop_error, report) result" where
  "validate v m gap =
     (case check_structure v of
        Inr _ \<Rightarrow> validate_header v m gap no_report
      | Inl e \<Rightarrow>
          (case checkable v of
             Inl _ \<Rightarrow> Inr (errs [V_Structure e])
           | Inr v' \<Rightarrow> validate_header v' m gap (errs [V_Structure e])))"

text \<open>\<open>mark\<close>: None is the ValidationError.\<close>

definition mark :: "vec \<Rightarrow> report \<Rightarrow> (hmsg list \<Rightarrow> string) \<Rightarrow> vec option" where
  "mark v r show_reasons =
     (if r_errors r \<noteq> [] then None
      else Some (v\<lparr>v_hw := Some (hw_renderable r), v_reason := show_reasons (r_hw r)\<rparr>))"

end
