(* ===== verification/Validate_Facts.thy ===== *)
theory Validate_Facts
  imports Validate
begin

text \<open>
  What validation guarantees: it always returns a report, and a report without errors means
  that the class rules of the stimulus hold.
\<close>

section \<open>The part of a stimulus validation looks at\<close>

definition usable :: "vec \<Rightarrow> bool" where
  "usable v \<longleftrightarrow>
     (\<forall>c \<in> set (v_clocks v). 0 < ck_period c) \<and>
     (\<forall>e \<in> set (v_events v). \<exists>L L'. check_event v e L = Inr L')"

lemma check_clock_period: "check_clock v c N = Inr N' \<Longrightarrow> 0 < ck_period c"
  by (auto simp: check_clock_def split: if_split_asm)


lemma structure_usable: "check_structure v = Inr () \<Longrightarrow> usable v"
proof -
  assume "check_structure v = Inr ()"
  then have c: "check_clocks v = Inr ()" and e: "check_events v = Inr ()"
    by (auto simp: check_structure_def rbind_Inr_iff)
  from c obtain N where "rfold (\<lambda>names c. check_clock v c names) {} (v_clocks v) = Inr N"
    by (auto simp: check_clocks_def rbind_Inr_iff)
  note rc = this
  have 1: "0 < ck_period c" if c: "c \<in> set (v_clocks v)" for c
  proof -
    obtain a b where "check_clock v c a = Inr b" using rfold_each[OF rc c] by blast
    then show ?thesis by (rule check_clock_period)
  qed
  from e obtain L where r: "rfold (\<lambda>labels (i, e). at_event i (check_event v e labels)) {}
      (zip [0..<length (v_events v)] (v_events v)) = Inr L"
    by (auto simp: check_events_def rbind_Inr_iff)
  have "\<exists>L L'. check_event v e L = Inr L'" if ev: "e \<in> set (v_events v)" for e
  proof -
    obtain i where i: "i < length (v_events v)" "v_events v ! i = e" using ev by (auto simp: in_set_conv_nth)
    then have "(i, e) \<in> set (zip [0..<length (v_events v)] (v_events v))"
      by (auto simp: in_set_zip intro!: exI[of _ i])
    from rfold_each[OF r this] obtain a b where "at_event i (check_event v e a) = Inr b" by auto
    then show ?thesis by (auto simp: at_event_def split: sum.splits xvec_error.splits)
  qed
  then show ?thesis using 1 by (simp add: usable_def)
qed

lemma check_event_header: "v_header w = v_header v \<Longrightarrow> v_clocks w = v_clocks v \<Longrightarrow> check_event w e L = check_event v e L"
  by (simp add: check_event_def hint_def vec_int_def Let_def)

lemma keep_clocks_period: "c \<in> set (keep_clocks v) \<Longrightarrow> 0 < ck_period c"
proof -
  let ?f = "\<lambda>c (cs, names). case check_clock v c names of
       Inl (XvecError m _) \<Rightarrow> (cs, if m = ClockIndex (ck_name c) then names else insert (ck_name c) names)
     | Inr names' \<Rightarrow> (cs @ [c], names')"
  have "\<forall>c \<in> set (fst (fold ?f xs s)). c \<in> set (fst s) \<or> 0 < ck_period c" for xs s
  proof (induction xs arbitrary: s)
    case (Cons x xs)
    obtain cs names where s: "s = (cs, names)" by (cases s)
    show ?case
    proof (cases "check_clock v x names")
      case (Inl e)
      obtain mm l where e: "e = XvecError mm l" by (cases e)
      show ?thesis using Cons.IH[of "?f x s"] s Inl e by auto
    next
      case (Inr N)
      then have "0 < ck_period x" by (rule check_clock_period)
      then show ?thesis using Cons.IH[of "?f x s"] s Inr by auto
    qed
  qed simp
  then show "c \<in> set (keep_clocks v) \<Longrightarrow> ?thesis" by (force simp: keep_clocks_def)
qed

lemma checkable_usable: "checkable v = Inr w \<Longrightarrow> usable w"
proof -
  assume "checkable v = Inr w"
  then have w: "w = (v\<lparr>v_clocks := keep_clocks v, v_events := []\<rparr>)
      \<lparr>v_events := sort_key e_t (filter (ok_event (v\<lparr>v_clocks := keep_clocks v, v_events := []\<rparr>)) (v_events v))\<rparr>"
    by (auto simp: checkable_def rbind_Inr_iff Let_def)
  have "\<exists>L'. check_event w e {} = Inr L'" if "e \<in> set (v_events w)" for e
  proof -
    have "ok_event (v\<lparr>v_clocks := keep_clocks v, v_events := []\<rparr>) e" using that w by simp
    then obtain L' where "check_event (v\<lparr>v_clocks := keep_clocks v, v_events := []\<rparr>) e {} = Inr L'"
      by (auto simp: ok_event_def split: sum.splits)
    moreover have "check_event w e {} = check_event (v\<lparr>v_clocks := keep_clocks v, v_events := []\<rparr>) e {}"
      by (rule check_event_header) (simp_all add: w)
    ultimately show ?thesis by auto
  qed
  then have e: "\<forall>e \<in> set (v_events w). \<exists>L L'. check_event w e L = Inr L'" by blast
  have "v_clocks w = keep_clocks v" by (simp add: w)
  then have "\<forall>c \<in> set (v_clocks w). 0 < ck_period c" using keep_clocks_period[of _ v] by simp
  with e show ?thesis unfolding usable_def by (rule conjI[rotated])
qed

section \<open>What the per-event rules give\<close>

lemma event_set:
  assumes "check_event v e L = Inr L'" "e_op e = ''set''"
  shows "0 \<le> e_lsb e \<and> e_lsb e \<le> e_msb e \<and> e_msb e < hint v ''nin'' \<and>
    length (e_value e) = nat (e_msb e - e_lsb e + 1) \<and> list_all bit01xz (e_value e)"
  using assms by (auto simp: check_event_def Let_def split: if_split_asm)

lemma event_edge:
  assumes "check_event v e L = Inr L'" "e_op e = ''edge''"
  shows "e_target e \<in> ck_name ` set (v_clocks v) \<and> (e_value e = ''r'' \<or> e_value e = ''f'')"
  using assms by (auto simp: check_event_def Let_def split: if_split_asm)

lemma event_clock:
  assumes "check_event v e L = Inr L'" "e_op e = ''clock_start'' \<or> e_op e = ''clock_stop''"
  shows "e_target e \<in> ck_name ` set (v_clocks v)"
proof -
  have "list_ex (\<lambda>c. ck_name c = e_target e \<and> ck_mode c = ''free'') (v_clocks v)"
    using assms by (auto simp: check_event_def Let_def split: if_split_asm)
  then obtain c where "c \<in> set (v_clocks v)" "ck_name c = e_target e" by (auto simp: list_ex_iff)
  then show ?thesis by (metis image_eqI)
qed

lemma declared_clock: "n \<in> ck_name ` set (v_clocks v) \<Longrightarrow> \<exists>c. vec_clock v n = Some c"
  using vec_clock_declared[of _ v] by auto

lemma usable_named: "usable v \<Longrightarrow> clocks_named v"
  unfolding clocks_named_def
proof (intro ballI impI)
  fix e assume a: "usable v" "e \<in> set (v_events v)" "e_op e \<in> {''clock_start'', ''clock_stop''}"
  then obtain L L' where "check_event v e L = Inr L'" by (auto simp: usable_def)
  then have "e_target e \<in> ck_name ` set (v_clocks v)" using event_clock a(3) by blast
  then show "vec_clock v (e_target e) \<noteq> None" using declared_clock by fastforce
qed

lemma usable_periods: "usable v \<Longrightarrow> list_all (\<lambda>c. 0 < ck_period c) (v_clocks v)"
  by (simp add: usable_def list_all_iff)

section \<open>Classes of in_vec bits\<close>

definition in_total :: "dut_map \<Rightarrow> bool" where
  "in_total m \<longleftrightarrow> (\<forall>i. 0 \<le> i \<and> i < m_nin m \<longrightarrow> in_class m i \<noteq> None)"

lemma checked_in_total: "check_map m = Inr () \<Longrightarrow> in_total m"
proof -
  assume "check_map m = Inr ()"
  then have n: "map w_bit (on_vec m ''in'') = map int [0..<nat (m_nin m)]"
    by (auto simp: check_map_iff count_of_def)
  have "in_class m i \<noteq> None" if "0 \<le> i" "i < m_nin m" for i
  proof -
    have "i \<in> set (map int [0..<nat (m_nin m)])" using that by (auto simp: image_iff intro!: bexI[of _ "nat i"])
    then have "i \<in> w_bit ` set (on_vec m ''in'')" using n by (metis set_map)
    then show ?thesis unfolding in_class_def map_of_eq_None_iff by (auto simp: image_image)
  qed
  then show ?thesis by (simp add: in_total_def)
qed

lemma classes_at_total:
  assumes "in_total m" "0 \<le> e_lsb e" "e_msb e < m_nin m"
  shows "\<exists>cs. classes_at m e = Inr cs"
proof -
  have "\<forall>b \<in> set [e_lsb e..e_msb e]. \<exists>y. (case in_class m b of Some c \<Rightarrow> Inr c | None \<Rightarrow> Inl (KeyErr (show_int b))) = Inr y"
  proof
    fix b assume "b \<in> set [e_lsb e..e_msb e]"
    then have "0 \<le> b" "b < m_nin m" using assms(2,3) by auto
    then have "in_class m b \<noteq> None" using assms(1) by (simp add: in_total_def)
    then show "\<exists>y. (case in_class m b of Some c \<Rightarrow> Inr c | None \<Rightarrow> Inl (KeyErr (show_int b))) = Inr y" by auto
  qed
  from rmap_total[OF this] show ?thesis by (simp add: classes_at_def)
qed

section \<open>Validation always returns a report\<close>

text \<open>An event whose checks cannot raise.\<close>

definition checkable_event :: "vec \<Rightarrow> dut_map \<Rightarrow> event \<Rightarrow> bool" where
  "checkable_event v m e \<longleftrightarrow>
     (e_op e = ''set'' \<longrightarrow> 0 \<le> e_lsb e \<and> e_msb e < m_nin m) \<and>
     (e_op e = ''edge'' \<longrightarrow> e_target e \<in> ck_name ` set (v_clocks v))"

lemma usable_checkable:
  "usable v \<Longrightarrow> hint v ''nin'' = m_nin m \<Longrightarrow> e \<in> set (v_events v) \<Longrightarrow> checkable_event v m e"
proof -
  assume a: "usable v" "hint v ''nin'' = m_nin m" "e \<in> set (v_events v)"
  then obtain L L' where l: "check_event v e L = Inr L'" unfolding usable_def by blast
  show ?thesis using event_set[OF l] event_edge[OF l] a(2) unfolding checkable_event_def by auto
qed

lemma check_change_total:
  assumes "in_total m" "x_map x = m" "checkable_event (x_vec x) m e"
  shows "\<exists>s'. check_change x t s e = Inr s'"
proof -
  obtain r level where s: "s = (r, level)" by (cases s)
  consider (edge) "e_op e = ''edge''" | (st) "e_op e = ''set''" | (other) "e_op e \<noteq> ''edge''" "e_op e \<noteq> ''set''"
    by blast
  then show ?thesis
  proof cases
    case edge
    then have "e_target e \<in> ck_name ` set (v_clocks (x_vec x))" using assms(3) by (simp add: checkable_event_def)
    then obtain c where "vec_clock (x_vec x) (e_target e) = Some c" using declared_clock by blast
    then show ?thesis using edge s by (simp add: check_change_def edge_msgs_def the_clock_def)
  next
    case st
    then obtain cs where "classes_at (x_map x) e = Inr cs"
      using classes_at_total[OF assms(1)] assms(2,3) by (auto simp: checkable_event_def)
    then show ?thesis using st s by (simp add: check_change_def check_set_classes_def)
  next
    case other
    then show ?thesis using s by (simp add: check_change_def)
  qed
qed

lemma rfold_total': "\<forall>x \<in> set xs. \<forall>s. \<exists>s'. f s x = Inr s' \<Longrightarrow> \<exists>s'. rfold f s xs = Inr s'"
proof (induction xs arbitrary: s)
  case (Cons x xs)
  have "\<forall>s. \<exists>s'. f s x = Inr s'" using Cons.prems by simp
  from this[rule_format, of s] obtain s1 where "f s x = Inr s1" by (elim exE)
  moreover have "\<exists>s2. rfold f s1 xs = Inr s2" using Cons.prems by (intro Cons.IH) simp
  ultimately show ?case by (simp del: split_paired_Ex)
qed (simp del: split_paired_Ex)

lemma rbind_total: "\<exists>a. q = Inr a \<Longrightarrow> (\<And>a. \<exists>b. k a = Inr b) \<Longrightarrow> \<exists>b. rbind q k = Inr b"
  by (elim exE) simp

lemma rbind_fst_total: "\<exists>s. q = Inr s \<Longrightarrow> \<exists>r. rbind q (\<lambda>(a, _). Inr a) = Inr r"
  by auto

lemma class_count_total:
  assumes "in_total m" "checkable_event v m e"
  shows "\<exists>c. class_count m e = Inr c"
proof (cases "e_op e = ''set''")
  case True
  then have "0 \<le> e_lsb e" "e_msb e < m_nin m" using assms(2) by (simp_all add: checkable_event_def)
  from classes_at_total[OF assms(1) this] obtain cs where "classes_at m e = Inr cs" by blast
  then show ?thesis using True by (simp add: class_count_def)
qed (simp add: class_count_def)

lemma check_time_total:
  assumes "in_total m" "x_map x = m" "\<forall>e \<in> set grp. checkable_event (x_vec x) m e"
  shows "\<exists>s'. check_time x s (t, grp) = Inr s'"
proof -
  obtain r level lc where s: "s = (r, level, lc)" by (cases s)
  have ch: "\<forall>e \<in> set (changes_of grp). checkable_event (x_vec x) m e" using assms(3) by (simp add: changes_of_def)
  have "\<forall>e \<in> set (changes_of grp). \<exists>y. rbind (class_count (x_map x) e) (\<lambda>c. Inr (e, c)) = Inr y"
  proof
    fix e assume e: "e \<in> set (changes_of grp)"
    obtain c where "class_count m e = Inr c" using class_count_total[OF assms(1) bspec[OF ch e]] by (elim exE)
    then show "\<exists>y. rbind (class_count (x_map x) e) (\<lambda>c. Inr (e, c)) = Inr y" using assms(2) by simp
  qed
  note cnt = rmap_total[OF this]
  have "\<forall>e \<in> set (changes_of grp). \<forall>s. \<exists>s'. check_change x t s e = Inr s'"
  proof (intro ballI allI)
    fix e s0 assume "e \<in> set (changes_of grp)"
    then show "\<exists>s'. check_change x t s0 e = Inr s'" using ch by (intro check_change_total[OF assms(1,2)]) (rule bspec)
  qed
  then have "\<exists>q. rfold (check_change x t) s0 (changes_of grp) = Inr q" for s0 by (rule rfold_total')
  then have q: "\<exists>q. rfold (check_change x t) s0 (changes_of grp) = Inr q" for s0 by blast
  show ?thesis
    unfolding check_time_def s prod.case Let_def
    by (rule rbind_total[OF cnt], rule rbind_total[OF q]) (simp add: case_prod_beta)
qed

lemma validate_rest_total:
  assumes "usable v" "in_total m" "hint v ''nin'' = m_nin m"
  shows "\<exists>r'. validate_rest v m gap r = Inr r'"
proof -
  obtain runs where runs: "free_runs v = Inr runs" using free_runs_total[OF usable_named[OF assms(1)]] by blast
  obtain es where es: "free_clock_edges v = Inr es" "\<forall>e \<in> set es. e_op e = ''edge'' \<and> e_target e \<in> ck_name ` set (v_clocks v)"
    using free_clock_edges_total[OF usable_periods[OF assms(1)] usable_named[OF assms(1)]] by blast
  have ce: "checkable_event v m e" if "e \<in> set (v_events v)" for e using usable_checkable[OF assms(1,3) that] .
  have "\<forall>e \<in> set (filter initial_set (v_events v)). \<exists>y. check_set_classes m 0 e = Inr y"
  proof
    fix e assume "e \<in> set (filter initial_set (v_events v))"
    then have "0 \<le> e_lsb e" "e_msb e < m_nin m" using ce[of e] by (auto simp: checkable_event_def initial_set_def)
    from classes_at_total[OF assms(2) this] obtain cs where "classes_at m e = Inr cs" by (elim exE)
    then show "\<exists>y. check_set_classes m 0 e = Inr y" by (simp add: check_set_classes_def)
  qed
  from rmap_total[OF this] obtain inits where
    inits: "rmap (check_set_classes m 0) (filter initial_set (v_events v)) = Inr inits" by (elim exE)
  have tl: "checkable_event v m e" if "e \<in> set (timeline v es)" for e
    using that ce es(2) by (auto simp: timeline_def checkable_event_def)
  have "\<exists>s'. rfold (check_time x) s (groupby e_t (timeline v es)) = Inr s'"
    if x: "x_map x = m" "x_vec x = v" for x s
  proof (rule rfold_total', intro ballI allI)
    fix s g assume g: "g \<in> set (groupby e_t (timeline v es))"
    obtain t grp where gg: "g = (t, grp)" by (cases g)
    have "set grp \<subseteq> set (timeline v es)" using g unfolding gg by (rule groupby_sub)
    then have "\<forall>e \<in> set grp. checkable_event (x_vec x) m e" using tl x(2) by (simp add: subset_iff)
    then show "\<exists>s'. check_time x s g = Inr s'" unfolding gg by (rule check_time_total[OF assms(2) x(1)])
  qed
  then show ?thesis
    unfolding validate_rest_def runs inits es(1) rbind_simps
    by (intro rbind_fst_total) (simp del: split_paired_Ex add: ctx_of_def)
qed

text \<open>
  C15. Validation always returns a report, whatever stimulus it is given: against a checked map
  it neither looks up the class of a bit the map does not have, nor the declaration of an
  undeclared clock, nor loops on a clock without a period, even when the stimulus breaks the
  rules of its format.
\<close>

theorem validate_returns:
  assumes "check_map m = Inr ()"
  shows "\<exists>r. validate v m gap = Inr r"
proof -
  have h: "\<exists>r'. validate_header w m gap r = Inr r'" if "usable w" for w r
  proof (cases "hint w ''nin'' = m_nin m")
    case True
    then show ?thesis using validate_rest_total[OF that checked_in_total[OF assms] True]
      by (auto simp: validate_header_def Let_def)
  next
    case False
    then show ?thesis by (auto simp: validate_header_def header_msgs_def)
  qed
  show ?thesis
  proof (cases "check_structure v")
    case (Inl e)
    show ?thesis
    proof (cases "checkable v")
      case (Inr w)
      then show ?thesis using h[OF checkable_usable[OF Inr]] Inl by (simp add: validate_def)
    qed (use Inl in \<open>simp add: validate_def\<close>)
  next
    case (Inr u)
    then show ?thesis using h[OF structure_usable] by (simp add: validate_def)
  qed
qed

theorem validate_returns_witness:
  "\<exists>m r. build_map spec_example = Inr m \<and> validate vec_example m 1000 = Inr r"
proof -
  obtain m where m: "build_map spec_example = Inr m" using spec_example_builds by blast
  obtain r where "validate vec_example m 1000 = Inr r" using validate_returns[OF built_map_ok[OF m]] by blast
  with m show ?thesis by (intro exI[of _ m] exI[of _ r] conjI)
qed



section \<open>Groups of a timeline\<close>

lemma groupby_group:
  fixes f :: "'a \<Rightarrow> 'k::linorder"
  assumes "sorted (map f xs)" "k \<in> f ` set xs"
  shows "(k, filter (\<lambda>x. f x = k) xs) \<in> set (groupby f xs)"
proof -
  have pick: "distinct (map fst gs) \<Longrightarrow> (k, g) \<in> set gs \<Longrightarrow> concat (map (\<lambda>(k', g'). if k' = k then g' else []) gs) = g"
    for gs :: "('k \<times> 'a list) list" and g
  proof (induction gs)
    case (Cons p gs)
    have "k \<notin> fst ` set gs \<Longrightarrow> concat (map (\<lambda>(k', g'). if k' = k then g' else []) gs) = []"
      by (induction gs) auto
    then show ?case using Cons by (cases p) (auto simp: image_iff)
  qed simp
  obtain g where g: "(k, g) \<in> set (groupby f xs)"
    using assms(2) groupby_keys_subset[of f xs] by (metis (no_types, lifting) imageE list.set_map prod.collapse)
  have d: "distinct (map fst (groupby f xs))" using groupby_sorted[OF assms(1)] strict_sorted_iff by blast
  have "filter (\<lambda>x. f x = k) (concat (map snd gs)) = concat (map (\<lambda>(k', g'). if k' = k then g' else []) gs)"
    if "\<forall>(k', g') \<in> set gs. \<forall>x \<in> set g'. f x = k'" for gs
    using that by (induction gs) (auto simp: filter_id_conv filter_empty_conv)
  moreover have "\<forall>(k', g') \<in> set (groupby f xs). \<forall>x \<in> set g'. f x = k'" using groupby_key by fastforce
  ultimately have "filter (\<lambda>x. f x = k) (concat (map snd (groupby f xs))) = g" using pick[OF d g] by simp
  then show ?thesis using g unfolding groupby_concat by simp
qed

section \<open>The nearest edge\<close>

lemma bisect_split:
  "sorted ts \<Longrightarrow> (\<forall>y \<in> set (take (bisect_left ts t) ts). y < t) \<and> (\<forall>y \<in> set (drop (bisect_left ts t) ts). t \<le> y)"
proof -
  assume s: "sorted ts"
  have tk: "take (bisect_left ts t) ts = takeWhile (\<lambda>x. x < t) ts"
    unfolding bisect_left_def by (rule takeWhile_eq_take[symmetric])
  have dr: "drop (bisect_left ts t) ts = dropWhile (\<lambda>x. x < t) ts"
    unfolding bisect_left_def by (rule dropWhile_eq_drop[symmetric])
  have "t \<le> y" if "y \<in> set (dropWhile (\<lambda>x. x < t) ts)" for y
    using s that
  proof (induction ts)
    case (Cons a ts)
    then show ?case by (cases "a < t") auto
  qed simp
  then show ?thesis unfolding tk dr by (auto dest: set_takeWhileD)
qed

lemma fold_min:
  fixes p :: "int \<times> int"
  shows "let q = fold (\<lambda>q p. if fst q < fst p \<or> (fst q = fst p \<and> snd q < snd p) then q else p) ps p
   in q \<in> set (p # ps) \<and> (\<forall>x \<in> set (p # ps). fst q \<le> fst x)"
proof (induction ps arbitrary: p)
  case (Cons y ps)
  show ?case using Cons[of "if fst y < fst p \<or> (fst y = fst p \<and> snd y < snd p) then y else p"]
    by (auto simp: Let_def split: if_split_asm)
qed simp

lemma nearest_dist:
  assumes "sorted ts" "nearest ts t = Some (d, x)" "y \<in> set ts"
  shows "d \<le> \<bar>y - t\<bar>"
proof -
  let ?i = "bisect_left ts t"
  let ?near = "map (\<lambda>x. (\<bar>x - t\<bar>, x)) (take (?i + 1 - (?i - 1)) (drop (?i - 1) ts))"
  have i: "?i \<le> length ts" by (simp add: bisect_left_def length_takeWhile_le)
  obtain p ps where near: "?near = p # ps" "(d, x) = fold (\<lambda>q p. if fst q < fst p \<or> (fst q = fst p \<and> snd q < snd p) then q else p) ps p"
    using assms(2) by (auto simp: nearest_def Let_def split: list.splits)
  have m: "d \<le> fst z" if z: "z \<in> set ?near" for z
  proof -
    have "z \<in> set (p # ps)" using z unfolding near(1) .
    then show ?thesis using fold_min[of ps p] unfolding Let_def near(2)[symmetric] by fastforce
  qed
  have sub: "\<exists>w \<in> set (take (?i + 1 - (?i - 1)) (drop (?i - 1) ts)). \<bar>w - t\<bar> \<le> \<bar>y - t\<bar>"
  proof (cases "y \<in> set (take ?i ts)")
    case True
    then have pos: "0 < ?i" by (cases ?i) auto
    then have "?i - 1 < length ts" using i by linarith
    then have w: "ts ! (?i - 1) \<in> set (take (?i + 1 - (?i - 1)) (drop (?i - 1) ts))"
      using pos by (simp add: Cons_nth_drop_Suc[symmetric] take_Cons')
    obtain j where j: "j < ?i" "ts ! j = y" using True i by (auto simp: in_set_conv_nth)
    have "y \<le> ts ! (?i - 1)" using assms(1) j \<open>?i - 1 < length ts\<close> by (auto simp: sorted_iff_nth_mono)
    moreover have "ts ! (?i - 1) < t"
      using bisect_split[OF assms(1), of t] pos i \<open>?i - 1 < length ts\<close>
      by (metis diff_less in_set_conv_nth length_take less_numeral_extra(1) min.absorb2 nth_take)
    ultimately show ?thesis using w by (intro bexI[OF _ w]) simp
  next
    case False
    then have dr: "y \<in> set (drop ?i ts)" using assms(3) by (metis Un_iff append_take_drop_id set_append)
    then have len: "?i < length ts" by (metis drop_all empty_iff empty_set not_le)
    have w: "ts ! ?i \<in> set (take (?i + 1 - (?i - 1)) (drop (?i - 1) ts))"
    proof (cases ?i)
      case 0
      then show ?thesis using len by (simp add: take_Suc hd_drop_conv_nth hd_conv_nth) 
    next
      case (Suc k)
      then have "drop k ts = ts ! k # ts ! Suc k # drop (Suc (Suc k)) ts"
        using len by (metis Cons_nth_drop_Suc Suc_lessD)
      then show ?thesis using Suc by simp
    qed
    obtain j where j: "?i \<le> j" "j < length ts" "ts ! j = y"
      using dr by (auto simp: in_set_conv_nth) (metis add.commute le_add1 less_diff_conv)
    have "ts ! ?i \<le> y" using assms(1) j by (auto simp: sorted_iff_nth_mono)
    moreover have "t \<le> ts ! ?i"
      using bisect_split[OF assms(1), of t] len by (metis Cons_nth_drop_Suc list.set_intros(1))
    ultimately show ?thesis by (intro bexI[OF _ w]) simp
  qed
  then obtain w where "w \<in> set (take (?i + 1 - (?i - 1)) (drop (?i - 1) ts))" "\<bar>w - t\<bar> \<le> \<bar>y - t\<bar>" by blast
  then show ?thesis using m[of "(\<bar>w - t\<bar>, w)"] by auto
qed

lemma nearest_None: "nearest ts t = None \<Longrightarrow> sorted ts \<Longrightarrow> ts = []"
proof (rule ccontr)
  assume a: "nearest ts t = None" "ts \<noteq> []"
  let ?i = "bisect_left ts t"
  have "?i \<le> length ts" by (simp add: bisect_left_def length_takeWhile_le)
  then have "?i - 1 < length ts" using a(2) by (cases ?i) auto
  then have "drop (?i - 1) ts \<noteq> []" by simp
  moreover have "0 < ?i + 1 - (?i - 1)" by linarith
  ultimately have "take (?i + 1 - (?i - 1)) (drop (?i - 1) ts) \<noteq> []" by simp
  then show False using a(1) by (auto simp: nearest_def Let_def split: list.splits)
qed

section \<open>A report without errors\<close>

lemma check_change_errors:
  assumes "check_change x t (r, l) e = Inr (r', l')"
  shows "\<exists>es. r_errors r' = r_errors r @ es"
  using assms by (auto simp: check_change_def rbind_Inr_iff split: if_split_asm)

lemma check_changes_errors:
  "rfold (check_change x t) (r, l) es = Inr (r', l') \<Longrightarrow> \<exists>ms. r_errors r' = r_errors r @ ms"
proof (induction es arbitrary: r l)
  case (Cons e es)
  then obtain r1 l1 where 1: "check_change x t (r, l) e = Inr (r1, l1)"
    "rfold (check_change x t) (r1, l1) es = Inr (r', l')"
    by (auto simp: rbind_Inr_iff)
  show ?case using check_change_errors[OF 1(1)] Cons.IH[OF 1(2)] by auto
qed simp

lemma check_changes_clean:
  "rfold (check_change x t) (r, l) es = Inr (r', l') \<Longrightarrow> r_errors r' = [] \<Longrightarrow> e \<in> set es \<Longrightarrow>
   \<exists>r1 l1 r2 l2. check_change x t (r1, l1) e = Inr (r2, l2) \<and> r_errors r2 = []"
proof (induction es arbitrary: r l)
  case (Cons a es)
  then obtain r1 l1 where 1: "check_change x t (r, l) a = Inr (r1, l1)"
    "rfold (check_change x t) (r1, l1) es = Inr (r', l')"
    by (auto simp: rbind_Inr_iff)
  have "r_errors r1 = []" using check_changes_errors[OF 1(2)] Cons.prems(2) by simp
  then show ?case using Cons 1 by auto
qed simp

text \<open>The rules of one event time.\<close>

definition time_ok :: "vctx \<Rightarrow> int \<times> event list \<Rightarrow> bool" where
  "time_ok x = (\<lambda>(t, grp).
     (filter (\<lambda>e. e_op e = ''sample'') grp \<noteq> [] \<longrightarrow> changes_of grp = []) \<and>
     (list_all e_sim (changes_of grp) \<or> length (changes_of grp) \<le> 1 \<or>
        list_all (\<lambda>e. e_op e \<noteq> ''edge'' \<and> e_op e \<noteq> ''glbl'' \<and>
          (e_op e = ''set'' \<longrightarrow> (\<forall>cs. classes_at (x_map x) e = Inr cs \<longrightarrow> \<not> list_ex is_async_cls cs))) (changes_of grp)) \<and>
     (\<forall>e \<in> set (changes_of grp). \<not> e_sim e \<longrightarrow>
        e_op e = ''glbl'' \<and> e_target e = ''GSR'' \<or>
        e_op e = ''set'' \<and> (\<exists>cs. classes_at (x_map x) e = Inr cs \<and> list_ex is_async_cls cs) \<longrightarrow>
        (\<forall>y \<in> set (x_edges x). x_sep x \<le> \<bar>y - t\<bar>)))"

lemma counted_fst: "rmap (\<lambda>e. rbind (class_count m e) (\<lambda>c. Inr (e, c))) es = Inr counted \<Longrightarrow>
   map fst counted = es \<and> (\<forall>(e, c) \<in> set counted. class_count m e = Inr c)"
proof (induction es arbitrary: counted)
  case (Cons e es)
  then obtain c cs where 1: "class_count m e = Inr c" "rmap (\<lambda>e. rbind (class_count m e) (\<lambda>c. Inr (e, c))) es = Inr cs"
    "counted = (e, c) # cs"
    by (auto simp: rbind_Inr_iff)
  then show ?case using Cons.IH[OF 1(2)] by auto
qed simp

lemma alone_clean:
  assumes "alone_msgs t counted = []"
  shows "list_all (\<lambda>(e, _). e_sim e) counted \<or> length counted \<le> 1 \<or> (\<forall>p \<in> set counted. \<not> must_be_alone p)"
  using assms by (auto simp: alone_msgs_def Let_def filter_empty_conv split: if_split_asm)

lemma near_clean:
  assumes "near_edge_msgs x t g = []" "sorted (x_edges x)" "y \<in> set (x_edges x)"
  shows "x_sep x \<le> \<bar>y - t\<bar>"
proof (cases "nearest (x_edges x) t")
  case None
  then show ?thesis using nearest_None[OF None assms(2)] assms(3) by simp
next
  case (Some p)
  obtain d z where p: "p = (d, z)" by (cases p)
  then have "x_sep x \<le> d" using assms(1) Some by (simp add: near_edge_msgs_def)
  then show ?thesis using nearest_dist[OF assms(2) _ assms(3), of t d z] Some p by simp
qed

lemma change_clean:
  assumes "check_change x t (r, l) e = Inr (r', l')" "r_errors r' = []" "sorted (x_edges x)" "\<not> e_sim e"
    and "e_op e = ''glbl'' \<and> e_target e = ''GSR'' \<or>
        e_op e = ''set'' \<and> (\<exists>cs. classes_at (x_map x) e = Inr cs \<and> list_ex is_async_cls cs)"
    and "y \<in> set (x_edges x)"
  shows "x_sep x \<le> \<bar>y - t\<bar>"
proof -
  have "\<exists>g. near_edge_msgs x t g = []"
    using assms(5)
  proof
    assume "e_op e = ''glbl'' \<and> e_target e = ''GSR''"
    then show ?thesis using assms(1,2,4) by (auto simp: check_change_def)
  next
    assume "e_op e = ''set'' \<and> (\<exists>cs. classes_at (x_map x) e = Inr cs \<and> list_ex is_async_cls cs)"
    then show ?thesis using assms(1,2,4)
      by (intro exI[of _ False]) (auto simp: check_change_def check_set_classes_def)
  qed
  then show ?thesis using near_clean[OF _ assms(3,6)] by blast
qed

lemma check_time_clean:
  assumes "check_time x (r, l, lc) (t, grp) = Inr (r', l', lc')"
  shows "\<exists>ms. r_errors r' = r_errors r @ ms"
    and "r_errors r' = [] \<Longrightarrow> sorted (x_edges x) \<Longrightarrow> time_ok x (t, grp)"
proof -
  let ?samples = "filter (\<lambda>e. e_op e = ''sample'') grp"
  obtain counted where c: "rmap (\<lambda>e. rbind (class_count (x_map x) e) (\<lambda>c. Inr (e, c))) (changes_of grp) = Inr counted"
    and f: "rfold (check_change x t) (radd r (rsum
       [errs (when_msg (?samples \<noteq> [] \<and> changes_of grp \<noteq> []) (V_SampleWithChange t) @
              sample_msgs (x_gap x) t lc ?samples @ alone_msgs t counted),
        hws (when_msg (list_ex e_sim grp) (H_Simultaneous t))]), l) (changes_of grp) = Inr (r', l')"
    using assms by (auto simp: check_time_def Let_def rbind_Inr_iff)
  from check_changes_errors[OF f] obtain ms where e: "r_errors r' = r_errors r @
      (when_msg (?samples \<noteq> [] \<and> changes_of grp \<noteq> []) (V_SampleWithChange t) @
              sample_msgs (x_gap x) t lc ?samples @ alone_msgs t counted) @ ms" by auto
  then show "\<exists>ms. r_errors r' = r_errors r @ ms" by blast
  assume ok: "r_errors r' = []" and srt: "sorted (x_edges x)"
  have s: "?samples \<noteq> [] \<longrightarrow> changes_of grp = []" and al: "alone_msgs t counted = []" using e ok by auto
  note ct = counted_fst[OF c]
  have "list_all e_sim (changes_of grp) \<or> length (changes_of grp) \<le> 1 \<or>
        list_all (\<lambda>e. e_op e \<noteq> ''edge'' \<and> e_op e \<noteq> ''glbl'' \<and>
          (e_op e = ''set'' \<longrightarrow> (\<forall>cs. classes_at (x_map x) e = Inr cs \<longrightarrow> \<not> list_ex is_async_cls cs))) (changes_of grp)"
    using alone_clean[OF al]
  proof (elim disjE)
    assume "list_all (\<lambda>(e, _). e_sim e) counted"
    then have "list_all e_sim (map fst counted)" by (induction counted) auto
    then show ?thesis using ct by simp
  next
    assume "length counted \<le> 1"
    then have "length (map fst counted) \<le> 1" by simp
    then show ?thesis using ct by simp
  next
    assume m: "\<forall>p \<in> set counted. \<not> must_be_alone p"
    have "e_op e \<noteq> ''edge'' \<and> e_op e \<noteq> ''glbl'' \<and>
          (e_op e = ''set'' \<longrightarrow> (\<forall>cs. classes_at (x_map x) e = Inr cs \<longrightarrow> \<not> list_ex is_async_cls cs))"
      if "e \<in> set (changes_of grp)" for e
    proof -
      have "e \<in> fst ` set counted" using ct that by (metis set_map)
      then obtain a n where an: "(e, a, n) \<in> set counted" by auto
      then have cc: "class_count (x_map x) e = Inr (a, n)" using ct by auto
      have "\<not> must_be_alone (e, a, n)" using m an by blast
      then have nb: "e_op e \<noteq> ''edge''" "e_op e \<noteq> ''glbl''" "e_op e = ''set'' \<longrightarrow> a = 0" by (auto simp: must_be_alone_def)
      have "\<not> list_ex is_async_cls cs" if "e_op e = ''set''" "classes_at (x_map x) e = Inr cs" for cs
      proof -
        have "length (filter is_async_cls cs) = 0" using cc that nb(3) by (auto simp: class_count_def)
        then show ?thesis by (simp add: filter_empty_conv list_ex_iff)
      qed
      then show ?thesis using nb by blast
    qed
    then show ?thesis by (simp add: list_all_iff)
  qed
  moreover have "\<forall>e \<in> set (changes_of grp). \<not> e_sim e \<longrightarrow>
        e_op e = ''glbl'' \<and> e_target e = ''GSR'' \<or>
        e_op e = ''set'' \<and> (\<exists>cs. classes_at (x_map x) e = Inr cs \<and> list_ex is_async_cls cs) \<longrightarrow>
        (\<forall>y \<in> set (x_edges x). x_sep x \<le> \<bar>y - t\<bar>)"
  proof (intro ballI impI)
    fix e y assume a: "e \<in> set (changes_of grp)" "\<not> e_sim e" "y \<in> set (x_edges x)"
      "e_op e = ''glbl'' \<and> e_target e = ''GSR'' \<or>
        e_op e = ''set'' \<and> (\<exists>cs. classes_at (x_map x) e = Inr cs \<and> list_ex is_async_cls cs)"
    obtain r1 l1 r2 l2 where "check_change x t (r1, l1) e = Inr (r2, l2)" "r_errors r2 = []"
      using check_changes_clean[OF f ok a(1)] by (elim exE conjE)
    then show "x_sep x \<le> \<bar>y - t\<bar>" using change_clean[OF _ _ srt a(2,4,3)] by blast
  qed
  ultimately show "time_ok x (t, grp)" using s unfolding time_ok_def prod.case by (intro conjI)
qed

lemma check_times_clean:
  "rfold (check_time x) (r, l, lc) gs = Inr (r', q) \<Longrightarrow> r_errors r' = [] \<Longrightarrow> sorted (x_edges x) \<Longrightarrow>
   r_errors r = [] \<and> (\<forall>g \<in> set gs. time_ok x g)"
proof (induction gs arbitrary: r l lc)
  case (Cons g gs)
  obtain t grp where g: "g = (t, grp)" by (cases g)
  obtain r1 l1 lc1 where 1: "check_time x (r, l, lc) (t, grp) = Inr (r1, l1, lc1)"
    "rfold (check_time x) (r1, l1, lc1) gs = Inr (r', q)"
    using Cons.prems(1) g by (auto simp: rbind_Inr_iff)
  have "r_errors r1 = []" "\<forall>g \<in> set gs. time_ok x g" using Cons.IH[OF 1(2) Cons.prems(2,3)] by simp_all
  moreover have "time_ok x (t, grp)" using check_time_clean(2)[OF 1(1)] calculation(1) Cons.prems(3) by blast
  moreover have "r_errors r = []" using check_time_clean(1)[OF 1(1)] calculation(1) by auto
  ultimately show ?case using g by simp
qed simp

lemma validate_header_rest:
  "validate_header v m gap r = Inr r' \<Longrightarrow> r_errors r' = [] \<Longrightarrow>
   r_errors r = [] \<and> header_msgs v m = [] \<and> validate_rest v m gap (radd r (errs (header_msgs v m))) = Inr r'"
proof -
  assume a: "validate_header v m gap r = Inr r'" "r_errors r' = []"
  have r: "validate_rest v m gap (radd r (errs (header_msgs v m))) = Inr r'"
    using a by (auto simp: validate_header_def Let_def split: if_split_asm)
  then obtain runs inits es l lc where "rfold (check_time (ctx_of v m gap es))
      (file_report v m runs inits (timeline v es) (radd r (errs (header_msgs v m))),
       map (\<lambda>c. (ck_name c, ''f'')) (v_clocks v), None) (groupby e_t (timeline v es)) = Inr (r', l, lc)"
    by (auto simp: validate_rest_def rbind_Inr_iff)
  from check_times_clean[OF this a(2)] have "r_errors r = [] \<and> header_msgs v m = []"
    by (auto simp: ctx_of_def timeline_def sorted_filter file_report_def)
  then show ?thesis using r by simp
qed

lemma validate_clean:
  assumes "validate v m gap = Inr r" "r_errors r = []"
  shows "check_structure v = Inr () \<and> header_msgs v m = [] \<and> validate_rest v m gap no_report = Inr r"
proof (cases "check_structure v")
  case (Inl e)
  show ?thesis
  proof (cases "checkable v")
    case (Inr w)
    then have "validate_header w m gap (errs [V_Structure e]) = Inr r" using assms(1) Inl by (simp add: validate_def)
    then have "r_errors (errs [V_Structure e]) = []" using validate_header_rest[OF _ assms(2)] by blast
    then show ?thesis by simp
  next
    case cl: (Inl e')
    then have "r = errs [V_Structure e]" using assms(1) Inl by (simp add: validate_def)
    then show ?thesis using assms(2) by simp
  qed
next
  case (Inr u)
  then show ?thesis using assms validate_header_rest[of v m gap no_report r]
    by (auto simp: validate_def radd_def errs_def no_report_def)
qed


section \<open>A valid stimulus\<close>

definition stim_example :: vec where
  "stim_example =
     \<lparr>v_header = [(''prim'', ''FDRE''), (''cfg'', ''default''), (''nin'', ''3''), (''nout'', ''1''), (''nclk'', ''1''),
                  (''settle_ps'', ''101000''), (''seed'', ''1''), (''attr.INIT'', ''1'' @ [SQ] @ ''b0'')],
      v_clocks = [\<lparr>ck_name = ''clk0'', ck_index = 0, ck_period = 10000, ck_phase = 0, ck_duty = 50, ck_mode = ''stepped''\<rparr>],
      v_events =
       [\<lparr>e_t = 0, e_op = ''set'', e_target = ''in'', e_lsb = 0, e_msb = 1, e_value = ''11'', e_sim = False\<rparr>,
        \<lparr>e_t = 103000, e_op = ''set'', e_target = ''in'', e_lsb = 1, e_msb = 1, e_value = ''0'', e_sim = False\<rparr>,
        plain_event 105000 ''edge'' ''clk0'' ''r'' False, plain_event 107000 ''sample'' ''s/1'' [] False,
        plain_event 109000 ''end'' [] [] False],
      v_hw = Some True, v_reason = ''''\<rparr>"

lemma stim_fields:
  "v_clocks stim_example =
     [\<lparr>ck_name = ''clk0'', ck_index = 0, ck_period = 10000, ck_phase = 0, ck_duty = 50, ck_mode = ''stepped''\<rparr>]"
  "v_events stim_example =
       [\<lparr>e_t = 0, e_op = ''set'', e_target = ''in'', e_lsb = 0, e_msb = 1, e_value = ''11'', e_sim = False\<rparr>,
        \<lparr>e_t = 103000, e_op = ''set'', e_target = ''in'', e_lsb = 1, e_msb = 1, e_value = ''0'', e_sim = False\<rparr>,
        plain_event 105000 ''edge'' ''clk0'' ''r'' False, plain_event 107000 ''sample'' ''s/1'' [] False,
        plain_event 109000 ''end'' [] [] False]"
  by (simp_all add: stim_example_def)

lemma stim_hints:
  "hint stim_example ''nin'' = 3" "hint stim_example ''nout'' = 1" "hint stim_example ''nclk'' = 1"
  "hint stim_example ''settle_ps'' = 101000"
  by (simp_all add: hint_def vec_int_def stim_example_def py_int_def strip_def lstrip_def rstrip_def
      is_space_def is_digit_def no_us_def parse_base_def digit_val_def Let_def)

lemma stim_rules:
  "check_header (v_header stim_example) = Inr ()" "canonical stim_example" "representable stim_example"
  "nel_free_vec stim_example" "distinct (map fst (v_header stim_example))"
  by code_simp+

lemma stim_clocks: "check_clocks stim_example = Inr ()"
proof -
  have "show_int 0 = ''0''" by code_simp
  then show ?thesis by (simp add: check_clocks_def stim_fields check_clock_def stim_hints)
qed

lemma stim_events: "check_events stim_example = Inr ()"
  by (simp add: check_events_def stim_fields check_event_def stim_hints plain_event_def at_event_def
      bit01xz_def is_label_def label_char_def char_class_defs upt_rec)

lemma stim_order: "check_order (v_events stim_example) (\<lambda>_. None) = Inr ()"
  by code_simp

lemma stim_structure: "check_structure stim_example = Inr ()"
  using structure_iff[of stim_example] stim_rules stim_clocks stim_events stim_order
    check_order_iff[of "v_events stim_example" "\<lambda>_. None"]
  by (simp add: vec_rules_def)

definition fdre_spec :: dut_spec where
  "fdre_spec =
     \<lparr>ds_prim = ''FDRE'', ds_family = ''7series'', ds_cfg = ''default'',
      ds_ports = [\<lparr>ps_name = ''C'', ps_dir = ''input'', ps_width = 1, ps_cls = ''clock''\<rparr>,
                  \<lparr>ps_name = ''CE'', ps_dir = ''input'', ps_width = 1, ps_cls = ''data''\<rparr>,
                  \<lparr>ps_name = ''D'', ps_dir = ''input'', ps_width = 1, ps_cls = ''data''\<rparr>,
                  \<lparr>ps_name = ''R'', ps_dir = ''input'', ps_width = 1, ps_cls = ''data''\<rparr>,
                  \<lparr>ps_name = ''Q'', ps_dir = ''output'', ps_width = 1, ps_cls = ''data''\<rparr>],
      ds_attrs = [(''INIT'', ''1'' @ [SQ] @ ''b0'')], ds_raw_clock_out = False, ds_min_gap = None\<rparr>"

definition map_example :: dut_map where
  "map_example =
     \<lparr>m_prim = ''FDRE'', m_family = ''7series'', m_cfg = ''default'', m_attrs = [(''INIT'', ''1'' @ [SQ] @ ''b0'')],
      m_nclk = 1, m_nin = 3, m_nout = 1,
      m_bits =
       [\<lparr>w_vec = ''clk'', w_bit = 0, w_port = ''C'', w_index = 0, w_cls = ''clock'', w_role = ''''\<rparr>,
        \<lparr>w_vec = ''in'', w_bit = 0, w_port = ''CE'', w_index = 0, w_cls = ''data'', w_role = ''''\<rparr>,
        \<lparr>w_vec = ''in'', w_bit = 1, w_port = ''D'', w_index = 0, w_cls = ''data'', w_role = ''''\<rparr>,
        \<lparr>w_vec = ''in'', w_bit = 2, w_port = ''R'', w_index = 0, w_cls = ''data'', w_role = ''''\<rparr>,
        \<lparr>w_vec = ''out'', w_bit = 0, w_port = ''Q'', w_index = 0, w_cls = ''data'', w_role = ''''\<rparr>],
      m_min_gap = None\<rparr>"

lemma map_example_built: "build_map fdre_spec = Inr map_example"
  by code_simp

lemma stim_header_msgs: "header_msgs stim_example map_example = []"
proof -
  have "vec_attrs stim_example = [(''INIT'', ''1'' @ [SQ] @ ''b0'')]" by code_simp
  moreover have "map_of (v_header stim_example) ''prim'' = Some ''FDRE''" "map_of (v_header stim_example) ''cfg'' = Some ''default''"
    by code_simp+
  ultimately show ?thesis
    by (simp add: header_msgs_def stim_hints map_example_def MIN_SETTLE_PS_def ROC_WIDTH_PS_def GRES_END_PS_def
        GRES_START_PS_def GRES_WIDTH_PS_def SETTLE_MARGIN_PS_def MIN_SEP_PS_def when_msg_def dedup_def)
qed

lemma stim_free: "free_runs stim_example = Inr []" "free_clock_edges stim_example = Inr []"
  by code_simp+

lemma stim_timeline: "timeline stim_example [] = tl (v_events stim_example)"
  by (simp add: timeline_def stim_fields initial_set_def plain_event_def)

lemma stim_sep: "sep_of stim_example = 1000"
  by code_simp

lemma stim_valid: "\<exists>r. validate stim_example map_example 1000 = Inr r \<and> r_errors r = []"
proof -
  have ci: "in_class map_example 0 = Some ''data''" "in_class map_example 1 = Some ''data''" by code_simp+
  have rj: "reject_msgs stim_example = []" "vec_expect stim_example = Some ''ok'' \<or> vec_expect stim_example \<noteq> Some ''reject''" by code_simp+
  have u: "[0..1] = [0, 1 :: int]" "[1..1] = [1 :: int]" by (simp_all add: upto.simps)
  have "\<exists>r. validate_rest stim_example map_example 1000 no_report = Inr r \<and> r_errors r = []"
    by (simp add: validate_rest_def stim_free stim_timeline stim_sep stim_fields file_report_def rj ctx_of_def
        initial_set_def plain_event_def check_set_classes_def classes_at_def u ci when_msg_def MIN_SEP_PS_def
        gsr_release_msgs_def dedup_def ROC_WIDTH_PS_def check_time_def changes_of_def NOT_CHANGES_def
        class_count_def is_async_cls_def alone_msgs_def sample_msgs_def check_change_def edge_msgs_def
        the_clock_def vec_clock_def rsum_def radd_def errs_def hws_def no_report_def)
  then show ?thesis using stim_structure stim_header_msgs
    by (simp add: validate_def validate_header_def Let_def radd_def errs_def no_report_def)
qed


end
