(* ===== verification/Stimcompile.thy ===== *)
theory Stimcompile
  imports Validate_Facts Xtr "HOL-Library.Word"
begin

unbundle bit_operations_syntax

text \<open>
  \<open>tools/xut/stimcompile.py\<close>: the operation words of the vector testbench, a stimulus compiled
  into them, and the testbench's raw samples read back as a trace. An operation word is a
  128-bit word; the source builds it as an \<open>int\<close> whose four fields are checked to fit.
\<close>

section \<open>Operation words\<close>

datatype stim_error =
    NotFitWord string int int int
  | Malformed xvec_error
  | CountMismatch string
  | NotForWrapper
  | EmptyPhase string int int
  | InvalidStimulus "vmsg list"
  | StimUnknownOp string
  | StimLoop loop_error
  | RawLine nat
  | RawSample nat nat
  | RawTwice nat nat
  | RawWidth nat nat
  | RawMissing "nat list"
  | RawTrace xtr_error
  | RawIndex

definition OPS :: "(string, nat) dict" where
  "OPS =
     [(''set'', 1), (''edge'', 2), (''glbl'', 3), (''sample'', 4), (''clk_hi'', 5), (''clk_start'', 6),
      (''clk_stop'', 7), (''end'', 15)]"

definition BIT :: "(char, int) dict" where
  "BIT = [(CHR ''0'', 0), (CHR ''1'', 1), (CHR ''x'', 2), (CHR ''z'', 3)]"

definition GLBL :: "(string, int) dict" where
  "GLBL = [(''GSR'', 0), (''GTS'', 1), (''GRESTORE'', 2)]"

definition IDX_MAX :: int where "IDX_MAX = 2 ^ 24 - 1"
definition VAL_MAX :: int where "VAL_MAX = 2 ^ 32 - 1"
definition T_MAX :: int where "T_MAX = 2 ^ 64 - 1"
definition END_MARGIN_PS :: int where "END_MARGIN_PS = 1000"

definition opword :: "string \<Rightarrow> int \<Rightarrow> int \<Rightarrow> int \<Rightarrow> (stim_error, 128 word) result" where
  "opword op idx val t =
     (if \<not> (0 \<le> idx \<and> idx \<le> IDX_MAX \<and> 0 \<le> val \<and> val \<le> VAL_MAX \<and> 0 \<le> t \<and> t \<le> T_MAX)
      then Inl (NotFitWord op idx val t)
      else Inr (push_bit 120 (of_nat (the (map_of OPS op))) OR push_bit 96 (of_int idx) OR
                push_bit 64 (of_int val) OR of_int t))"

text \<open>What the testbench (\<open>hdl/xut_vector_tb.sv\<close>) reads out of a word, and the key the words are sorted by.\<close>

definition w_time :: "128 word \<Rightarrow> int" where
  "w_time w = uint (take_bit 64 w)"

definition unpack :: "128 word \<Rightarrow> nat \<times> int \<times> int \<times> int" where
  "unpack w =
     (unat (drop_bit 120 w), uint (take_bit 24 (drop_bit 96 w)), uint (take_bit 32 (drop_bit 64 w)), w_time w)"

section \<open>Compiling a stimulus\<close>

record compiled =
  c_words :: "128 word list"
  c_labels :: "string list"

definition lift_loop :: "(loop_error, 'a) result \<Rightarrow> (stim_error, 'a) result" where
  "lift_loop r = (case r of Inl e \<Rightarrow> Inl (StimLoop e) | Inr a \<Rightarrow> Inr a)"

definition lookup_key :: "('k \<Rightarrow> string) \<Rightarrow> ('k, 'v) dict \<Rightarrow> 'k \<Rightarrow> (stim_error, 'v) result" where
  "lookup_key name d k = (case map_of d k of Some v \<Rightarrow> Inr v | None \<Rightarrow> Inl (StimLoop (KeyErr (name k))))"

definition clock_words :: "vec \<Rightarrow> string \<Rightarrow> int \<Rightarrow> (stim_error, 128 word list) result" where
  "clock_words v name t =
     rbind (lift_loop (the_clock v name)) (\<lambda>c.
     let high = clock_high c; low = ck_period c - high
     in if high \<le> 0 \<or> low \<le> 0 then Inl (EmptyPhase name high low)
        else rbind (opword ''clk_hi'' (ck_index c) high t) (\<lambda>w1.
             rbind (opword ''clk_start'' (ck_index c) low t) (\<lambda>w2. Inr [w1, w2])))"

definition check_fits :: "vec \<Rightarrow> dut_map \<Rightarrow> (stim_error, unit) result" where
  "check_fits v m =
     rbind (case check_structure v of Inl e \<Rightarrow> Inl (Malformed e) | Inr u \<Rightarrow> Inr u) (\<lambda>_.
     rbind (rfold (\<lambda>_ (key, want). if hint v key \<noteq> want then Inl (CountMismatch key) else Inr ()) ()
        [(''nin'', m_nin m), (''nout'', m_nout m), (''nclk'', m_nclk m)]) (\<lambda>_.
     if (the (map_of (v_header v) ''prim''), the (map_of (v_header v) ''cfg'')) \<noteq> (m_prim m, m_cfg m)
     then Inl NotForWrapper
     else rbind (rfold (\<lambda>_ c. if ck_mode c = ''free'' then rbind (clock_words v (ck_name c) 0) (\<lambda>_. Inr ()) else Inr ())
             () (v_clocks v)) (\<lambda>_.
          rbind (lift_loop (validate v m DEFAULT_GAP_PS)) (\<lambda>r.
            if r_errors r \<noteq> [] then Inl (InvalidStimulus (r_errors r)) else Inr ()))))"

definition set_words :: "event \<Rightarrow> (stim_error, 128 word list) result" where
  "set_words e =
     rmap (\<lambda>(i, ch). rbind (lookup_key (\<lambda>c. [c]) BIT ch) (\<lambda>b. opword ''set'' (e_lsb e + int i) b (e_t e)))
       (List.enumerate 0 (rev (e_value e)))"

definition one_word :: "(stim_error, 128 word) result \<Rightarrow> (stim_error, 128 word list) result" where
  "one_word r = rbind r (\<lambda>w. Inr [w])"

text \<open>The words of one event; a sample is numbered by the labels so far.\<close>

definition event_words :: "vec \<Rightarrow> nat \<Rightarrow> event \<Rightarrow> (stim_error, 128 word list) result" where
  "event_words v n e =
     (if e_op e = ''set'' then set_words e
      else if e_op e = ''edge'' then
        rbind (lift_loop (the_clock v (e_target e))) (\<lambda>c.
          one_word (opword ''edge'' (ck_index c) (if e_value e = ''r'' then 1 else 0) (e_t e)))
      else if e_op e = ''glbl'' then
        rbind (lookup_key id GLBL (e_target e)) (\<lambda>g.
          rbind (case py_int (e_value e) of Some i \<Rightarrow> Inr i | None \<Rightarrow> Inl (StimLoop (KeyErr (e_value e)))) (\<lambda>i.
            one_word (opword ''glbl'' g i (e_t e))))
      else if e_op e = ''sample'' then one_word (opword ''sample'' (int n) 0 (e_t e))
      else if e_op e = ''clock_start'' then clock_words v (e_target e) (e_t e)
      else if e_op e = ''clock_stop'' then
        rbind (lift_loop (the_clock v (e_target e))) (\<lambda>c. one_word (opword ''clk_stop'' (ck_index c) 0 (e_t e)))
      else if e_op e = ''end'' then one_word (opword ''end'' 0 0 (e_t e))
      else Inl (StimUnknownOp (e_op e)))"

definition compile_event :: "vec \<Rightarrow> compiled \<Rightarrow> event \<Rightarrow> (stim_error, compiled) result" where
  "compile_event v c e =
     rbind (event_words v (length (c_labels c)) e) (\<lambda>ws. Inr
       \<lparr>c_words = c_words c @ ws,
        c_labels = c_labels c @ (if e_op e = ''sample'' then [e_target e] else [])\<rparr>)"

definition implicit_starts :: "vec \<Rightarrow> run list \<Rightarrow> (stim_error, 128 word list) result" where
  "implicit_starts v runs =
     rbind (rmap (\<lambda>(c, start, stop).
        if list_ex (\<lambda>e. e_op e = ''clock_start'' \<and> e_target e = ck_name c) (v_events v) then Inr []
        else clock_words v (ck_name c) start) runs) (\<lambda>wss. Inr (concat wss))"

definition end_words :: "vec \<Rightarrow> (stim_error, 128 word list) result" where
  "end_words v =
     (if v_events v = [] \<or> e_op (last (v_events v)) \<noteq> ''end'' then
        one_word (opword ''end'' 0 0
          ((if v_events v = [] then hint v ''settle_ps'' else e_t (last (v_events v))) + END_MARGIN_PS))
      else Inr [])"

definition compile_vec :: "vec \<Rightarrow> dut_map \<Rightarrow> (stim_error, compiled) result" where
  "compile_vec v m =
     rbind (check_fits v m) (\<lambda>_.
     rbind (rfold (compile_event v) \<lparr>c_words = [], c_labels = []\<rparr> (v_events v)) (\<lambda>c.
     rbind (lift_loop (free_runs v)) (\<lambda>runs.
     rbind (implicit_starts v runs) (\<lambda>ws1.
     rbind (end_words v) (\<lambda>ws2. Inr
       (c\<lparr>c_words := sort_key w_time (c_words c @ ws1 @ ws2)\<rparr>))))))"

text \<open>The files of \<open>write_stim\<close>: the image, and the number of operations.\<close>

definition hex32 :: "128 word \<Rightarrow> string" where
  "hex32 w = (let s = show_base 16 (unat w) in replicate (32 - length s) (CHR ''0'') @ s)"

definition write_stim :: "vec \<Rightarrow> dut_map \<Rightarrow> (stim_error, compiled \<times> string \<times> string) result" where
  "write_stim v m =
     rbind (compile_vec v m) (\<lambda>c. Inr (c, unlines (map hex32 (c_words c)),
       ''// SPDX-License-Identifier: Apache-2.0'' @ [LF] @ ''`define XUT_MAXOPS '' @ show_nat (length (c_words c)) @ [LF]))"

section \<open>Raw samples\<close>

definition raw_match :: "string \<Rightarrow> (nat \<times> string) option" where
  "raw_match s =
     (if \<not> starts_with ''S '' s then None
      else case span is_digit (drop 2 s) of (ds, r) \<Rightarrow>
        if ds = [] then None
        else case r of
          [] \<Rightarrow> None
        | c # bs \<Rightarrow>
            if c = CHR '' '' \<and> bs \<noteq> [] \<and> list_all (\<lambda>c. bit01xz (to_lower c)) bs
            then map_option (\<lambda>k. (k, bs)) (parse_base 10 ds) else None)"

text \<open>The bits of each output port, the most significant first.\<close>

definition raw_ports :: "dut_map \<Rightarrow> (string \<times> wbit list) list" where
  "raw_ports m =
     map (\<lambda>p. (p, sort_key (\<lambda>b. - w_index b) (filter (\<lambda>b. w_port b = p) (on_vec m ''out'')))) (out_ports m)"

definition raw_bit :: "string \<Rightarrow> wbit \<Rightarrow> (stim_error, char) result" where
  "raw_bit by_index b =
     (if 0 \<le> w_bit b \<and> nat (w_bit b) < length by_index then Inr (by_index ! nat (w_bit b)) else Inl RawIndex)"

definition raw_sample :: "dut_map \<Rightarrow> string \<Rightarrow> (stim_error, sample) result" where
  "raw_sample m text_bits =
     rmap (\<lambda>(p, pb). rbind (rmap (raw_bit (rev text_bits)) pb) (\<lambda>s. Inr (p, s))) (raw_ports m)"

definition raw_line ::
  "string list \<Rightarrow> dut_map \<Rightarrow> trace \<times> nat list \<Rightarrow> nat \<times> string \<Rightarrow> (stim_error, trace \<times> nat list) result" where
  "raw_line labels m = (\<lambda>(t, seen) (n, line).
     if strip line = [] then Inr (t, seen)
     else case raw_match (strip line) of
       None \<Rightarrow> Inl (RawLine n)
     | Some (k, bs) \<Rightarrow>
         let text_bits = lower bs; width = nat (max 1 (m_nout m)) in
         if length labels \<le> k then Inl (RawSample n k)
         else if k \<in> set seen then Inl (RawTwice n k)
         else if length text_bits \<noteq> width then Inl (RawWidth n (length text_bits))
         else rbind (raw_sample m text_bits) (\<lambda>values.
              case add t (labels ! k, values, []) of
                Inl e \<Rightarrow> Inl (RawTrace e)
              | Inr t' \<Rightarrow> Inr (t', k # seen)))"

definition raw_to_trace ::
  "string \<Rightarrow> string list \<Rightarrow> dut_map \<Rightarrow> (string, string) dict \<Rightarrow> (stim_error, trace) result" where
  "raw_to_trace raw labels m header =
     rbind (rfold (raw_line labels m) (new_trace header, []) (List.enumerate 1 (splitlines raw))) (\<lambda>(t, seen).
       let missing = filter (\<lambda>k. k \<notin> set seen) [0..<length labels]
       in if missing \<noteq> [] then Inl (RawMissing missing) else Inr t)"

section \<open>Operation words hold their fields\<close>

lemma field_bit:
  fixes a b c d :: "128 word"
  assumes "uint a < 2 ^ 8" "uint b < 2 ^ 24" "uint c < 2 ^ 32" "uint d < 2 ^ 64"
  defines "w \<equiv> push_bit 120 a OR push_bit 96 b OR push_bit 64 c OR d"
  shows "drop_bit 120 w = a" "take_bit 24 (drop_bit 96 w) = b" "take_bit 32 (drop_bit 64 w) = c" "take_bit 64 w = d"
proof -
  have lt: "\<not> bit x n" if "uint x < 2 ^ k" "k \<le> n" for x :: "128 word" and n k
  proof
    assume "bit x n"
    then have "bit (uint x) n" using bit_imp_le_length[of x n] by (simp add: bit_uint_iff)
    moreover have "uint x < 2 ^ n" using that less_le_trans power_increasing[of k n "2 :: int"] by fastforce
    ultimately show False by (simp add: bit_iff_odd)
  qed
  note a = lt[OF assms(1)] and b = lt[OF assms(2)] and c = lt[OF assms(3)] and d = lt[OF assms(4)]
  have a': "bit a n \<Longrightarrow> n < 8" for n using a by (meson not_le)
  show "take_bit 64 w = d" unfolding w_def
    by (rule bit_word_eqI) (auto simp: bit_simps d)
  show "take_bit 32 (drop_bit 64 w) = c" unfolding w_def
    by (rule bit_word_eqI) (auto simp: bit_simps c d)
  show "take_bit 24 (drop_bit 96 w) = b" unfolding w_def
    by (rule bit_word_eqI) (auto simp: bit_simps b c d)
  show "drop_bit 120 w = a" unfolding w_def
    by (rule bit_word_eqI) (use a' in \<open>auto simp: bit_simps b c d\<close>)
qed

lemma opword_unpack:
  assumes "(op, n) \<in> set OPS" "opword op idx val t = Inr w"
  shows "unpack w = (n, idx, val, t) \<and> w_time w = t"
proof -
  have r: "0 \<le> idx" "idx < 2 ^ 24" "0 \<le> val" "val < 2 ^ 32" "0 \<le> t" "t < 2 ^ 64"
    using assms(2) by (auto simp: opword_def IDX_MAX_def VAL_MAX_def T_MAX_def split: if_split_asm)
  have m: "map_of OPS op = Some n" using assms(1) by (intro map_of_is_SomeI) (simp_all add: OPS_def)
  have n: "n < 16" using assms(1) by (auto simp: OPS_def)
  let ?a = "of_nat n :: 128 word" let ?b = "of_int idx :: 128 word"
  let ?c = "of_int val :: 128 word" let ?d = "of_int t :: 128 word"
  have u: "uint ?b = idx" "uint ?c = val" "uint ?d = t" "unat ?a = n"
    using r n by (simp_all add: uint_word_of_int unat_of_nat take_bit_int_eq_self take_bit_nat_eq_self)
  have ua: "uint ?a = int n" using u(4) by (metis uint_nat)
  have lt: "uint ?a < 2 ^ 8" "uint ?b < 2 ^ 24" "uint ?c < 2 ^ 32" "uint ?d < 2 ^ 64"
    using r n ua u by simp_all
  have w: "w = push_bit 120 ?a OR push_bit 96 ?b OR push_bit 64 ?c OR ?d"
    using assms(2) m by (auto simp: opword_def split: if_split_asm)
  show ?thesis using field_bit[OF lt] u unfolding unpack_def w_time_def w by simp
qed

text \<open>
  C17. An operation word loses nothing: the opcode, index, value and time the testbench reads
  out of a word are those it was made from, whenever the word is made at all, and it is made
  exactly when the three numbers fit their 24, 32 and 64 bits.
\<close>

theorem opword_roundtrip:
  assumes "(op, n) \<in> set OPS"
  shows "(\<forall>w. opword op idx val t = Inr w \<longrightarrow> unpack w = (n, idx, val, t)) \<and>
    ((\<exists>w. opword op idx val t = Inr w) \<longleftrightarrow>
       0 \<le> idx \<and> idx < 2 ^ 24 \<and> 0 \<le> val \<and> val < 2 ^ 32 \<and> 0 \<le> t \<and> t < 2 ^ 64)"
proof -
  have "(\<exists>w. opword op idx val t = Inr w) \<longleftrightarrow>
       0 \<le> idx \<and> idx < 2 ^ 24 \<and> 0 \<le> val \<and> val < 2 ^ 32 \<and> 0 \<le> t \<and> t < 2 ^ 64"
    by (auto simp: opword_def IDX_MAX_def VAL_MAX_def T_MAX_def)
  then show ?thesis using opword_unpack[OF assms] by blast
qed

theorem opword_roundtrip_witness:
  "\<exists>w. opword ''edge'' 3 1 105000 = Inr w \<and> unpack w = (2, 3, 1, 105000)"
proof -
  have "(''edge'', 2) \<in> set OPS" by (simp add: OPS_def)
  from opword_roundtrip[OF this, of 3 1 105000] show ?thesis by auto
qed

section \<open>What can stop a compilation\<close>

text \<open>A result, or a number that does not fit its field.\<close>

definition fits :: "(stim_error, 'a) result \<Rightarrow> bool" where
  "fits r \<longleftrightarrow> (case r of Inr _ \<Rightarrow> True | Inl e \<Rightarrow> (\<exists>op i v t. e = NotFitWord op i v t))"

lemma fits_Inr [simp]: "fits (Inr a)"
  by (simp add: fits_def)

lemma fits_bind: "fits q \<Longrightarrow> (\<And>a. q = Inr a \<Longrightarrow> fits (k a)) \<Longrightarrow> fits (rbind q k)"
  by (cases q) (auto simp: fits_def)

lemma fits_rmap: "\<forall>x \<in> set xs. fits (f x) \<Longrightarrow> fits (rmap f xs)"
  by (induction xs) (auto intro!: fits_bind)

lemma fits_rfold: "\<forall>x \<in> set xs. \<forall>s. fits (f s x) \<Longrightarrow> fits (rfold f s xs)"
  by (induction xs arbitrary: s) (auto intro!: fits_bind)

lemma fits_opword: "fits (opword op i v t)"
  by (simp add: opword_def fits_def)

lemma fits_one: "fits r \<Longrightarrow> fits (one_word r)"
  unfolding one_word_def by (rule fits_bind) simp_all

text \<open>Names of clocks whose two phases are not empty.\<close>

definition phased :: "vec \<Rightarrow> string \<Rightarrow> bool" where
  "phased v n \<longleftrightarrow> (\<exists>c. the_clock v n = Inr c \<and> 0 < clock_high c \<and> 0 < ck_period c - clock_high c)"

lemma phased_words: "phased v n \<Longrightarrow> fits (clock_words v n t)"
  by (auto simp: phased_def clock_words_def lift_loop_def Let_def intro!: fits_bind fits_opword)

lemma words_phased: "clock_words v n t = Inr ws \<Longrightarrow> phased v n"
  by (auto simp: phased_def clock_words_def lift_loop_def Let_def rbind_Inr_iff split: sum.splits if_split_asm)

lemma enumerate_snd: "p \<in> set (List.enumerate k xs) \<Longrightarrow> snd p \<in> set xs"
  by (induction xs arbitrary: k) auto

lemma fits_set:
  assumes "list_all bit01xz (e_value e)"
  shows "fits (set_words e)"
  unfolding set_words_def
proof (intro fits_rmap ballI)
  fix p assume "p \<in> set (List.enumerate 0 (rev (e_value e)))"
  then have "snd p \<in> set (e_value e)" using enumerate_snd by fastforce
  then obtain i ch where p: "p = (i, ch)" "ch \<in> set (e_value e)" by (cases p) simp
  then have "bit01xz ch" using assms by (simp add: list_all_iff)
  then obtain b where "lookup_key (\<lambda>c. [c]) BIT ch = Inr b" by (auto simp: bit01xz_def lookup_key_def BIT_def)
  then show "fits (case p of (i, ch) \<Rightarrow> rbind (lookup_key (\<lambda>c. [c]) BIT ch) (\<lambda>b. opword ''set'' (e_lsb e + int i) b (e_t e)))"
    using p fits_opword by simp
qed

lemma fits_event:
  assumes "check_event v e L = Inr L'" "\<forall>c \<in> set (v_clocks v). ck_mode c = ''free'' \<longrightarrow> phased v (ck_name c)"
  shows "fits (event_words v n e)"
proof -
  have clk: "\<exists>c. lift_loop (the_clock v (e_target e)) = Inr c" if "e_target e \<in> ck_name ` set (v_clocks v)"
    using declared_clock[OF that] by (auto simp: lift_loop_def the_clock_def)
  consider "e_op e = ''set''" | "e_op e = ''edge''" | "e_op e = ''glbl''" | "e_op e = ''sample''"
    | "e_op e = ''clock_start''" | "e_op e = ''clock_stop''" | "e_op e = ''end''"
    using assms(1) by (auto simp: check_event_def Let_def split: if_split_asm)
  then show ?thesis
  proof cases
    case 1
    then show ?thesis using fits_set event_set[OF assms(1)] by (simp add: event_words_def)
  next
    case 2
    then show ?thesis using clk event_edge[OF assms(1)] by (auto simp: event_words_def intro!: fits_bind fits_one fits_opword)
  next
    case 3
    then have g: "e_target e \<in> {''GSR'', ''GTS'', ''GRESTORE''}" "e_value e \<in> {''0'', ''1''}"
      using assms(1) by (auto simp: check_event_def Let_def split: if_split_asm)
    have "\<exists>g. lookup_key id GLBL (e_target e) = Inr g" using g(1) by (auto simp: lookup_key_def GLBL_def)
    moreover have "\<exists>i. py_int (e_value e) = Some i"
    proof -
      have "py_int ''0'' = Some 0" "py_int ''1'' = Some 1" by code_simp+
      then show ?thesis using g(2) by auto
    qed
    ultimately show ?thesis using 3 by (auto simp: event_words_def intro!: fits_one fits_opword)
  next
    case 4
    then show ?thesis by (simp add: event_words_def fits_one fits_opword)
  next
    case 5
    then have "list_ex (\<lambda>c. ck_name c = e_target e \<and> ck_mode c = ''free'') (v_clocks v)"
      using assms(1) by (auto simp: check_event_def Let_def split: if_split_asm)
    then obtain c where "c \<in> set (v_clocks v)" "ck_name c = e_target e" "ck_mode c = ''free''" by (auto simp: list_ex_iff)
    then have "phased v (e_target e)" using assms(2) by metis
    then show ?thesis using 5 phased_words by (simp add: event_words_def)
  next
    case 6
    then show ?thesis using clk event_clock[OF assms(1)] by (auto simp: event_words_def intro!: fits_one fits_opword)
  next
    case 7
    then show ?thesis by (simp add: event_words_def fits_one fits_opword)
  qed
qed

lemma rfold_inv:
  "rfold f s xs = Inr s' \<Longrightarrow> P s \<Longrightarrow> (\<And>s x s1. x \<in> set xs \<Longrightarrow> P s \<Longrightarrow> f s x = Inr s1 \<Longrightarrow> P s1) \<Longrightarrow> P s'"
  by (rule rfold_invariant)

text \<open>Every run is of a clock that is declared free, or that some \<open>clock_start\<close> names.\<close>

definition started :: "vec \<Rightarrow> string \<Rightarrow> bool" where
  "started v n \<longleftrightarrow> list_ex (\<lambda>c. ck_name c = n \<and> ck_mode c = ''free'') (v_clocks v) \<or>
     list_ex (\<lambda>e. e_op e = ''clock_start'' \<and> e_target e = n) (v_events v)"

lemma free_init_started: "n \<in> fst ` set (free_init v) \<Longrightarrow> started v n"
  unfolding free_init_def dict_of_keys by (auto simp: started_def list_ex_iff)

lemma free_event_started:
  assumes "e \<in> set (v_events v)" "free_event v (runs, op) e = Inr (runs', op')"
    and "(\<forall>(c, s) \<in> set runs. started v (ck_name c)) \<and> (\<forall>n \<in> fst ` set op. started v n)"
  shows "(\<forall>(c, s) \<in> set runs'. started v (ck_name c)) \<and> (\<forall>n \<in> fst ` set op'. started v n)"
proof -
  consider "e_op e = ''clock_start''" | "e_op e = ''clock_stop''" | "e_op e \<noteq> ''clock_start''" "e_op e \<noteq> ''clock_stop''"
    by blast
  then show ?thesis
  proof cases
    case 1
    then have "started v (e_target e)" using assms(1) by (auto simp: started_def list_ex_iff)
    moreover have "runs' = runs" "op' = AList.update (e_target e) (e_t e) op" using assms(2) 1 by (simp_all add: free_event_def)
    ultimately show ?thesis using assms(3) by (simp only: keys_update) simp
  next
    case 2
    show ?thesis
    proof (cases "map_of op (e_target e)")
      case None
      then show ?thesis using assms 2 by (simp add: free_event_def)
    next
      case (Some t0)
      then have "e_target e \<in> fst ` set op" by (metis domI domIff map_of_eq_None_iff)
      then have st: "started v (e_target e)" using assms(3) by blast
      obtain c where c: "vec_clock v (e_target e) = Some c" "runs' = runs @ [(c, t0, Some (e_t e))]"
        "op' = AList.delete (e_target e) op"
        using assms(2) 2 Some by (auto simp: free_event_def the_clock_def rbind_Inr_iff split: option.splits)
      have "set op' \<subseteq> set op" using c(3) by (auto simp: AList.delete_eq)
      then have "\<forall>n \<in> fst ` set op'. started v n" using assms(3) by (meson image_mono subsetD)
      then show ?thesis using assms(3) c st vec_clock_in[OF c(1)] by auto
    qed
  next
    case 3
    then show ?thesis using assms by (simp add: free_event_def)
  qed
qed

lemma free_runs_started:
  assumes "free_runs v = Inr runs" "(c, s) \<in> set runs"
  shows "started v (ck_name c)"
proof -
  let ?P = "\<lambda>(runs, op). (\<forall>(c, s) \<in> set runs. started v (ck_name c)) \<and> (\<forall>n \<in> fst ` set op. started v n)"
  obtain runs1 op rest where f: "rfold (free_event v) ([], free_init v) (v_events v) = Inr (runs1, op)"
    "rmap (\<lambda>(n, t0). rbind (the_clock v n) (\<lambda>c. Inr (c, t0, None :: int option))) op = Inr rest" "runs = runs1 @ rest"
    using assms(1) by (auto simp: free_runs_def rbind_Inr_iff)
  have "?P (runs1, op)"
  proof (rule rfold_inv[OF f(1), where P = ?P])
    show "?P ([], free_init v)" using free_init_started by simp
    fix s e s1 assume a: "e \<in> set (v_events v)" "?P s" "free_event v s e = Inr s1"
    obtain r o1 r2 o2 where s: "s = (r, o1)" "s1 = (r2, o2)" by (cases s, cases s1) auto
    show "?P s1" using free_event_started[OF a(1), of r o1 r2 o2] a(2,3) unfolding s prod.case by blast
  qed
  moreover have "\<forall>(c, s) \<in> set rs. ck_name c \<in> fst ` set xs"
    if "rmap (\<lambda>(n, t0). rbind (the_clock v n) (\<lambda>c. Inr (c, t0, None :: int option))) xs = Inr rs" for xs rs
    using that
  proof (induction xs arbitrary: rs)
    case (Cons x xs)
    obtain n t0 where x: "x = (n, t0)" by (cases x)
    from Cons.prems x obtain c rs' where r: "vec_clock v n = Some c" "rs = (c, t0, None) # rs'"
      "rmap (\<lambda>(n, t0). rbind (the_clock v n) (\<lambda>c. Inr (c, t0, None :: int option))) xs = Inr rs'"
      by (auto simp: rbind_Inr_iff the_clock_def split: option.splits)
    then show ?case using Cons.IH[OF r(3)] vec_clock_in[OF r(1)] x by auto
  qed simp
  from this[OF f(2)] have "\<forall>(c, s) \<in> set rest. ck_name c \<in> fst ` set op" .
  ultimately show ?thesis using assms(2) f(3) by fastforce
qed

text \<open>
  C18. Once a stimulus passes the compiler's checks, the only thing that can still stop it is a
  number that does not fit its field of the operation word: no unknown operation, no undeclared
  clock, no bit or signal without a code, and no clock without a phase is left to meet.
\<close>

theorem compile_only_fits:
  assumes "check_fits v m = Inr ()"
  shows "(\<exists>c. compile_vec v m = Inr c) \<or> (\<exists>op i val t. compile_vec v m = Inl (NotFitWord op i val t))"
proof -
  have st: "check_structure v = Inr ()"
    using assms by (auto simp: check_fits_def rbind_Inr_iff split: sum.splits)
  have u: "usable v" by (rule structure_usable[OF st])
  have "rfold (\<lambda>_ c. if ck_mode c = ''free'' then rbind (clock_words v (ck_name c) 0) (\<lambda>_. Inr ()) else Inr ())
             () (v_clocks v) = Inr ()"
    using assms by (auto simp: check_fits_def rbind_Inr_iff split: if_split_asm)
  then have ph: "\<forall>c \<in> set (v_clocks v). ck_mode c = ''free'' \<longrightarrow> phased v (ck_name c)"
    unfolding rfold_unit_iff
  proof (intro ballI impI)
    fix c assume all: "\<forall>c \<in> set (v_clocks v). (if ck_mode c = ''free'' then rbind (clock_words v (ck_name c) 0) (\<lambda>_. Inr ()) else Inr ()) = Inr ()"
      and c: "c \<in> set (v_clocks v)" "ck_mode c = ''free''"
    from bspec[OF all c(1)] c(2) obtain ws where "clock_words v (ck_name c) 0 = Inr ws"
      by (auto simp: rbind_Inr_iff)
    then show "phased v (ck_name c)" by (rule words_phased)
  qed
  have ev: "fits (event_words v n e)" if e: "e \<in> set (v_events v)" for e n
  proof -
    obtain L L' where "check_event v e L = Inr L'" using u e unfolding usable_def by blast
    then show ?thesis using fits_event ph by blast
  qed
  obtain runs where runs: "free_runs v = Inr runs" using free_runs_total[OF usable_named[OF u]] by blast
  have 1: "fits (rfold (compile_event v) \<lparr>c_words = [], c_labels = []\<rparr> (v_events v))"
    unfolding compile_event_def using ev by (intro fits_rfold ballI allI fits_bind) auto
  have 2: "fits (implicit_starts v runs)"
    unfolding implicit_starts_def
  proof (intro fits_bind fits_rmap ballI)
    fix r assume r: "r \<in> set runs"
    obtain c start stop where rr: "r = (c, start, stop)" by (cases r)
    have "started v (ck_name c)" using free_runs_started[OF runs] r rr by blast
    then show "fits (case r of (c, start, stop) \<Rightarrow>
        if list_ex (\<lambda>e. e_op e = ''clock_start'' \<and> e_target e = ck_name c) (v_events v) then Inr []
        else clock_words v (ck_name c) start)"
      using ph phased_words unfolding rr by (auto simp: started_def list_ex_iff)
  qed simp
  have 3: "fits (end_words v)" by (simp add: end_words_def fits_one fits_opword)
  have "fits (compile_vec v m)" unfolding compile_vec_def assms rbind_simps runs
    using 2 by (intro fits_bind 1 3 fits_Inr) (simp_all add: lift_loop_def)
  then show ?thesis by (auto simp: fits_def split: sum.splits)
qed

theorem compile_only_fits_witness:
  "(\<exists>c. compile_vec stim_example map_example = Inr c) \<or>
   (\<exists>op i val t. compile_vec stim_example map_example = Inl (NotFitWord op i val t))"
proof -
  obtain r where r: "validate stim_example map_example 1000 = Inr r" "r_errors r = []" using stim_valid by blast
  have f: "map_of (v_header stim_example) ''prim'' = Some ''FDRE''" "map_of (v_header stim_example) ''cfg'' = Some ''default''"
    by code_simp+
  have m: "m_nin map_example = 3" "m_nout map_example = 1" "m_nclk map_example = 1" "m_prim map_example = ''FDRE''"
    "m_cfg map_example = ''default''"
    by (simp_all add: map_example_def)
  have "check_fits stim_example map_example = Inr ()"
    using r by (simp add: check_fits_def stim_structure stim_hints f m stim_fields DEFAULT_GAP_PS_def MIN_SEP_PS_def lift_loop_def)
  then show ?thesis by (rule compile_only_fits)
qed

end
