(* ===== verification/Golden.thy ===== *)
theory Golden
  imports Validate_Facts Xtr_Facts Flop_Model Attr_Values
begin

text \<open>
  \<open>tools/xut/golden.py\<close>: an .xvec replayed through a golden model, giving the expected trace and
  the coverage bins the stimulus reached. A model class of \<open>models/xut_models/base.py\<close> is a
  record of its class attributes and methods over its state type; the flip-flops give one
  instance (\<open>flop_model\<close>).
\<close>

section \<open>Model classes\<close>

record 's model_cls =
  mc_prim :: string
  mc_outputs :: "(string, nat) dict"
  mc_inputs :: "(string, nat) dict"
  mc_new :: "(string, string) dict \<Rightarrow> (model_error, 's) result"
  mc_power_on :: "'s \<Rightarrow> (model_error, 's) result"
  mc_glbl :: "string \<Rightarrow> int \<Rightarrow> 's \<Rightarrow> (model_error, 's) result"
  mc_set_input :: "string \<Rightarrow> int \<Rightarrow> 's \<Rightarrow> (model_error, 's) result"
  mc_clock_edge :: "string \<Rightarrow> bool \<Rightarrow> 's \<Rightarrow> (model_error, 's) result"
  mc_outs :: "'s \<Rightarrow> (model_error, (string, out) dict) result"
  mc_claims :: "'s \<Rightarrow> string set"

definition flop_model :: "flop_cls \<Rightarrow> flop model_cls" where
  "flop_model c =
     \<lparr>mc_prim = PRIM c, mc_outputs = [(''Q'', 1)], mc_inputs = flop_inputs c,
      mc_new = (\<lambda>attrs. flop_new c (map (\<lambda>(k, s). (k, VStr s)) attrs)),
      mc_power_on = flop_power_on c, mc_glbl = flop_glbl c, mc_set_input = flop_set_input c,
      mc_clock_edge = flop_clock_edge c, mc_outs = flop_outputs, mc_claims = fl_claims\<rparr>"

datatype golden_error =
    GModel model_error
  | GLoop loop_error
  | GWrap wrap_error
  | GTrace xtr_error
  | SimultaneousAt "int list"
  | InvalidStim "vmsg list"
  | OutputsMismatch string
  | OutputWidth string string
  | PrimMismatch
  | CountsMismatch
  | InputsMismatch
  | XZStimulus string string
  | GIndex int
  | ZipStrict
  | GValue string

definition lift_model :: "(model_error, 'a) result \<Rightarrow> (golden_error, 'a) result" where
  "lift_model = map_sum GModel id"

definition lift_wrap :: "(wrap_error, 'a) result \<Rightarrow> (golden_error, 'a) result" where
  "lift_wrap = map_sum GWrap id"

definition lift_gloop :: "(loop_error, 'a) result \<Rightarrow> (golden_error, 'a) result" where
  "lift_gloop = map_sum GLoop id"

section \<open>Reached bins\<close>

record reach =
  rc_ports :: "string set"
  rc_attrs :: "(string, string) dict"
  rc_claims :: "string set"
  rc_events :: "string set"

definition reach_bins :: "reach \<Rightarrow> string set" where
  "reach_bins r =
     (\<lambda>p. ''port:'' @ p) ` rc_ports r \<union> (\<lambda>e. ''port:'' @ e) ` rc_events r \<union>
     (\<lambda>(k, v). ''attr:'' @ k @ ''='' @ v) ` set (rc_attrs r) \<union> (\<lambda>c. ''claim:'' @ c) ` rc_claims r"

definition is_one :: "attr_val \<Rightarrow> bool" where
  "is_one literal \<longleftrightarrow> int_literal literal = Some 1"

text \<open>
  \<open>fullmatch("port:((\w+)(?:\[\d+\])?):(rise|fall)")\<close>: the name with its index, the name, and
  whether the edge rises.
\<close>

definition index_suffix :: "string \<Rightarrow> (string \<times> string) option" where
  "index_suffix s =
     (case s of
        c # r \<Rightarrow>
          if c \<noteq> CHR ''['' then Some ([], s)
          else (case span is_digit r of
                  (ds, e # r') \<Rightarrow> if ds \<noteq> [] \<and> e = CHR '']'' then Some (c # ds @ [e], r') else None
                | _ \<Rightarrow> None)
      | [] \<Rightarrow> Some ([], []))"

definition edge_bin :: "string \<Rightarrow> (string \<times> string \<times> bool) option" where
  "edge_bin b =
     (if \<not> starts_with ''port:'' b then None
      else case span is_word (drop 5 b) of (name, r) \<Rightarrow>
        if name = [] then None
        else case index_suffix r of
          None \<Rightarrow> None
        | Some (ix, r') \<Rightarrow>
            if r' = '':rise'' then Some (name @ ix, name, True)
            else if r' = '':fall'' then Some (name @ ix, name, False) else None)"

definition polarity_bin :: "(string, string) dict \<Rightarrow> (string, attr_val) dict \<Rightarrow> string \<Rightarrow> string" where
  "polarity_bin active attrs b =
     (case edge_bin b of
        None \<Rightarrow> b
      | Some (full, name, rise) \<Rightarrow>
          (case map_of active name of
             None \<Rightarrow> b
           | Some level \<Rightarrow>
               if level \<noteq> ''high'' \<and> level \<noteq> ''low'' then b else
               let inv = (case map_of attrs (''IS_'' @ name @ ''_INVERTED'') of Some v \<Rightarrow> v | None \<Rightarrow> VInt 0);
                   high = ((level = ''high'') \<noteq> is_one inv)
               in ''port:'' @ full @ '':'' @ (if rise = high then ''assert'' else ''release'')))"

definition polarity_bins ::
  "string set \<Rightarrow> (string, string) dict \<Rightarrow> (string, attr_val) dict \<Rightarrow> string set" where
  "polarity_bins bs active attrs = polarity_bin active attrs ` bs"

definition attr_bins :: "attr_decl list \<Rightarrow> (string, string) dict \<Rightarrow> string set" where
  "attr_bins attributes attrs =
     (\<lambda>a. ''attr:'' @ ad_name a) `
       set (filter (\<lambda>a. dict_has attrs (ad_name a) \<and> \<not> is_enumerated (ad_allowed a)) attributes)"

text \<open>The catalog entry gives the declared active levels and the attribute defaults.\<close>

definition coverage_reach ::
  "(string, string) dict \<Rightarrow> (attr_decl \<times> attr_val) list \<Rightarrow> vec \<Rightarrow> reach \<Rightarrow> string set" where
  "coverage_reach levels attributes v r =
     (let active = filter (\<lambda>(_, l). l \<noteq> []) levels;
          defaults = dict_of (map (\<lambda>(a, d). (ad_name a, d)) attributes);
          explicit = map (\<lambda>(k, s). (k, VStr s)) (vec_attrs v);
          bs = (if active \<noteq> [] then polarity_bins (reach_bins r) active (dict_update defaults explicit)
                else reach_bins r)
      in bs \<union> attr_bins (map fst attributes) (vec_attrs v))"

section \<open>Bits and values of the stimulus\<close>

definition bit_name :: "dut_map \<Rightarrow> string \<Rightarrow> int \<Rightarrow> string" where
  "bit_name m port index =
     (if length (port_bits m ''in'' port '''') = 1 then port else port @ ''['' @ show_int index @ '']'')"

definition in_bit :: "dut_map \<Rightarrow> int \<Rightarrow> wbit option" where
  "in_bit m i = find (\<lambda>b. w_bit b = i) (rev (on_vec m ''in''))"

definition data_events :: "dut_map \<Rightarrow> event \<Rightarrow> string set" where
  "data_events m e =
     set (concat (map (\<lambda>(i, ch).
       case in_bit m (e_lsb e + int i) of
         None \<Rightarrow> []
       | Some b \<Rightarrow>
           if w_role b = '''' \<and> w_cls b = ''data'' \<and> (ch = CHR ''0'' \<or> ch = CHR ''1'')
           then [bit_name m (w_port b) (w_index b) @ '':'' @ [ch]] else [])
       (List.enumerate 0 (rev (e_value e)))))"

definition bit_at :: "string \<Rightarrow> int \<Rightarrow> (golden_error, char) result" where
  "bit_at bs i = (if 0 \<le> i \<and> nat i < length bs then Inr (bs ! nat i) else Inl (GIndex i))"

definition pin_events :: "dut_map \<Rightarrow> string \<Rightarrow> string \<Rightarrow> (golden_error, string list) result" where
  "pin_events m old new =
     rbind (rmap (\<lambda>b.
       rbind (bit_at old (w_bit b)) (\<lambda>o1. rbind (bit_at new (w_bit b)) (\<lambda>n1. Inr
         (if w_role b = '''' \<and> is_async_cls (w_cls b) \<and> [o1, n1] \<in> {''01'', ''10''}
          then [bit_name m (w_port b) (w_index b) @ '':'' @ (if n1 = CHR ''1'' then ''rise'' else ''fall'')]
          else [])))) (on_vec m ''in'')) (\<lambda>ess. Inr (concat ess))"

definition drive_event ::
  "string \<Rightarrow> string \<Rightarrow> string \<Rightarrow> wbit \<times> wbit \<Rightarrow> (golden_error, string list) result" where
  "drive_event old new p = (\<lambda>(e, v).
     rbind (bit_at new (w_bit e)) (\<lambda>ne. rbind (bit_at new (w_bit v)) (\<lambda>nv.
     rbind (bit_at old (w_bit e)) (\<lambda>oe. rbind (bit_at old (w_bit v)) (\<lambda>ov. Inr
       ((if ne = CHR ''1'' \<and> (nv = CHR ''0'' \<or> nv = CHR ''1'') \<and> (oe \<noteq> CHR ''1'' \<or> ov \<noteq> nv)
         then [p @ '':drive'' @ [nv]] else []) @
        (if oe = CHR ''1'' \<and> ne = CHR ''0'' then [p @ '':release''] else [])))))))"

definition stimulus_events :: "dut_map \<Rightarrow> string \<Rightarrow> string \<Rightarrow> (golden_error, string set) result" where
  "stimulus_events m old new =
     rbind (pin_events m old new) (\<lambda>pins.
     rbind (rmap (\<lambda>p.
        let en = port_bits m ''in'' p ''drive_en''; val = port_bits m ''in'' p ''drive_val''
        in if length en \<noteq> length val then Inl ZipStrict
           else rbind (rmap (drive_event old new p) (zip en val)) (\<lambda>ess. Inr (concat ess)))
       (dedup (map w_port (filter (\<lambda>b. w_role b = ''drive_en'') (on_vec m ''in''))))) (\<lambda>drives.
     Inr (set pins \<union> set (concat drives))))"

definition expand_free_clocks :: "vec \<Rightarrow> (golden_error, event list) result" where
  "expand_free_clocks v =
     rbind (lift_gloop (free_clock_edges v)) (\<lambda>es.
       Inr (sort_key e_t (filter (\<lambda>e. e_op e \<notin> {''clock_start'', ''clock_stop''}) (v_events v) @ es)))"

definition port_text_bits :: "dut_map \<Rightarrow> string \<Rightarrow> string \<Rightarrow> (golden_error, string) result" where
  "port_text_bits m bs port = rmap (\<lambda>b. bit_at bs (w_bit b)) (rev (port_bits m ''in'' port ''''))"

definition port_value :: "dut_map \<Rightarrow> string \<Rightarrow> string \<Rightarrow> (golden_error, int) result" where
  "port_value m bs port =
     rbind (port_text_bits m bs port) (\<lambda>s.
       if has_xz s then Inl (XZStimulus port s)
       else case parse_base 2 s of Some n \<Rightarrow> Inr (int n) | None \<Rightarrow> Inl (GValue s))"

definition bit_prov :: "string \<Rightarrow> int \<Rightarrow> (golden_error, string) result" where
  "bit_prov token i =
     (let tags = split_on (CHR '','') token
      in if length tags = 1 then Inr (tags ! 0)
         else if \<not> (0 \<le> i \<and> i < int (length tags)) then Inl (GIndex i)
         else Inr (tags ! nat i))"

section \<open>Contract checks\<close>

definition check_outputs :: "'s model_cls \<Rightarrow> (string, out) dict \<Rightarrow> string \<Rightarrow> (golden_error, unit) result" where
  "check_outputs mc outs label =
     (if set (map fst outs) \<noteq> set (map fst (mc_outputs mc)) then Inl (OutputsMismatch label)
      else rfold (\<lambda>_ (p, q). if Some (length (bits q)) \<noteq> map_of (mc_outputs mc) p
                             then Inl (OutputWidth label p) else Inr ()) () outs)"

definition input_widths :: "dut_map \<Rightarrow> (string, nat) dict" where
  "input_widths m =
     dict_update (map (\<lambda>p. (p, length (port_bits m ''in'' p ''''))) (in_ports m))
       (map (\<lambda>b. (w_port b, 1)) (on_vec m ''clk''))"

definition check_inputs :: "'s model_cls \<Rightarrow> vec \<Rightarrow> dut_map \<Rightarrow> (golden_error, unit) result" where
  "check_inputs mc v m =
     (let prim = the (map_of (v_header v) ''prim'') in
      if \<not> (mc_prim mc = prim \<and> prim = m_prim m) then Inl PrimMismatch
      else if (hint v ''nin'', hint v ''nclk'') \<noteq> (m_nin m, m_nclk m) then Inl CountsMismatch
      else if \<not> dict_eq (input_widths m) (mc_inputs mc) then Inl InputsMismatch
      else Inr ())"

section \<open>The replay\<close>

record 's gstate =
  g_model :: 's
  g_bits :: string
  g_released :: bool
  g_seen :: "(string, int set) dict"
  g_trace :: trace
  g_ports :: "string set"
  g_events :: "string set"

text \<open>\<open>bits[e.lsb + i] = ch\<close> for every character of the value, bit 0 last in the text.\<close>

definition put_bit :: "int \<Rightarrow> (golden_error, string) result \<Rightarrow> nat \<times> char \<Rightarrow> (golden_error, string) result" where
  "put_bit lsb r = (\<lambda>(i, ch). rbind r (\<lambda>bs.
     let k = lsb + int i
     in if 0 \<le> k \<and> nat k < length bs then Inr (bs[nat k := ch]) else Inl (GIndex k)))"

definition apply_set :: "string \<Rightarrow> event \<Rightarrow> (golden_error, string) result" where
  "apply_set bs e = foldl (put_bit (e_lsb e)) (Inr bs) (List.enumerate 0 (rev (e_value e)))"

definition changed_input ::
  "'s model_cls \<Rightarrow> dut_map \<Rightarrow> string \<Rightarrow> string \<Rightarrow> 's \<times> (string, int set) dict \<Rightarrow> string \<Rightarrow>
   (golden_error, 's \<times> (string, int set) dict) result" where
  "changed_input mc m old new = (\<lambda>(s, seen) p.
     rbind (port_text_bits m old p) (\<lambda>before.
     rbind (port_text_bits m new p) (\<lambda>after.
       if after = before then Inr (s, seen)
       else rbind (port_value m new p) (\<lambda>x.
            rbind (lift_model (mc_set_input mc p x s)) (\<lambda>s'.
            Inr (s', AList.update p (insert x (case map_of seen p of Some xs \<Rightarrow> xs | None \<Rightarrow> {})) seen))))))"

definition step_sets ::
  "'s model_cls \<Rightarrow> dut_map \<Rightarrow> 's gstate \<Rightarrow> event list \<Rightarrow> (golden_error, 's gstate) result" where
  "step_sets mc m g sets =
     (if sets = [] then Inr g else
      rbind (rfold apply_set (g_bits g) sets) (\<lambda>new.
      rbind (stimulus_events m (g_bits g) new) (\<lambda>evs.
      rbind (rfold (changed_input mc m (g_bits g) new) (g_model g, g_seen g) (in_ports m)) (\<lambda>(s, seen).
      Inr (g\<lparr>g_model := s, g_bits := new, g_seen := seen,
             g_events := g_events g \<union> (\<Union>e \<in> set sets. data_events m e) \<union> evs\<rparr>)))))"

definition step_other ::
  "'s model_cls \<Rightarrow> dut_map \<Rightarrow> 's gstate \<Rightarrow> event \<Rightarrow> (golden_error, 's gstate) result" where
  "step_other mc m g e =
     (if e_op e = ''edge'' then
        rbind (lift_wrap (clock_port m (e_target e))) (\<lambda>port.
        rbind (lift_model (mc_clock_edge mc port (e_value e = ''r'') (g_model g))) (\<lambda>s.
        Inr (g\<lparr>g_model := s, g_ports := insert port (g_ports g),
               g_events := insert (port @ '':edge'') (g_events g)\<rparr>)))
      else if e_op e = ''glbl'' then
        rbind (case py_int (e_value e) of Some i \<Rightarrow> Inr i | None \<Rightarrow> Inl (GValue (e_value e))) (\<lambda>i.
        rbind (lift_model (mc_glbl mc (e_target e) i (g_model g))) (\<lambda>s. Inr (g\<lparr>g_model := s\<rparr>)))
      else if e_op e = ''sample'' then
        rbind (lift_model (mc_outs mc (g_model g))) (\<lambda>outs.
        rbind (check_outputs mc outs (e_target e)) (\<lambda>_.
        rbind (map_sum GTrace id (add (g_trace g)
                 (e_target e, map (\<lambda>(p, q). (p, bits q)) outs, map (\<lambda>(p, q). (p, prov_token (prov q))) outs))) (\<lambda>t.
        Inr (g\<lparr>g_trace := t, g_ports := g_ports g \<union> set (map fst outs)\<rparr>))))
      else Inr g)"

definition step_time ::
  "'s model_cls \<Rightarrow> dut_map \<Rightarrow> 's gstate \<Rightarrow> int \<times> event list \<Rightarrow> (golden_error, 's gstate) result" where
  "step_time mc m g = (\<lambda>(t, events).
     rbind (if \<not> g_released g \<and> ROC_WIDTH_PS \<le> t
            then rbind (lift_model (mc_glbl mc ''GSR'' 0 (g_model g))) (\<lambda>s. Inr (g\<lparr>g_model := s, g_released := True\<rparr>))
            else Inr g) (\<lambda>g1.
     rbind (step_sets mc m g1 (filter (\<lambda>e. e_op e = ''set'') events)) (\<lambda>g2.
     rfold (step_other mc m) g2 events)))"

definition golden_header :: "vec \<Rightarrow> (string, string) dict" where
  "golden_header v =
     [(''runner'', ''python''), (''flow'', ''rtl''), (''model'', ''golden''), (''seed'', show_int (hint v ''seed'')),
      (''kind'', ''expected''), (''prim'', the (map_of (v_header v) ''prim'')), (''cfg'', the (map_of (v_header v) ''cfg''))]"

definition start_state :: "'s model_cls \<Rightarrow> vec \<Rightarrow> dut_map \<Rightarrow> (golden_error, 's gstate) result" where
  "start_state mc v m =
     rbind (lift_model (mc_new mc (vec_attrs v))) (\<lambda>s0.
     rbind (lift_model (mc_power_on mc s0)) (\<lambda>s1.
     rbind (rfold (\<lambda>s p. lift_model (mc_set_input mc p 0 s)) s1 (in_ports m)) (\<lambda>s2. Inr
       \<lparr>g_model = s2, g_bits = replicate (nat (m_nin m)) (CHR ''0''), g_released = False, g_seen = [],
        g_trace = new_trace (golden_header v), g_ports = {}, g_events = {}\<rparr>)))"

definition replay :: "'s model_cls \<Rightarrow> vec \<Rightarrow> dut_map \<Rightarrow> (golden_error, trace \<times> reach) result" where
  "replay mc v m =
     (let sim = sort (dedup (map e_t (filter e_sim (v_events v)))) in
      if sim \<noteq> [] then Inl (SimultaneousAt (take 3 sim)) else
      rbind (lift_gloop (validate v m DEFAULT_GAP_PS)) (\<lambda>r.
      if r_errors r \<noteq> [] then Inl (InvalidStim (r_errors r)) else
      rbind (check_inputs mc v m) (\<lambda>_.
      rbind (start_state mc v m) (\<lambda>g0.
      rbind (expand_free_clocks v) (\<lambda>evs.
      rbind (rfold (step_time mc m) g0 (groupby e_t evs)) (\<lambda>g. Inr (g_trace g,
        \<lparr>rc_ports = g_ports g \<union> set (map fst (filter (\<lambda>(p, xs). xs \<noteq> {0}) (g_seen g))),
         rc_attrs = vec_attrs v, rc_claims = mc_claims mc (g_model g), rc_events = g_events g\<rparr>)))))))"

end
