(* ===== verification/Independent.thy ===== *)
theory Independent
  imports Prelude "HOL-Library.Multiset"
begin

text \<open>
  The contract of updates that may be applied in any order: operations on a state that commute
  pairwise when they are independent of each other. The bits a set of co-timed events writes
  and the input changes of a golden model both satisfy it.
\<close>

locale independent_updates =
  fixes upd :: "'s \<Rightarrow> 'a \<Rightarrow> ('e, 's) result"
    and ok :: "'s \<Rightarrow> bool"
    and valid :: "'s \<Rightarrow> 'a \<Rightarrow> bool"
    and indep :: "'a \<Rightarrow> 'a \<Rightarrow> bool"
  assumes indep_sym: "indep a b \<Longrightarrow> indep b a"
    and keeps_ok: "ok s \<Longrightarrow> valid s a \<Longrightarrow> upd s a = Inr s' \<Longrightarrow> ok s'"
    and keeps_valid: "ok s \<Longrightarrow> valid s a \<Longrightarrow> upd s a = Inr s' \<Longrightarrow> valid s b \<Longrightarrow> valid s' b"
    and commute: "ok s \<Longrightarrow> valid s a \<Longrightarrow> valid s b \<Longrightarrow> indep a b \<Longrightarrow>
      rbind (upd s a) (\<lambda>s'. upd s' b) = rbind (upd s b) (\<lambda>s'. upd s' a)"
begin

lemma move_front:
  assumes "ok s" "\<forall>a \<in> set (as @ x # bs). valid s a" "\<forall>a \<in> set as. indep x a"
  shows "rfold upd s (as @ x # bs) = rfold upd s (x # as @ bs)"
  using assms
proof (induction as arbitrary: s)
  case (Cons a as)
  have i: "indep a x" using Cons.prems(3) indep_sym by simp
  have v: "valid s a" "valid s x" using Cons.prems(2) by simp_all
  have "rfold upd s ((a # as) @ x # bs) = rbind (upd s a) (\<lambda>s'. rfold upd s' (x # as @ bs))"
  proof (cases "upd s a")
    case (Inr s')
    have "ok s'" using keeps_ok[OF Cons.prems(1) v(1) Inr] .
    moreover have "\<forall>b \<in> set (as @ x # bs). valid s' b"
      using keeps_valid[OF Cons.prems(1) v(1) Inr] Cons.prems(2) by simp
    ultimately show ?thesis using Cons.IH[of s'] Cons.prems(3) Inr by simp
  qed simp
  also have "\<dots> = rbind (rbind (upd s a) (\<lambda>s'. upd s' x)) (\<lambda>s'. rfold upd s' (as @ bs))"
    by (cases "upd s a") simp_all
  also have "\<dots> = rbind (rbind (upd s x) (\<lambda>s'. upd s' a)) (\<lambda>s'. rfold upd s' (as @ bs))"
    using commute[OF Cons.prems(1) v i] by simp
  also have "\<dots> = rfold upd s (x # (a # as) @ bs)" by (cases "upd s x") simp_all
  finally show ?case .
qed simp

lemma order_free:
  assumes "mset xs = mset ys" "sorted_wrt indep xs" "ok s" "\<forall>a \<in> set xs. valid s a"
  shows "rfold upd s xs = rfold upd s ys"
  using assms
proof (induction xs arbitrary: ys s)
  case (Cons x xs)
  have "x \<in> set ys" using Cons.prems(1) by (metis list.set_intros(1) mset_eq_setD)
  then obtain as bs where ys: "ys = as @ x # bs" by (meson split_list)
  then have m: "mset xs = mset (as @ bs)" using Cons.prems(1) by simp
  have st: "set (x # xs) = set ys" using Cons.prems(1) by (rule mset_eq_setD)
  have "set as \<subseteq> set xs" using mset_eq_setD[OF m] by simp
  then have ia: "\<forall>a \<in> set as. indep x a" using Cons.prems(2) by auto
  have "rfold upd s (x # xs) = rfold upd s (x # as @ bs)"
  proof (cases "upd s x")
    case (Inr s')
    have v: "valid s x" using Cons.prems(4) by simp
    have "ok s'" using keeps_ok[OF Cons.prems(3) v Inr] .
    moreover have "\<forall>a \<in> set xs. valid s' a" using keeps_valid[OF Cons.prems(3) v Inr] Cons.prems(4) by simp
    ultimately show ?thesis using Cons.IH[OF m] Cons.prems(2) Inr by simp
  qed simp
  moreover have "\<forall>a \<in> set (as @ x # bs). valid s a" using Cons.prems(4) st ys by auto
  ultimately show ?case using move_front[OF Cons.prems(3) _ ia, of bs] ys by simp
qed simp

end

end
