(* ===== verification/Golden_Facts.thy ===== *)
theory Golden_Facts
  imports Golden Independent
begin

text \<open>
  What golden replay promises: the order of co-timed \<open>set\<close>s and of the input changes of one time
  step cannot matter, and the trace holds exactly the samples of the stimulus, in their order.
\<close>

section \<open>The input changes of a flip-flop are independent updates\<close>

definition flop_change :: "flop_cls \<Rightarrow> flop \<Rightarrow> string \<times> int \<Rightarrow> flop_res" where
  "flop_change c s = (\<lambda>(p, v). flop_set_input c p v s)"

definition has_pin :: "flop \<Rightarrow> string \<times> int \<Rightarrow> bool" where
  "has_pin s = (\<lambda>(p, v). p \<in> fst ` set (fl_pin s) \<and> bin v)"

lemma flop_change_keeps:
  assumes "fl_on s" "has_pin s a" "flop_change c s a = Inr s'"
  shows "fl_on s' \<and> fst ` set (fl_pin s') = fst ` set (fl_pin s)"
proof -
  obtain p v where a: "a = (p, v)" by (cases a)
  have pv: "p \<in> fst ` set (fl_pin s)" "bin v" using assms(2) by (simp_all add: has_pin_def a)
  have "fl_pin s' = fl_pin (store_pin p v s) \<and> fl_on s' = fl_on s"
    using assms(3) set_input_cases[OF assms(1) pv]
    by (auto simp: flop_change_def a ctrl_react_def store_pin_def dest!: under_gsr_keeps force_ctrl_keeps split: if_split_asm)
  then show ?thesis using assms(1) pv(1) by (auto simp: store_pin_def keys_update)
qed

interpretation pin: independent_updates "flop_change c" fl_on has_pin "\<lambda>a b. fst a \<noteq> fst b" for c
proof
  fix s :: flop and a b
  assume "fl_on s" "has_pin s a" "has_pin s b" "fst a \<noteq> fst b"
  then show "rbind (flop_change c s a) (\<lambda>s'. flop_change c s' b) = rbind (flop_change c s b) (\<lambda>s'. flop_change c s' a)"
    using set_input_swap[of s "fst a" "fst b" "snd a" "snd b" c]
    by (simp add: flop_change_def has_pin_def case_prod_beta)
next
  fix s s' :: flop and a b
  assume "fl_on s" "has_pin s a" "flop_change c s a = Inr s'" "has_pin s b"
  then show "has_pin s' b" using flop_change_keeps[of s a c s'] by (auto simp: has_pin_def)
next
  fix s s' :: flop and a
  assume "fl_on s" "has_pin s a" "flop_change c s a = Inr s'"
  then show "fl_on s'" using flop_change_keeps by blast
qed auto

section \<open>The bits of co-timed sets are independent updates\<close>

definition set_range :: "event \<Rightarrow> nat set" where
  "set_range e = {nat (e_lsb e)..<nat (e_lsb e) + length (e_value e)}"

definition in_range :: "string \<Rightarrow> event \<Rightarrow> bool" where
  "in_range bs e \<longleftrightarrow> 0 \<le> e_lsb e \<and> nat (e_lsb e) + length (e_value e) \<le> length bs"

lemma put_bits:
  "0 \<le> lsb \<Longrightarrow> nat lsb + k + length cs \<le> length bs \<Longrightarrow>
   foldl (put_bit lsb) (Inr bs) (List.enumerate k cs) =
     Inr (map (\<lambda>j. if nat lsb + k \<le> j \<and> j < nat lsb + k + length cs then cs ! (j - (nat lsb + k)) else bs ! j) [0..<length bs])"
proof (induction cs arbitrary: k bs)
  case Nil
  have "map (\<lambda>j. if nat lsb + k \<le> j \<and> j < nat lsb + k then [] ! (j - (nat lsb + k)) else bs ! j) [0..<length bs] = bs"
    by (rule nth_equalityI) auto
  then show ?case by simp
next
  case (Cons c cs)
  let ?n = "nat lsb + k"
  have n: "nat (lsb + int k) = ?n" using Cons.prems(1) by (simp add: nat_add_distrib)
  have p: "put_bit lsb (Inr bs) (k, c) = Inr (bs[?n := c])"
    using Cons.prems n by (simp add: put_bit_def Let_def)
  have i: "nat lsb + Suc k + length cs \<le> length (bs[?n := c])" using Cons.prems(2) by simp
  have "foldl (put_bit lsb) (Inr bs) (List.enumerate k (c # cs)) =
      foldl (put_bit lsb) (Inr (bs[?n := c])) (List.enumerate (Suc k) cs)"
    using p by simp
  also have "\<dots> = Inr (map (\<lambda>j. if nat lsb + Suc k \<le> j \<and> j < nat lsb + Suc k + length cs
      then cs ! (j - (nat lsb + Suc k)) else bs[?n := c] ! j) [0..<length bs])"
    using Cons.IH[OF Cons.prems(1) i] by simp
  also have "map (\<lambda>j. if nat lsb + Suc k \<le> j \<and> j < nat lsb + Suc k + length cs
      then cs ! (j - (nat lsb + Suc k)) else bs[?n := c] ! j) [0..<length bs] =
    map (\<lambda>j. if ?n \<le> j \<and> j < ?n + length (c # cs) then (c # cs) ! (j - ?n) else bs ! j) [0..<length bs]"
  proof (rule map_cong[OF refl])
    fix j assume "j \<in> set [0..<length bs]"
    then have j: "j < length bs" by simp
    consider "j < ?n" | "j = ?n" | "?n < j" by linarith
    then show "(if nat lsb + Suc k \<le> j \<and> j < nat lsb + Suc k + length cs
      then cs ! (j - (nat lsb + Suc k)) else bs[?n := c] ! j) =
      (if ?n \<le> j \<and> j < ?n + length (c # cs) then (c # cs) ! (j - ?n) else bs ! j)"
    proof cases
      case 3
      then have "j - ?n = Suc (j - (nat lsb + Suc k))" by simp
      then show ?thesis using 3 by simp
    qed (use j in simp_all)
  qed
  finally show ?case .
qed

definition put_value :: "event \<Rightarrow> string \<Rightarrow> string" where
  "put_value e bs =
     map (\<lambda>j. if j \<in> set_range e then rev (e_value e) ! (j - nat (e_lsb e)) else bs ! j) [0..<length bs]"

lemma apply_set_put: "in_range bs e \<Longrightarrow> apply_set bs e = Inr (put_value e bs)"
  using put_bits[of "e_lsb e" 0 "rev (e_value e)" bs]
  by (simp add: apply_set_def in_range_def put_value_def set_range_def)

lemma put_value_length [simp]: "length (put_value e bs) = length bs"
  by (simp add: put_value_def)

lemma in_range_put [simp]: "in_range (put_value e bs) f \<longleftrightarrow> in_range bs f"
  by (simp add: in_range_def)

lemma put_value_commute: "set_range e \<inter> set_range f = {} \<Longrightarrow> put_value f (put_value e bs) = put_value e (put_value f bs)"
  by (rule nth_equalityI) (auto simp: put_value_def)

interpretation bus: independent_updates apply_set "\<lambda>bs. True" in_range "\<lambda>e f. set_range e \<inter> set_range f = {}"
proof
  fix bs :: string and e f
  assume "in_range bs e" "in_range bs f" "set_range e \<inter> set_range f = {}"
  then show "rbind (apply_set bs e) (\<lambda>bs'. apply_set bs' f) = rbind (apply_set bs f) (\<lambda>bs'. apply_set bs' e)"
    by (simp add: apply_set_put put_value_commute)
qed (auto simp: apply_set_put)

text \<open>
  C19. The file order of co-timed \<open>set\<close>s cannot matter: applying the same \<open>set\<close>s, on disjoint bits
  of the vector, in any other order gives the same replay step, model calls, values seen and
  reached events included.
\<close>

theorem co_timed_sets_order_free:
  assumes "mset sets = mset sets'"
    and "sorted_wrt (\<lambda>e f. set_range e \<inter> set_range f = {}) sets"
    and "\<forall>e \<in> set sets. in_range (g_bits g) e"
  shows "step_sets mc m g sets = step_sets mc m g sets'"
proof -
  have s: "set sets = set sets'" by (rule mset_eq_setD[OF assms(1)])
  have e: "sets = [] \<longleftrightarrow> sets' = []" using assms(1) by auto
  have "rfold apply_set (g_bits g) sets = rfold apply_set (g_bits g) sets'"
    by (rule bus.order_free[OF assms(1,2) TrueI assms(3)])
  then show ?thesis unfolding step_sets_def e s by simp
qed

definition set_a :: event where
  "set_a = \<lparr>e_t = 103000, e_op = ''set'', e_target = ''in'', e_lsb = 0, e_msb = 1, e_value = ''10'', e_sim = False\<rparr>"

definition set_b :: event where
  "set_b = \<lparr>e_t = 103000, e_op = ''set'', e_target = ''in'', e_lsb = 2, e_msb = 2, e_value = ''1'', e_sim = False\<rparr>"

definition g_example :: "flop gstate" where
  "g_example =
     \<lparr>g_model = \<lparr>fl_init = 0, fl_inv_c = 0, fl_inv_d = 0, fl_inv_ctrl = 0, fl_pin = [(''D'', 0)], fl_gsr = 0,
        fl_on = True, fl_q = Out ''0'' (Tag ''doc:375''), fl_claims = {}\<rparr>,
      g_bits = ''0000'', g_released = True, g_seen = [], g_trace = new_trace [], g_ports = {}, g_events = {}\<rparr>"

theorem co_timed_sets_order_free_witness:
  "step_sets (flop_model FDRE) map_example g_example [set_a, set_b] =
   step_sets (flop_model FDRE) map_example g_example [set_b, set_a]"
  by (rule co_timed_sets_order_free)
    (auto simp: set_a_def set_b_def set_range_def in_range_def g_example_def)

section \<open>The samples of the trace\<close>

definition labels_of :: "event list \<Rightarrow> string list" where
  "labels_of es = map e_target (filter (\<lambda>e. e_op e = ''sample'') es)"

lemma add_labels:
  assumes "add t (l, vs, pv) = Inr t'"
  shows "map fst (t_samples t') = map fst (t_samples t) @ [l]"
proof -
  have n: "l \<notin> fst ` set (t_samples t)" using assms by (auto simp: add_def dict_has_iff split: if_split_asm)
  have "t_samples t' = AList.update l vs (t_samples t)"
    using assms by (auto simp: add_def Let_def rbind_Inr_iff split: if_split_asm)
  then show ?thesis using update_new[OF n] by simp
qed

lemma step_other_labels:
  assumes "step_other mc m g e = Inr g'"
  shows "map fst (t_samples (g_trace g')) = map fst (t_samples (g_trace g)) @ labels_of [e]"
proof -
  consider "e_op e = ''edge''" | "e_op e = ''glbl''" | "e_op e = ''sample''"
    | "e_op e \<noteq> ''edge''" "e_op e \<noteq> ''glbl''" "e_op e \<noteq> ''sample''" by blast
  then show ?thesis
  proof cases
    case 3
    then obtain outs t where "add (g_trace g) (e_target e, map (\<lambda>(p, q). (p, bits q)) outs,
        map (\<lambda>(p, q). (p, prov_token (prov q))) outs) = Inr t" "g_trace g' = t"
      using assms by (auto simp: step_other_def rbind_Inr_iff map_sum_Inr)
    then show ?thesis using add_labels 3 by (auto simp: labels_of_def)
  qed (use assms in \<open>auto simp: step_other_def labels_of_def rbind_Inr_iff\<close>)
qed

lemma step_others_labels:
  "rfold (step_other mc m) g es = Inr g' \<Longrightarrow>
   map fst (t_samples (g_trace g')) = map fst (t_samples (g_trace g)) @ labels_of es"
proof (induction es arbitrary: g)
  case (Cons e es)
  then obtain g1 where "step_other mc m g e = Inr g1" "rfold (step_other mc m) g1 es = Inr g'"
    by (auto simp: rbind_Inr_iff)
  then show ?case using Cons.IH step_other_labels by (fastforce simp: labels_of_def)
qed (simp add: labels_of_def)

lemma step_sets_trace: "step_sets mc m g es = Inr g' \<Longrightarrow> g_trace g' = g_trace g"
  by (auto simp: step_sets_def rbind_Inr_iff split: if_split_asm)

lemma step_time_labels:
  assumes "step_time mc m g (t, es) = Inr g'"
  shows "map fst (t_samples (g_trace g')) = map fst (t_samples (g_trace g)) @ labels_of es"
proof -
  obtain g1 g2 where 0: "(if \<not> g_released g \<and> ROC_WIDTH_PS \<le> t
            then rbind (lift_model (mc_glbl mc ''GSR'' 0 (g_model g))) (\<lambda>s. Inr (g\<lparr>g_model := s, g_released := True\<rparr>))
            else Inr g) = Inr g1"
    and 1: "step_sets mc m g1 (filter (\<lambda>e. e_op e = ''set'') es) = Inr g2"
    "rfold (step_other mc m) g2 es = Inr g'"
    using assms unfolding step_time_def prod.case rbind_Inr_iff by (elim exE conjE) (rule that)
  from 0 have "g_trace g1 = g_trace g" by (auto simp: rbind_Inr_iff split: if_split_asm)
  then show ?thesis using step_others_labels[OF 1(2)] step_sets_trace[OF 1(1)] by simp
qed

lemma step_times_labels:
  "rfold (step_time mc m) g gs = Inr g' \<Longrightarrow>
   map fst (t_samples (g_trace g')) = map fst (t_samples (g_trace g)) @ labels_of (concat (map snd gs))"
proof (induction gs arbitrary: g)
  case (Cons p gs)
  obtain t es where p: "p = (t, es)" by (cases p)
  obtain g1 where "step_time mc m g (t, es) = Inr g1" "rfold (step_time mc m) g1 gs = Inr g'"
    using Cons.prems p by (auto simp: rbind_Inr_iff)
  then show ?case using Cons.IH step_time_labels p by (fastforce simp: labels_of_def)
qed (simp add: labels_of_def)

lemma order_ok_sorted: "check_order ev lines = Inr () \<Longrightarrow> sorted (map e_t ev)"
proof -
  assume "check_order ev lines = Inr ()"
  then have "\<forall>i \<in> set [0..<length ev]. (if 0 < i \<and> e_t (ev ! i) < e_t (ev ! (i - 1))
      then Inl (XvecError (TimeBackwards i) (lines i))
      else if e_op (ev ! i) = ''end'' \<and> i \<noteq> length ev - 1
      then Inl (XvecError (EndNotLast i) (lines i)) else Inr ()) = Inr ()"
    by (auto simp: check_order_def rbind_Inr_iff rall_Inr_iff)
  then have "\<not> (0 < i \<and> e_t (ev ! i) < e_t (ev ! (i - 1)))" if "i < length ev" for i
    using that by (auto split: if_split_asm)
  then have "e_t (ev ! i) \<le> e_t (ev ! Suc i)" if "Suc i < length ev" for i using that by force
  then show ?thesis by (simp add: sorted_iff_nth_Suc)
qed

lemma expand_labels:
  assumes "check_structure v = Inr ()" "expand_free_clocks v = Inr evs"
  shows "labels_of evs = labels_of (v_events v)"
proof -
  have u: "usable v" by (rule structure_usable[OF assms(1)])
  obtain es where es: "free_clock_edges v = Inr es" "\<forall>e \<in> set es. e_op e = ''edge'' \<and> e_target e \<in> ck_name ` set (v_clocks v)"
    using free_clock_edges_total[OF usable_periods[OF u] usable_named[OF u]] by blast
  have evs: "evs = sort_key e_t (filter (\<lambda>e. e_op e \<notin> {''clock_start'', ''clock_stop''}) (v_events v) @ es)"
    using assms(2) es(1) by (auto simp: expand_free_clocks_def lift_gloop_def)
  have "check_order (v_events v) (\<lambda>_. None) = Inr ()"
    using assms(1) by (auto simp: check_structure_def rbind_Inr_iff)
  then have srt: "sorted (map e_t (v_events v))" by (rule order_ok_sorted)
  have ne: "filter (\<lambda>e. e_op e = ''sample'') es = []" using es(2) by (auto simp: filter_empty_conv)
  have f: "filter (\<lambda>e. e_op e = ''sample'') (filter (\<lambda>e. e_op e \<notin> {''clock_start'', ''clock_stop''}) (v_events v)) =
      filter (\<lambda>e. e_op e = ''sample'') (v_events v)"
    by (auto intro!: filter_cong)
  have "filter (\<lambda>e. e_op e = ''sample'') evs = sort_key e_t (filter (\<lambda>e. e_op e = ''sample'') (v_events v))"
    unfolding evs filter_sort using ne f by simp
  also have "\<dots> = filter (\<lambda>e. e_op e = ''sample'') (v_events v)"
    using srt by (intro sort_key_id_if_sorted) (simp add: sorted_filter)
  finally show ?thesis by (simp add: labels_of_def)
qed

text \<open>
  C20. A golden trace holds exactly one sample for each \<open>sample\<close> event of the stimulus, under its
  label and in the order of the file, and there is one only for a stimulus without co-timed
  \<open>simultaneous\<close> events that validates without an error.
\<close>

theorem replay_samples:
  assumes "replay mc v m = Inr (t, r)"
  shows "map fst (t_samples t) = labels_of (v_events v) \<and> list_all (\<lambda>e. \<not> e_sim e) (v_events v) \<and>
    (\<exists>rep. validate v m DEFAULT_GAP_PS = Inr rep \<and> r_errors rep = [])"
proof -
  obtain rep g0 evs g where 1: "sort (dedup (map e_t (filter e_sim (v_events v)))) = []"
    "validate v m DEFAULT_GAP_PS = Inr rep" "r_errors rep = []" "start_state mc v m = Inr g0"
    "expand_free_clocks v = Inr evs" "rfold (step_time mc m) g0 (groupby e_t evs) = Inr g" "t = g_trace g"
    using assms by (auto simp: replay_def Let_def rbind_Inr_iff lift_gloop_def map_sum_Inr split: if_split_asm)
  have st: "check_structure v = Inr ()" using validate_clean[OF 1(2,3)] by blast
  have "t_samples (g_trace g0) = []"
    using 1(4) by (auto simp: start_state_def rbind_Inr_iff new_trace_def)
  then have "map fst (t_samples t) = labels_of (v_events v)"
    using step_times_labels[OF 1(6)] groupby_concat[of e_t evs] expand_labels[OF st 1(5)] 1(7) by simp
  moreover have "set (sort (dedup (map e_t (filter e_sim (v_events v))))) = {}" using 1(1) by simp
  then have "list_all (\<lambda>e. \<not> e_sim e) (v_events v)" by (auto simp: list_all_iff)
  ultimately show ?thesis using 1(2,3) by blast
qed

section \<open>A replay of an FDRE\<close>

definition replay_ok :: bool where
  "replay_ok \<longleftrightarrow>
     (case start_state (flop_model FDRE) stim_example map_example of
        Inr g0 \<Rightarrow>
          (case expand_free_clocks stim_example of
             Inr evs \<Rightarrow> (case rfold (step_time (flop_model FDRE) map_example) g0 (groupby e_t evs) of
                           Inr g \<Rightarrow> True | Inl _ \<Rightarrow> False)
           | Inl _ \<Rightarrow> False)
      | Inl _ \<Rightarrow> False)"

lemma replay_example: "\<exists>t r. replay (flop_model FDRE) stim_example map_example = Inr (t, r)"
proof -
  have sim: "sort (dedup (map e_t (filter e_sim (v_events stim_example)))) = []"
    by (simp add: stim_fields plain_event_def)
  obtain rep where rep: "validate stim_example map_example DEFAULT_GAP_PS = Inr rep" "r_errors rep = []"
    using stim_valid by (auto simp: DEFAULT_GAP_PS_def MIN_SEP_PS_def)
  have ci: "check_inputs (flop_model FDRE) stim_example map_example = Inr ()"
  proof -
    have "the (map_of (v_header stim_example) ''prim'') = ''FDRE''" by code_simp
    moreover have "dict_eq (input_widths map_example) (mc_inputs (flop_model FDRE))" by code_simp
    ultimately show ?thesis
      by (simp add: check_inputs_def stim_hints map_example_def flop_model_def FDRE_def)
  qed
  have "replay_ok" by code_simp
  then obtain g0 evs g where "start_state (flop_model FDRE) stim_example map_example = Inr g0"
    "expand_free_clocks stim_example = Inr evs"
    "rfold (step_time (flop_model FDRE) map_example) g0 (groupby e_t evs) = Inr g"
    by (auto simp: replay_ok_def split: sum.splits)
  then show ?thesis using sim rep ci by (simp add: replay_def lift_gloop_def)
qed

theorem replay_samples_witness:
  "\<exists>t r. replay (flop_model FDRE) stim_example map_example = Inr (t, r) \<and> map fst (t_samples t) = [''s/1'']"
proof -
  obtain t r where t: "replay (flop_model FDRE) stim_example map_example = Inr (t, r)" using replay_example by blast
  have "labels_of (v_events stim_example) = [''s/1'']" by (simp add: labels_of_def stim_fields plain_event_def)
  then show ?thesis using t replay_samples[OF t] by (intro exI[of _ t] exI[of _ r]) simp
qed

end
