(* ===== verification/Stimgen.thy ===== *)
theory Stimgen
  imports Validate_Facts Attr_Values
begin

text \<open>
  \<open>tools/xut/stimgen.py\<close>: the stimulus builder, a state machine whose calls append events and move
  its time cursor. A call that raises gives the exception and no new state: a caller that goes
  on with the builder after an exception is not modelled. A value of a port is an \<open>int\<close>
  (\<open>VInt\<close>) or a text of bits (\<open>VStr\<close>).
\<close>

definition DEFAULT_SETTLE_PS :: int where "DEFAULT_SETTLE_PS = 120000"
definition DEFAULT_PERIOD_PS :: int where "DEFAULT_PERIOD_PS = 10000"

datatype gen_error =
    BelowMinSep string int
  | SettleTooShort int
  | PeriodTooShort int
  | NoInPort string
  | SetTwice int string
  | NotBits string
  | ValueTooBig string int
  | InsideSimultaneous string
  | InitTooLate
  | WrongClass string string
  | SeveralAsyncBits string nat
  | BadGlblEvent string int
  | MustAlternate string
  | SampleLabel string
  | SampleTwice string
  | NeedsPort "string list"
  | NegativeWait int
  | TooFewSimultaneous nat
  | DefinedTwice string
  | GenWrap wrap_error
  | GenKey string

record builder =
  b_map :: dut_map
  b_seed :: int
  b_settle :: int
  b_period :: int
  b_gap :: int
  b_sep :: int
  b_expect :: "string option"
  b_illegal :: "string list"
  b_t :: int
  b_events :: "event list"
  b_vals :: "(string, attr_val) dict"
  b_level :: "(string, bool) dict"
  b_set_at :: "int \<times> string list"
  b_last_change :: int
  b_last_edge :: "int option"
  b_n :: nat
  b_labels :: "string list"
  b_sim :: "event list option"

type_synonym gres = "(gen_error, builder) result"

definition lift_gen :: "(wrap_error, 'a) result \<Rightarrow> (gen_error, 'a) result" where
  "lift_gen = map_sum GenWrap id"

section \<open>Construction\<close>

definition new_builder ::
  "dut_map \<Rightarrow> int \<Rightarrow> int \<Rightarrow> int \<Rightarrow> int \<Rightarrow> int \<Rightarrow> string option \<Rightarrow> string list \<Rightarrow> gres" where
  "new_builder m seed settle_ps period_ps gap_ps async_sep_ps expect illegal =
     (if gap_ps < MIN_SEP_PS then Inl (BelowMinSep ''gap_ps'' gap_ps)
      else if async_sep_ps < MIN_SEP_PS then Inl (BelowMinSep ''async_sep_ps'' async_sep_ps)
      else if settle_ps < MIN_SETTLE_PS then Inl (SettleTooShort settle_ps)
      else let gap = max gap_ps (min_event_gap async_sep_ps m) in
      if period_ps div 2 < 3 * gap then Inl (PeriodTooShort period_ps)
      else Inr \<lparr>b_map = m, b_seed = seed, b_settle = settle_ps, b_period = period_ps, b_gap = gap,
             b_sep = async_sep_ps, b_expect = expect, b_illegal = illegal, b_t = settle_ps, b_events = [],
             b_vals = map (\<lambda>p. (p, VInt 0)) (in_ports m),
             b_level = dict_of (map (\<lambda>b. (''clk'' @ show_int (w_bit b), False)) (on_vec m ''clk'')),
             b_set_at = (- 1, []), b_last_change = 0, b_last_edge = None, b_n = 0, b_labels = [], b_sim = None\<rparr>)"

section \<open>Helpers\<close>

definition new_time :: "builder \<Rightarrow> builder" where
  "new_time b =
     (if b_events b \<noteq> [] \<and> e_t (last (b_events b)) < b_t b \<and> b_t b < e_t (last (b_events b)) + b_gap b
      then b\<lparr>b_t := e_t (last (b_events b)) + b_gap b\<rparr> else b)"

definition emit :: "string \<Rightarrow> string \<Rightarrow> int \<Rightarrow> int \<Rightarrow> string \<Rightarrow> builder \<Rightarrow> builder" where
  "emit op target lsb msb val b =
     (let b1 = new_time b;
          e = \<lparr>e_t = b_t b1, e_op = op, e_target = target, e_lsb = lsb, e_msb = msb, e_value = val,
               e_sim = (b_sim b1 \<noteq> None)\<rparr>
      in b1\<lparr>b_events := b_events b1 @ [e], b_sim := map_option (\<lambda>g. g @ [e]) (b_sim b1)\<rparr>)"

definition after :: "int \<Rightarrow> builder \<Rightarrow> builder" where
  "after t b = b\<lparr>b_t := max (b_t b) t\<rparr>"

text \<open>\<open>format(value, f"0{width}b")\<close>.\<close>

definition value_text :: "string \<Rightarrow> nat \<Rightarrow> attr_val \<Rightarrow> (gen_error, string) result" where
  "value_text port width v =
     (case v of
        VStr s \<Rightarrow> if length s \<noteq> width \<or> \<not> list_all bit01xz s then Inl (NotBits port) else Inr s
      | VInt i \<Rightarrow>
          if \<not> (0 \<le> i \<and> i < 2 ^ width) then Inl (ValueTooBig port i)
          else Inr (pad_left width (show_base 2 (nat i))))"

definition put_port :: "string \<Rightarrow> attr_val \<Rightarrow> builder \<Rightarrow> gres" where
  "put_port port v b =
     (let ws = port_bits (b_map b) ''in'' port '''' in
      if ws = [] then Inl (NoInPort port) else
      let b1 = new_time b;
          ports = (if fst (b_set_at b1) \<noteq> b_t b1 then [] else snd (b_set_at b1))
      in if port \<in> set ports then Inl (SetTwice (b_t b1) port)
         else rbind (value_text port (length ws) v) (\<lambda>s.
           let b2 = emit ''set'' ''in'' (w_bit (hd ws)) (w_bit (last ws)) s (b1\<lparr>b_set_at := (b_t b1, port # ports)\<rparr>)
           in Inr (b2\<lparr>b_vals := AList.update port v (b_vals b2), b_last_change := b_t b2\<rparr>)))"

definition alone_start :: "builder \<Rightarrow> builder" where
  "alone_start b = (if b_sim b = None then after (b_last_change b + b_gap b) b else b)"

definition alone_end :: "builder \<Rightarrow> builder" where
  "alone_end b = (if b_sim b = None then b\<lparr>b_t := b_t b + b_gap b\<rparr> else b)"

definition not_in_sim :: "string \<Rightarrow> builder \<Rightarrow> gres" where
  "not_in_sim what b = (if b_sim b \<noteq> None then Inl (InsideSimultaneous what) else Inr b)"

definition port_val :: "string \<Rightarrow> builder \<Rightarrow> (gen_error, attr_val) result" where
  "port_val port b = (case map_of (b_vals b) port of Some v \<Rightarrow> Inr v | None \<Rightarrow> Inl (NoInPort port))"

section \<open>Calls of a generator\<close>

definition put_ports :: "(string \<times> attr_val) list \<Rightarrow> builder \<Rightarrow> gres" where
  "put_ports ps b = rfold (\<lambda>b (p, v). put_port p v b) b ps"

definition init_ports :: "(string \<times> attr_val) list \<Rightarrow> builder \<Rightarrow> gres" where
  "init_ports ps b =
     (if list_ex (\<lambda>e. 0 < e_t e) (b_events b) then Inl InitTooLate
      else rbind (not_in_sim ''init()'' b) (\<lambda>b.
           rbind (put_ports ps (b\<lparr>b_t := 0\<rparr>)) (\<lambda>b'. Inr (b'\<lparr>b_t := b_t b, b_last_change := 0\<rparr>))))"

definition after_edge :: "int \<Rightarrow> builder \<Rightarrow> builder" where
  "after_edge d b = (case b_last_edge b of Some t \<Rightarrow> after (t + d) b | None \<Rightarrow> b)"

definition set_class :: "builder \<Rightarrow> string \<Rightarrow> (gen_error, unit) result" where
  "set_class b p =
     rbind (lift_gen (cls_of (b_map b) p)) (\<lambda>c.
       if c \<in> {''async'', ''gate'', ''clock''} \<and> b_sim b = None then Inl (WrongClass p c) else Inr ())"

definition set_ports :: "(string \<times> attr_val) list \<Rightarrow> builder \<Rightarrow> gres" where
  "set_ports ps b =
     rbind (rfold (\<lambda>_ (p, v). set_class b p) () ps) (\<lambda>_.
     let b1 = (if b_sim b = None then after_edge (b_gap b) b else b);
         b2 = (if b_sim b1 = None \<and> fst (b_set_at b1) = b_t b1 \<and>
                  list_ex (\<lambda>(p, v). p \<in> set (snd (b_set_at b1))) ps
               then b1\<lparr>b_t := b_t b1 + b_gap b1\<rparr> else b1)
     in rfold (\<lambda>b (p, v). if map_of (b_vals b) p \<noteq> Some v then put_port p v b else Inr b) b2 ps)"

definition async_spacing :: "builder \<Rightarrow> builder" where
  "async_spacing b = (if b_sim b = None then after_edge (b_sep b) (alone_start b) else b)"

definition async_after :: "builder \<Rightarrow> builder" where
  "async_after b = (let b1 = alone_end b in if b_sim b1 = None then after (b_last_change b1 + b_sep b1) b1 else b1)"

definition async_port :: "string \<Rightarrow> attr_val \<Rightarrow> builder \<Rightarrow> gres" where
  "async_port port v b =
     (let n = length (port_bits (b_map b) ''in'' port '''') in
      if b_sim b = None \<and> 1 < n then Inl (SeveralAsyncBits port n)
      else rbind (put_port port v (async_spacing b)) (\<lambda>b'. Inr (async_after b')))"

definition glbl_event :: "string \<Rightarrow> int \<Rightarrow> builder \<Rightarrow> gres" where
  "glbl_event sig v b =
     (if sig \<notin> {''GSR'', ''GTS'', ''GRESTORE''} \<or> v \<notin> {0, 1} then Inl (BadGlblEvent sig v)
      else let b1 = emit ''glbl'' sig 0 0 (show_int v) (async_spacing b)
           in Inr (async_after (b1\<lparr>b_last_change := b_t b1\<rparr>)))"

definition edge_port :: "string \<Rightarrow> bool \<Rightarrow> builder \<Rightarrow> gres" where
  "edge_port port rising b =
     rbind (lift_gen (clock_name (b_map b) port)) (\<lambda>name.
     case map_of (b_level b) name of
       None \<Rightarrow> Inl (GenKey name)
     | Some level \<Rightarrow>
         if level = rising then Inl (MustAlternate port)
         else let b1 = emit ''edge'' name 0 0 (if rising then ''r'' else ''f'') (alone_start b)
              in Inr (alone_end (b1\<lparr>b_level := AList.update name rising (b_level b1),
                                    b_last_edge := Some (b_t b1), b_last_change := b_t b1\<rparr>)))"

definition sample_at :: "string option \<Rightarrow> builder \<Rightarrow> gres" where
  "sample_at label b =
     rbind (not_in_sim ''sample()'' b) (\<lambda>b.
     let (l, b1) = (case label of Some l \<Rightarrow> (l, b)
                    | None \<Rightarrow> (''S'' @ show_nat (b_n b), b\<lparr>b_n := Suc (b_n b)\<rparr>))
     in if \<not> is_label l then Inl (SampleLabel l)
        else if l \<in> set (b_labels b1) then Inl (SampleTwice l)
        else let b2 = emit ''sample'' l 0 0 '''' (after (b_last_change b1 + b_gap b1) (b1\<lparr>b_labels := l # b_labels b1\<rparr>))
             in Inr (b2\<lparr>b_t := b_t b2 + b_gap b2\<rparr>))"

definition sample_if :: "bool \<Rightarrow> builder \<Rightarrow> gres" where
  "sample_if smp b = (if smp then sample_at None b else Inr b)"

definition one_cycle :: "string \<Rightarrow> bool \<Rightarrow> builder \<Rightarrow> gres" where
  "one_cycle port smp b =
     (let b0 = after (b_last_change b + b_gap b) b; start = b_t b0 in
      rbind (edge_port port True b0) (\<lambda>b1.
      rbind (sample_if smp b1) (\<lambda>b2.
      rbind (edge_port port False (after (start + b_period b2 div 2) b2)) (\<lambda>b3.
      rbind (sample_if smp b3) (\<lambda>b4. Inr (after (start + b_period b4) b4))))))"

definition cycle_port :: "string option \<Rightarrow> nat \<Rightarrow> bool \<Rightarrow> builder \<Rightarrow> gres" where
  "cycle_port port n smp b =
     rbind (not_in_sim ''cycle()'' b) (\<lambda>b.
     rbind (case port of
              Some p \<Rightarrow> Inr p
            | None \<Rightarrow> (case dedup (map w_port (on_vec (b_map b) ''clk'')) of
                         [p] \<Rightarrow> Inr p | clocks \<Rightarrow> Inl (NeedsPort clocks))) (\<lambda>p.
     rfold (\<lambda>b _. one_cycle p smp b) b [0..<n]))"

definition wait_ps :: "int \<Rightarrow> builder \<Rightarrow> gres" where
  "wait_ps ps b =
     rbind (not_in_sim ''wait()'' b) (\<lambda>b.
       if ps < 0 then Inl (NegativeWait ps) else Inr (b\<lparr>b_t := b_t b + ps\<rparr>))"

text \<open>\<open>with b.simultaneous():\<close>, entered and left.\<close>

definition enter_sim :: "builder \<Rightarrow> gres" where
  "enter_sim b =
     rbind (not_in_sim ''simultaneous()'' b) (\<lambda>b.
       Inr ((after_edge (b_gap b) (after (b_last_change b + b_gap b) b))\<lparr>b_sim := Some []\<rparr>))"

definition leave_sim :: "builder \<Rightarrow> gres" where
  "leave_sim b =
     (case b_sim b of
        None \<Rightarrow> Inr b
      | Some grp \<Rightarrow>
          if length grp < 2 then Inl (TooFewSimultaneous (length grp))
          else Inr (b\<lparr>b_sim := None, b_t := b_t b + b_gap b\<rparr>))"

definition build_header :: "builder \<Rightarrow> (string, string) dict" where
  "build_header b =
     (let m = b_map b in
      dict_update
       ([(''prim'', m_prim m), (''cfg'', m_cfg m), (''nin'', show_int (m_nin m)), (''nout'', show_int (m_nout m)),
         (''nclk'', show_int (m_nclk m)), (''settle_ps'', show_int (b_settle b)), (''seed'', show_int (b_seed b)),
         (''async_sep_ps'', show_int (b_sep b))] @
        (case b_expect b of Some e \<Rightarrow> if e \<noteq> [] then [(''expect'', e)] else [] | None \<Rightarrow> []) @
        (if b_illegal b \<noteq> [] then [(''illegal'', join '','' (b_illegal b))] else []))
       (map (\<lambda>(k, v). (''attr.'' @ k, v)) (m_attrs m)))"

definition build :: "builder \<Rightarrow> (gen_error, vec) result" where
  "build b =
     rbind (not_in_sim ''build()'' b) (\<lambda>b.
     let clocks = map (\<lambda>w. \<lparr>ck_name = ''clk'' @ show_int (w_bit w), ck_index = w_bit w, ck_period = b_period b,
           ck_phase = 0, ck_duty = 50, ck_mode = ''stepped''\<rparr>) (on_vec (b_map b) ''clk'');
         b1 = new_time (after (b_last_change b + b_gap b) b)
     in Inr \<lparr>v_header = build_header b, v_clocks = clocks,
             v_events = b_events b @ [plain_event (b_t b1) ''end'' '''' '''' False], v_hw = None, v_reason = ''''\<rparr>)"

text \<open>\<open>GenContext.dut\<close>: the specifications so far and a builder for one more.\<close>

definition gen_dut ::
  "(string \<Rightarrow> string option) \<Rightarrow> catalog_entry \<Rightarrow> int \<Rightarrow> (string, dut_spec) dict \<Rightarrow> string \<Rightarrow> bool \<Rightarrow>
   string option \<Rightarrow> string list \<Rightarrow> (string, pyval) dict \<Rightarrow>
   (gen_error, (string, dut_spec) dict \<times> builder) result" where
  "gen_dut fl entry seed specs cfg allow_illegal expect illegal attrs =
     (if dict_has specs cfg then Inl (DefinedTwice cfg)
      else rbind (lift_gen (spec_from_catalog fl entry cfg attrs allow_illegal False)) (\<lambda>spec.
           rbind (lift_gen (build_map spec)) (\<lambda>m.
           rbind (new_builder m seed DEFAULT_SETTLE_PS DEFAULT_PERIOD_PS DEFAULT_GAP_PS DEFAULT_ASYNC_SEP_PS expect illegal)
             (\<lambda>b. Inr (AList.update cfg spec specs, b)))))"

section \<open>A session of calls\<close>

datatype gcall =
    Init "(string \<times> attr_val) list"
  | SetPorts "(string \<times> attr_val) list"
  | Async string attr_val
  | GlblCall string int
  | EdgeCall string bool
  | SampleCall "string option"
  | CycleCall "string option" nat bool
  | Wait int
  | EnterSim
  | LeaveSim

fun gcall_step :: "builder \<Rightarrow> gcall \<Rightarrow> gres" where
  "gcall_step b (Init ps) = init_ports ps b"
| "gcall_step b (SetPorts ps) = set_ports ps b"
| "gcall_step b (Async p v) = async_port p v b"
| "gcall_step b (GlblCall s v) = glbl_event s v b"
| "gcall_step b (EdgeCall p r) = edge_port p r b"
| "gcall_step b (SampleCall l) = sample_at l b"
| "gcall_step b (CycleCall p n s) = cycle_port p n s b"
| "gcall_step b (Wait ps) = wait_ps ps b"
| "gcall_step b EnterSim = enter_sim b"
| "gcall_step b LeaveSim = leave_sim b"

text \<open>The builders a generator can have in hand.\<close>

inductive reachable :: "builder \<Rightarrow> bool" where
  reach_new: "new_builder m seed settle period gap sep expect illegal = Inr b \<Longrightarrow> reachable b"
| reach_step: "reachable b \<Longrightarrow> gcall_step b c = Inr b' \<Longrightarrow> reachable b'"

section \<open>Events are spaced by the gap\<close>

definition apart :: "int \<Rightarrow> event \<Rightarrow> event \<Rightarrow> bool" where
  "apart g a b \<longleftrightarrow> e_t a = e_t b \<or> e_t a + g \<le> e_t b"

definition builder_inv :: "builder \<Rightarrow> bool" where
  "builder_inv b \<longleftrightarrow>
     0 < b_gap b \<and> 0 < b_sep b \<and> 0 < b_period b \<and> min_event_gap (b_sep b) (b_map b) \<le> b_gap b \<and> 0 \<le> b_t b \<and>
     sorted_wrt (apart (b_gap b)) (b_events b) \<and> (\<forall>e \<in> set (b_events b). 0 \<le> e_t e \<and> e_t e \<le> b_t b)"

text \<open>A later cursor keeps the invariant.\<close>

lemma inv_later:
  assumes "builder_inv b" "b_gap b' = b_gap b" "b_sep b' = b_sep b" "b_period b' = b_period b" "b_map b' = b_map b"
    "b_events b' = b_events b" "b_t b \<le> b_t b'"
  shows "builder_inv b'"
  using assms by (fastforce simp: builder_inv_def)

lemma inv_after [intro]: "builder_inv b \<Longrightarrow> builder_inv (after t b)"
  by (erule inv_later) (simp_all add: after_def)

lemma inv_new_time: "builder_inv b \<Longrightarrow> builder_inv (new_time b)"
  by (erule inv_later) (simp_all add: new_time_def)

lemma new_time_apart:
  assumes "builder_inv b" "e \<in> set (b_events b)"
  shows "e_t e = b_t (new_time b) \<or> e_t e + b_gap b \<le> b_t (new_time b)"
proof -
  let ?l = "last (b_events b)"
  have ne: "b_events b \<noteq> []" using assms(2) by auto
  then have eq: "b_events b = butlast (b_events b) @ [?l]" by simp
  have "?l \<in> set (b_events b)" using ne by simp
  then have lt: "e_t ?l \<le> b_t b" using assms(1) by (simp add: builder_inv_def)
  have "e_t e = e_t ?l \<or> e_t e + b_gap b \<le> e_t ?l"
  proof (cases "e = ?l")
    case False
    have "e \<in> set (butlast (b_events b))" using assms(2) False by (metis eq rotate1.simps(2) set_ConsD set_rotate1)
    moreover have "sorted_wrt (apart (b_gap b)) (butlast (b_events b) @ [?l])"
      using assms(1) eq by (simp add: builder_inv_def)
    ultimately show ?thesis by (auto simp: sorted_wrt_append apart_def)
  qed simp
  moreover have "e_t ?l = b_t (new_time b) \<or> e_t ?l + b_gap b \<le> b_t (new_time b)"
    using ne lt by (auto simp: new_time_def)
  moreover have "0 < b_gap b" using assms(1) by (simp add: builder_inv_def)
  ultimately show ?thesis by linarith
qed

lemma new_time_fields [simp]:
  "b_events (new_time b) = b_events b" "b_gap (new_time b) = b_gap b" "b_sep (new_time b) = b_sep b"
  "b_map (new_time b) = b_map b" "b_sim (new_time b) = b_sim b" "b_period (new_time b) = b_period b"
  by (simp_all add: new_time_def)

lemma emit_fields [simp]:
  "b_gap (emit op tg l h v b) = b_gap b" "b_sep (emit op tg l h v b) = b_sep b" "b_period (emit op tg l h v b) = b_period b"
  "b_map (emit op tg l h v b) = b_map b" "b_t (emit op tg l h v b) = b_t (new_time b)"
  by (simp_all add: emit_def Let_def)

lemma inv_emit: "builder_inv b \<Longrightarrow> builder_inv (emit op tg l h v b)"
proof -
  assume b: "builder_inv b"
  let ?e = "\<lparr>e_t = b_t (new_time b), e_op = op, e_target = tg, e_lsb = l, e_msb = h, e_value = v, e_sim = (b_sim b \<noteq> None)\<rparr>"
  have ev: "b_events (emit op tg l h v b) = b_events b @ [?e]" by (simp add: emit_def Let_def)
  have n: "builder_inv (new_time b)" by (rule inv_new_time[OF b])
  have "sorted_wrt (apart (b_gap b)) (b_events b @ [?e])"
    using b new_time_apart[OF b] by (auto simp: sorted_wrt_append builder_inv_def apart_def)
  then show ?thesis using n ev by (auto simp: builder_inv_def)
qed

lemma inv_put:
  assumes "builder_inv b" "put_port p v b = Inr b'"
  shows "builder_inv b'" and "\<forall>e \<in> set (b_events b). e_t e = b_t b \<Longrightarrow>
    b_t b' = b_t b \<and> (\<forall>e \<in> set (b_events b'). e_t e = b_t b)"
proof -
  let ?b1 = "new_time b"
  obtain s l h q where b': "b' = (emit ''set'' ''in'' l h s (?b1\<lparr>b_set_at := q\<rparr>))
      \<lparr>b_vals := AList.update p v (b_vals (emit ''set'' ''in'' l h s (?b1\<lparr>b_set_at := q\<rparr>))),
       b_last_change := b_t (emit ''set'' ''in'' l h s (?b1\<lparr>b_set_at := q\<rparr>))\<rparr>"
    using assms(2) by (auto simp: put_port_def Let_def rbind_Inr_iff split: if_split_asm)
  have "builder_inv (?b1\<lparr>b_set_at := q\<rparr>)" by (rule inv_later[OF inv_new_time[OF assms(1)]]) simp_all
  then have "builder_inv (emit ''set'' ''in'' l h s (?b1\<lparr>b_set_at := q\<rparr>))" by (rule inv_emit)
  then show "builder_inv b'" by (rule inv_later) (simp_all add: b')
  assume a: "\<forall>e \<in> set (b_events b). e_t e = b_t b"
  have nt: "b_t ?b1 = b_t b" using a by (auto simp: new_time_def dest: last_in_set)
  then have "new_time (?b1\<lparr>b_set_at := q\<rparr>) = ?b1\<lparr>b_set_at := q\<rparr>" using a by (auto simp: new_time_def dest: last_in_set)
  then show "b_t b' = b_t b \<and> (\<forall>e \<in> set (b_events b'). e_t e = b_t b)"
    using a nt by (auto simp: b' emit_def Let_def)
qed

lemma inv_puts:
  "put_ports ps b = Inr b' \<Longrightarrow> builder_inv b \<Longrightarrow> \<forall>e \<in> set (b_events b). e_t e = b_t b \<Longrightarrow>
   builder_inv b' \<and> b_t b' = b_t b \<and> (\<forall>e \<in> set (b_events b'). e_t e = b_t b)"
proof (induction ps arbitrary: b)
  case (Cons pv ps)
  obtain p v where pv: "pv = (p, v)" by (cases pv)
  obtain b1 where 1: "put_port p v b = Inr b1" "put_ports ps b1 = Inr b'"
    using Cons.prems(1) pv by (auto simp: put_ports_def rbind_Inr_iff)
  have i: "builder_inv b1" "b_t b1 = b_t b" "\<forall>e \<in> set (b_events b1). e_t e = b_t b"
    using inv_put[OF Cons.prems(2) 1(1)] Cons.prems(3) by simp_all
  then show ?case using Cons.IH[OF 1(2) i(1)] by simp
qed (simp add: put_ports_def)

lemma inv_init:
  assumes "builder_inv b" "init_ports ps b = Inr b'"
  shows "builder_inv b'"
proof -
  obtain b1 where 1: "\<not> list_ex (\<lambda>e. 0 < e_t e) (b_events b)" "put_ports ps (b\<lparr>b_t := 0\<rparr>) = Inr b1"
    "b' = b1\<lparr>b_t := b_t b, b_last_change := 0\<rparr>"
    using assms(2) by (auto simp: init_ports_def not_in_sim_def rbind_Inr_iff split: if_split_asm)
  have z: "\<forall>e \<in> set (b_events b). e_t e = 0"
    using assms(1) 1(1) by (force simp: builder_inv_def list_ex_iff)
  have "builder_inv (b\<lparr>b_t := 0\<rparr>)" using assms(1) z by (auto simp: builder_inv_def)
  from inv_puts[OF 1(2) this] z have "builder_inv b1" "b_t b1 = 0" by simp_all
  then show ?thesis by (intro inv_later[OF \<open>builder_inv b1\<close>]) (use assms(1) in \<open>simp_all add: 1(3) builder_inv_def\<close>)
qed

lemma inv_after_edge: "builder_inv b \<Longrightarrow> builder_inv (after_edge d b)"
  by (auto simp: after_edge_def split: option.splits)

lemma inv_alone_start: "builder_inv b \<Longrightarrow> builder_inv (alone_start b)"
  by (auto simp: alone_start_def)

lemma inv_alone_end: "builder_inv b \<Longrightarrow> builder_inv (alone_end b)"
  by (rule inv_later) (auto simp: alone_end_def builder_inv_def)

lemma inv_set:
  assumes "builder_inv b" "set_ports ps b = Inr b'"
  shows "builder_inv b'"
proof -
  let ?b1 = "if b_sim b = None then after_edge (b_gap b) b else b"
  let ?b2 = "if b_sim ?b1 = None \<and> fst (b_set_at ?b1) = b_t ?b1 \<and> list_ex (\<lambda>(p, v). p \<in> set (snd (b_set_at ?b1))) ps
     then ?b1\<lparr>b_t := b_t ?b1 + b_gap ?b1\<rparr> else ?b1"
  have r: "rfold (\<lambda>b (p, v). if map_of (b_vals b) p \<noteq> Some v then put_port p v b else Inr b) ?b2 ps = Inr b'"
    using assms(2) by (auto simp: set_ports_def Let_def rbind_Inr_iff)
  have 1: "builder_inv ?b1" using assms(1) inv_after_edge by simp
  have 2: "builder_inv ?b2" by (rule inv_later[OF 1]) (use 1 in \<open>auto simp: builder_inv_def\<close>)
  show ?thesis
    by (rule rfold_invariant[OF r, where P = builder_inv]) (use 2 inv_put(1) in \<open>auto split: if_split_asm\<close>)
qed

lemma inv_async_spacing: "builder_inv b \<Longrightarrow> builder_inv (async_spacing b)"
  by (simp add: async_spacing_def inv_after_edge inv_alone_start)

lemma inv_async_after: "builder_inv b \<Longrightarrow> builder_inv (async_after b)"
  using inv_alone_end by (auto simp: async_after_def Let_def)

lemma inv_async: "builder_inv b \<Longrightarrow> async_port p v b = Inr b' \<Longrightarrow> builder_inv b'"
  using inv_put(1)[OF inv_async_spacing] inv_async_after
  by (auto simp: async_port_def Let_def rbind_Inr_iff split: if_split_asm)

lemma inv_glbl: "builder_inv b \<Longrightarrow> glbl_event s v b = Inr b' \<Longrightarrow> builder_inv b'"
proof -
  assume b: "builder_inv b" and g: "glbl_event s v b = Inr b'"
  let ?b1 = "emit ''glbl'' s 0 0 (show_int v) (async_spacing b)"
  have "builder_inv ?b1" by (rule inv_emit[OF inv_async_spacing[OF b]])
  then have "builder_inv (?b1\<lparr>b_last_change := b_t ?b1\<rparr>)" by (rule inv_later) simp_all
  then show ?thesis using g inv_async_after by (auto simp: glbl_event_def Let_def split: if_split_asm)
qed

lemma inv_edge: "builder_inv b \<Longrightarrow> edge_port p r b = Inr b' \<Longrightarrow> builder_inv b'"
proof -
  assume b: "builder_inv b" and g: "edge_port p r b = Inr b'"
  obtain name where "b' = alone_end ((emit ''edge'' name 0 0 (if r then ''r'' else ''f'') (alone_start b))
      \<lparr>b_level := AList.update name r (b_level (emit ''edge'' name 0 0 (if r then ''r'' else ''f'') (alone_start b))),
       b_last_edge := Some (b_t (emit ''edge'' name 0 0 (if r then ''r'' else ''f'') (alone_start b))),
       b_last_change := b_t (emit ''edge'' name 0 0 (if r then ''r'' else ''f'') (alone_start b))\<rparr>)"
    using g by (auto simp: edge_port_def Let_def rbind_Inr_iff split: option.splits if_split_asm)
  moreover have "builder_inv (emit ''edge'' name 0 0 (if r then ''r'' else ''f'') (alone_start b))"
    by (rule inv_emit[OF inv_alone_start[OF b]])
  ultimately show ?thesis by (auto intro!: inv_alone_end elim!: inv_later)
qed

lemma inv_sample: "builder_inv b \<Longrightarrow> sample_at l b = Inr b' \<Longrightarrow> builder_inv b'"
proof -
  assume b: "builder_inv b" and g: "sample_at l b = Inr b'"
  define lb where "lb = (case l of Some l \<Rightarrow> l | None \<Rightarrow> ''S'' @ show_nat (b_n b))"
  define b1 where "b1 = (case l of Some l \<Rightarrow> b | None \<Rightarrow> b\<lparr>b_n := Suc (b_n b)\<rparr>)"
  have b1: "b_gap b1 = b_gap b" "b_sep b1 = b_sep b" "b_period b1 = b_period b" "b_map b1 = b_map b"
      "b_events b1 = b_events b" "b_t b1 = b_t b" by (simp_all add: b1_def split: option.split)
  have b': "b' = (emit ''sample'' lb 0 0 '''' (after (b_last_change b1 + b_gap b1) (b1\<lparr>b_labels := lb # b_labels b1\<rparr>)))
        \<lparr>b_t := b_t (emit ''sample'' lb 0 0 '''' (after (b_last_change b1 + b_gap b1) (b1\<lparr>b_labels := lb # b_labels b1\<rparr>))) +
           b_gap (emit ''sample'' lb 0 0 '''' (after (b_last_change b1 + b_gap b1) (b1\<lparr>b_labels := lb # b_labels b1\<rparr>)))\<rparr>"
    using g by (cases l) (auto simp: sample_at_def not_in_sim_def Let_def rbind_Inr_iff lb_def b1_def split: if_split_asm)
  have "builder_inv (b1\<lparr>b_labels := lb # b_labels b1\<rparr>)" by (rule inv_later[OF b]) (simp_all add: b1)
  then have "builder_inv (emit ''sample'' lb 0 0 '''' (after (b_last_change b1 + b_gap b1) (b1\<lparr>b_labels := lb # b_labels b1\<rparr>)))"
    by (intro inv_emit inv_after)
  then show ?thesis by (rule inv_later) (use b in \<open>simp_all add: b' builder_inv_def after_def b1\<close>)
qed

lemma inv_cycle: "builder_inv b \<Longrightarrow> one_cycle p s b = Inr b' \<Longrightarrow> builder_inv b'"
proof -
  assume b: "builder_inv b" and c: "one_cycle p s b = Inr b'"
  have smp: "builder_inv y" if "builder_inv x" "sample_if s x = Inr y" for x y
    using that inv_sample by (auto simp: sample_if_def split: if_split_asm)
  define b0 where "b0 = after (b_last_change b + b_gap b) b"
  obtain b1 b2 b3 b4 where r: "edge_port p True b0 = Inr b1" "sample_if s b1 = Inr b2"
    "edge_port p False (after (b_t b0 + b_period b2 div 2) b2) = Inr b3" "sample_if s b3 = Inr b4"
    "b' = after (b_t b0 + b_period b4) b4"
    using c by (auto simp: one_cycle_def Let_def rbind_Inr_iff b0_def)
  have "builder_inv b0" unfolding b0_def using b by (rule inv_after)
  then have "builder_inv b2" using inv_edge[OF _ r(1)] smp[OF _ r(2)] by blast
  then have "builder_inv b3" by (rule inv_edge[OF inv_after r(3)])
  then show ?thesis unfolding r(5) using smp[OF _ r(4)] inv_after by blast
qed

lemma inv_step: "builder_inv b \<Longrightarrow> gcall_step b c = Inr b' \<Longrightarrow> builder_inv b'"
proof (cases c)
  case (CycleCall port n s)
  assume b: "builder_inv b" and g: "gcall_step b c = Inr b'"
  obtain p where r: "rfold (\<lambda>b _. one_cycle p s b) b [0..<n] = Inr b'"
    using g CycleCall by (auto simp: cycle_port_def not_in_sim_def rbind_Inr_iff split: if_split_asm)
  show ?thesis by (rule rfold_invariant[OF r, where P = builder_inv]) (use b inv_cycle in auto)
next
  case (Wait ps)
  assume b: "builder_inv b" and g: "gcall_step b c = Inr b'"
  then show ?thesis using Wait by (intro inv_later[OF b]) (auto simp: wait_ps_def not_in_sim_def rbind_Inr_iff split: if_split_asm)
next
  case EnterSim
  assume b: "builder_inv b" and g: "gcall_step b c = Inr b'"
  have "builder_inv (after_edge (b_gap b) (after (b_last_change b + b_gap b) b))" by (intro inv_after_edge inv_after b)
  then show ?thesis by (rule inv_later) (use g EnterSim in \<open>auto simp: enter_sim_def not_in_sim_def rbind_Inr_iff split: if_split_asm\<close>)
next
  case LeaveSim
  assume b: "builder_inv b" and g: "gcall_step b c = Inr b'"
  then show ?thesis using LeaveSim
    by (intro inv_later[OF b]) (auto simp: leave_sim_def builder_inv_def split: option.splits if_split_asm)
qed (auto intro: inv_init inv_set inv_async inv_glbl inv_edge inv_sample)

lemma inv_new:
  assumes "new_builder m seed settle period gap sep expect illegal = Inr b"
  shows "builder_inv b"
proof -
  let ?g = "max gap (min_event_gap sep m)"
  have c: "MIN_SEP_PS \<le> gap" "MIN_SEP_PS \<le> sep" "MIN_SETTLE_PS \<le> settle" "3 * ?g \<le> period div 2"
    and b: "b_gap b = ?g" "b_sep b = sep" "b_map b = m" "b_events b = []" "b_t b = settle" "b_period b = period"
    using assms by (simp_all add: new_builder_def Let_def not_less split: if_split_asm) auto
  have pos: "0 \<le> MIN_SETTLE_PS" "0 < MIN_SEP_PS"
    by (simp_all add: MIN_SETTLE_PS_def ROC_WIDTH_PS_def SETTLE_MARGIN_PS_def MIN_SEP_PS_def)
  have g: "0 < ?g" "min_event_gap sep m \<le> ?g" using c(1) pos(2) by linarith+
  have "0 < period" using c(4) g(1) by presburger
  moreover have "0 < sep" "0 \<le> settle" using c pos by linarith+
  ultimately show ?thesis using g by (simp add: builder_inv_def b)
qed

lemma reachable_inv: "reachable b \<Longrightarrow> builder_inv b"
  by (induction rule: reachable.induct) (auto intro: inv_new inv_step)

section \<open>What is built\<close>

lemma gap_pairs:
  assumes "sorted ts" "distinct ts" and "\<And>x y. x \<in> set ts \<Longrightarrow> y \<in> set ts \<Longrightarrow> x < y \<Longrightarrow> x + g \<le> y"
  shows "concat (map (\<lambda>(prev, t). when_msg (t - prev < g) (H_Gap t (t - prev) prev)) (zip ts (tl ts))) = []"
  using assms
proof (induction ts)
  case (Cons x ts)
  show ?case
  proof (cases ts)
    case (Cons y zs)
    then have "x < y" using Cons.prems(1,2) by (auto simp: order.strict_iff_order)
    then have "x + g \<le> y" using Cons.prems(3)[of x y] \<open>ts = y # zs\<close> by simp
    moreover have "concat (map (\<lambda>(prev, t). when_msg (t - prev < g) (H_Gap t (t - prev) prev)) (zip ts (tl ts))) = []"
      using Cons.prems by (intro Cons.IH) auto
    ultimately show ?thesis using \<open>ts = y # zs\<close> by (simp add: when_msg_def)
  qed simp
qed simp

lemma gap_msgs_none:
  assumes "sorted_wrt (apart g) (v_events v)" "h \<le> g" "0 < g"
  shows "gap_msgs v h = []"
proof -
  let ?ts = "sort (dedup (map e_t (filter (\<lambda>e. \<not> initial_set e) (v_events v))))"
  have "x + h \<le> y" if xy: "x \<in> set ?ts" "y \<in> set ?ts" "x < y" for x y
  proof -
    obtain i j where i: "i < length (v_events v)" "x = e_t (v_events v ! i)"
      and j: "j < length (v_events v)" "y = e_t (v_events v ! j)"
      using xy(1,2) by (auto simp: in_set_conv_nth)
    consider "i < j" | "j < i" | "i = j" by linarith
    then show ?thesis
    proof cases
      case 1
      then have "apart g (v_events v ! i) (v_events v ! j)" using assms(1) j(1) by (simp add: sorted_wrt_iff_nth_less)
      then show ?thesis using xy(3) i j assms(2) by (auto simp: apart_def)
    next
      case 2
      then have "apart g (v_events v ! j) (v_events v ! i)" using assms(1) i(1) by (simp add: sorted_wrt_iff_nth_less)
      then show ?thesis using xy(3) i j assms(3) by (auto simp: apart_def)
    qed (use xy(3) i j in simp)
  qed
  then show ?thesis unfolding gap_msgs_def Let_def by (intro gap_pairs) (simp_all)
qed

lemma apart_sorted: "sorted_wrt (apart g) es \<Longrightarrow> 0 \<le> g \<Longrightarrow> sorted (map e_t es)"
  by (induction es) (auto simp: apart_def)

lemma build_apart:
  assumes "builder_inv b" "build b = Inr v"
  shows "sorted_wrt (apart (b_gap b)) (v_events v)"
proof -
  let ?a = "after (b_last_change b + b_gap b) b"
  have i: "builder_inv ?a" by (rule inv_after[OF assms(1)])
  have f: "b_events ?a = b_events b" "b_gap ?a = b_gap b" by (simp_all add: after_def)
  have "v_events v = b_events b @ [plain_event (b_t (new_time ?a)) ''end'' '''' '''' False]"
    using assms(2) by (auto simp: build_def Let_def not_in_sim_def rbind_Inr_iff split: if_split_asm)
  moreover have "sorted_wrt (apart (b_gap b)) (b_events b)" using assms(1) by (simp add: builder_inv_def)
  ultimately show ?thesis
    using new_time_apart[OF i] f by (auto simp: sorted_wrt_append apart_def plain_event_def)
qed

text \<open>
  C21. Whatever calls a generator makes, the timeline it builds is sorted and no two of its
  distinct event times are closer than the least event gap validation asks of renderable
  stimulus: none of its gap messages is reported.
\<close>

theorem builder_spaced:
  assumes "reachable b" "build b = Inr v"
  shows "gap_msgs v (min_event_gap (b_sep b) (b_map b)) = [] \<and> sorted (map e_t (v_events v))"
proof -
  have i: "builder_inv b" by (rule reachable_inv[OF assms(1)])
  then have g: "0 < b_gap b" "min_event_gap (b_sep b) (b_map b) \<le> b_gap b" by (simp_all add: builder_inv_def)
  have a: "sorted_wrt (apart (b_gap b)) (v_events v)" by (rule build_apart[OF i assms(2)])
  show ?thesis using gap_msgs_none[OF a g(2,1)] apart_sorted[OF a] g(1) by simp
qed

definition stim_builder :: builder where
  "stim_builder =
     \<lparr>b_map = map_example, b_seed = 0, b_settle = 120000, b_period = 200000, b_gap = 25000, b_sep = 25000,
      b_expect = None, b_illegal = [], b_t = 120000, b_events = [],
      b_vals = [(''CE'', VInt 0), (''D'', VInt 0), (''R'', VInt 0)], b_level = [(''clk0'', False)],
      b_set_at = (- 1, []), b_last_change = 0, b_last_edge = None, b_n = 0, b_labels = [], b_sim = None\<rparr>"

lemma stim_builder_new: "new_builder map_example 0 120000 200000 1000 25000 None [] = Inr stim_builder"
  by code_simp

definition stim_builder_set :: builder where
  "stim_builder_set = stim_builder
     \<lparr>b_events := [\<lparr>e_t = 120000, e_op = ''set'', e_target = ''in'', e_lsb = 1, e_msb = 1, e_value = ''1'', e_sim = False\<rparr>],
      b_vals := [(''CE'', VInt 0), (''D'', VInt 1), (''R'', VInt 0)], b_set_at := (120000, [''D'']), b_last_change := 120000\<rparr>"

lemma stim_builder_call: "gcall_step stim_builder (SetPorts [(''D'', VInt 1)]) = Inr stim_builder_set"
  by code_simp

definition stim_built :: vec where
  "stim_built =
     \<lparr>v_header = build_header stim_builder_set,
      v_clocks = [\<lparr>ck_name = ''clk0'', ck_index = 0, ck_period = 200000, ck_phase = 0, ck_duty = 50, ck_mode = ''stepped''\<rparr>],
      v_events = b_events stim_builder_set @ [plain_event 145000 ''end'' '''' '''' False], v_hw = None, v_reason = ''''\<rparr>"

lemma stim_built_eq: "build stim_builder_set = Inr stim_built"
proof -
  have w: "map w_bit (on_vec map_example ''clk'') = [0]" and "show_int 0 = ''0''" by code_simp+
  obtain c where "on_vec map_example ''clk'' = [c]" "w_bit c = 0" using w by (cases "on_vec map_example ''clk''") auto
  moreover note \<open>show_int 0 = ''0''\<close>
  ultimately show ?thesis
    by (simp add: build_def stim_built_def not_in_sim_def stim_builder_set_def stim_builder_def after_def new_time_def Let_def)
qed

lemma stim_builder_reachable: "reachable stim_builder_set"
  by (rule reach_step[OF reach_new[OF stim_builder_new] stim_builder_call])

lemma builder_spaced_witness:
  "gap_msgs stim_built (min_event_gap 25000 map_example) = [] \<and> sorted (map e_t (v_events stim_built))"
  using builder_spaced[OF stim_builder_reachable stim_built_eq]
  by (simp add: stim_builder_set_def stim_builder_def)

text \<open>
  The module's text says the builder emits only valid stimulus; a wide \<open>async_sep_ps\<close> is accepted
  together with a first change nearer than that to the release of GSR, which validation reports.
\<close>

lemma builder_gsr_release:
  "new_builder map_example 0 120000 200000 1000 25000 None [] = Inr stim_builder \<and>
   gcall_step stim_builder (SetPorts [(''D'', VInt 1)]) = Inr stim_builder_set \<and>
   build stim_builder_set = Inr stim_built \<and>
   gsr_release_msgs (timeline stim_built []) 25000 = [V_GsrRelease 120000]"
proof -
  have "gsr_release_msgs (timeline stim_built []) 25000 = [V_GsrRelease 120000]"
    by (simp add: gsr_release_msgs_def timeline_def stim_built_def stim_builder_set_def stim_builder_def
        plain_event_def initial_set_def when_msg_def ROC_WIDTH_PS_def dedup_def)
  then show ?thesis using stim_builder_new stim_builder_call stim_built_eq by simp
qed

end
