(* ===== verification/Memory_Budget.thy ===== *)
theory Memory_Budget
  imports Prelude
begin

text \<open>
  Memory sizes and budgets: \<open>_parse_size\<close> to \<open>max_jobs\<close> of \<open>tools/xut/container.py\<close>, and what
  \<open>tools/xut/heavy.py\<close> and \<open>tools/xut/slots.py\<close> read from the environment and reserve of the host's budget.
  The environment of the process is a map from names to texts; texts are ASCII.
\<close>

type_synonym environ = "string \<Rightarrow> string option"

section \<open>Sizes\<close>

definition DEFAULT_MEMORY :: string where "DEFAULT_MEMORY = ''4g''"
definition MEMORY_ENV :: string where "MEMORY_ENV = ''XUT_CONTAINER_MEMORY''"
definition MEMORY_MIN :: string where "MEMORY_MIN = ''64m''"
definition MEMORY_MAX :: string where "MEMORY_MAX = ''32g''"
definition DEFAULT_BUDGET :: string where "DEFAULT_BUDGET = ''100g''"
definition BUDGET_ENV :: string where "BUDGET_ENV = ''XUT_MEMORY_BUDGET''"

definition unit_bytes :: "char \<Rightarrow> int option" where
  "unit_bytes c =
     (if c = CHR ''k'' then Some 1024 else if c = CHR ''m'' then Some 1048576
      else if c = CHR ''g'' then Some 1073741824 else None)"

definition parse_size :: "string \<Rightarrow> int option" where
  "parse_size s =
     (if s = [] \<or> butlast s = [] \<or> \<not> list_all is_digit (butlast s) then None
      else case unit_bytes (last s) of
             None \<Rightarrow> None
           | Some u \<Rightarrow> map_option (\<lambda>n. int n * u) (parse_base 10 (butlast s)))"

datatype size_error =
    NotASize string string "string option"
  | OutOfRange string string "string option"
  | BudgetBelowCap string string

definition size_bytes :: "string \<Rightarrow> string \<Rightarrow> string option \<Rightarrow> (size_error, int) result" where
  "size_bytes v what hi =
     (case parse_size v of
        None \<Rightarrow> Inl (NotASize what v hi)
      | Some n \<Rightarrow>
          if n < the (parse_size MEMORY_MIN) \<or>
             (case Option.bind hi parse_size of None \<Rightarrow> False | Some h \<Rightarrow> h < n)
          then Inl (OutOfRange what v hi) else Inr n)"

definition container_memory :: "environ \<Rightarrow> string option \<Rightarrow> (size_error, string) result" where
  "container_memory env memory =
     (let (m, what) = (case memory of
            None \<Rightarrow> (case env MEMORY_ENV of Some m \<Rightarrow> m | None \<Rightarrow> DEFAULT_MEMORY, CHR ''$'' # MEMORY_ENV)
          | Some m \<Rightarrow> (m, ''container memory cap''))
      in rbind (size_bytes m what (Some MEMORY_MAX)) (\<lambda>_. Inr m))"

definition max_jobs :: "environ \<Rightarrow> (size_error, int \<times> string \<times> string) result" where
  "max_jobs env =
     rbind (container_memory env None) (\<lambda>cap.
     let budget = (case env BUDGET_ENV of Some b \<Rightarrow> b | None \<Rightarrow> DEFAULT_BUDGET) in
     rbind (size_bytes budget (CHR ''$'' # BUDGET_ENV) None) (\<lambda>b.
     rbind (size_bytes cap (CHR ''$'' # MEMORY_ENV) (Some MEMORY_MAX)) (\<lambda>c.
       if b div c = 0 then Inl (BudgetBelowCap budget cap) else Inr (b div c, budget, cap))))"

section \<open>Reservations\<close>

definition BUDGET_G :: int where "BUDGET_G = 96"
definition TOKEN_G :: int where "TOKEN_G = 4"
definition TOKENS :: int where "TOKENS = BUDGET_G div TOKEN_G"
definition VIVADO_G :: int where "VIVADO_G = 16"
definition NESTED_ENV :: string where "NESTED_ENV = ''XUT_HEAVY''"
definition VIVADO_ENV :: string where "VIVADO_ENV = ''XUT_HEAVY_VIVADO''"
definition G_BYTES :: int where "G_BYTES = 1073741824"

datatype heavy_error =
    NoRuntimeDir
  | NoReservation
  | HeavySize size_error
  | OverBudget string int string int int
  | AutoJobs string string
  | TokenCount int
  | UnitName string
  | NestedHeavy
  | NoCommand
  | NegativeVivado int
  | TooParallel nat int

definition runtime_dir :: "environ \<Rightarrow> (heavy_error, string) result" where
  "runtime_dir env =
     (case env ''XDG_RUNTIME_DIR'' of
        None \<Rightarrow> Inl NoRuntimeDir
      | Some base \<Rightarrow> if base = [] then Inl NoRuntimeDir else Inr base)"

definition token_dir :: "environ \<Rightarrow> (heavy_error, string) result" where
  "token_dir env = rbind (runtime_dir env) (\<lambda>d. Inr (d @ ''/xut-heavy.d''))"

text \<open>\<open>str.isdigit\<close>, and the number of such a text.\<close>

definition digits_val :: "string \<Rightarrow> nat option" where
  "digits_val s = (if s \<noteq> [] \<and> list_all is_digit s then parse_base 10 s else None)"

definition vivado_reserved :: "environ \<Rightarrow> (heavy_error, nat) result" where
  "vivado_reserved env =
     (let raw = (case env VIVADO_ENV of Some r \<Rightarrow> r | None \<Rightarrow> '''');
          n = (case digits_val raw of Some n \<Rightarrow> n | None \<Rightarrow> 0)
      in if env NESTED_ENV \<noteq> Some ''1'' \<or> n < 1 then Inl NoReservation else Inr n)"

definition lift_size :: "(size_error, 'a) result \<Rightarrow> (heavy_error, 'a) result" where
  "lift_size = map_sum HeavySize id"

definition tokens_for ::
  "environ \<Rightarrow> string \<Rightarrow> int \<Rightarrow> string option \<Rightarrow> int \<Rightarrow> (heavy_error, int) result" where
  "tokens_for env mem containers container_cap vivado =
     rbind (lift_size (container_memory env container_cap)) (\<lambda>cap.
     rbind (lift_size (size_bytes (lower mem) (''--mem '' @ mem) None)) (\<lambda>m.
     rbind (lift_size (size_bytes cap ''container cap'' None)) (\<lambda>c.
       let total = m + containers * c + vivado * VIVADO_G * G_BYTES;
           need = - ((- total) div (TOKEN_G * G_BYTES))
       in if TOKENS < need then Inl (OverBudget mem containers cap vivado total) else Inr need)))"

text \<open>The bytes a declaration stands for.\<close>

definition declared_bytes :: "environ \<Rightarrow> string \<Rightarrow> int \<Rightarrow> string option \<Rightarrow> int \<Rightarrow> int option" where
  "declared_bytes env mem containers container_cap vivado =
     (case container_memory env container_cap of
        Inl _ \<Rightarrow> None
      | Inr cap \<Rightarrow>
          (case (parse_size (lower mem), parse_size cap) of
             (Some m, Some c) \<Rightarrow> Some (m + containers * c + vivado * VIVADO_G * G_BYTES)
           | _ \<Rightarrow> None))"

section \<open>Vivado slots\<close>

definition SLOTS_ENV :: string where "SLOTS_ENV = ''XUT_VIVADO_SLOTS''"
definition DEFAULT_SLOTS :: int where "DEFAULT_SLOTS = 4"

datatype slot_error = BadSlotCount string | NoSlots int

definition slot_count :: "environ \<Rightarrow> (slot_error, int) result" where
  "slot_count env =
     (let raw = (case env SLOTS_ENV of Some r \<Rightarrow> r | None \<Rightarrow> show_int DEFAULT_SLOTS);
          n = (case py_int raw of Some n \<Rightarrow> n | None \<Rightarrow> 0)
      in if n < 1 then Inl (BadSlotCount raw) else Inr n)"

text \<open>\<open>tmp\<close> is \<open>tempfile.gettempdir()\<close> and \<open>uid\<close> is \<open>os.getuid()\<close>.\<close>

definition slot_dir :: "environ \<Rightarrow> string \<Rightarrow> nat \<Rightarrow> string" where
  "slot_dir env tmp uid =
     (let base = (case env ''XDG_RUNTIME_DIR'' of
            Some b \<Rightarrow> if b = [] then tmp @ ''/xut-'' @ show_nat uid else b
          | None \<Rightarrow> tmp @ ''/xut-'' @ show_nat uid)
      in base @ ''/xut-vivado'')"

section \<open>Facts\<close>

lemma unit_bytes_pos: "unit_bytes c = Some u \<Longrightarrow> 0 < u"
  by (auto simp: unit_bytes_def split: if_split_asm)

lemma parse_size_min: "parse_size MEMORY_MIN = Some 67108864"
  by (simp add: parse_size_def MEMORY_MIN_def unit_bytes_def is_digit_def parse_base_def digit_val_def)

lemma size_bytes_Inr: "size_bytes v what hi = Inr n \<Longrightarrow> parse_size v = Some n \<and> 67108864 \<le> n"
  by (auto simp: size_bytes_def parse_size_min not_less split: option.splits if_split_asm)

lemma container_memory_Inr:
  "container_memory env m = Inr cap \<Longrightarrow> \<exists>n. parse_size cap = Some n \<and> 67108864 \<le> n"
  by (auto simp: container_memory_def rbind_Inr_iff Let_def dest!: size_bytes_Inr split: option.splits)

lemma ceil_div:
  fixes t k :: int
  assumes "0 < k"
  shows "t \<le> - ((- t) div k) * k" and "(- ((- t) div k) - 1) * k < t"
proof -
  have "- t = ((- t) div k) * k + (- t) mod k" by (rule div_mult_mod_eq[symmetric])
  moreover have "0 \<le> (- t) mod k" "(- t) mod k < k" using assms by simp_all
  moreover have "- ((- t) div k) * k = - (((- t) div k) * k)" "(- ((- t) div k) - 1) * k = - (((- t) div k) * k) - k"
    by (simp_all add: left_diff_distrib)
  ultimately show "t \<le> - ((- t) div k) * k" "(- ((- t) div k) - 1) * k < t"
    by linarith+
qed

lemma tokens_Inr:
  assumes "tokens_for env mem n cap v = Inr need"
  shows "\<exists>m c. container_memory env cap = Inr c \<and> size_bytes (lower mem) (''--mem '' @ mem) None = Inr m \<and>
    (\<exists>cb. size_bytes c ''container cap'' None = Inr cb \<and>
      need = - ((- (m + n * cb + v * VIVADO_G * G_BYTES)) div (TOKEN_G * G_BYTES)) \<and> need \<le> TOKENS)"
  using assms by (auto simp: tokens_for_def rbind_Inr_iff Let_def lift_size_def map_sum_Inr split: if_split_asm)

text \<open>
  The tokens a command is given cover what it declares: its scope cap, its containers and its
  Vivado runs together need at most that many tokens of 4G, more than one token less, and the
  number is between 1 and the whole budget.
\<close>

theorem tokens_cover:
  assumes "tokens_for env mem n cap v = Inr need" "0 \<le> n" "0 \<le> v"
  shows "1 \<le> need \<and> need \<le> TOKENS \<and>
    (\<exists>b. declared_bytes env mem n cap v = Some b \<and> b \<le> need * (TOKEN_G * G_BYTES) \<and> (need - 1) * (TOKEN_G * G_BYTES) < b)"
proof -
  obtain m c cb where c: "container_memory env cap = Inr c" and m: "size_bytes (lower mem) (''--mem '' @ mem) None = Inr m"
    and cb: "size_bytes c ''container cap'' None = Inr cb"
    and need: "need = - ((- (m + n * cb + v * VIVADO_G * G_BYTES)) div (TOKEN_G * G_BYTES))" "need \<le> TOKENS"
    using tokens_Inr[OF assms(1)] by blast
  let ?b = "m + n * cb + v * VIVADO_G * G_BYTES"
  have k: "0 < TOKEN_G * G_BYTES" by (simp add: TOKEN_G_def G_BYTES_def)
  have b: "?b \<le> need * (TOKEN_G * G_BYTES)" "(need - 1) * (TOKEN_G * G_BYTES) < ?b"
    unfolding need(1) by (rule ceil_div[OF k])+
  have "declared_bytes env mem n cap v = Some ?b"
    using c size_bytes_Inr[OF m] size_bytes_Inr[OF cb] by (simp add: declared_bytes_def)
  moreover have "0 < ?b"
    using size_bytes_Inr[OF m] size_bytes_Inr[OF cb] assms(2,3) by (simp add: add_pos_nonneg VIVADO_G_def G_BYTES_def)
  then have "0 < need * (TOKEN_G * G_BYTES)" using b(1) by linarith
  then have "1 \<le> need" using k by (simp add: zero_less_mult_iff)
  ultimately show ?thesis using b need(2) by blast
qed

text \<open>
  The containers \<open>max_jobs\<close> allows at once, each at its cap, fit in the memory budget, one more
  would not, and at least one is allowed.
\<close>

theorem jobs_within_budget:
  assumes "max_jobs env = Inr (n, budget, cap)"
  shows "\<exists>b c. parse_size budget = Some b \<and> parse_size cap = Some c \<and> 1 \<le> n \<and> n * c \<le> b \<and> b < (n + 1) * c"
proof -
  obtain b c where b: "size_bytes budget (CHR ''$'' # BUDGET_ENV) None = Inr b"
    and c: "size_bytes cap (CHR ''$'' # MEMORY_ENV) (Some MEMORY_MAX) = Inr c" and n: "n = b div c" "n \<noteq> 0"
    using assms by (auto simp: max_jobs_def rbind_Inr_iff Let_def split: if_split_asm)
  have p: "parse_size budget = Some b" "parse_size cap = Some c" "0 \<le> b" "0 < c"
    using size_bytes_Inr[OF b] size_bytes_Inr[OF c] by auto
  have "b = b div c * c + b mod c" "0 \<le> b mod c" "b mod c < c" using p(4) by simp_all
  moreover have "(n + 1) * c = n * c + c" by (simp add: distrib_right)
  moreover have "0 \<le> n" using n(1) p by (simp add: pos_imp_zdiv_nonneg_iff)
  ultimately have "1 \<le> n \<and> n * c \<le> b \<and> b < (n + 1) * c" unfolding n(1)[symmetric] using n(2) by (intro conjI; linarith)
  then show ?thesis using p(1,2) by blast
qed

lemma tokens_example: "tokens_for (\<lambda>_. None) ''8G'' 2 None 0 = Inr 4"
  by code_simp

lemma tokens_cover_witness:
  "declared_bytes (\<lambda>_. None) ''8G'' 2 None 0 \<noteq> None \<and> (1::int) \<le> 4 \<and> 4 \<le> TOKENS"
  using tokens_cover[OF tokens_example] by auto

lemma jobs_example: "max_jobs (\<lambda>_. None) = Inr (25, ''100g'', ''4g'')"
  by code_simp

lemma jobs_within_budget_witness: "\<exists>b c. parse_size ''100g'' = Some b \<and> parse_size ''4g'' = Some c \<and> 25 * c \<le> b"
  using jobs_within_budget[OF jobs_example] by blast

end
