(* ===== verification/Py_Files.thy ===== *)
theory Py_Files
  imports Prelude
begin

text \<open>
  What the tools use of Python's \<open>fnmatch\<close> and \<open>pathlib\<close>: \<open>fnmatchcase\<close>, \<open>Path(w).name\<close> and
  \<open>Path(w).stem\<close>.
\<close>

section \<open>Glob patterns\<close>

text \<open>The ranges of a bracket: \<open>a-b\<close>, or one character.\<close>

fun class_items :: "string \<Rightarrow> (char \<times> char) list" where
  "class_items (a # b # c # r) =
     (if b = CHR ''-'' then (a, c) # class_items r else (a, a) # class_items (b # c # r))"
| "class_items (a # r) = (a, a) # class_items r"
| "class_items [] = []"

text \<open>After an opening bracket: negated, the text between the brackets, and the rest; None when no
  bracket closes it. A closing bracket that comes first is an ordinary character.\<close>

definition split_class :: "string \<Rightarrow> (bool \<times> string \<times> string) option" where
  "split_class p =
     (let neg = (p \<noteq> [] \<and> hd p = CHR ''!'');
          q = (if neg then tl p else p);
          pre = (if q \<noteq> [] \<and> hd q = CHR '']'' then [CHR '']''] else []);
          r = (if pre = [] then q else tl q)
      in if CHR '']'' \<in> set r
         then Some (neg, pre @ takeWhile (\<lambda>c. c \<noteq> CHR '']'') r, tl (dropWhile (\<lambda>c. c \<noteq> CHR '']'') r))
         else None)"

lemma split_class_length: "split_class p = Some (neg, st, r) \<Longrightarrow> length r < length p"
proof -
  assume s: "split_class p = Some (neg, st, r)"
  let ?f = "\<lambda>c. c \<noteq> CHR '']''"
  have *: "length (tl (dropWhile ?f q)) < length q" if "CHR '']'' \<in> set q" for q
  proof -
    have "dropWhile ?f q \<noteq> []" using that by auto
    then have "length (tl (dropWhile ?f q)) < length (dropWhile ?f q)" by simp
    then show ?thesis using length_dropWhile_le[of ?f q] by linarith
  qed
  obtain q where "CHR '']'' \<in> set q" "r = tl (dropWhile ?f q)" "length q \<le> length p"
    using s by (auto simp: split_class_def Let_def split: if_split_asm)
  then show "length r < length p" using * by fastforce
qed

definition bracket_has :: "string \<Rightarrow> char \<Rightarrow> bool" where
  "bracket_has st c \<longleftrightarrow> list_ex (\<lambda>(a, b). a \<le> c \<and> c \<le> b) (class_items st)"

text \<open>\<open>fnmatch.fnmatchcase(s, p)\<close>.\<close>

function glob :: "string \<Rightarrow> string \<Rightarrow> bool" where
  "glob [] s = (s = [])"
| "glob (p # ps) s =
     (if p = CHR ''*'' then glob ps s \<or> (case s of [] \<Rightarrow> False | _ # s' \<Rightarrow> glob (p # ps) s')
      else if p = CHR ''?'' then (case s of [] \<Rightarrow> False | _ # s' \<Rightarrow> glob ps s')
      else case (if p = CHR ''['' then split_class ps else None) of
             Some (neg, st, rest) \<Rightarrow>
               (case s of [] \<Rightarrow> False | c # s' \<Rightarrow> (bracket_has st c \<noteq> neg) \<and> glob rest s')
           | None \<Rightarrow> (case s of [] \<Rightarrow> False | c # s' \<Rightarrow> c = p \<and> glob ps s'))"
  by pat_completeness auto
termination
  by (relation "measure (\<lambda>(p, s). length p + length s)")
    (auto dest: split_class_length split: if_split_asm)

section \<open>Paths\<close>

definition path_parts :: "string \<Rightarrow> string list" where
  "path_parts w = filter (\<lambda>c. c \<noteq> [] \<and> c \<noteq> ''.'') (split_on (CHR ''/'') w)"

definition path_name :: "string \<Rightarrow> string" where
  "path_name w = (if path_parts w = [] then [] else last (path_parts w))"

text \<open>The name without its last suffix; a dot that begins or ends the name starts no suffix.\<close>

definition path_stem :: "string \<Rightarrow> string" where
  "path_stem w =
     (let n = path_name w;
          ext = length (takeWhile (\<lambda>c. c \<noteq> CHR ''.'') (rev n));
          dot = length n - Suc ext
      in if CHR ''.'' \<in> set n \<and> 0 < dot \<and> 0 < ext then take dot n else n)"

section \<open>Facts\<close>

text \<open>A pattern without wildcards matches itself alone.\<close>

lemma glob_plain: "set p \<inter> set ''*?['' = {} \<Longrightarrow> glob p s \<longleftrightarrow> s = p"
proof (induction p arbitrary: s)
  case (Cons a p)
  then show ?case by (cases s) auto
qed simp

lemma glob_star: "glob [CHR ''*''] s"
  by (induction s) simp_all

end
