(* ===== verification/Declared_Jobs.thy ===== *)
theory Declared_Jobs
  imports Memory_Budget Py_Files
begin

text \<open>
  How \<open>tools/xut/heavy.py\<close> finds the parallelism a command line declares (\<open>_commands\<close>, \<open>_tool\<close>,
  \<open>declared_parallelism\<close>), what its scope is started as (\<open>scope_argv\<close>), and the checks of \<open>run\<close> before
  it waits for tokens. The words of a shell script are those of Python's \<open>shlex.shlex(posix=True,
  punctuation_chars=True)\<close> with \<open>whitespace_split\<close> set and \<open>#\<close> starting a comment, written out here
  as an automaton over the characters.
\<close>

section \<open>The words of a script\<close>

datatype lex_mode = Between | InWord | InPunct | InQuote char | Escaped lex_mode | InComment

record lexer =
  lx_mode :: lex_mode
  lx_tok :: string
  lx_quoted :: bool
  lx_out :: "string list"

definition lex_space :: "char \<Rightarrow> bool" where
  "lex_space c \<longleftrightarrow> c \<in> {CHR '' '', CHR 0x09, CHR 0x0D, CHR 0x0A}"

definition lex_punct :: "char \<Rightarrow> bool" where
  "lex_punct c \<longleftrightarrow> c \<in> set ''();<>|&''"

definition lex_quote :: "char \<Rightarrow> bool" where
  "lex_quote c \<longleftrightarrow> c = CHR 0x22 \<or> c = CHR 0x27"

definition lex_emit :: "lexer \<Rightarrow> lexer" where
  "lex_emit l =
     (if lx_tok l \<noteq> [] \<or> lx_quoted l
      then l\<lparr>lx_out := lx_out l @ [lx_tok l], lx_tok := [], lx_quoted := False\<rparr> else l)"

text \<open>A character between words.\<close>

definition lex_start :: "char \<Rightarrow> lexer \<Rightarrow> lexer" where
  "lex_start c l =
     (if lex_space c then l\<lparr>lx_mode := Between\<rparr>
      else if c = CHR ''#'' then l\<lparr>lx_mode := InComment\<rparr>
      else if c = CHR 0x5C then l\<lparr>lx_mode := Escaped InWord\<rparr>
      else if lex_punct c then l\<lparr>lx_mode := InPunct, lx_tok := [c]\<rparr>
      else if lex_quote c then l\<lparr>lx_mode := InQuote c\<rparr>
      else l\<lparr>lx_mode := InWord, lx_tok := [c]\<rparr>)"

definition lex_step :: "lexer \<Rightarrow> char \<Rightarrow> lexer" where
  "lex_step l c =
     (case lx_mode l of
        InComment \<Rightarrow> if c = CHR 0x0A then l\<lparr>lx_mode := Between\<rparr> else l
      | Between \<Rightarrow> lex_start c l
      | InQuote q \<Rightarrow>
          (let l' = l\<lparr>lx_quoted := True\<rparr> in
           if c = q then l'\<lparr>lx_mode := InWord\<rparr>
           else if c = CHR 0x5C \<and> q = CHR 0x22 then l'\<lparr>lx_mode := Escaped (InQuote q)\<rparr>
           else l'\<lparr>lx_tok := lx_tok l @ [c]\<rparr>)
      | Escaped back \<Rightarrow>
          l\<lparr>lx_tok := lx_tok l @
              (if back \<noteq> InWord \<and> c \<noteq> CHR 0x5C \<and> c \<noteq> CHR 0x22 then [CHR 0x5C, c] else [c]), lx_mode := back\<rparr>
      | InWord \<Rightarrow>
          if lex_space c then lex_emit (l\<lparr>lx_mode := Between\<rparr>)
          else if c = CHR ''#'' then lex_emit (l\<lparr>lx_mode := InComment\<rparr>)
          else if lex_quote c then l\<lparr>lx_mode := InQuote c\<rparr>
          else if c = CHR 0x5C then l\<lparr>lx_mode := Escaped InWord\<rparr>
          else if lex_punct c then lex_start c (lex_emit l)
          else l\<lparr>lx_tok := lx_tok l @ [c]\<rparr>
      | InPunct \<Rightarrow>
          if lex_space c then lex_emit (l\<lparr>lx_mode := Between\<rparr>)
          else if c = CHR ''#'' then lex_emit (l\<lparr>lx_mode := InComment\<rparr>)
          else if lex_punct c then l\<lparr>lx_tok := lx_tok l @ [c]\<rparr>
          else lex_start c (lex_emit l))"

text \<open>None: no closing quotation, or nothing after a backslash (\<open>ValueError\<close>).\<close>

definition shell_words :: "string \<Rightarrow> string list option" where
  "shell_words s =
     (let l = foldl lex_step \<lparr>lx_mode = Between, lx_tok = [], lx_quoted = False, lx_out = []\<rparr> s
      in case lx_mode l of
           InQuote _ \<Rightarrow> None
         | Escaped _ \<Rightarrow> None
         | _ \<Rightarrow> Some (lx_out (lex_emit l)))"

section \<open>The commands of a command line\<close>

definition SHELLS :: "string list" where
  "SHELLS = [''bash'', ''sh'', ''dash'', ''zsh'']"

definition SEPARATORS :: "string list" where
  "SEPARATORS = ['';'', ''&&'', ''||'', ''|'', ''&'', ''('', '')'', [CHR 0x0A]]"

definition is_separator :: "string \<Rightarrow> bool" where
  "is_separator w \<longleftrightarrow> w \<in> set SEPARATORS \<or> set w \<subseteq> set '';&|()''"

fun split_commands :: "string list \<Rightarrow> string list \<Rightarrow> string list list" where
  "split_commands cmd [] = [cmd]"
| "split_commands cmd (w # ws) =
     (if is_separator w then cmd # split_commands [] ws else split_commands (cmd @ [w]) ws)"

definition script_words :: "string \<Rightarrow> string list" where
  "script_words s = (case shell_words s of Some ws \<Rightarrow> ws | None \<Rightarrow> words s)"

fun scripts :: "string list \<Rightarrow> string list list" where
  "scripts (a # b # s # rest) =
     (if path_name a \<in> set SHELLS \<and> b = ''-c'' then split_commands [] (script_words s) else []) @
     scripts (b # s # rest)"
| "scripts _ = []"

definition commands :: "string list \<Rightarrow> string list list" where
  "commands argv = filter (\<lambda>c. c \<noteq> []) (argv # scripts argv)"

section \<open>Parallelism options\<close>

datatype par_tool = Pytest | Xut | Make | Ninja

definition tool_name :: "par_tool \<Rightarrow> string" where
  "tool_name t = (case t of Pytest \<Rightarrow> ''pytest'' | Xut \<Rightarrow> ''xut'' | Make \<Rightarrow> ''make'' | Ninja \<Rightarrow> ''ninja'')"

definition tool_of :: "string list \<Rightarrow> par_tool option" where
  "tool_of cmd = find (\<lambda>t. tool_name t \<in> set (map path_name cmd)) [Pytest, Xut, Make, Ninja]"

text \<open>\<open>^(?:o1|o2)(?:=(.*))?$\<close>: None is no match, \<open>Some None\<close> a match without a value; an
  empty value is no value. \<open>$\<close> also matches before a last newline.\<close>

definition opt_core :: "string \<Rightarrow> string option" where
  "opt_core a =
     (let c = (if a \<noteq> [] \<and> last a = CHR 0x0A then butlast a else a)
      in if CHR 0x0A \<in> set c then None else Some c)"

definition long_opt :: "string list \<Rightarrow> string \<Rightarrow> string option option" where
  "long_opt opts c =
     (if c \<in> set opts then Some None
      else case find (\<lambda>ov. starts_with (ov @ ''='') c) opts of
             None \<Rightarrow> None
           | Some ov \<Rightarrow> (let v = drop (Suc (length ov)) c in Some (if v = [] then None else Some v)))"

text \<open>\<open>^-n(\w+)$\<close>.\<close>

definition short_opt :: "string \<Rightarrow> string \<Rightarrow> string option option" where
  "short_opt ov c =
     (let v = drop (length ov) c
      in if starts_with ov c \<and> v \<noteq> [] \<and> list_all is_word v then Some (Some v) else None)"

definition par_opt :: "par_tool \<Rightarrow> string \<Rightarrow> string option option" where
  "par_opt t a =
     (case opt_core a of
        None \<Rightarrow> None
      | Some c \<Rightarrow>
          (let (opts, short) = (case t of
               Pytest \<Rightarrow> ([''-n'', ''--numprocesses''], [''-n''])
             | Xut \<Rightarrow> ([''--jobs''], [])
             | _ \<Rightarrow> ([''-j'', ''--jobs''], [''-j'']))
           in case long_opt opts c of
                Some v \<Rightarrow> Some v
              | None \<Rightarrow> (case short of [] \<Rightarrow> None | ov # _ \<Rightarrow> short_opt ov c)))"

fun scan_options :: "par_tool \<Rightarrow> string list \<Rightarrow> nat list \<Rightarrow> (heavy_error, nat list) result" where
  "scan_options t [] found = Inr found"
| "scan_options t (a # rest) found =
     (case par_opt t a of
        None \<Rightarrow> scan_options t rest found
      | Some v \<Rightarrow>
          (let n = (case v of Some s \<Rightarrow> s | None \<Rightarrow> if rest = [] then [] else hd rest) in
           if n = ''auto'' \<or> n = ''logical'' then Inl (AutoJobs a n)
           else scan_options t rest (found @ (case digits_val n of Some k \<Rightarrow> [k] | None \<Rightarrow> []))))"

definition declared_parallelism :: "string list \<Rightarrow> (heavy_error, nat option) result" where
  "declared_parallelism argv =
     rbind (rfold (\<lambda>found cmd. case tool_of cmd of None \<Rightarrow> Inr found | Some t \<Rightarrow> scan_options t cmd found)
              [] (commands argv))
       (\<lambda>found. Inr (if found = [] then None else Some (Max (set found))))"

section \<open>The scope\<close>

definition unit_name_char :: "char \<Rightarrow> bool" where
  "unit_name_char c \<longleftrightarrow> is_alpha_az c \<or> is_digit c \<or> c \<in> set ''_.-''"

definition scope_argv :: "int \<Rightarrow> string \<Rightarrow> string \<Rightarrow> string list \<Rightarrow> (heavy_error, string list) result" where
  "scope_argv now name mem command =
     (if name = [] \<or> \<not> list_all unit_name_char name then Inl (UnitName name)
      else Inr ([''systemd-run'', ''--user'', ''--scope'', ''--slice=vivado.slice'',
                 ''--unit=xut-'' @ name @ ''-'' @ show_int now, ''--expand-environment=no'',
                 ''-p'', ''MemoryMax='' @ mem, ''-p'', ''MemorySwapMax=0'', ''--''] @ command))"

definition upper_az :: "string \<Rightarrow> string" where
  "upper_az s = map (\<lambda>c. if is_lower_az c then char_of (of_char c - 32 :: nat) else c) s"

text \<open>\<open>run\<close> up to the wait: the tokens to hold, the command line and the environment of the scope.\<close>

definition heavy_plan ::
  "environ \<Rightarrow> int \<Rightarrow> string \<Rightarrow> int \<Rightarrow> string \<Rightarrow> string list \<Rightarrow> int \<Rightarrow>
   (heavy_error, int \<times> string list \<times> environ) result" where
  "heavy_plan env now mem containers name command vivado =
     (if env NESTED_ENV = Some ''1'' then Inl NestedHeavy
      else if command = [] then Inl NoCommand
      else if vivado < 0 then Inl (NegativeVivado vivado)
      else rbind (declared_parallelism command) (\<lambda>par.
      rbind (case par of
               Some p \<Rightarrow> if containers < int p then Inl (TooParallel p containers) else Inr ()
             | None \<Rightarrow> Inr ()) (\<lambda>_.
      let mem' = upper_az mem in
      rbind (tokens_for env mem' containers None vivado) (\<lambda>need.
      rbind (scope_argv now name mem' command) (\<lambda>argv.
        Inr (need, argv, env(NESTED_ENV \<mapsto> ''1'', VIVADO_ENV \<mapsto> show_int vivado)))))))"

section \<open>What the checks promise\<close>

definition opt_value :: "string option \<Rightarrow> string list \<Rightarrow> string" where
  "opt_value v rest = (case v of Some s \<Rightarrow> s | None \<Rightarrow> if rest = [] then [] else hd rest)"

definition scan_command :: "nat list \<Rightarrow> string list \<Rightarrow> (heavy_error, nat list) result" where
  "scan_command found cmd = (case tool_of cmd of None \<Rightarrow> Inr found | Some t \<Rightarrow> scan_options t cmd found)"

lemma scan_keeps: "scan_options t ws found = Inr ns \<Longrightarrow> set found \<subseteq> set ns"
  by (induction t ws found rule: scan_options.induct) (auto simp: Let_def split: option.splits if_split_asm)

lemma scan_finds:
  "scan_options t (pre @ a # post) found = Inr ns \<Longrightarrow> par_opt t a = Some v \<Longrightarrow>
   digits_val (opt_value v post) = Some k \<Longrightarrow> k \<in> set ns"
proof (induction pre arbitrary: found)
  case Nil
  have "scan_options t post (found @ [k]) = Inr ns"
    using Nil by (simp add: Let_def opt_value_def split: if_split_asm)
  from scan_keeps[OF this] show ?case by simp
next
  case (Cons b pre)
  obtain found' where "scan_options t (pre @ a # post) found' = Inr ns"
    using Cons.prems(1) by (auto simp: Let_def split: option.splits if_split_asm)
  then show ?case using Cons.IH Cons.prems(2,3) by blast
qed

lemma scan_commands_keep: "rfold scan_command found cs = Inr ns \<Longrightarrow> set found \<subseteq> set ns"
proof (induction cs arbitrary: found)
  case (Cons c cs)
  then obtain m where m: "scan_command found c = Inr m" "rfold scan_command m cs = Inr ns"
    by (auto simp: rbind_Inr_iff)
  have "set found \<subseteq> set m" using m(1) scan_keeps by (auto simp: scan_command_def split: option.splits)
  with Cons.IH[OF m(2)] show ?case by simp
qed simp

lemma scan_commands_find:
  assumes "rfold scan_command found cs = Inr ns" "pre @ a # post \<in> set cs"
    and "tool_of (pre @ a # post) = Some t" "par_opt t a = Some v" "digits_val (opt_value v post) = Some k"
  shows "k \<in> set ns"
  using assms(1,2)
proof (induction cs arbitrary: found)
  case (Cons c cs)
  then obtain m where m: "scan_command found c = Inr m" "rfold scan_command m cs = Inr ns"
    by (auto simp: rbind_Inr_iff)
  show ?case
  proof (cases "pre @ a # post = c")
    case True
    then have "scan_options t (pre @ a # post) found = Inr m" using m(1) assms(3) by (simp add: scan_command_def)
    then have "k \<in> set m" using scan_finds assms(4,5) by blast
    then show ?thesis using scan_commands_keep[OF m(2)] by blast
  next
    case False
    then have "pre @ a # post \<in> set cs" using Cons.prems(2) by auto
    then show ?thesis by (rule Cons.IH[OF m(2)])
  qed
qed simp

lemma declared_scan:
  "declared_parallelism argv =
     rbind (rfold scan_command [] (commands argv)) (\<lambda>found. Inr (if found = [] then None else Some (Max (set found))))"
  by (simp add: declared_parallelism_def scan_command_def[abs_def])

text \<open>
  A declared parallelism is at least every number a command of the line, or of a shell script it
  runs, gives to an option of its tool.
\<close>

theorem parallelism_bound:
  assumes "declared_parallelism argv = Inr par" "pre @ a # post \<in> set (commands argv)"
    and "tool_of (pre @ a # post) = Some t" "par_opt t a = Some v" "digits_val (opt_value v post) = Some k"
  shows "\<exists>p. par = Some p \<and> k \<le> p"
proof -
  obtain ns where ns: "rfold scan_command [] (commands argv) = Inr ns" "par = (if ns = [] then None else Some (Max (set ns)))"
    using assms(1) by (auto simp: declared_scan rbind_Inr_iff)
  have "k \<in> set ns" by (rule scan_commands_find[OF ns(1) assms(2-5)])
  then show ?thesis using ns(2) by auto
qed

lemma jobs_line: "declared_parallelism [''bash'', ''-c'', ''make -j8; pytest -n 12''] = Inr (Some 12)"
  by code_simp

lemma parallelism_bound_witness: "\<exists>p. Some (12 :: nat) = Some p \<and> (8 :: nat) \<le> p"
proof -
  have "[''make''] @ ''-j8'' # [] \<in> set (commands [''bash'', ''-c'', ''make -j8; pytest -n 12''])"
    "tool_of ([''make''] @ ''-j8'' # []) = Some Make" "par_opt Make ''-j8'' = Some (Some ''8'')"
    "digits_val (opt_value (Some ''8'') []) = Some 8"
    by code_simp+
  from parallelism_bound[OF jobs_line this] show ?thesis .
qed

section \<open>What a planned command is\<close>

lemma digits_show: "0 \<le> i \<Longrightarrow> digits_val (show_int i) = Some (nat i)"
  by (simp add: digits_val_def show_int_def list_all_iff show_nat_digits)

lemma heavy_plan_Inr:
  assumes "heavy_plan env now mem containers name command vivado = Inr (need, argv, env')"
  shows "command \<noteq> []" "0 \<le> vivado" "\<exists>par. declared_parallelism command = Inr par \<and> (\<forall>p. par = Some p \<longrightarrow> int p \<le> containers)"
    "tokens_for env (upper_az mem) containers None vivado = Inr need"
    "scope_argv now name (upper_az mem) command = Inr argv"
    "env' = env(NESTED_ENV \<mapsto> ''1'', VIVADO_ENV \<mapsto> show_int vivado)"
  using assms
  by (auto simp: heavy_plan_def rbind_Inr_iff Let_def not_less split: if_split_asm option.splits)

text \<open>
  C23. A command that \<open>run\<close> takes on declares at least the parallelism found in its command line; the
  environment its scope gets refuses a nested \<open>xut heavy\<close>, whatever that asks for, and carries
  exactly the reserved number of Vivado runs, failing closed when there is none; and the scope runs
  the command as it was given.
\<close>

theorem plan_sound:
  assumes "heavy_plan env now mem containers name command vivado = Inr (need, argv, env')"
  shows "(\<exists>par. declared_parallelism command = Inr par \<and> (\<forall>p \<in> set_option par. int p \<le> containers)) \<and>
    heavy_plan env' now' mem' containers' name' command' vivado' = Inl NestedHeavy \<and>
    vivado_reserved env' = (if vivado = 0 then Inl NoReservation else Inr (nat vivado)) \<and>
    drop 11 argv = command"
proof -
  note r = heavy_plan_Inr[OF assms]
  have "env' NESTED_ENV = Some ''1''" "env' VIVADO_ENV = Some (show_int vivado)"
    by (simp_all add: r(6) NESTED_ENV_def VIVADO_ENV_def)
  then have 1: "heavy_plan env' now' mem' containers' name' command' vivado' = Inl NestedHeavy"
    and 2: "vivado_reserved env' = (if vivado = 0 then Inl NoReservation else Inr (nat vivado))"
    using r(2) by (auto simp: heavy_plan_def vivado_reserved_def digits_show Let_def)
  have "drop 11 argv = command" using r(5) by (auto simp: scope_argv_def split: if_split_asm)
  then show ?thesis using 1 2 r(3) by auto
qed

lemma plan_example:
  "\<exists>env'. heavy_plan (\<lambda>_. None) 7 ''8g'' 2 ''t'' [''pytest'', ''-n'', ''2''] 0 =
     Inr (4, [''systemd-run'', ''--user'', ''--scope'', ''--slice=vivado.slice'', ''--unit=xut-t-7'',
              ''--expand-environment=no'', ''-p'', ''MemoryMax=8G'', ''-p'', ''MemorySwapMax=0'', ''--'',
              ''pytest'', ''-n'', ''2''], env')"
proof -
  have d: "declared_parallelism [''pytest'', ''-n'', ''2''] = Inr (Some 2)" by code_simp
  have u: "upper_az ''8g'' = ''8G''" by code_simp
  have s: "scope_argv 7 ''t'' ''8G'' [''pytest'', ''-n'', ''2''] =
     Inr [''systemd-run'', ''--user'', ''--scope'', ''--slice=vivado.slice'', ''--unit=xut-t-7'',
              ''--expand-environment=no'', ''-p'', ''MemoryMax=8G'', ''-p'', ''MemorySwapMax=0'', ''--'',
              ''pytest'', ''-n'', ''2'']" by code_simp
  show ?thesis using tokens_example by (simp add: heavy_plan_def d u s Let_def)
qed

lemma plan_sound_witness:
  "\<exists>env'. vivado_reserved env' = Inl NoReservation \<and> heavy_plan env' 0 ''4G'' 0 ''t'' [''make''] 0 = Inl NestedHeavy"
proof -
  obtain env' argv where e: "heavy_plan (\<lambda>_. None) 7 ''8g'' 2 ''t'' [''pytest'', ''-n'', ''2''] 0 = Inr (4, argv, env')"
    using plan_example by blast
  show ?thesis using plan_sound[OF e, of 0 "''4G''" 0 "''t''" "[''make'']" 0] by auto
qed

text \<open>
  A newline and an empty argument. The separators of a script list the newline, but for
  \<open>shlex\<close> it is white space, so two lines of a script are one command; and an empty word counts as a
  separator. Either way a declared parallelism is not seen.
\<close>

lemma newline_hides_jobs:
  "declared_parallelism [''bash'', ''-c'', ''pytest -q'' @ [CHR 0x0A] @ ''make -j8''] = Inr None \<and>
   declared_parallelism [''bash'', ''-c'', ''pytest -q; make -j8''] = Inr (Some 8)"
  by (rule conjI; code_simp)

lemma empty_word_hides_jobs:
  "declared_parallelism [''bash'', ''-c'', ''pytest '' @ [CHR 0x22, CHR 0x22] @ '' -n 8''] = Inr None \<and>
   declared_parallelism [''pytest'', '''', ''-n'', ''8''] = Inr (Some 8)"
  by (rule conjI; code_simp)

end
