(* ===== verification/Admission.thy ===== *)
theory Admission
  imports Memory_Budget
begin

text \<open>
  Admission of heavy commands (\<open>admit\<close>, \<open>_take_tokens\<close> of \<open>tools/xut/heavy.py\<close>) as a step relation over
  the commands of a host and the kernel's file locks they contend for. \<open>flock\<close> grants an exclusive lock
  when nobody holds the file and a shared one when nobody holds it exclusively, and the locks of a
  process go when the last holder of its files exits, which is a step of its own.
\<close>

section \<open>Commands and locks\<close>

text \<open>
  Where a command stands: not started; waiting for the old mutex shared; waiting for the gate; taking
  tokens (how many it needs, the next token file its scan tries, the tokens it holds); admitted and
  running with its tokens; waiting for the old mutex alone, as a command of the old kind does, or
  running with it; ended. The number is the tokens the command needs.
\<close>

datatype phase =
    Idle
  | AtMutex nat
  | AtGate nat
  | Taking nat nat "nat list"
  | Admitted nat "nat list"
  | AtMutexAlone
  | Alone
  | Ended

record 'p host =
  h_phase :: "'p \<Rightarrow> phase"
  h_token :: "nat \<Rightarrow> 'p option"
  h_gate :: "'p option"
  h_shared :: "'p set"
  h_alone :: "'p option"

definition tokens_n :: nat where "tokens_n = nat TOKENS"

definition at_rest :: "'p host" where
  "at_rest = \<lparr>h_phase = (\<lambda>_. Idle), h_token = (\<lambda>_. None), h_gate = None, h_shared = {}, h_alone = None\<rparr>"

definition set_phase :: "'p \<Rightarrow> phase \<Rightarrow> 'p host \<Rightarrow> 'p host" where
  "set_phase p ph h = h\<lparr>h_phase := (h_phase h)(p := ph)\<rparr>"

definition admit_checks :: "nat \<Rightarrow> (heavy_error, unit) result" where
  "admit_checks need = (if 1 \<le> need \<and> need \<le> tokens_n then Inr () else Inl (TokenCount (int need)))"

text \<open>One turn of the loop of \<open>_take_tokens\<close>: full, a taken token, a busy one, or a rescan.\<close>

definition take_turn :: "'p \<Rightarrow> nat \<Rightarrow> nat \<Rightarrow> nat list \<Rightarrow> 'p host \<Rightarrow> 'p host" where
  "take_turn p need i held h =
     (if length held = need then (set_phase p (Admitted need held) h)\<lparr>h_gate := None\<rparr>
      else if tokens_n \<le> i then set_phase p (Taking need 0 held) h
      else if i \<in> set held \<or> h_token h i \<noteq> None then set_phase p (Taking need (Suc i) held) h
      else (set_phase p (Taking need (Suc i) (held @ [i])) h)\<lparr>h_token := (h_token h)(i := Some p)\<rparr>)"

definition release :: "'p \<Rightarrow> 'p host \<Rightarrow> 'p host" where
  "release p h =
     (set_phase p Ended h)\<lparr>h_token := (\<lambda>i. if h_token h i = Some p then None else h_token h i),
        h_gate := (if h_gate h = Some p then None else h_gate h), h_shared := h_shared h - {p},
        h_alone := (if h_alone h = Some p then None else h_alone h)\<rparr>"

inductive hstep :: "'p host \<Rightarrow> 'p host \<Rightarrow> bool" where
  start: "h_phase h p = Idle \<Longrightarrow> admit_checks need = Inr () \<Longrightarrow> hstep h (set_phase p (AtMutex need) h)"
| mutex: "h_phase h p = AtMutex need \<Longrightarrow> h_alone h = None \<Longrightarrow>
    hstep h ((set_phase p (AtGate need) h)\<lparr>h_shared := insert p (h_shared h)\<rparr>)"
| gate: "h_phase h p = AtGate need \<Longrightarrow> h_gate h = None \<Longrightarrow>
    hstep h ((set_phase p (Taking need 0 []) h)\<lparr>h_gate := Some p\<rparr>)"
| turn: "h_phase h p = Taking need i held \<Longrightarrow> hstep h (take_turn p need i held h)"
| start_old: "h_phase h p = Idle \<Longrightarrow> hstep h (set_phase p AtMutexAlone h)"
| alone: "h_phase h p = AtMutexAlone \<Longrightarrow> h_alone h = None \<Longrightarrow> h_shared h = {} \<Longrightarrow>
    hstep h ((set_phase p Alone h)\<lparr>h_alone := Some p\<rparr>)"
| exit: "h_phase h p \<noteq> Idle \<Longrightarrow> h_phase h p \<noteq> Ended \<Longrightarrow> hstep h (release p h)"

inductive_cases hstepE: "hstep h h'"

abbreviation hsteps :: "'p host \<Rightarrow> 'p host \<Rightarrow> bool" where
  "hsteps \<equiv> hstep\<^sup>*\<^sup>*"

abbreviation live :: "'p host \<Rightarrow> bool" where
  "live h \<equiv> hsteps at_rest h"

section \<open>Invariant\<close>

fun held_of :: "phase \<Rightarrow> nat list" where
  "held_of (Taking need i held) = held"
| "held_of (Admitted need held) = held"
| "held_of _ = []"

fun phase_ok :: "phase \<Rightarrow> bool" where
  "phase_ok (AtMutex need) \<longleftrightarrow> 1 \<le> need \<and> need \<le> tokens_n"
| "phase_ok (AtGate need) \<longleftrightarrow> 1 \<le> need \<and> need \<le> tokens_n"
| "phase_ok (Taking need i held) \<longleftrightarrow> 1 \<le> need \<and> need \<le> tokens_n \<and> length held \<le> need \<and> i \<le> tokens_n \<and> distinct held \<and> set held \<subseteq> {..<tokens_n}"
| "phase_ok (Admitted need held) \<longleftrightarrow> 1 \<le> need \<and> length held = need \<and> distinct held \<and> set held \<subseteq> {..<tokens_n}"
| "phase_ok _ \<longleftrightarrow> True"

fun taking :: "phase \<Rightarrow> bool" where
  "taking (Taking need i held) = True"
| "taking _ = False"

fun sharing :: "phase \<Rightarrow> bool" where
  "sharing (AtGate need) = True"
| "sharing (Taking need i held) = True"
| "sharing (Admitted need held) = True"
| "sharing _ = False"

definition host_inv :: "'p host \<Rightarrow> bool" where
  "host_inv h \<longleftrightarrow>
     (\<forall>p. phase_ok (h_phase h p)) \<and>
     (\<forall>i p. h_token h i = Some p \<longleftrightarrow> i \<in> set (held_of (h_phase h p))) \<and>
     (\<forall>p. h_gate h = Some p \<longleftrightarrow> taking (h_phase h p)) \<and>
     (\<forall>p. p \<in> h_shared h \<longleftrightarrow> sharing (h_phase h p)) \<and>
     (\<forall>p. h_alone h = Some p \<longleftrightarrow> h_phase h p = Alone) \<and>
     (h_alone h \<noteq> None \<longrightarrow> h_shared h = {})"

lemma inv_rest: "host_inv at_rest"
  by (simp add: host_inv_def at_rest_def)

lemma inv_unique:
  assumes "host_inv h"
  shows "i \<in> set (held_of (h_phase h p)) \<Longrightarrow> i \<in> set (held_of (h_phase h q)) \<Longrightarrow> p = q"
    and "taking (h_phase h p) \<Longrightarrow> taking (h_phase h q) \<Longrightarrow> p = q"
    and "h_phase h p = Alone \<Longrightarrow> h_phase h q = Alone \<Longrightarrow> p = q"
proof -
  show "i \<in> set (held_of (h_phase h p)) \<Longrightarrow> i \<in> set (held_of (h_phase h q)) \<Longrightarrow> p = q"
    using assms unfolding host_inv_def by (metis option.inject)
  show "taking (h_phase h p) \<Longrightarrow> taking (h_phase h q) \<Longrightarrow> p = q"
    using assms unfolding host_inv_def by (metis option.inject)
  show "h_phase h p = Alone \<Longrightarrow> h_phase h q = Alone \<Longrightarrow> p = q"
    using assms unfolding host_inv_def by (metis option.inject)
qed

lemma inv_release: "host_inv h \<Longrightarrow> host_inv (release p h)"
  using inv_unique[of h] by (auto simp: host_inv_def release_def set_phase_def)

lemma inv_turn:
  assumes "host_inv h" "h_phase h p = Taking need i held"
  shows "host_inv (take_turn p need i held h)"
proof -
  have ok: "phase_ok (Taking need i held)" and tok: "\<And>j. h_token h j = Some p \<longleftrightarrow> j \<in> set held"
    using assms by (metis host_inv_def, metis host_inv_def held_of.simps(1))
  consider (full) "length held = need" | (rescan) "length held \<noteq> need" "tokens_n \<le> i"
    | (busy) "length held \<noteq> need" "\<not> tokens_n \<le> i" "i \<in> set held \<or> h_token h i \<noteq> None"
    | (free) "length held \<noteq> need" "\<not> tokens_n \<le> i" "i \<notin> set held" "h_token h i = None" by blast
  then show ?thesis
  proof cases
    case full
    then show ?thesis using assms ok inv_unique(2)[OF assms(1)] by (auto simp: host_inv_def take_turn_def set_phase_def)
  next
    case rescan
    then show ?thesis using assms ok by (auto simp: host_inv_def take_turn_def set_phase_def)
  next
    case busy
    then show ?thesis using assms ok by (auto simp: host_inv_def take_turn_def set_phase_def)
  next
    case free
    then have "\<forall>q. i \<notin> set (held_of (h_phase h q))" using assms(1) by (metis host_inv_def option.distinct(1))
    with free show ?thesis using assms ok by (auto simp: host_inv_def take_turn_def set_phase_def)
  qed
qed

lemma inv_hstep: "hstep h h' \<Longrightarrow> host_inv h \<Longrightarrow> host_inv h'"
proof (induction rule: hstep.induct)
  case (start h p need)
  then show ?case by (auto simp: host_inv_def set_phase_def admit_checks_def split: if_split_asm)
next
  case (mutex h p need)
  then have "phase_ok (AtMutex need)" by (metis host_inv_def)
  with mutex show ?case by (auto simp: host_inv_def set_phase_def)
next
  case (gate h p need)
  then have "phase_ok (AtGate need)" by (metis host_inv_def)
  with gate show ?case by (auto simp: host_inv_def set_phase_def)
next
  case (turn h p need i held)
  then show ?case by (simp add: inv_turn)
next
  case (start_old h p)
  then show ?case by (auto simp: host_inv_def set_phase_def)
next
  case (alone h p)
  then show ?case by (auto simp: host_inv_def set_phase_def)
next
  case (exit h p)
  then show ?case by (simp add: inv_release)
qed

lemma live_inv: "live h \<Longrightarrow> host_inv h"
  by (induction rule: rtranclp_induct) (auto intro: inv_rest inv_hstep)

section \<open>The budget is kept\<close>

lemma held_sum:
  assumes "host_inv h" "finite P"
  shows "(\<Sum>p\<in>P. length (held_of (h_phase h p))) \<le> tokens_n"
proof -
  have ok: "distinct (held_of (h_phase h p))" "set (held_of (h_phase h p)) \<subseteq> {..<tokens_n}" for p
  proof -
    have "phase_ok (h_phase h p)" using assms(1) by (metis host_inv_def)
    then show "distinct (held_of (h_phase h p))" "set (held_of (h_phase h p)) \<subseteq> {..<tokens_n}"
      by (cases "h_phase h p"; simp)+
  qed
  have "(\<Sum>p\<in>P. length (held_of (h_phase h p))) = (\<Sum>p\<in>P. card (set (held_of (h_phase h p))))"
    using ok(1) by (simp add: distinct_card)
  also have "\<dots> = card (\<Union>p\<in>P. set (held_of (h_phase h p)))"
    using assms(2) inv_unique(1)[OF assms(1)] by (intro card_UN_disjoint[symmetric]) auto
  also have "\<dots> \<le> card {..<tokens_n}" using ok(2) by (intro card_mono) blast+
  finally show ?thesis by simp
qed

text \<open>
  C22. In every state the host can reach, the tokens of the admitted commands and of the one taking
  tokens sum to at most the 24 of the budget, at most one command is between the gate and its
  admission, and while a command of the old kind runs no other is admitted.
\<close>

theorem budget_kept:
  assumes "live h" "finite P" "\<forall>p \<in> P. h_phase h p = Admitted (need p) (held p)"
  shows "(\<Sum>p\<in>P. int (need p)) * TOKEN_G \<le> BUDGET_G \<and>
    (\<forall>p q. taking (h_phase h p) \<and> taking (h_phase h q) \<longrightarrow> p = q) \<and>
    (\<forall>p. h_phase h p = Alone \<longrightarrow> P = {})"
proof -
  have inv: "host_inv h" by (rule live_inv[OF assms(1)])
  have len: "length (held_of (h_phase h p)) = need p" if p: "p \<in> P" for p
  proof -
    have "h_phase h p = Admitted (need p) (held p)" using assms(3) p by blast
    moreover have "phase_ok (h_phase h p)" using inv by (metis host_inv_def)
    ultimately show ?thesis by simp
  qed
  have "(\<Sum>p\<in>P. need p) \<le> tokens_n" using held_sum[OF inv assms(2)] len by simp
  moreover have "(\<Sum>p\<in>P. int (need p)) = int (\<Sum>p\<in>P. need p)" by (rule of_nat_sum[symmetric])
  ultimately have "(\<Sum>p\<in>P. int (need p)) * TOKEN_G \<le> BUDGET_G"
    by (simp add: tokens_n_def TOKENS_def BUDGET_G_def TOKEN_G_def del: of_nat_sum)
  moreover have "P = {}" if q: "h_phase h q = Alone" for q
  proof (rule ccontr)
    assume "P \<noteq> {}"
    then obtain p where "h_phase h p = Admitted (need p) (held p)" using assms(3) by blast
    then have "p \<in> h_shared h" using inv by (simp add: host_inv_def)
    moreover have "h_alone h = Some q" using inv q by (simp add: host_inv_def)
    ultimately show False using inv by (auto simp: host_inv_def)
  qed
  ultimately show ?thesis using inv_unique(2)[OF inv] by blast
qed

section \<open>Progress\<close>

text \<open>A turn of the loop by the command itself, and the tokens nobody else holds.\<close>

definition own_turn :: "'p \<Rightarrow> 'p host \<Rightarrow> 'p host \<Rightarrow> bool" where
  "own_turn p h h' \<longleftrightarrow> (\<exists>need i held. h_phase h p = Taking need i held \<and> h' = take_turn p need i held h)"

lemma own_turn_step: "own_turn p h h' \<Longrightarrow> hstep h h'"
  by (auto simp: own_turn_def intro: hstep.turn)

definition open_tokens :: "'p \<Rightarrow> 'p host \<Rightarrow> nat set" where
  "open_tokens p h = {i. i < tokens_n \<and> (h_token h i = None \<or> h_token h i = Some p)}"

lemma open_turn: "open_tokens p (take_turn p need i held h) = open_tokens p h"
  by (auto simp: open_tokens_def take_turn_def set_phase_def)

lemma phase_turn:
  "h_phase (take_turn p need i held h) p =
     (if length held = need then Admitted need held
      else if tokens_n \<le> i then Taking need 0 held
      else if i \<in> set held \<or> h_token h i \<noteq> None then Taking need (Suc i) held
      else Taking need (Suc i) (held @ [i]))"
  by (simp add: take_turn_def set_phase_def)

text \<open>
  One pass over the token files from \<open>i\<close>: either the command is admitted, or it holds every open token
  from \<open>i\<close> on.
\<close>

lemma one_pass:
  assumes "host_inv h" "h_phase h p = Taking need i held"
    and "open_tokens p h \<inter> {..<i} \<subseteq> set held" "need \<le> card (open_tokens p h)"
  shows "\<exists>h' held'. (own_turn p)\<^sup>*\<^sup>* h h' \<and> h_phase h' p = Admitted need held'"
  using assms
proof (induction "tokens_n - i" arbitrary: h i held)
  case 0
  have ok: "phase_ok (Taking need i held)" using 0(2,3) by (metis host_inv_def)
  then have i: "i = tokens_n" using 0(1) by simp
  have "open_tokens p h \<subseteq> {..<tokens_n}" by (auto simp: open_tokens_def)
  then have "open_tokens p h \<subseteq> set held" using 0(4) i by blast
  then have "need \<le> card (set held)" using 0(5) card_mono[of "set held"] by (meson List.finite_set le_trans)
  then have "length held = need" using ok by (simp add: distinct_card)
  then have "h_phase (take_turn p need i held h) p = Admitted need held" by (simp add: phase_turn)
  moreover have "own_turn p h (take_turn p need i held h)" using 0(3) by (auto simp: own_turn_def)
  ultimately show ?case by blast
next
  case (Suc n)
  have ok: "phase_ok (Taking need i held)" using Suc.prems(1,2) by (metis host_inv_def)
  have tok: "h_token h j = Some p \<longleftrightarrow> j \<in> set held" for j
    using Suc.prems(1,2) by (metis host_inv_def held_of.simps(1))
  let ?h = "take_turn p need i held h"
  have st: "own_turn p h ?h" using Suc.prems(2) by (auto simp: own_turn_def)
  have inv: "host_inv ?h" by (rule inv_turn[OF Suc.prems(1,2)])
  have lt: "i < tokens_n" "n = tokens_n - Suc i" using Suc.hyps(2) by linarith+
  show ?case
  proof (cases "length held = need")
    case True
    then have "h_phase ?h p = Admitted need held" by (simp add: phase_turn)
    then show ?thesis using st by blast
  next
    case False
    let ?held = "if i \<in> set held \<or> h_token h i \<noteq> None then held else held @ [i]"
    have ph: "h_phase ?h p = Taking need (Suc i) ?held" using False lt(1) by (simp add: phase_turn)
    have "open_tokens p h \<inter> {..<Suc i} \<subseteq> set ?held"
      using Suc.prems(3) tok[of i] by (auto simp: less_Suc_eq) (auto simp: open_tokens_def)
    then have "open_tokens p ?h \<inter> {..<Suc i} \<subseteq> set ?held" by (simp add: open_turn)
    then obtain h' held' where "(own_turn p)\<^sup>*\<^sup>* ?h h'" "h_phase h' p = Admitted need held'"
      using Suc.hyps(1)[OF lt(2) inv ph] Suc.prems(4) by (auto simp: open_turn)
    then show ?thesis using st by (meson converse_rtranclp_into_rtranclp)
  qed
qed

lemma to_the_end:
  assumes "host_inv h" "h_phase h p = Taking need i held"
  shows "\<exists>h' held'. (own_turn p)\<^sup>*\<^sup>* h h' \<and> host_inv h' \<and> open_tokens p h' = open_tokens p h \<and>
    (h_phase h' p = Admitted need held' \<or> h_phase h' p = Taking need tokens_n held')"
  using assms
proof (induction "tokens_n - i" arbitrary: h i held)
  case 0
  have "phase_ok (Taking need i held)" using 0(2,3) by (metis host_inv_def)
  then have "i = tokens_n" using 0(1) by simp
  then show ?case using 0(2,3) by blast
next
  case (Suc n)
  let ?h = "take_turn p need i held h"
  have st: "own_turn p h ?h" using Suc.prems(2) by (auto simp: own_turn_def)
  have inv: "host_inv ?h" by (rule inv_turn[OF Suc.prems(1,2)])
  have lt: "i < tokens_n" "n = tokens_n - Suc i" using Suc.hyps(2) by linarith+
  show ?case
  proof (cases "length held = need")
    case True
    then have "h_phase ?h p = Admitted need held" by (simp add: phase_turn)
    then show ?thesis
      using st inv by (intro exI[of _ ?h] exI[of _ held]) (simp add: open_turn r_into_rtranclp)
  next
    case False
    obtain held' where "h_phase ?h p = Taking need (Suc i) held'" 
      using False lt(1) by (cases "i \<in> set held \<or> h_token h i \<noteq> None") (simp_all add: phase_turn)
    from Suc.hyps(1)[OF lt(2) inv this] show ?thesis
      using st by (auto simp: open_turn) (meson converse_rtranclp_into_rtranclp)+
  qed
qed

text \<open>
  A command holding the gate gets its tokens by its own turns alone as soon as the tokens that other
  commands do not hold are enough for it, wherever its scan stands: it neither misses a free token
  nor waits for a command that waits itself.
\<close>

theorem gate_holder_admitted:
  assumes "live h" "h_phase h p = Taking need i held" "need \<le> card (open_tokens p h)"
  shows "\<exists>h' held'. (own_turn p)\<^sup>*\<^sup>* h h' \<and> h_phase h' p = Admitted need held'"
proof -
  obtain h1 held1 where h1: "(own_turn p)\<^sup>*\<^sup>* h h1" "host_inv h1" "open_tokens p h1 = open_tokens p h"
    "h_phase h1 p = Admitted need held1 \<or> h_phase h1 p = Taking need tokens_n held1"
    using to_the_end[OF live_inv[OF assms(1)] assms(2)] by blast
  show ?thesis
  proof (cases "h_phase h1 p = Admitted need held1")
    case False
    then have t: "h_phase h1 p = Taking need tokens_n held1" using h1(4) by blast
    let ?h = "take_turn p need tokens_n held1 h1"
    have st: "(own_turn p)\<^sup>*\<^sup>* h ?h" using h1(1) t by (auto simp: own_turn_def intro: rtranclp.rtrancl_into_rtrancl)
    show ?thesis
    proof (cases "length held1 = need")
      case True
      then have "h_phase ?h p = Admitted need held1" by (simp add: phase_turn)
      then show ?thesis using st by blast
    next
      case False
      then have ph: "h_phase ?h p = Taking need 0 held1" by (simp add: phase_turn)
      have "need \<le> card (open_tokens p ?h)" using assms(3) by (simp add: open_turn h1(3))
      then obtain h2 held2 where "(own_turn p)\<^sup>*\<^sup>* ?h h2" "h_phase h2 p = Admitted need held2"
        using one_pass[OF inv_turn[OF h1(2) t] ph] by auto
      then show ?thesis using st by (meson rtranclp_trans)
    qed
  qed (use h1(1) in blast)
qed

definition host_waiting :: "nat host" where
  "host_waiting =
     (set_phase 0 (Taking 2 0 []) ((set_phase 0 (AtGate 2) (set_phase 0 (AtMutex 2) at_rest))\<lparr>h_shared := {0}\<rparr>))\<lparr>h_gate := Some 0\<rparr>"

lemma host_waiting_live: "live host_waiting"
proof -
  have 1: "hstep at_rest (set_phase 0 (AtMutex 2) at_rest)" (is "hstep _ ?a")
    by (rule hstep.start) (simp_all add: at_rest_def admit_checks_def tokens_n_def TOKENS_def BUDGET_G_def TOKEN_G_def)
  have 2: "hstep ?a ((set_phase 0 (AtGate 2) ?a)\<lparr>h_shared := {0}\<rparr>)" (is "hstep _ ?b")
    using hstep.mutex[of ?a 0 2] by (simp add: set_phase_def at_rest_def)
  have 3: "hstep ?b host_waiting"
    using hstep.gate[of ?b 0 2] by (simp add: set_phase_def at_rest_def host_waiting_def)
  show ?thesis
    by (rule rtranclp.rtrancl_into_rtrancl[OF rtranclp.rtrancl_into_rtrancl[OF r_into_rtranclp[of hstep, OF 1] 2] 3])
qed

lemma gate_holder_admitted_witness:
  "\<exists>h' held'. (own_turn 0)\<^sup>*\<^sup>* host_waiting h' \<and> h_phase h' 0 = Admitted 2 held'"
proof -
  have "open_tokens 0 host_waiting = {..<24}"
    by (auto simp: open_tokens_def host_waiting_def set_phase_def at_rest_def tokens_n_def TOKENS_def BUDGET_G_def TOKEN_G_def)
  then show ?thesis
    using gate_holder_admitted[OF host_waiting_live, of 0 2 0 "[]"] by (simp add: host_waiting_def set_phase_def)
qed

lemma host_admitted:
  "\<exists>h. live h \<and> h_phase h (0 :: nat) = Admitted 2 [0, 1] \<and> h_phase h 1 = Idle \<and> h_gate h = None \<and> h_alone h = None"
proof -
  let ?a = "take_turn 0 2 0 [] host_waiting"
  let ?b = "take_turn 0 2 1 [0] ?a"
  let ?c = "take_turn 0 2 2 [0, 1] ?b"
  note defs = host_waiting_def set_phase_def at_rest_def take_turn_def tokens_n_def TOKENS_def BUDGET_G_def TOKEN_G_def
  have "hstep host_waiting ?a" "hstep ?a ?b" "hstep ?b ?c"
    by (rule hstep.turn; simp add: defs)+
  note r = rtranclp.rtrancl_into_rtrancl[OF rtranclp.rtrancl_into_rtrancl[OF
    rtranclp.rtrancl_into_rtrancl[OF host_waiting_live this(1)] this(2)] this(3)]
  then have "live ?c" .
  moreover have "h_phase ?c 0 = Admitted 2 [0, 1]" "h_phase ?c 1 = Idle" "h_gate ?c = None" "h_alone ?c = None"
    by (simp_all add: defs)
  ultimately show ?thesis by blast
qed

lemma budget_kept_witness:
  "\<exists>h. live h \<and> h_phase h (0 :: nat) = Admitted 2 [0, 1] \<and> (\<forall>p. h_phase h p \<noteq> Alone)"
proof -
  obtain h where h: "live h" "h_phase h (0 :: nat) = Admitted 2 [0, 1]" using host_admitted by blast
  then show ?thesis using budget_kept[of h "{0}" "\<lambda>_. 2" "\<lambda>_. [0, 1]"] by auto
qed

section \<open>Order\<close>

lemma turn_other:
  assumes "host_inv h" "h_phase h r = Taking k j s" "h_phase h p = Taking need i held" "q \<noteq> p"
  shows "h_phase (take_turn r k j s h) q = h_phase h q"
proof -
  have "r = p" using inv_unique(2)[OF assms(1)] assms(2,3) by simp
  then show ?thesis using assms(4) by (simp add: take_turn_def set_phase_def)
qed

text \<open>
  While a command takes its tokens no other command becomes admitted: holding the gate, it is
  not overtaken by a later, smaller command.
\<close>

theorem not_overtaken:
  assumes "live h" "hstep h h'" "h_phase h p = Taking need i held" "h_phase h' q = Admitted n ts" "q \<noteq> p"
  shows "h_phase h q = Admitted n ts"
  using assms(2)
  by (rule hstepE)
    (use assms(4) turn_other[OF live_inv[OF assms(1)] _ assms(3,5)]
      in \<open>auto simp: set_phase_def release_def split: if_split_asm\<close>)

definition host_two :: "nat host \<Rightarrow> nat host" where
  "host_two h = (set_phase 1 (Taking 3 0 []) (h\<lparr>h_shared := insert 1 (h_shared h)\<rparr>))\<lparr>h_gate := Some 1\<rparr>"

lemma host_two_live:
  assumes "live h" "h_phase h 1 = Idle" "h_gate h = None" "h_alone h = None"
  shows "live (host_two h)"
proof -
  have 1: "hstep h (set_phase 1 (AtMutex 3) h)" (is "hstep _ ?a")
    using assms by (intro hstep.start) (simp_all add: admit_checks_def tokens_n_def TOKENS_def BUDGET_G_def TOKEN_G_def)
  have 2: "hstep ?a ((set_phase 1 (AtGate 3) ?a)\<lparr>h_shared := insert 1 (h_shared h)\<rparr>)" (is "hstep _ ?b")
    using hstep.mutex[of ?a 1 3] assms by (simp add: set_phase_def)
  have 3: "hstep ?b (host_two h)"
    using hstep.gate[of ?b 1 3] assms by (simp add: set_phase_def host_two_def)
  show ?thesis
    by (rule rtranclp.rtrancl_into_rtrancl[OF rtranclp.rtrancl_into_rtrancl[OF
      rtranclp.rtrancl_into_rtrancl[OF assms(1) 1] 2] 3])
qed

lemma not_overtaken_witness: "\<exists>h. live h \<and> h_phase h (0 :: nat) = Admitted 2 [0, 1] \<and> h_phase h 1 = Taking 3 0 []"
proof -
  obtain h where h: "live h" "h_phase h (0 :: nat) = Admitted 2 [0, 1]" "h_phase h 1 = Idle" "h_gate h = None" "h_alone h = None"
    using host_admitted by blast
  let ?h = "host_two h"
  have p: "h_phase ?h 1 = Taking 3 0 []" by (simp add: host_two_def set_phase_def)
  have "hstep ?h (take_turn 1 3 0 [] ?h)" by (rule hstep.turn[OF p])
  moreover have "h_phase (take_turn 1 3 0 [] ?h) 0 = Admitted 2 [0, 1]"
    using h(2) by (simp add: take_turn_def host_two_def set_phase_def)
  ultimately have "h_phase ?h 0 = Admitted 2 [0, 1]"
    using not_overtaken[OF host_two_live[OF h(1,3-5)] _ p] by simp
  then show ?thesis using host_two_live[OF h(1,3-5)] p by blast
qed

end
