(* ===== verification/Slots.thy ===== *)
theory Slots
  imports Memory_Budget
begin

text \<open>
  \<open>vivado_slot\<close> of \<open>tools/xut/slots.py\<close>: the scan of the slot files, again every poll, until one is
  free. \<open>busy r i\<close> says whether somebody else holds the lock of slot \<open>i\<close> when it is tried in
  scan \<open>r\<close>; a wait that never ends is the value None.
\<close>

definition free_slot :: "nat \<Rightarrow> (nat \<Rightarrow> bool) \<Rightarrow> nat option" where
  "free_slot n busy = find (\<lambda>i. \<not> busy i) [0..<n]"

partial_function (option) wait_slot :: "nat \<Rightarrow> (nat \<Rightarrow> nat \<Rightarrow> bool) \<Rightarrow> nat \<Rightarrow> nat option" where
  "wait_slot n busy r =
     (case free_slot n (busy r) of Some i \<Rightarrow> Some i | None \<Rightarrow> wait_slot n busy (Suc r))"

definition vivado_slot ::
  "environ \<Rightarrow> int option \<Rightarrow> (nat \<Rightarrow> nat \<Rightarrow> bool) \<Rightarrow> (slot_error, nat option) result" where
  "vivado_slot env n busy =
     rbind (case n of None \<Rightarrow> slot_count env | Some k \<Rightarrow> Inr k) (\<lambda>k.
       if k < 1 then Inl (NoSlots k) else Inr (wait_slot (nat k) busy 0))"

lemma free_slot_Some: "free_slot n b = Some i \<longleftrightarrow> i < n \<and> \<not> b i \<and> (\<forall>j < i. b j)"
  by (auto simp: free_slot_def find_Some_iff)

lemma free_slot_None: "free_slot n b = None \<longleftrightarrow> (\<forall>i < n. b i)"
  by (auto simp: free_slot_def find_None_iff)

lemma wait_slot_from:
  assumes "wait_slot n busy r = Some i"
  shows "\<exists>k \<ge> r. free_slot n (busy k) = Some i \<and> (\<forall>j. r \<le> j \<and> j < k \<longrightarrow> free_slot n (busy j) = None)"
proof (rule wait_slot.raw_induct[OF _ assms])
  fix w n busy r i
  assume IH: "\<And>n busy r i. w n busy r = Some i \<Longrightarrow>
      \<exists>k \<ge> r. free_slot n (busy k) = Some i \<and> (\<forall>j. r \<le> j \<and> j < k \<longrightarrow> free_slot n (busy j) = None)"
    and e: "(case free_slot n (busy r) of Some i \<Rightarrow> Some i | None \<Rightarrow> w n busy (Suc r)) = Some i"
  show "\<exists>k \<ge> r. free_slot n (busy k) = Some i \<and> (\<forall>j. r \<le> j \<and> j < k \<longrightarrow> free_slot n (busy j) = None)"
  proof (cases "free_slot n (busy r)")
    case None
    then obtain k where "Suc r \<le> k" "free_slot n (busy k) = Some i"
      "\<forall>j. Suc r \<le> j \<and> j < k \<longrightarrow> free_slot n (busy j) = None" using IH[of n busy "Suc r" i] e by auto
    then have k: "r \<le> k" "free_slot n (busy k) = Some i" by simp_all
    have "free_slot n (busy j) = None" if "r \<le> j" "j < k" for j
      using that None \<open>\<forall>j. Suc r \<le> j \<and> j < k \<longrightarrow> free_slot n (busy j) = None\<close> by (cases "j = r") simp_all
    then show ?thesis using k by blast
  qed (use e in auto)
qed

lemma wait_slot_ends: "free_slot n (busy (r + d)) \<noteq> None \<Longrightarrow> wait_slot n busy r \<noteq> None"
proof (induction d arbitrary: r)
  case 0
  then show ?case by (subst wait_slot.simps) (auto split: option.split)
next
  case (Suc d)
  then show ?case by (subst wait_slot.simps) (auto split: option.split)
qed

text \<open>
  C24. Waiting for a Vivado slot ends exactly when some scan finds a slot free, and then it holds the
  first free slot of the first such scan: no free slot is passed over.
\<close>

theorem slot_wait:
  assumes "1 \<le> k" "n = Some (int k) \<or> (n = None \<and> slot_count env = Inr (int k))"
  shows "\<exists>res. vivado_slot env n busy = Inr res \<and> (res \<noteq> None \<longleftrightarrow> (\<exists>r. \<exists>i < k. \<not> busy r i)) \<and>
    (\<forall>i \<in> set_option res. i < k \<and>
       (\<exists>r. \<not> busy r i \<and> (\<forall>j < i. busy r j) \<and> (\<forall>r' < r. \<forall>j < k. busy r' j)))"
proof -
  let ?res = "wait_slot k busy 0"
  have v: "vivado_slot env n busy = Inr ?res" using assms by (auto simp: vivado_slot_def rbind_def)
  have 1: "i < k \<and> (\<exists>r. \<not> busy r i \<and> (\<forall>j < i. busy r j) \<and> (\<forall>r' < r. \<forall>j < k. busy r' j))"
    if "?res = Some i" for i
    using wait_slot_from[OF that] by (auto simp: free_slot_Some free_slot_None)
  have 2: "?res \<noteq> None" if "i < k" "\<not> busy r i" for r i
    using that wait_slot_ends[of k busy 0 r] by (auto simp: free_slot_None)
  have "?res \<noteq> None \<longleftrightarrow> (\<exists>r. \<exists>i < k. \<not> busy r i)" using 1 2 by fastforce
  then show ?thesis using 1 v by (intro exI[of _ ?res]) auto
qed

lemma slot_wait_witness:
  "\<exists>i. vivado_slot (\<lambda>_. None) None (\<lambda>r i. r = 0 \<or> i = 0) = Inr (Some i) \<and> i < 4"
proof -
  have c: "slot_count (\<lambda>_. None) = Inr (int 4)" by code_simp
  have o: "1 \<le> (4 :: nat)" by simp
  define b where "b = (\<lambda>r i :: nat. r = (0 :: nat) \<or> i = 0)"
  note w = slot_wait[OF o disjI2[OF conjI[OF refl c]], of b]
  then obtain res where r: "vivado_slot (\<lambda>_. None) None b = Inr res" "res \<noteq> None \<longleftrightarrow> (\<exists>r. \<exists>i < 4. \<not> b r i)"
    "\<forall>i \<in> set_option res. i < 4 \<and> (\<exists>r. \<not> b r i \<and> (\<forall>j < i. b r j) \<and> (\<forall>r' < r. \<forall>j < 4. b r' j))"
    by (elim exE conjE) (rule that)
  have "\<exists>r. \<exists>i < 4. \<not> b r i" by (rule exI[of _ 1], rule exI[of _ 1]) (simp add: b_def)
  then obtain i where "res = Some i" using r(2) by blast
  then show ?thesis using r(1,3) by (simp add: b_def)
qed

end
