(* ===== verification/Testspec.thy ===== *)
theory Testspec
  imports Py_Files Formats_Common
begin

text \<open>
  \<open>tools/xut/testspec.py\<close>: the tests of the \<open>test.yaml\<close> files, their selection, the runners that run
  them and the names of findings. \<open>tc_group\<close> is the directory the test file sits in, and a configuration is
  its name with its attributes. Reading and validating the files is not modelled: \<open>discover\<close> starts
  from the cases of each file, in file order.
\<close>

definition DECLARED_RUNNERS :: "string list" where
  "DECLARED_RUNNERS = [''python'', ''xsim'', ''iverilog'', ''verilator'', ''hw'']"

definition DECLARATION_OF :: "(string, string) dict" where
  "DECLARATION_OF = [(''iverilog-vz'', ''verilator'')]"

definition SIMULATORS :: "string list" where
  "SIMULATORS = [''xsim'', ''iverilog'', ''verilator'']"

definition RUNNER_ORDER :: "string list" where
  "RUNNER_ORDER = [''python'', ''xsim'', ''iverilog'', ''iverilog-vz'', ''verilator'', ''hw'']"

text \<open>An \<open>expected_divergence\<close> entry, and the fields of a test case the modelled code reads.\<close>

record divergence =
  ed_cls :: string
  ed_runners :: "string list"
  ed_finding :: string
  ed_sources :: "string list option"
  ed_flows :: "string list option"

record test_case =
  tc_id :: string
  tc_family :: string
  tc_group :: string
  tc_prim :: string
  tc_level :: string
  tc_style :: string
  tc_source :: "string option"
  tc_work_unit :: string
  tc_runners :: "(string, string) dict"
  tc_reasons :: "(string, string) dict"
  tc_exclusions :: "(string, (string, string) dict) dict"
  tc_flows :: "string list"
  tc_exercises :: "string list"
  tc_configs :: "(string \<times> (string, attr_val) dict) list"
  tc_timeout :: "int option"
  tc_expected :: "divergence list"

section \<open>Discovery and selection\<close>

datatype spec_error = DuplicateTest string string string

definition add_case ::
  "string \<Rightarrow> test_case list \<times> (string, string) dict \<Rightarrow> test_case \<Rightarrow>
   (spec_error, test_case list \<times> (string, string) dict) result" where
  "add_case file = (\<lambda>(cs, seen) c.
     case map_of seen (tc_id c) of
       Some f \<Rightarrow> Inl (DuplicateTest file (tc_id c) f)
     | None \<Rightarrow> Inr (cs @ [c], AList.update (tc_id c) file seen))"

definition discover :: "(string \<times> test_case list) list \<Rightarrow> (spec_error, test_case list) result" where
  "discover files =
     rbind (rfold (\<lambda>s (f, cs). rfold (add_case f) s cs) ([], []) files) (\<lambda>(cs, _). Inr cs)"

definition matches :: "test_case \<Rightarrow> string \<Rightarrow> bool" where
  "matches c p =
     (if starts_with ''unit:'' p then tc_work_unit c = drop 5 p
      else tc_prim c = p \<or> glob p (tc_id c))"

definition select :: "test_case list \<Rightarrow> string list \<Rightarrow> test_case list" where
  "select cases patterns = filter (\<lambda>c. list_ex (matches c) patterns) cases"

section \<open>Runners\<close>

definition declaration_of :: "string \<Rightarrow> string" where
  "declaration_of r = (case map_of DECLARATION_OF r of Some d \<Rightarrow> d | None \<Rightarrow> r)"

definition no_reason :: "string \<Rightarrow> string" where
  "no_reason v = [CHR 0x22] @ v @ [CHR 0x22] @ '' without a reason''"

definition declared :: "test_case \<Rightarrow> string \<Rightarrow> bool \<times> string" where
  "declared c runner =
     (let r = declaration_of runner in
      case map_of (tc_runners c) r of
        None \<Rightarrow> (False, ''not declared'')
      | Some v \<Rightarrow>
          if v = ''yes'' then (True, '''')
          else (False, case map_of (tc_reasons c) r of Some why \<Rightarrow> why | None \<Rightarrow> no_reason v))"

definition runner_flows :: "string \<Rightarrow> string list \<Rightarrow> string list" where
  "runner_flows runner flows =
     (if runner = ''python'' then [''rtl'']
      else if runner = ''hw'' then filter (\<lambda>f. f \<noteq> ''rtl'') (dedup flows)
      else dedup (''rtl'' # flows))"

definition runner_index :: "string \<Rightarrow> nat" where
  "runner_index r = length (takeWhile (\<lambda>x. x \<noteq> r) RUNNER_ORDER)"

definition sort_runners :: "string list \<Rightarrow> string list" where
  "sort_runners rs = sort_key runner_index (sort rs)"

definition declared_runners :: "test_case \<Rightarrow> string \<Rightarrow> string list" where
  "declared_runners c flow =
     sort_runners (filter (\<lambda>r. fst (declared c r) \<and> flow \<in> set (runner_flows r (tc_flows c)))
       (DECLARED_RUNNERS @ dict_keys DECLARATION_OF))"

definition exclusions_for :: "test_case \<Rightarrow> string \<Rightarrow> (string, string) dict" where
  "exclusions_for c runner =
     (case map_of (tc_exclusions c) (declaration_of runner) of Some g \<Rightarrow> g | None \<Rightarrow> [])"

section \<open>Findings\<close>

text \<open>The parts of a test id; None: \<open>IndexError\<close>, for an id without the part.\<close>

definition prim_of :: "string \<Rightarrow> string option" where
  "prim_of tid = (case split_on (CHR ''.'') tid of _ # p # _ \<Rightarrow> Some p | _ \<Rightarrow> None)"

definition finding_slug :: "string \<Rightarrow> string \<Rightarrow> string option" where
  "finding_slug cls tid =
     (case split_on (CHR ''.'') tid of
        _ # _ # l # rest \<Rightarrow> Some (cls @ ''-'' @ join ''-'' (l # rest))
      | _ \<Rightarrow> None)"

definition finding_id :: "string \<Rightarrow> string \<Rightarrow> string \<Rightarrow> string option" where
  "finding_id prim cls tid = map_option (\<lambda>s. prim @ ''-'' @ s) (finding_slug cls tid)"

text \<open>The first line matching \<open>^\s*(?:[-*]\s*)?Status:\s*(\S+)\<close>, without regard to case.\<close>

definition status_line :: "string \<Rightarrow> string option" where
  "status_line line =
     (let s = lstrip line;
          u = (if s \<noteq> [] \<and> (hd s = CHR ''-'' \<or> hd s = CHR ''*'') then lstrip (tl s) else s);
          v = takeWhile (\<lambda>c. \<not> is_space c) (lstrip (drop 7 u))
      in if lower (take 7 u) = ''status:'' \<and> v \<noteq> [] then Some (lower v) else None)"

definition finding_status :: "string \<Rightarrow> string option" where
  "finding_status text =
     (case List.map_filter status_line (splitlines text) of [] \<Rightarrow> None | s # _ \<Rightarrow> Some s)"

section \<open>Facts\<close>

lemma add_cases:
  "rfold (add_case f) (cs, seen) new = Inr (cs', seen') \<Longrightarrow>
   distinct (map tc_id cs) \<Longrightarrow> fst ` set seen = tc_id ` set cs \<Longrightarrow>
   cs' = cs @ new \<and> distinct (map tc_id cs') \<and> fst ` set seen' = tc_id ` set cs'"
proof (induction new arbitrary: cs seen)
  case (Cons c new)
  have n: "map_of seen (tc_id c) = None"
    and r: "rfold (add_case f) (cs @ [c], AList.update (tc_id c) f seen) new = Inr (cs', seen')"
    using Cons.prems(1) by (auto simp: add_case_def rbind_Inr_iff split: option.splits)
  have "tc_id c \<notin> tc_id ` set cs" using n Cons.prems(3) by (simp add: map_of_eq_None_iff)
  then have "distinct (map tc_id (cs @ [c]))" using Cons.prems(2) by auto
  moreover have "fst ` set (AList.update (tc_id c) f seen) = tc_id ` set (cs @ [c])"
    using Cons.prems(3) by (simp add: dom_update)
  ultimately have "cs' = (cs @ [c]) @ new \<and> distinct (map tc_id cs') \<and> fst ` set seen' = tc_id ` set cs'"
    by (rule Cons.IH[OF r])
  then show ?case by (metis append.assoc append_Cons append_Nil)
qed simp

lemma add_files:
  "rfold (\<lambda>s (f, cs). rfold (add_case f) s cs) (cs, seen) files = Inr (cs', seen') \<Longrightarrow>
   distinct (map tc_id cs) \<Longrightarrow> fst ` set seen = tc_id ` set cs \<Longrightarrow>
   cs' = cs @ concat (map snd files) \<and> distinct (map tc_id cs')"
proof (induction files arbitrary: cs seen)
  case (Cons fc files)
  obtain f new where fc: "fc = (f, new)" by (cases fc)
  obtain cs1 seen1 where 1: "rfold (add_case f) (cs, seen) new = Inr (cs1, seen1)"
    and 2: "rfold (\<lambda>s (f, cs). rfold (add_case f) s cs) (cs1, seen1) files = Inr (cs', seen')"
    using Cons.prems(1) fc by (auto simp: rbind_Inr_iff)
  note a = add_cases[OF 1 Cons.prems(2,3)]
  have "cs' = cs1 @ concat (map snd files) \<and> distinct (map tc_id cs')"
    by (rule Cons.IH[OF 2]) (use a in blast)+
  then show ?case using a fc by (metis append.assoc concat.simps(2) list.simps(9) snd_conv)
qed simp

text \<open>
  The tests found are those of the files, in file order, each id once; and every runner found for
  a flow of a test is one the test declares, the golden model only for \<open>rtl\<close> and the hardware only for
  another flow.
\<close>

theorem discover_unique:
  assumes "discover files = Inr cs"
  shows "cs = concat (map snd files) \<and> distinct (map tc_id cs) \<and>
    (\<forall>c \<in> set cs. \<forall>flow. \<forall>r \<in> set (declared_runners c flow).
      map_of (tc_runners c) (declaration_of r) = Some ''yes'' \<and>
      (r = ''python'' \<longrightarrow> flow = ''rtl'') \<and> (r = ''hw'' \<longrightarrow> flow \<noteq> ''rtl''))"
proof -
  obtain seen where "rfold (\<lambda>s (f, cs). rfold (add_case f) s cs) ([], []) files = Inr (cs, seen)"
    using assms by (auto simp: discover_def rbind_Inr_iff)
  from add_files[OF this] have "cs = concat (map snd files)" "distinct (map tc_id cs)" by (metis append_Nil distinct.simps(1) empty_set image_empty list.simps(8))+
  moreover have "map_of (tc_runners c) (declaration_of r) = Some ''yes''" if "fst (declared c r)" for c r
    using that by (auto simp: declared_def Let_def split: option.splits if_split_asm)
  ultimately show ?thesis
    by (intro conjI ballI allI) (auto simp: declared_runners_def sort_runners_def runner_flows_def split: if_split_asm)
qed

definition case_example :: "string \<Rightarrow> test_case" where
  "case_example tid =
     \<lparr>tc_id = tid, tc_family = ''7series'', tc_group = ''register'', tc_prim = ''FDRE'', tc_level = ''L0'',
      tc_style = ''vector'', tc_source = None, tc_work_unit = ''flops'',
      tc_runners = [(''python'', ''yes''), (''verilator'', ''no'')], tc_reasons = [], tc_exclusions = [],
      tc_flows = [''rtl''], tc_exercises = [], tc_configs = [], tc_timeout = None, tc_expected = []\<rparr>"

lemma discover_unique_witness:
  "distinct (map tc_id [case_example ''7series.FDRE.L0.a'', case_example ''7series.FDRE.L0.b''])"
proof -
  have "discover [(''f'', [case_example ''7series.FDRE.L0.a'', case_example ''7series.FDRE.L0.b''])] =
    Inr [case_example ''7series.FDRE.L0.a'', case_example ''7series.FDRE.L0.b'']"
    by (simp add: discover_def add_case_def case_example_def)
  from discover_unique[OF this] show ?thesis by blast
qed

end
