(* ===== verification/Crosscheck.thy ===== *)
theory Crosscheck
  imports Golden Testspec
begin

text \<open>
  \<open>tools/xut/crosscheck.py\<close>: the views of a test's results, their comparison in pairs, the findings,
  the issues and the verdict. Reading \<open>build/\<close> and writing the findings are not modelled: \<open>check\<close>
  starts from the views \<open>gather\<close> returns. A result is the record of the fields the code reads, as
  \<open>result.schema.json\<close> types them. A set of texts the code only tests or sorts is a list. A
  constructor of \<open>issue\<close> is one message; the points of a finding are the texts themselves.
\<close>

section \<open>Views\<close>

record config_entry =
  c_cfg :: string
  c_status :: string
  c_reason :: "string option"

text \<open>
  \<open>r_configs\<close> is None where the result has no \<open>configs\<close>; \<open>r_stamped\<close> says that it has a
  \<open>tree_hash\<close> at all; \<open>r_seeds_x\<close> and \<open>r_repeats\<close> are texts.
\<close>

record result_data =
  r_configs :: "config_entry list option"
  r_reason :: "string option"
  r_x_dependence :: bool
  r_seeds_x :: string
  r_selftest :: "string option"
  r_repeats_differ :: bool
  r_repeats :: string
  r_stamped :: bool
  r_tree :: "string option"
  r_head :: "string option"
  r_dirty :: "bool option"

record view =
  v_flow :: string
  v_runner :: string
  v_status :: string
  v_ms :: "string option"
  v_trace :: "trace option"
  v_result :: result_data

type_synonym views = "((string \<times> string) \<times> view) list"

definition RAN :: "string list" where "RAN = [''pass'', ''fail'']"

definition X_OBSERVABLE :: "(string, bool) dict" where
  "X_OBSERVABLE = [(''python'', True), (''xsim'', True), (''iverilog'', True), (''iverilog-vz'', True),
     (''verilator'', False), (''hw'', False)]"

definition observable :: "string \<Rightarrow> bool" where
  "observable r = (case map_of X_OBSERVABLE r of Some b \<Rightarrow> b | None \<Rightarrow> True)"

definition MAX_POINTS :: nat where "MAX_POINTS = 200"

text \<open>The configurations a runner ran; None for a view without \<open>configs\<close> means all.\<close>

definition ran :: "view \<Rightarrow> string list option" where
  "ran v = map_option (\<lambda>cs. map c_cfg (filter (\<lambda>c. c_status c \<in> set RAN) cs)) (r_configs (v_result v))"

definition has_trace :: "view option \<Rightarrow> bool" where
  "has_trace v = (case v of None \<Rightarrow> False | Some w \<Rightarrow> v_trace w \<noteq> None \<and> ran w \<noteq> Some [])"

definition empty_trace :: trace where
  "empty_trace = \<lparr>t_header = [], t_samples = [], t_prov = []\<rparr>"

text \<open>The trace of a view known to have one (the code asserts it).\<close>

definition trace_of :: "view \<Rightarrow> trace" where
  "trace_of v = (case v_trace v of Some t \<Rightarrow> t | None \<Rightarrow> empty_trace)"

section \<open>Findings\<close>

record finding =
  f_cls :: string
  f_test :: string
  f_flow :: string
  f_ms :: "string option"
  f_runners :: "string list"
  f_points :: "string list"
  f_expected :: bool
  f_known_of :: "string option"
  f_finding :: "string option"

definition more_points :: "nat \<Rightarrow> string" where
  "more_points n = ''... ('' @ show_nat n @ '' more)''"

definition new_finding ::
  "string \<Rightarrow> string \<Rightarrow> string \<Rightarrow> string option \<Rightarrow> string list \<Rightarrow> string list \<Rightarrow> finding" where
  "new_finding cls tid flow ms runners points =
     \<lparr>f_cls = cls, f_test = tid, f_flow = flow, f_ms = ms, f_runners = sort runners,
      f_points = take MAX_POINTS points @
        (if MAX_POINTS < length points then [more_points (length points - MAX_POINTS)] else []),
      f_expected = False, f_known_of = None, f_finding = None\<rparr>"

datatype issue =
    Structural "string option" "string list" mismatch
  | UnknownProv "string option" string mismatch
  | OtherId string string string "string option" string
  | CfgError string string string string "string option"
  | ResultError string string string "string option"
  | Unexplained string string string "string option"
  | NothingCompared string bool "((string \<times> string) \<times> string list) list"
  | ComparedWithNothing string string
  | StaleResult string string string "string option" "bool option"
  | MixedTrees string "(string \<times> string list) list"
  | AbsentConfig string string string string
  | Unconfirmed string string string
  | NoFindingFile string
  | NotOpen string "string option"

section \<open>Comparing two views\<close>

definition cfg_of :: "string \<Rightarrow> string" where
  "cfg_of label = hd (split_on (CHR ''/'') label)"

definition restrict_trace :: "trace \<Rightarrow> string list option \<Rightarrow> trace" where
  "restrict_trace t cfgs =
     (case cfgs of
        None \<Rightarrow> t
      | Some cs \<Rightarrow>
          (let keep = filter (\<lambda>(l, p). cfg_of l \<in> set cs) (t_samples t)
           in \<lparr>t_header = t_header t, t_samples = keep,
               t_prov = filter (\<lambda>(l, p). dict_has keep l) (t_prov t)\<rparr>))"

definition bits_compared :: "bool \<Rightarrow> bool \<Rightarrow> bool \<Rightarrow> string \<Rightarrow> string \<Rightarrow> nat" where
  "bits_compared expected a_x b_x va vb =
     length (filter (\<lambda>(ca, cb).
       if expected then ca \<noteq> CHR ''-'' \<and> (b_x \<or> \<not> is_xz ca)
       else \<not> ((is_xz ca \<and> \<not> b_x) \<or> (is_xz cb \<and> \<not> a_x))) (zip va vb))"

definition compared_bits :: "trace \<Rightarrow> trace \<Rightarrow> bool \<Rightarrow> bool \<Rightarrow> bool \<Rightarrow> nat" where
  "compared_bits ta tb expected a_x b_x =
     sum_list (map (\<lambda>(label, pa).
       case map_of (t_samples tb) label of
         None \<Rightarrow> 0
       | Some pb \<Rightarrow>
           sum_list (map (\<lambda>(port, va).
             case map_of pb port of
               None \<Rightarrow> 0
             | Some vb \<Rightarrow> if length va \<noteq> length vb then 0 else bits_compared expected a_x b_x va vb) pa))
       (t_samples ta))"

definition reject_agreement :: "trace \<Rightarrow> trace \<Rightarrow> string list option \<Rightarrow> bool" where
  "reject_agreement ta tb common =
     (case common of
        None \<Rightarrow> False
      | Some cs \<Rightarrow>
          list_ex (\<lambda>c. c \<notin> set (map cfg_of (dict_keys (t_samples ta) @ dict_keys (t_samples tb)))) cs)"

definition OUTCOME :: "(string, string) dict" where
  "OUTCOME = [(''pass'', ''rejects''), (''fail'', ''accepts'')]"

definition outcomes :: "view \<Rightarrow> (string, string) dict" where
  "outcomes v =
     dict_of (List.map_filter (\<lambda>c. map_option (Pair (c_cfg c)) (map_of OUTCOME (c_status c)))
       (case r_configs (v_result v) of Some cs \<Rightarrow> cs | None \<Rightarrow> []))"

definition reject_cfgs :: "view list \<Rightarrow> string list" where
  "reject_cfgs vs =
     (let ts = filter (\<lambda>v. has_trace (Some v)) vs;
          rans = concat (map (\<lambda>v. case ran v of Some cs \<Rightarrow> cs | None \<Rightarrow> []) ts);
          sampled = concat (map (\<lambda>v. map cfg_of (dict_keys (t_samples (trace_of v)))) ts)
      in filter (\<lambda>c. c \<notin> set sampled) rans)"

definition rejection_point :: "string \<Rightarrow> string \<Rightarrow> string \<Rightarrow> string \<Rightarrow> string \<Rightarrow> string" where
  "rejection_point c ra oa rb ob =
     ''cfg '' @ c @ '': rejection disagreement: '' @ ra @ '' '' @ oa @ '', '' @ rb @ '' '' @ ob"

definition rejection_diff :: "view \<Rightarrow> view \<Rightarrow> string list \<Rightarrow> (string, string) dict" where
  "rejection_diff a b reject =
     (let oa = outcomes a; ob = outcomes b in
      List.map_filter (\<lambda>c.
        case (map_of oa c, map_of ob c) of
          (Some x, Some y) \<Rightarrow> if x \<noteq> y then Some (c, rejection_point c (v_runner a) x (v_runner b) y) else None
        | _ \<Rightarrow> None) (sort (dedup reject)))"

text \<open>What a pair of views shares, and the comparison it makes: \<open>(a, b, evidence)\<close>.\<close>

type_synonym pairing = "string \<times> string \<times> bool"

definition common_cfgs :: "view \<Rightarrow> view \<Rightarrow> string list option" where
  "common_cfgs a b =
     (case (ran a, ran b) of
        (ra, None) \<Rightarrow> ra
      | (None, Some rb) \<Rightarrow> Some rb
      | (Some ra, Some rb) \<Rightarrow> Some (filter (\<lambda>c. c \<in> set rb) ra))"

definition paired :: "view \<Rightarrow> view \<Rightarrow> trace \<times> trace" where
  "paired a b = (restrict_trace (trace_of a) (common_cfgs a b), restrict_trace (trace_of b) (common_cfgs a b))"

definition view_key :: "view \<Rightarrow> string" where
  "view_key v = v_flow v @ ''/'' @ v_runner v"

definition pair_evidence :: "view \<Rightarrow> view \<Rightarrow> bool \<Rightarrow> bool \<Rightarrow> bool \<Rightarrow> pairing" where
  "pair_evidence a b expected a_x b_x =
     (let common = common_cfgs a b; (ta, tb) = paired a b
      in (view_key a, view_key b,
          common \<noteq> Some [] \<and> (0 < compared_bits ta tb expected a_x b_x \<or> reject_agreement ta tb common)))"

definition point_prov :: "mismatch \<Rightarrow> string option" where
  "point_prov m =
     (case m_prov m of
        None \<Rightarrow> None
      | Some p \<Rightarrow>
          if m_bit m < 0 then Some p
          else (case bit_prov p (m_bit m) of Inr t \<Rightarrow> Some t | Inl _ \<Rightarrow> Some p))"

definition mismatch_where :: "mismatch \<Rightarrow> string" where
  "mismatch_where m =
     m_label m @ '' '' @ m_port m @ (if 0 \<le> m_bit m then ''['' @ show_int (m_bit m) @ '']'' else [])"

definition prov_tag :: "string option \<Rightarrow> string" where
  "prov_tag p = (case p of Some (c # cs) \<Rightarrow> '' ('' @ (c # cs) @ '')'' | _ \<Rightarrow> [])"

text \<open>\<open>str(Mismatch)\<close>, and a point of a golden comparison.\<close>

definition mismatch_text :: "mismatch \<Rightarrow> string" where
  "mismatch_text m =
     mismatch_where m @ '': expected '' @ m_expected m @ '', got '' @ m_actual m @ prov_tag (m_prov m) @
     '' ['' @ m_kind m @ '']''"

definition golden_point :: "mismatch \<Rightarrow> string" where
  "golden_point m =
     mismatch_where m @ '': expected '' @ m_expected m @ '', got '' @ m_actual m @ prov_tag (point_prov m) @
     (if m_kind m = ''value'' then [] else '' ['' @ m_kind m @ '']'')"

definition observes :: "view \<Rightarrow> mismatch \<Rightarrow> bool" where
  "observes v m \<longleftrightarrow>
     (case ran v of Some cs \<Rightarrow> cfg_of (m_label m) \<in> set cs | None \<Rightarrow> True) \<and>
     (observable (v_runner v) \<or> m_expected m \<notin> {''x'', ''z''})"

section \<open>The golden model against the simulators\<close>

type_synonym point_key = "string \<times> string \<times> int \<times> string"

definition point_key :: "mismatch \<Rightarrow> point_key" where
  "point_key m = (m_label m, m_port m, m_bit m, m_kind m)"

definition key3 :: "point_key \<Rightarrow> string \<times> string \<times> int" where
  "key3 k = (fst k, fst (snd k), fst (snd (snd k)))"

definition add_point ::
  "(point_key, (string, mismatch) dict) dict \<Rightarrow> string \<times> mismatch \<Rightarrow> (point_key, (string, mismatch) dict) dict" where
  "add_point pp = (\<lambda>(r, m).
     AList.update (point_key m)
       (AList.update r m (case map_of pp (point_key m) of Some d \<Rightarrow> d | None \<Rightarrow> [])) pp)"

definition golden_mismatches :: "view \<Rightarrow> string \<times> view \<Rightarrow> mismatch list" where
  "golden_mismatches ex = (\<lambda>(r, v). case paired ex v of (e, a) \<Rightarrow> compare e a (observable r))"

definition per_point :: "view \<Rightarrow> (string \<times> view) list \<Rightarrow> (point_key, (string, mismatch) dict) dict" where
  "per_point ex grp =
     foldl add_point [] (concat (map (\<lambda>(r, v). map (Pair r) (golden_mismatches ex (r, v))) grp))"

definition sorted_points ::
  "view \<Rightarrow> (point_key, (string, mismatch) dict) dict \<Rightarrow> (point_key \<times> (string, mismatch) dict) list" where
  "sorted_points ex pp =
     sort_key (\<lambda>kv. (index_of (fst (fst kv)) (dict_keys (t_samples (trace_of ex))), fst kv)) pp"

record gacc =
  g_points :: "string list"
  g_doc :: "string list"
  g_doc_rs :: "string list"
  g_gap :: "string list"
  g_gap_rs :: "string list"
  g_issues :: "issue list"

definition only_point :: "string \<Rightarrow> mismatch \<Rightarrow> string" where
  "only_point r m = ''python vs '' @ r @ '' only: '' @ golden_point m"

definition golden_step ::
  "string option \<Rightarrow> (string \<times> view) list \<Rightarrow> (string \<times> string \<times> int) list \<Rightarrow> gacc \<Rightarrow>
   point_key \<times> (string, mismatch) dict \<Rightarrow> gacc" where
  "golden_step ms grp diverged acc = (\<lambda>(pt, by_runner).
     if key3 pt \<in> set diverged then acc
     else let m = snd (hd by_runner);
              observers = map fst (filter (\<lambda>(r, v). observes v m) grp);
              runners = map fst by_runner in
       if set runners \<noteq> set observers
       then acc\<lparr>g_points := g_points acc @ map (\<lambda>r. only_point r (the (map_of by_runner r))) (sort runners)\<rparr>
       else let prov = (case point_prov m of Some p \<Rightarrow> p | None \<Rightarrow> '''') in
         if m_kind m \<noteq> ''value'' \<or> m_bit m < 0
         then acc\<lparr>g_issues := g_issues acc @ [Structural ms (sort (map fst grp)) m]\<rparr>
         else if starts_with ''doc:'' prov
         then acc\<lparr>g_doc := g_doc acc @ [golden_point m], g_doc_rs := g_doc_rs acc @ observers\<rparr>
         else if starts_with ''inferred:'' prov
         then acc\<lparr>g_gap := g_gap acc @ [golden_point m], g_gap_rs := g_gap_rs acc @ observers\<rparr>
         else acc\<lparr>g_issues := g_issues acc @ [UnknownProv ms prov m]\<rparr>)"

definition accept_point :: "string \<Rightarrow> string list \<Rightarrow> string" where
  "accept_point c accepting =
     ''cfg '' @ c @ '': rejection disagreement: the golden model rejects (an illegal configuration); accepted by '' @
     join '', '' accepting"

definition golden_reject ::
  "view \<Rightarrow> (string \<times> view) list \<Rightarrow> string list \<Rightarrow> string list \<Rightarrow> gacc \<Rightarrow> gacc" where
  "golden_reject ex grp reject rej_split acc =
     foldl (\<lambda>acc c.
       let accepting = sort (map fst (filter (\<lambda>(r, v). map_of (outcomes v) c = Some ''accepts'') grp)) in
       if accepting \<noteq> []
       then acc\<lparr>g_gap := g_gap acc @ [accept_point c accepting], g_gap_rs := g_gap_rs acc @ accepting\<rparr> else acc)
     acc (sort (filter (\<lambda>c. c \<in> set reject \<and> c \<notin> set rej_split)
       (map fst (filter (\<lambda>(c, x). x = ''rejects'') (outcomes ex)))))"

definition golden_vs_sims ::
  "string option \<Rightarrow> view \<Rightarrow> (string \<times> view) list \<Rightarrow> (string \<times> string \<times> int) list \<Rightarrow> string list \<Rightarrow>
   string list \<Rightarrow> string list \<Rightarrow> gacc" where
  "golden_vs_sims ms ex grp diverged points reject rej_split =
     golden_reject ex grp reject rej_split
       (foldl (golden_step ms grp diverged)
         \<lparr>g_points = points, g_doc = [], g_doc_rs = [], g_gap = [], g_gap_rs = [], g_issues = []\<rparr>
         (sorted_points ex (per_point ex grp)))"

definition doc_findings :: "string \<Rightarrow> string option \<Rightarrow> gacc \<Rightarrow> finding list" where
  "doc_findings tid ms acc =
     (if g_doc acc \<noteq> [] then [new_finding ''doc-vs-model'' tid ''rtl'' ms (dedup (g_doc_rs acc)) (g_doc acc)] else []) @
     (if g_gap acc \<noteq> [] then [new_finding ''doc-gap'' tid ''rtl'' ms (dedup (g_gap_rs acc)) (g_gap acc)] else [])"

section \<open>Classification\<close>

text \<open>What \<open>classify\<close> has found so far.\<close>

record cacc =
  k_out :: "finding list"
  k_issues :: "issue list"
  k_pairs :: "pairing list"

fun combos :: "'a list \<Rightarrow> ('a \<times> 'a) list" where
  "combos [] = []"
| "combos (x # xs) = map (Pair x) xs @ combos xs"

definition traced_sims :: "views \<Rightarrow> views" where
  "traced_sims views = filter (\<lambda>((f, r), v). r \<in> set SIMULATORS \<and> has_trace (Some v)) views"

definition sim_group :: "views \<Rightarrow> string \<Rightarrow> (string \<times> view) list" where
  "sim_group views flow = map (\<lambda>((f, r), v). (r, v)) (filter (\<lambda>((f, r), v). f = flow) (traced_sims views))"

definition sim_flows :: "views \<Rightarrow> string list" where
  "sim_flows views = sort (dedup (map (fst \<circ> fst) (traced_sims views)))"

definition sim_diff :: "string \<times> view \<Rightarrow> string \<times> view \<Rightarrow> mismatch list" where
  "sim_diff = (\<lambda>(a, va) (b, vb). case paired va vb of (ta, tb) \<Rightarrow> diff ta tb (observable a) (observable b))"

definition vs_point :: "string \<Rightarrow> string \<Rightarrow> string \<Rightarrow> string" where
  "vs_point a b t = a @ '' vs '' @ b @ '': '' @ t"

text \<open>The points of one pair of simulators, and all of a flow.\<close>

definition pair_points :: "string list \<Rightarrow> (string \<times> view) \<times> (string \<times> view) \<Rightarrow> string list" where
  "pair_points reject = (\<lambda>((a, va), (b, vb)).
     map (\<lambda>m. vs_point a b (mismatch_text m)) (sim_diff (a, va) (b, vb)) @
     map (\<lambda>(c, pt). vs_point a b pt) (rejection_diff va vb reject))"

definition group_pairs :: "(string \<times> view) list \<Rightarrow> ((string \<times> view) \<times> (string \<times> view)) list" where
  "group_pairs grp = combos (map (\<lambda>r. (r, the (map_of grp r))) (sort (map fst grp)))"

definition flow_step :: "string \<Rightarrow> views \<Rightarrow> cacc \<Rightarrow> string \<Rightarrow> cacc" where
  "flow_step tid views acc flow =
     (let grp = sim_group views flow;
          reject = reject_cfgs (map snd views);
          ms = v_ms (snd (hd grp));
          ps = group_pairs grp;
          points = concat (map (pair_points reject) ps);
          diverged = concat (map (\<lambda>((a, va), (b, vb)). map mkey (sim_diff (a, va) (b, vb))) ps);
          rej_split = concat (map (\<lambda>((a, va), (b, vb)). map fst (rejection_diff va vb reject)) ps);
          pairs = map (\<lambda>((a, va), (b, vb)). pair_evidence va vb False (observable a) (observable b)) ps;
          g = (case map_of views (''rtl'', ''python'') of
                 Some ex \<Rightarrow>
                   if flow = ''rtl'' \<and> has_trace (Some ex)
                   then Some (golden_vs_sims ms ex grp diverged points reject rej_split,
                              map (\<lambda>(r, v). pair_evidence ex v True True (observable r)) grp)
                   else None
               | None \<Rightarrow> None);
          points' = (case g of Some (ga, _) \<Rightarrow> g_points ga | None \<Rightarrow> points)
      in acc\<lparr>k_out := k_out acc @
                (if points' \<noteq> [] then [new_finding ''sim-divergence'' tid flow ms (map fst grp) points'] else []) @
                (case g of Some (ga, _) \<Rightarrow> doc_findings tid ms ga | None \<Rightarrow> []),
             k_issues := k_issues acc @ (case g of Some (ga, _) \<Rightarrow> g_issues ga | None \<Rightarrow> []),
             k_pairs := k_pairs acc @ pairs @ (case g of Some (_, gp) \<Rightarrow> gp | None \<Rightarrow> [])\<rparr>)"

text \<open>One view of the second loop: x-dependence, the transformed models, the flows and the hardware.\<close>

definition plain_diff :: "view \<Rightarrow> view \<Rightarrow> mismatch list" where
  "plain_diff a b = (case paired a b of (ta, tb) \<Rightarrow> diff ta tb True True)"

definition add_finding :: "finding option \<Rightarrow> pairing list \<Rightarrow> cacc \<Rightarrow> cacc" where
  "add_finding f ps acc = acc\<lparr>k_out := k_out acc @ option_list f, k_pairs := k_pairs acc @ ps\<rparr>"

definition when_points :: "string list \<Rightarrow> finding \<Rightarrow> finding option" where
  "when_points pts f = (if pts \<noteq> [] then Some f else None)"

definition x_step :: "string \<Rightarrow> string \<Rightarrow> string \<Rightarrow> view \<Rightarrow> cacc \<Rightarrow> cacc" where
  "x_step tid flow runner v acc =
     (if runner = ''verilator'' \<and> r_x_dependence (v_result v)
      then add_finding (Some (new_finding ''x-dependence'' tid flow (v_ms v) [''verilator'']
             [''X seeds '' @ r_seeds_x (v_result v) @ '' disagree''])) [] acc
      else acc)"

definition vz_step :: "string \<Rightarrow> views \<Rightarrow> string list \<Rightarrow> string \<Rightarrow> string \<Rightarrow> view \<Rightarrow> cacc \<Rightarrow> cacc" where
  "vz_step tid views reject flow runner v acc =
     (case map_of views (flow, ''iverilog'') of
        Some iv \<Rightarrow>
          if runner = ''iverilog-vz'' \<and> has_trace (Some v) \<and> has_trace (Some iv)
          then let pts = map mismatch_text (plain_diff iv v) @ map snd (rejection_diff iv v reject) in
               add_finding (when_points pts
                   (new_finding ''transform-bug'' tid flow (v_ms v) [''iverilog'', ''iverilog-vz''] pts))
                 [pair_evidence iv v False True True] acc
          else acc
      | None \<Rightarrow> acc)"

definition flow_mismatch_step :: "string \<Rightarrow> views \<Rightarrow> string list \<Rightarrow> string \<Rightarrow> string \<Rightarrow> view \<Rightarrow> cacc \<Rightarrow> cacc" where
  "flow_mismatch_step tid views reject flow runner v acc =
     (case map_of views (''rtl'', runner) of
        Some rv \<Rightarrow>
          if flow \<noteq> ''rtl'' \<and> runner \<in> set SIMULATORS \<and> has_trace (Some v) \<and> has_trace (Some rv)
          then let x = observable runner;
                   pts = map mismatch_text (case paired rv v of (ta, tb) \<Rightarrow> diff ta tb x x) @
                         map snd (rejection_diff rv v reject) in
               add_finding (when_points pts (new_finding ''flow-mismatch'' tid flow (v_ms v) [runner] pts))
                 [pair_evidence rv v False x x] acc
          else acc
      | None \<Rightarrow> acc)"

definition hw_step :: "string \<Rightarrow> views \<Rightarrow> string \<Rightarrow> string \<Rightarrow> view \<Rightarrow> cacc \<Rightarrow> cacc" where
  "hw_step tid views flow runner v acc =
     (if runner \<noteq> ''hw'' then acc
      else if r_selftest (v_result v) = Some ''fail''
      then add_finding (Some (new_finding ''harness-error'' tid flow None [''hw''] [''self-test failed''])) [] acc
      else let acc1 = (if r_repeats_differ (v_result v)
             then add_finding (Some (new_finding ''nondeterminism'' tid flow None [''hw'']
                    [r_repeats (v_result v) @ '' runs disagree''])) [] acc
             else acc)
        in case map_of views (''rtl'', ''python'') of
             Some ex \<Rightarrow>
               if has_trace (Some ex) \<and> has_trace (Some v)
               then let pts = map golden_point (case paired ex v of (e, a) \<Rightarrow> compare e a False) in
                    add_finding (when_points pts (new_finding ''silicon-mismatch'' tid flow None [''hw''] pts))
                      [pair_evidence ex v True True False] acc1
               else acc1
           | None \<Rightarrow> acc1)"

definition view_step :: "string \<Rightarrow> views \<Rightarrow> cacc \<Rightarrow> (string \<times> string) \<times> view \<Rightarrow> cacc" where
  "view_step tid views acc = (\<lambda>((flow, runner), v).
     let reject = reject_cfgs (map snd views) in
     hw_step tid views flow runner v
       (flow_mismatch_step tid views reject flow runner v
         (vz_step tid views reject flow runner v (x_step tid flow runner v acc))))"

text \<open>Before the listed divergences are marked.\<close>

definition unmarked :: "string \<Rightarrow> views \<Rightarrow> cacc" where
  "unmarked tid views =
     foldl (view_step tid views)
       (foldl (flow_step tid views) \<lparr>k_out = [], k_issues = [], k_pairs = []\<rparr> (sim_flows views)) views"

definition covers :: "divergence \<Rightarrow> finding \<Rightarrow> bool" where
  "covers e f \<longleftrightarrow>
     ed_cls e = f_cls f \<and> set (f_runners f) \<subseteq> set (ed_runners e) \<and>
     (case ed_sources e of None \<Rightarrow> True | Some ms \<Rightarrow> f_ms f \<in> Some ` set ms) \<and>
     (case ed_flows e of None \<Rightarrow> True | Some fs \<Rightarrow> f_flow f \<in> set fs)"

datatype check_error = NoIdPart string

definition known :: "finding \<Rightarrow> string \<Rightarrow> finding" where
  "known f fid =
     f\<lparr>f_cls := ''known-divergence'', f_expected := True, f_known_of := Some (f_cls f), f_finding := Some fid\<rparr>"

fun mark_with :: "string \<Rightarrow> divergence list \<Rightarrow> finding \<Rightarrow> finding \<times> issue list" where
  "mark_with want [] f = (f, [])"
| "mark_with want (e # es) f =
     (if \<not> covers e f then mark_with want es f
      else if path_stem (ed_finding e) \<noteq> want
      then (case mark_with want es f of (f', is) \<Rightarrow>
              (f', OtherId (ed_finding e) (f_cls f) (f_flow f) (f_ms f) want # is))
      else (known f want, []))"

definition mark_finding :: "divergence list \<Rightarrow> finding \<Rightarrow> (check_error, finding \<times> issue list) result" where
  "mark_finding expected f =
     (case Option.bind (prim_of (f_test f)) (\<lambda>p. finding_id p (f_cls f) (f_test f)) of
        None \<Rightarrow> Inl (NoIdPart (f_test f))
      | Some want \<Rightarrow> Inr (mark_with want expected f))"

definition classify ::
  "string \<Rightarrow> views \<Rightarrow> divergence list \<Rightarrow> (check_error, finding list \<times> issue list \<times> pairing list) result" where
  "classify tid views expected =
     (let k = unmarked tid views in
      rbind (rmap (mark_finding expected) (k_out k)) (\<lambda>ms.
        Inr (map fst ms, k_issues k @ concat (map snd ms), k_pairs k)))"

section \<open>The Verilator companion\<close>

definition companion_gap :: "view option \<Rightarrow> view option \<Rightarrow> string option" where
  "companion_gap vz iv =
     (case vz of
        None \<Rightarrow> Some ''missing''
      | Some z \<Rightarrow>
          if v_status z = ''not-run'' then Some ''missing''
          else if v_status z \<notin> set RAN then Some ''error''
          else case iv of
              Some i \<Rightarrow>
                if has_trace vz \<and> has_trace iv
                then (if plain_diff i z \<noteq> [] \<or> rejection_diff i z (reject_cfgs [i, z]) \<noteq> []
                      then Some ''transform-bug'' else None)
                else (if v_status z = ''pass'' then None else Some ''error'')
            | None \<Rightarrow> if v_status z = ''pass'' then None else Some ''error'')"

definition stamp :: "view \<Rightarrow> string option list" where
  "stamp v = [r_tree (v_result v), r_head (v_result v)]"

definition unstamped :: "view \<Rightarrow> bool" where
  "unstamped v \<longleftrightarrow> r_dirty (v_result v) \<noteq> Some False \<or> list_ex (\<lambda>s. s = None \<or> s = Some []) (stamp v)"

definition stale :: "view \<Rightarrow> view \<Rightarrow> bool" where
  "stale v rv \<longleftrightarrow> unstamped v \<or> unstamped rv \<or> stamp v \<noteq> stamp rv"

text \<open>The views of the three runners on disk, None for a runner without a result.\<close>

definition verilator_unconfirmed :: "view option \<Rightarrow> view option \<Rightarrow> view option \<Rightarrow> string option" where
  "verilator_unconfirmed vl iv vz =
     (case vz of
        None \<Rightarrow> Some ''missing''
      | Some z \<Rightarrow>
          if v_status z = ''not-run'' then Some ''missing''
          else case vl of
              None \<Rightarrow> Some ''stale''
            | Some l \<Rightarrow>
                if stale z l \<or> (case iv of Some i \<Rightarrow> stale i l | None \<Rightarrow> False) then Some ''stale''
                else companion_gap vz iv)"

section \<open>Accounting for every result\<close>

text \<open>Dictionaries are visited in the order of their keys where the code sorts them.\<close>

definition by_key :: "views \<Rightarrow> views" where
  "by_key views = sort_key fst views"

definition unions :: "string list \<Rightarrow> string list \<Rightarrow> string list" where
  "unions xs ys = dedup (xs @ ys)"

text \<open>Ports a runner observed that the golden model does not model: message source, flow, port,
  runners and configurations.\<close>

datatype gap_note =
    UnmodelledPort string string string "string list" "string list"
  | SkippedConfig string string string string "string option"
  | RanOnlyHere string string string string

definition extra_ports :: "view \<Rightarrow> views \<Rightarrow> ((string \<times> string) \<times> string \<times> string) list" where
  "extra_ports ex views =
     concat (map (\<lambda>((flow, runner), v).
       if runner \<noteq> ''python'' \<and> has_trace (Some v)
       then concat (map (\<lambda>(lbl, ports).
              map (\<lambda>p. ((flow, p), cfg_of lbl, runner))
                (filter (\<lambda>p. p \<notin> set (concat (map (\<lambda>(l, ps). if cfg_of l = cfg_of lbl then dict_keys ps else [])
                                        (t_samples (trace_of ex))))) (dict_keys ports)))
              (t_samples (restrict_trace (trace_of v) (ran v))))
       else []) views)"

definition coverage_gaps :: "string \<Rightarrow> views \<Rightarrow> gap_note list" where
  "coverage_gaps ms views =
     (case map_of views (''rtl'', ''python'') of
        None \<Rightarrow> []
      | Some ex \<Rightarrow>
          if \<not> has_trace (Some ex) then []
          else let extra = extra_ports ex views in
            map (\<lambda>(flow, p).
              let hits = map snd (filter (\<lambda>(k, h). k = (flow, p)) extra) in
              UnmodelledPort ms flow p (sort_runners (dedup (map snd hits))) (sort (dedup (map fst hits))))
            (sort (dedup (map fst extra))))"

definition golden_configs :: "views \<Rightarrow> string list" where
  "golden_configs views =
     (case map_of views (''rtl'', ''python'') of
        None \<Rightarrow> []
      | Some ex \<Rightarrow>
          if v_status ex \<in> set RAN then sort (dedup (case ran ex of Some cs \<Rightarrow> cs | None \<Rightarrow> [])) else [])"

definition listed :: "view \<Rightarrow> (string, config_entry) dict" where
  "listed v = dict_of (map (\<lambda>c. (c_cfg c, c)) (case r_configs (v_result v) of Some cs \<Rightarrow> cs | None \<Rightarrow> []))"

definition config_coverage :: "string \<Rightarrow> views \<Rightarrow> gap_note list \<times> issue list" where
  "config_coverage ms views =
     (let rows = concat (map (\<lambda>((flow, runner), v).
            if runner = ''python'' \<or> listed v = [] then []
            else map (\<lambda>g. (flow, runner, g, map_of (listed v) g)) (golden_configs views)) (by_key views))
      in (List.map_filter (\<lambda>(flow, runner, g, c).
            case c of Some e \<Rightarrow> if c_status e = ''skip'' then Some (SkippedConfig ms flow runner g (c_reason e)) else None
            | None \<Rightarrow> None) rows,
          List.map_filter (\<lambda>(flow, runner, g, c). if c = None then Some (AbsentConfig ms flow runner g) else None) rows))"

definition VALUE_CLASSES :: "string list" where
  "VALUE_CLASSES =
     [''sim-divergence'', ''doc-vs-model'', ''doc-gap'', ''transform-bug'', ''flow-mismatch'', ''silicon-mismatch'']"

definition class_of :: "finding \<Rightarrow> string" where
  "class_of f = (case f_known_of f of Some (c # cs) \<Rightarrow> c # cs | _ \<Rightarrow> f_cls f)"

definition applies :: "finding \<Rightarrow> view \<Rightarrow> bool" where
  "applies f v \<longleftrightarrow> f_flow f = v_flow v \<and> (f_ms f = v_ms v \<or> f_ms f = None)"

definition explained :: "view \<Rightarrow> finding list \<Rightarrow> bool" where
  "explained v fs \<longleftrightarrow>
     list_ex (\<lambda>f. class_of f \<in> set VALUE_CLASSES \<and> v_runner v \<in> set (f_runners f) \<and> applies f v) fs"

definition failed_cfgs :: "view \<Rightarrow> string list option" where
  "failed_cfgs v = map_option (\<lambda>cs. map c_cfg (filter (\<lambda>c. c_status c = ''fail'') cs)) (r_configs (v_result v))"

definition companion_explained :: "view \<Rightarrow> finding list \<Rightarrow> views option \<Rightarrow> bool" where
  "companion_explained v fs views =
     (case views of
        None \<Rightarrow> False
      | Some vs \<Rightarrow>
          if v_runner v \<noteq> ''iverilog-vz'' then False
          else case map_of vs (v_flow v, ''iverilog'') of
              None \<Rightarrow> False
            | Some iv \<Rightarrow>
                if v_status iv \<noteq> ''fail'' \<or> \<not> explained iv fs then False
                else if (case failed_cfgs v of
                           None \<Rightarrow> False
                         | Some zs \<Rightarrow> zs = [] \<or> (case failed_cfgs iv of None \<Rightarrow> True | Some is \<Rightarrow> \<not> set zs \<subseteq> set is))
                then False
                else \<not> list_ex (\<lambda>f. class_of f = ''transform-bug'' \<and> applies f v) fs)"

definition result_issues ::
  "string \<Rightarrow> view \<Rightarrow> finding list \<Rightarrow> bool \<Rightarrow> views option \<Rightarrow> issue list" where
  "result_issues ms v fs classified views =
     (let errors = map (\<lambda>c. CfgError ms (v_flow v) (v_runner v) (c_cfg c) (c_reason c))
            (filter (\<lambda>c. c_status c = ''error'') (case r_configs (v_result v) of Some cs \<Rightarrow> cs | None \<Rightarrow> []))
      in if errors \<noteq> [] then errors
         else if v_status v = ''error'' then [ResultError ms (v_flow v) (v_runner v) (r_reason (v_result v))]
         else if classified \<and> v_status v = ''fail'' \<and> \<not> explained v fs \<and> \<not> companion_explained v fs views
         then [Unexplained ms (v_flow v) (v_runner v) (r_reason (v_result v))] else [])"

definition only_here :: "string \<Rightarrow> ((string \<times> string) \<times> string list option) list \<Rightarrow> gap_note list" where
  "only_here ms rans =
     concat (map (\<lambda>((flow, runner), cfgs).
       let others = map snd (filter (\<lambda>(k, c). k \<noteq> (flow, runner)) rans) in
       case cfgs of
         None \<Rightarrow> []
       | Some cs \<Rightarrow>
           if runner = ''python'' \<or> list_ex (\<lambda>c. c = None) others then []
           else map (RanOnlyHere ms flow runner)
                  (sort (dedup (filter (\<lambda>c. c \<notin> set (concat (map the others))) cs)))) rans)"

definition evidence :: "string \<Rightarrow> views \<Rightarrow> pairing list \<Rightarrow> bool \<times> gap_note list \<times> issue list" where
  "evidence ms views pairs =
     (let traced = filter (\<lambda>(k, v). has_trace (Some v)) (by_key views);
          compared = list_ex (\<lambda>(a, b, e). e) pairs;
          rans = map (\<lambda>(k, v). (k, ran v)) traced
      in if length traced < 2 then (compared, [], [])
         else if \<not> compared
         then (compared, only_here ms rans,
               [NothingCompared ms (pairs \<noteq> [])
                  (map (\<lambda>(k, c). (k, sort (dedup (case c of Some cs \<Rightarrow> cs | None \<Rightarrow> [])))) rans)])
         else (compared, only_here ms rans,
               map (ComparedWithNothing ms)
                 (sort (filter (\<lambda>k. \<not> list_ex (\<lambda>(a, b, e). e \<and> (a = k \<or> b = k)) pairs)
                   (dedup (concat (map (\<lambda>(a, b, e). [a, b]) pairs)))))))"

definition provenance_issues :: "string \<Rightarrow> views \<Rightarrow> issue list" where
  "provenance_issues ms views =
     (let stamped = filter (\<lambda>(k, v). r_stamped (v_result v)) (by_key views);
          hashes = List.map_filter (\<lambda>((flow, runner), v). map_option (\<lambda>h. (h, flow @ ''/'' @ runner))
                     (r_tree (v_result v))) stamped
      in List.map_filter (\<lambda>((flow, runner), v).
           if r_tree (v_result v) = None \<or> r_dirty (v_result v) \<noteq> Some False
           then Some (StaleResult ms flow runner (r_tree (v_result v)) (r_dirty (v_result v))) else None) stamped @
         (if 1 < length (dedup (map fst hashes))
          then [MixedTrees ms (map (\<lambda>h. (h, map snd (filter (\<lambda>(g, k). g = h) hashes))) (sort (dedup (map fst hashes))))]
          else []))"

section \<open>The report of a test\<close>

record report_data =
  p_views :: "(string \<times> views) list"
  p_findings :: "finding list"
  p_issues :: "issue list"
  p_gaps :: "gap_note list"
  p_unmatched :: "string list"
  p_compared :: bool
  p_provenance_ok :: bool

definition EXIT_FINDING :: int where "EXIT_FINDING = 3"
definition EXIT_INCOMPLETE :: int where "EXIT_INCOMPLETE = 4"

definition unlisted :: "report_data \<Rightarrow> finding list" where
  "unlisted r = filter (\<lambda>f. f_cls f \<noteq> ''known-divergence'') (p_findings r)"

definition verdict :: "report_data \<Rightarrow> string" where
  "verdict r =
     (if unlisted r \<noteq> [] then ''divergence'' else if p_issues r \<noteq> [] then ''incomplete''
      else if p_findings r \<noteq> [] then ''known-divergence'' else if p_compared r then ''agree''
      else if p_views r \<noteq> [] then ''uncompared'' else ''not-run'')"

definition exit_code :: "report_data \<Rightarrow> int" where
  "exit_code r = (if unlisted r \<noteq> [] then EXIT_FINDING else if p_issues r \<noteq> [] then EXIT_INCOMPLETE else 0)"

definition not_run :: "string \<Rightarrow> string \<Rightarrow> string \<Rightarrow> view" where
  "not_run flow r ms =
     \<lparr>v_flow = flow, v_runner = r, v_status = ''not-run'', v_ms = Some ms, v_trace = None,
      v_result = \<lparr>r_configs = None, r_reason = Some ''declared, but no result.json'', r_x_dependence = False,
        r_seeds_x = ''None'', r_selftest = None, r_repeats_differ = False, r_repeats = ''None'', r_stamped = False,
        r_tree = None, r_head = None, r_dirty = None\<rparr>\<rparr>"

text \<open>The views of a model source, with one for every declared runner that has no result.\<close>

definition fill_views :: "test_case \<Rightarrow> string \<Rightarrow> views \<Rightarrow> views" where
  "fill_views c ms views =
     foldl (\<lambda>vs (flow, r). if dict_has vs (flow, r) then vs else vs @ [((flow, r), not_run flow r ms)]) views
       (concat (map (\<lambda>flow. map (Pair flow) (declared_runners c flow)) (dedup (''rtl'' # tc_flows c))))"

definition verilator_issues :: "string \<Rightarrow> views \<Rightarrow> issue list" where
  "verilator_issues ms views =
     List.map_filter (\<lambda>((flow, runner), v).
       if runner = ''verilator'' \<and> v_status v = ''pass''
       then map_option (Unconfirmed ms flow)
              (companion_gap (map_of views (flow, ''iverilog-vz'')) (map_of views (flow, ''iverilog'')))
       else None) (by_key views)"

definition check_source ::
  "test_case \<Rightarrow> report_data \<times> string list \<Rightarrow> string \<times> views \<Rightarrow> (check_error, report_data \<times> string list) result" where
  "check_source c = (\<lambda>(r, matched) (ms, views0).
     let st = provenance_issues ms views0;
         views = fill_views c ms views0;
         r1 = r\<lparr>p_views := p_views r @ [(ms, views)]\<rparr>
     in if st \<noteq> []
        then Inr (r1\<lparr>p_issues := p_issues r1 @ st @ concat (map (\<lambda>(k, v). result_issues ms v [] False None) views),
                     p_provenance_ok := False\<rparr>, matched)
        else rbind (classify (tc_id c) views (tc_expected c)) (\<lambda>(fs, issues, pairs).
          let (shared, notes, ev) = evidence ms views pairs;
              (skips, absent) = config_coverage ms views
          in Inr (r1\<lparr>p_findings := p_findings r1 @ fs,
                     p_compared := p_compared r1 \<or> shared,
                     p_gaps := p_gaps r1 @ notes @ coverage_gaps ms views @ skips,
                     p_issues := p_issues r1 @ issues @ ev @ verilator_issues ms views @ absent @
                       concat (map (\<lambda>(k, v). result_issues ms v fs True (Some views)) (by_key views))\<rparr>,
                  matched @ List.map_filter f_finding fs)))"

text \<open>\<open>files\<close>: the status of a finding file, None where there is no such file.\<close>

definition divergence_issue :: "(string \<Rightarrow> string option option) \<Rightarrow> divergence \<Rightarrow> issue option" where
  "divergence_issue files e =
     (case files (ed_finding e) of
        None \<Rightarrow> Some (NoFindingFile (ed_finding e))
      | Some st \<Rightarrow> if st \<noteq> Some ''open'' then Some (NotOpen (ed_finding e) st) else None)"

definition check ::
  "test_case \<Rightarrow> (string \<times> views) list \<Rightarrow> (string \<Rightarrow> string option option) \<Rightarrow> string option \<Rightarrow>
   (check_error, report_data) result" where
  "check c gathered files source =
     (let sources = (case source of None \<Rightarrow> gathered | Some s \<Rightarrow> filter (\<lambda>(ms, v). ms = s) gathered) in
      rbind (rfold (check_source c)
        (\<lparr>p_views = [], p_findings = [], p_issues = [], p_gaps = [], p_unmatched = [], p_compared = False,
          p_provenance_ok = True\<rparr>, []) (sort_key fst sources)) (\<lambda>(r, matched).
      Inr (r\<lparr>p_issues := p_issues r @ List.map_filter (divergence_issue files) (tc_expected c),
             p_unmatched := map ed_finding
               (filter (\<lambda>e. path_stem (ed_finding e) \<notin> set matched) (tc_expected c))\<rparr>)))"

end
