(* ===== verification/Crosscheck_Facts.thy ===== *)
theory Crosscheck_Facts
  imports Crosscheck
begin

text \<open>
  What the verdict of a crosscheck stands on: listed divergences mask nothing, and a test without
  findings or issues agrees wherever two of its results were compared.
\<close>

section \<open>Marking\<close>

text \<open>What may become of a finding: itself, or itself marked by an entry in scope with its exact id.\<close>

definition shown_as :: "divergence list \<Rightarrow> finding \<Rightarrow> finding \<Rightarrow> bool" where
  "shown_as ed f f' \<longleftrightarrow>
     f' = f \<or>
     (\<exists>e \<in> set ed. covers e f \<and>
        Option.bind (prim_of (f_test f)) (\<lambda>p. finding_id p (f_cls f) (f_test f)) = Some (path_stem (ed_finding e)) \<and>
        f' = known f (path_stem (ed_finding e)))"

lemma mark_with_cases:
  "fst (mark_with want ed f) = f \<or>
   (\<exists>e \<in> set ed. covers e f \<and> path_stem (ed_finding e) = want \<and> fst (mark_with want ed f) = known f want)"
  by (induction want ed f rule: mark_with.induct) (auto split: prod.splits)

lemma mark_shown: "mark_finding ed f = Inr (f', is) \<Longrightarrow> shown_as ed f f'"
  using mark_with_cases[of _ ed f]
  by (auto simp: mark_finding_def shown_as_def split: option.splits) (metis fst_conv)+

lemma mark_none: "mark_finding ed f = Inr r \<Longrightarrow> mark_finding [] f = Inr (f, [])"
  by (auto simp: mark_finding_def split: option.splits)

lemma rmap_mark:
  "rmap (mark_finding ed) fs = Inr ms \<Longrightarrow>
   rmap (mark_finding []) fs = Inr (map (\<lambda>f. (f, [])) fs) \<and> list_all2 (shown_as ed) fs (map fst ms)"
proof (induction fs arbitrary: ms)
  case (Cons f fs)
  obtain m ms' where m: "mark_finding ed f = Inr m" "rmap (mark_finding ed) fs = Inr ms'" "ms = m # ms'"
    using Cons.prems by (auto simp: rbind_Inr_iff)
  have "shown_as ed f (fst m)" using mark_shown[of ed f "fst m" "snd m"] m(1) by simp
  then show ?case using Cons.IH[OF m(2)] mark_none[OF m(1)] m(3) by (simp add: rbind_def)
qed simp

text \<open>
  C26. An expected divergence never masks: with any list of them every finding is still reported, with
  its points and its runners, either as it is or as a known divergence of its class, and the latter
  only for an entry in scope that names the finding's exact id; the comparisons and the issues found
  without the list stay.
\<close>

theorem divergences_never_mask:
  assumes "classify tid views ed = Inr (fs, is, ps)"
  shows "\<exists>fs0 is0. classify tid views [] = Inr (fs0, is0, ps) \<and> set is0 \<subseteq> set is \<and>
    list_all2 (shown_as ed) fs0 fs \<and> map f_points fs = map f_points fs0 \<and> map f_runners fs = map f_runners fs0"
proof -
  let ?k = "unmarked tid views"
  obtain ms where ms: "rmap (mark_finding ed) (k_out ?k) = Inr ms" "fs = map fst ms"
    "is = k_issues ?k @ concat (map snd ms)" "ps = k_pairs ?k"
    using assms by (auto simp: classify_def Let_def rbind_Inr_iff)
  note r = rmap_mark[OF ms(1)]
  have "classify tid views [] = Inr (k_out ?k, k_issues ?k, ps)"
    using r ms(4) by (simp add: classify_def Let_def rbind_def comp_def)
  moreover have "f_points f' = f_points f \<and> f_runners f' = f_runners f" if "shown_as ed f f'" for f f'
    using that by (auto simp: shown_as_def known_def)
  then have "map f_points fs = map f_points (k_out ?k) \<and> map f_runners fs = map f_runners (k_out ?k)"
    using r ms(2) by (auto simp: list_all2_conv_all_nth intro!: nth_equalityI)
  ultimately show ?thesis using r ms by auto
qed

section \<open>What each step of classification adds\<close>

lemma foldl_appends:
  assumes "\<And>a x. k (g a x) = k a @ h x"
  shows "k (foldl g a xs) = k a @ concat (map h xs)"
  using assms by (induction xs arbitrary: a) simp_all

definition flow_golden :: "views \<Rightarrow> string \<Rightarrow> gacc option" where
  "flow_golden views flow =
     (let grp = sim_group views flow; reject = reject_cfgs (map snd views); ps = group_pairs grp in
      case map_of views (''rtl'', ''python'') of
        Some ex \<Rightarrow>
          if flow = ''rtl'' \<and> has_trace (Some ex)
          then Some (golden_vs_sims (v_ms (snd (hd grp))) ex grp
                 (concat (map (\<lambda>((a, va), (b, vb)). map mkey (sim_diff (a, va) (b, vb))) ps))
                 (concat (map (pair_points reject) ps)) reject
                 (concat (map (\<lambda>((a, va), (b, vb)). map fst (rejection_diff va vb reject)) ps)))
          else None
      | None \<Rightarrow> None)"

definition flow_points :: "views \<Rightarrow> string \<Rightarrow> string list" where
  "flow_points views flow =
     (case flow_golden views flow of
        Some ga \<Rightarrow> g_points ga
      | None \<Rightarrow> concat (map (pair_points (reject_cfgs (map snd views))) (group_pairs (sim_group views flow))))"

lemma flow_step_out:
  "k_out (flow_step tid views acc flow) = k_out acc @
     (if flow_points views flow \<noteq> []
      then [new_finding ''sim-divergence'' tid flow (v_ms (snd (hd (sim_group views flow))))
              (map fst (sim_group views flow)) (flow_points views flow)] else []) @
     (case flow_golden views flow of Some ga \<Rightarrow> doc_findings tid (v_ms (snd (hd (sim_group views flow)))) ga | None \<Rightarrow> [])"
  by (auto simp: flow_step_def flow_points_def flow_golden_def Let_def split: option.splits)

lemma flow_step_issues:
  "k_issues (flow_step tid views acc flow) = k_issues acc @
     (case flow_golden views flow of Some ga \<Rightarrow> g_issues ga | None \<Rightarrow> [])"
  by (auto simp: flow_step_def flow_golden_def Let_def split: option.splits)

text \<open>A step of the second loop only appends findings and comparisons.\<close>

definition grows :: "cacc \<Rightarrow> cacc \<Rightarrow> bool" where
  "grows a b \<longleftrightarrow>
     k_issues b = k_issues a \<and> (\<exists>fs. k_out b = k_out a @ fs) \<and> (\<exists>ps. k_pairs b = k_pairs a @ ps)"

lemma grows_refl [simp]: "grows a a"
  by (simp add: grows_def)

lemma grows_trans: "grows a b \<Longrightarrow> grows b c \<Longrightarrow> grows a c"
  by (auto simp: grows_def)

lemma grows_add [simp]: "grows a (add_finding f ps a)"
  by (simp add: grows_def add_finding_def)

lemma grows_add2: "grows a b \<Longrightarrow> grows a (add_finding f ps b)"
  by (rule grows_trans[OF _ grows_add])

lemma view_step_grows: "grows acc (view_step tid views acc kv)"
proof -
  obtain flow runner v where kv: "kv = ((flow, runner), v)" by (cases kv) auto
  have x: "grows a (x_step tid flow runner v a)" for a by (simp add: x_step_def)
  have z: "grows a (vz_step tid views rj flow runner v a)" for a rj
    by (simp add: vz_step_def Let_def split: option.split)
  have m: "grows a (flow_mismatch_step tid views rj flow runner v a)" for a rj
    by (simp add: flow_mismatch_step_def Let_def split: option.split)
  have h: "grows a (hw_step tid views flow runner v a)" for a
    by (simp add: hw_step_def Let_def grows_add2 split: option.split)
  show ?thesis unfolding kv view_step_def Let_def prod.case
    by (rule grows_trans[OF grows_trans[OF grows_trans[OF x z] m] h])
qed

lemma view_steps_grow: "grows acc (foldl (view_step tid views) acc kvs)"
  by (induction kvs arbitrary: acc) (auto intro: grows_trans view_step_grows)

section \<open>Nothing found means agreement\<close>

lemma flow_steps_out:
  "\<exists>rest. k_out (unmarked tid views) = concat (map (\<lambda>flow.
     (if flow_points views flow \<noteq> []
      then [new_finding ''sim-divergence'' tid flow (v_ms (snd (hd (sim_group views flow))))
              (map fst (sim_group views flow)) (flow_points views flow)] else []) @
     (case flow_golden views flow of Some ga \<Rightarrow> doc_findings tid (v_ms (snd (hd (sim_group views flow)))) ga | None \<Rightarrow> []))
     (sim_flows views)) @ rest"
  using view_steps_grow[of "foldl (flow_step tid views) \<lparr>k_out = [], k_issues = [], k_pairs = []\<rparr> (sim_flows views)" tid views views]
    foldl_appends[of k_out "flow_step tid views", OF flow_step_out, of "\<lparr>k_out = [], k_issues = [], k_pairs = []\<rparr>" "sim_flows views"]
  by (auto simp: unmarked_def grows_def)

lemma flow_steps_issues:
  "k_issues (unmarked tid views) =
     concat (map (\<lambda>flow. case flow_golden views flow of Some ga \<Rightarrow> g_issues ga | None \<Rightarrow> []) (sim_flows views))"
  using view_steps_grow[of "foldl (flow_step tid views) \<lparr>k_out = [], k_issues = [], k_pairs = []\<rparr> (sim_flows views)" tid views views]
    foldl_appends[of k_issues "flow_step tid views", OF flow_step_issues, of "\<lparr>k_out = [], k_issues = [], k_pairs = []\<rparr>" "sim_flows views"]
  by (simp add: unmarked_def grows_def)

lemma nothing_in_flow:
  assumes "k_out (unmarked tid views) = []" "k_issues (unmarked tid views) = []" "flow \<in> set (sim_flows views)"
  shows "flow_points views flow = []" and
    "flow_golden views flow = Some ga \<Longrightarrow> g_doc ga = [] \<and> g_gap ga = [] \<and> g_issues ga = [] \<and> g_points ga = []"
proof -
  obtain rest where r: "k_out (unmarked tid views) = concat (map (\<lambda>flow.
     (if flow_points views flow \<noteq> []
      then [new_finding ''sim-divergence'' tid flow (v_ms (snd (hd (sim_group views flow))))
              (map fst (sim_group views flow)) (flow_points views flow)] else []) @
     (case flow_golden views flow of Some ga \<Rightarrow> doc_findings tid (v_ms (snd (hd (sim_group views flow)))) ga | None \<Rightarrow> []))
     (sim_flows views)) @ rest" using flow_steps_out by blast
  show p: "flow_points views flow = []" using r assms(1,3) by (auto split: if_split_asm)
  assume ga: "flow_golden views flow = Some ga"
  have "doc_findings tid (v_ms (snd (hd (sim_group views flow)))) ga = []"
    using r assms(1,3) ga by (auto split: option.splits)
  moreover have "g_issues ga = []" using flow_steps_issues[of tid views] assms(2,3) ga by auto
  moreover have "g_points ga = []" using p ga by (simp add: flow_points_def)
  ultimately show "g_doc ga = [] \<and> g_gap ga = [] \<and> g_issues ga = [] \<and> g_points ga = []"
    by (auto simp: doc_findings_def split: if_split_asm)
qed

definition quiet :: "gacc \<Rightarrow> bool" where
  "quiet g \<longleftrightarrow> g_points g = [] \<and> g_doc g = [] \<and> g_gap g = [] \<and> g_issues g = []"

lemma sort_Nil_iff [simp]: "sort xs = [] \<longleftrightarrow> xs = []"
  by (metis length_0_conv length_sort)

lemma golden_step_quiet:
  "quiet (golden_step ms grp d acc kv) \<Longrightarrow> quiet acc \<and> (d = [] \<longrightarrow> snd kv = [])"
  by (cases kv) (auto simp: quiet_def golden_step_def Let_def split: if_split_asm)

lemma golden_steps_quiet:
  "quiet (foldl (golden_step ms grp d) acc kvs) \<Longrightarrow> quiet acc \<and> (d = [] \<longrightarrow> (\<forall>kv \<in> set kvs. snd kv = []))"
proof (induction kvs arbitrary: acc)
  case (Cons kv kvs)
  have "quiet (golden_step ms grp d acc kv)" "d = [] \<longrightarrow> (\<forall>kv \<in> set kvs. snd kv = [])"
    using Cons.IH[of "golden_step ms grp d acc kv"] Cons.prems by simp_all
  then show ?case using golden_step_quiet[of ms grp d acc kv] by simp
qed simp

lemma golden_reject_quiet: "quiet (golden_reject ex grp reject rs acc) \<Longrightarrow> quiet acc"
proof -
  let ?f = "\<lambda>acc c.
       let accepting = sort (map fst (filter (\<lambda>(r, v). map_of (outcomes v) c = Some ''accepts'') grp)) in
       if accepting \<noteq> []
       then acc\<lparr>g_gap := g_gap acc @ [accept_point c accepting], g_gap_rs := g_gap_rs acc @ accepting\<rparr> else acc"
  have step: "quiet (?f a c) \<Longrightarrow> quiet a" for a c by (auto simp: quiet_def Let_def split: if_split_asm)
  have "quiet (foldl ?f a cs) \<Longrightarrow> quiet a" for a cs
  proof (induction cs arbitrary: a)
    case (Cons c cs)
    have "quiet (?f a c)" by (rule Cons.IH) (use Cons.prems in simp)
    then show ?case by (rule step)
  qed simp
  then show "quiet (golden_reject ex grp reject rs acc) \<Longrightarrow> quiet acc" unfolding golden_reject_def by blast
qed

lemma update_nonempty: "AList.update k v d \<noteq> []"
  by (cases d) auto

lemma add_point_nonempty: "\<forall>kd \<in> set pp. snd kd \<noteq> [] \<Longrightarrow> \<forall>kd \<in> set (add_point pp rm). snd kd \<noteq> []"
proof -
  assume a: "\<forall>kd \<in> set pp. snd kd \<noteq> []"
  have "\<forall>kd \<in> set (AList.update k d pp). snd kd \<noteq> []" if "d \<noteq> []" for k d
    using a that by (induction pp) auto
  note u = this
  obtain r m where rm: "rm = (r, m)" by (cases rm)
  show ?thesis unfolding rm add_point_def prod.case by (rule u) (rule update_nonempty)
qed

lemma per_point_nonempty: "\<forall>kd \<in> set (per_point ex grp). snd kd \<noteq> []"
proof -
  have "\<forall>kd \<in> set pp. snd kd \<noteq> [] \<Longrightarrow> \<forall>kd \<in> set (foldl add_point pp ms). snd kd \<noteq> []" for pp ms
  proof (induction ms arbitrary: pp)
    case (Cons m ms)
    from Cons.IH[OF add_point_nonempty[OF Cons.prems]] show ?case unfolding foldl.simps .
  qed simp
  note n = this[of "[]"]
  show ?thesis unfolding per_point_def by (rule n) simp
qed

lemma per_point_empty: "per_point ex grp = [] \<Longrightarrow> (r, v) \<in> set grp \<Longrightarrow> golden_mismatches ex (r, v) = []"
proof -
  assume e: "per_point ex grp = []" and m: "(r, v) \<in> set grp"
  have ap: "add_point pp x \<noteq> []" for pp :: "(point_key, (string, mismatch) dict) dict" and x
    unfolding add_point_def case_prod_beta by (rule update_nonempty)
  have ne: "foldl add_point pp ms \<noteq> []" if "pp \<noteq> []" for pp ms
    using that by (induction ms arbitrary: pp) (simp_all add: ap)
  let ?ms = "concat (map (\<lambda>(r, v). map (Pair r) (golden_mismatches ex (r, v))) grp)"
  have "?ms = []"
  proof (cases ?ms)
    case (Cons x xs)
    then have "foldl add_point (add_point [] x) xs = []" using e by (simp only: per_point_def foldl.simps)
    then show ?thesis using ne[OF ap] by blast
  qed
  then have "\<forall>rv \<in> set grp. map (Pair (fst rv)) (golden_mismatches ex rv) = []" by (auto split: prod.splits)
  then show ?thesis using m by fastforce
qed

lemma golden_prefix: "\<exists>more. g_points (golden_vs_sims ms ex grp d points reject rs) = points @ more"
proof -
  have 1: "\<exists>more. g_points (golden_step ms grp d a kv) = g_points a @ more" for a kv
    by (cases kv) (auto simp: golden_step_def Let_def)
  have 2: "\<exists>more. g_points (foldl (golden_step ms grp d) a kvs) = g_points a @ more" for a kvs
  proof (induction kvs arbitrary: a)
    case (Cons kv kvs)
    obtain m1 where m1: "g_points (golden_step ms grp d a kv) = g_points a @ m1" using 1 by blast
    obtain m2 where "g_points (foldl (golden_step ms grp d) (golden_step ms grp d a kv) kvs) =
      g_points (golden_step ms grp d a kv) @ m2" using Cons.IH by blast
    then show ?case using m1 by auto
  qed simp
  let ?f = "\<lambda>acc c.
       let accepting = sort (map fst (filter (\<lambda>(r, v). map_of (outcomes v) c = Some ''accepts'') grp)) in
       if accepting \<noteq> []
       then acc\<lparr>g_gap := g_gap acc @ [accept_point c accepting], g_gap_rs := g_gap_rs acc @ accepting\<rparr> else acc"
  have "g_points (foldl ?f a cs) = g_points a" for a cs
    by (induction cs arbitrary: a) (simp_all add: Let_def)
  then have "g_points (golden_reject ex grp reject rs a) = g_points a" for a unfolding golden_reject_def by blast
  then show ?thesis
    using 2[of "\<lparr>g_points = points, g_doc = [], g_doc_rs = [], g_gap = [], g_gap_rs = [], g_issues = []\<rparr>"
      "sorted_points ex (per_point ex grp)"]
    by (simp add: golden_vs_sims_def)
qed

lemma quiet_golden:
  assumes "quiet (golden_vs_sims ms ex grp [] points reject rs)" "(r, v) \<in> set grp"
  shows "golden_mismatches ex (r, v) = []"
proof -
  have "\<forall>kv \<in> set (sorted_points ex (per_point ex grp)). snd kv = []"
    using golden_steps_quiet[OF golden_reject_quiet[OF assms(1)[unfolded golden_vs_sims_def]]] by simp
  then have "\<forall>kv \<in> set (per_point ex grp). snd kv = []" by (simp add: sorted_points_def)
  then have "per_point ex grp = []" 
    using per_point_nonempty[of ex grp] by (metis list.set_intros(1) neq_Nil_conv)
  then show ?thesis using assms(2) by (rule per_point_empty)
qed

lemma flow_agreement:
  assumes "k_out (unmarked tid views) = []" "k_issues (unmarked tid views) = []" "flow \<in> set (sim_flows views)"
  shows "\<forall>p \<in> set (group_pairs (sim_group views flow)). sim_diff (fst p) (snd p) = [] \<and>
      rejection_diff (snd (fst p)) (snd (snd p)) (reject_cfgs (map snd views)) = []"
    and "flow = ''rtl'' \<Longrightarrow> map_of views (''rtl'', ''python'') = Some ex \<Longrightarrow> has_trace (Some ex) \<Longrightarrow>
      (r, v) \<in> set (sim_group views flow) \<Longrightarrow> golden_mismatches ex (r, v) = []"
proof -
  let ?grp = "sim_group views flow"
  let ?reject = "reject_cfgs (map snd views)"
  let ?points = "concat (map (pair_points ?reject) (group_pairs ?grp))"
  have pts: "?points = []"
  proof (cases "flow_golden views flow")
    case None
    then show ?thesis using nothing_in_flow(1)[OF assms] by (simp add: flow_points_def)
  next
    case (Some ga)
    then obtain ms ex' d rs where "ga = golden_vs_sims ms ex' ?grp d ?points ?reject rs"
      by (auto simp: flow_golden_def Let_def split: option.splits if_split_asm)
    moreover have "g_points ga = []" using nothing_in_flow(2)[OF assms Some] by simp
    ultimately show ?thesis using golden_prefix[of ms ex' ?grp d ?points ?reject rs] by auto
  qed
  then show ag: "\<forall>p \<in> set (group_pairs ?grp). sim_diff (fst p) (snd p) = [] \<and>
      rejection_diff (snd (fst p)) (snd (snd p)) ?reject = []"
    by (auto simp: pair_points_def split: prod.splits)
  assume f: "flow = ''rtl''" "map_of views (''rtl'', ''python'') = Some ex" "has_trace (Some ex)" "(r, v) \<in> set ?grp"
  have d: "concat (map (\<lambda>((a, va), (b, vb)). map mkey (sim_diff (a, va) (b, vb))) (group_pairs ?grp)) = []"
    using ag by (auto split: prod.splits)
  have "\<exists>ms rs. flow_golden views flow = Some (golden_vs_sims ms ex ?grp
      (concat (map (\<lambda>((a, va), (b, vb)). map mkey (sim_diff (a, va) (b, vb))) (group_pairs ?grp))) ?points ?reject rs)"
    unfolding flow_golden_def Let_def f(2) using f(1,3) by (intro exI) (simp only: option.case if_True simp_thms)
  then obtain ms rs where ga: "flow_golden views flow = Some (golden_vs_sims ms ex ?grp [] ?points ?reject rs)"
    unfolding d by blast
  have "quiet (golden_vs_sims ms ex ?grp [] ?points ?reject rs)"
    using nothing_in_flow(2)[OF assms ga] by (simp only: quiet_def simp_thms)
  then show "golden_mismatches ex (r, v) = []" by (rule quiet_golden) (rule f(4))
qed

section \<open>The verdict\<close>

lemma classify_nothing:
  assumes "classify tid views ed = Inr ([], [], ps)"
  shows "k_out (unmarked tid views) = []" "k_issues (unmarked tid views) = []" "k_pairs (unmarked tid views) = ps"
proof -
  obtain ms where ms: "rmap (mark_finding ed) (k_out (unmarked tid views)) = Inr ms" "map fst ms = []"
    "k_issues (unmarked tid views) @ concat (map snd ms) = []" "k_pairs (unmarked tid views) = ps"
    using assms by (auto simp: classify_def Let_def rbind_Inr_iff)
  then have "list_all2 (shown_as ed) (k_out (unmarked tid views)) []" using rmap_mark[OF ms(1)] by simp
  then show "k_out (unmarked tid views) = []" by simp
  show "k_issues (unmarked tid views) = []" "k_pairs (unmarked tid views) = ps" using ms by simp_all
qed

text \<open>A model source whose results were classified and left nothing to report.\<close>

definition clean_source :: "test_case \<Rightarrow> pairing list \<Rightarrow> string \<times> views \<Rightarrow> bool" where
  "clean_source c ps = (\<lambda>(ms, views).
     provenance_issues ms views = [] \<and> classify (tc_id c) (fill_views c ms views) (tc_expected c) = Inr ([], [], ps))"

lemma check_source_clean:
  assumes "check_source c (r, m) (ms, views) = Inr (r', m')" "p_findings r' = []" "p_issues r' = []"
  shows "p_findings r = [] \<and> p_issues r = [] \<and>
    (\<exists>ps. clean_source c ps (ms, views) \<and> (p_compared r' \<longrightarrow> p_compared r \<or> list_ex (\<lambda>(a, b, e). e) ps))"
proof (cases "provenance_issues ms views = []")
  case False
  then have "p_issues r' \<noteq> []" using assms(1) by (auto simp: check_source_def Let_def)
  then show ?thesis using assms(3) by simp
next
  case True
  let ?views = "fill_views c ms views"
  obtain fs iss ps where cl: "classify (tc_id c) ?views (tc_expected c) = Inr (fs, iss, ps)"
    using assms(1) True by (auto simp: check_source_def Let_def rbind_Inr_iff)
  obtain sh nts ev sk ab where ev: "evidence ms ?views ps = (sh, nts, ev)" "config_coverage ms ?views = (sk, ab)"
    by (metis prod.collapse)
  have r': "p_findings r' = p_findings r @ fs" "p_compared r' \<longleftrightarrow> p_compared r \<or> sh"
    "p_issues r' = p_issues r @ iss @ ev @ verilator_issues ms ?views @ ab @
       concat (map (\<lambda>(k, v). result_issues ms v fs True (Some ?views)) (by_key ?views))"
    using assms(1) True cl ev by (auto simp: check_source_def Let_def rbind_def)
  have "sh = list_ex (\<lambda>(a, b, e). e) ps" using ev(1) by (auto simp: evidence_def Let_def split: if_split_asm)
  then show ?thesis using r' assms(2,3) True cl by (auto simp: clean_source_def)
qed

lemma check_sources_clean:
  assumes "rfold (check_source c) (r, m) srcs = Inr (r', m')" "p_findings r' = []" "p_issues r' = []"
  shows "p_findings r = [] \<and> p_issues r = [] \<and> (\<forall>s \<in> set srcs. \<exists>ps. clean_source c ps s) \<and>
    (p_compared r' \<longrightarrow> p_compared r \<or> (\<exists>s \<in> set srcs. \<exists>ps. clean_source c ps s \<and> list_ex (\<lambda>(a, b, e). e) ps))"
  using assms
proof (induction srcs arbitrary: r m)
  case (Cons s srcs)
  obtain ms views where s: "s = (ms, views)" by (cases s)
  obtain r1 m1 where 1: "check_source c (r, m) (ms, views) = Inr (r1, m1)" and 2: "rfold (check_source c) (r1, m1) srcs = Inr (r', m')"
    using Cons.prems(1) s by (auto simp: rbind_Inr_iff)
  note ih = Cons.IH[OF 2 Cons.prems(2,3)]
  then have "p_findings r1 = []" "p_issues r1 = []" by simp_all
  note cs = check_source_clean[OF 1 this]
  then show ?case using ih s by auto
qed simp

lemma group_in_flows: "(r, v) \<in> set (sim_group views flow) \<Longrightarrow> flow \<in> set (sim_flows views)"
  by (auto simp: sim_group_def sim_flows_def intro!: image_eqI)

text \<open>
  C25. The verdict \<open>agree\<close> is never given by omission: it means that every model source was measured
  at one clean tree, that on the configurations both ran no pair of simulators of a flow differs in
  a trace or in the rejection of a configuration, that the golden trace and every simulator agree on
  \<open>rtl\<close>, and that some comparison made was evidence.
\<close>

theorem agree_means_agreement:
  assumes "check c gathered files None = Inr rep" "verdict rep = ''agree''" "(ms, views0) \<in> set gathered"
  shows "provenance_issues ms views0 = [] \<and>
    (let views = fill_views c ms views0 in
      (\<forall>flow \<in> set (sim_flows views). \<forall>p \<in> set (group_pairs (sim_group views flow)).
         sim_diff (fst p) (snd p) = [] \<and> rejection_diff (snd (fst p)) (snd (snd p)) (reject_cfgs (map snd views)) = []) \<and>
      (\<forall>ex. map_of views (''rtl'', ''python'') = Some ex \<and> has_trace (Some ex) \<longrightarrow>
         (\<forall>rv \<in> set (sim_group views ''rtl''). golden_mismatches ex rv = []))) \<and>
    (\<exists>(ms', vs) \<in> set gathered. list_ex (\<lambda>(a, b, e). e) (k_pairs (unmarked (tc_id c) (fill_views c ms' vs))))"
proof -
  let ?r0 = "\<lparr>p_views = [], p_findings = [], p_issues = [], p_gaps = [], p_unmatched = [], p_compared = False,
    p_provenance_ok = True\<rparr>"
  have v: "p_findings rep = []" "p_issues rep = []" "p_compared rep"
    using assms(2) by (auto simp: verdict_def split: if_split_asm)
  obtain r1 m1 where 1: "rfold (check_source c) (?r0, []) (sort_key fst gathered) = Inr (r1, m1)"
    and rep: "p_findings rep = p_findings r1" "p_compared rep = p_compared r1"
      "p_issues rep = p_issues r1 @ List.map_filter (divergence_issue files) (tc_expected c)"
    using assms(1) by (auto simp: check_def Let_def rbind_Inr_iff)
  have n: "p_findings r1 = []" "p_issues r1 = []" using v rep by simp_all
  note cl = check_sources_clean[OF 1 n]
  have ps: "\<exists>ps. clean_source c ps s" if "s \<in> set gathered" for s using cl that by simp
  have ev: "\<exists>s \<in> set gathered. \<exists>ps. clean_source c ps s \<and> list_ex (\<lambda>(a, b, e). e) ps"
    using cl v(3) rep(2) by simp
  then obtain ms' vs ps' where e: "(ms', vs) \<in> set gathered" "clean_source c ps' (ms', vs)" "list_ex (\<lambda>(a, b, e). e) ps'"
    by force
  then have "list_ex (\<lambda>(a, b, e). e) (k_pairs (unmarked (tc_id c) (fill_views c ms' vs)))"
    using classify_nothing(3) by (auto simp: clean_source_def)
  with e(1) have 3: "\<exists>(ms', vs) \<in> set gathered. list_ex (\<lambda>(a, b, e). e) (k_pairs (unmarked (tc_id c) (fill_views c ms' vs)))"
    by blast
  obtain q where q: "provenance_issues ms views0 = []"
    "classify (tc_id c) (fill_views c ms views0) (tc_expected c) = Inr ([], [], q)"
    using ps[OF assms(3)] by (auto simp: clean_source_def)
  note k = classify_nothing(1,2)[OF q(2)]
  show ?thesis unfolding Let_def
    using q(1) 3 flow_agreement(1)[OF k] flow_agreement(2)[OF k group_in_flows refl] group_in_flows
    by (intro conjI ballI allI impI) (auto simp: split_paired_all)
qed

definition view_example :: "string \<Rightarrow> view" where
  "view_example r =
     \<lparr>v_flow = ''rtl'', v_runner = r, v_status = ''pass'', v_ms = Some ''u'',
      v_trace = Some \<lparr>t_header = [], t_samples = [(''d/S0'', [(''Q'', ''1'')])], t_prov = []\<rparr>,
      v_result = \<lparr>r_configs = Some [\<lparr>c_cfg = ''d'', c_status = ''pass'', c_reason = None\<rparr>], r_reason = None,
        r_x_dependence = False, r_seeds_x = ''None'', r_selftest = None, r_repeats_differ = False, r_repeats = ''None'',
        r_stamped = True, r_tree = Some ''h'', r_head = Some ''h'', r_dirty = Some False\<rparr>\<rparr>"

definition views_example :: views where
  "views_example = map (\<lambda>r. ((''rtl'', r), view_example r)) [''iverilog'', ''python'', ''xsim'']"

definition agree_case :: test_case where
  "agree_case = (case_example ''f.P.L.n'')\<lparr>tc_runners := []\<rparr>"

lemma check_example:
  "(case check agree_case [(''u'', views_example)] (\<lambda>_. None) None of
      Inr rep \<Rightarrow> verdict rep = ''agree'' | Inl _ \<Rightarrow> False)"
  by code_simp

lemma agree_means_agreement_witness:
  "provenance_issues ''u'' views_example = [] \<and>
   list_ex (\<lambda>(a, b, e). e) (k_pairs (unmarked ''f.P.L.n'' (fill_views agree_case ''u'' views_example)))"
proof -
  obtain rep where r: "check agree_case [(''u'', views_example)] (\<lambda>_. None) None = Inr rep" "verdict rep = ''agree''"
    using check_example by (auto split: sum.splits)
  have "tc_id agree_case = ''f.P.L.n''" by (simp add: agree_case_def case_example_def)
  then show ?thesis using agree_means_agreement[OF r, of "''u''" views_example] by simp
qed

definition divergence_example :: divergence where
  "divergence_example =
     \<lparr>ed_cls = ''sim-divergence'', ed_runners = [''iverilog'', ''xsim''], ed_finding = ''findings/P-sim-divergence-L-n.md'',
      ed_sources = None, ed_flows = None\<rparr>"

definition differing_views :: views where
  "differing_views =
     [((''rtl'', ''iverilog''), view_example ''iverilog''),
      ((''rtl'', ''xsim''), (view_example ''xsim'')
         \<lparr>v_trace := Some \<lparr>t_header = [], t_samples = [(''d/S0'', [(''Q'', ''0'')])], t_prov = []\<rparr>\<rparr>)]"

lemma classify_example:
  "(case classify ''f.P.L.n'' differing_views [divergence_example] of
      Inr (fs, is, ps) \<Rightarrow> map f_cls fs = [''known-divergence''] \<and>
        map f_points fs = [[''iverilog vs xsim: d/S0 Q[0]: expected 1, got 0 [value]'']]
    | Inl _ \<Rightarrow> False)"
  by code_simp

lemma divergences_never_mask_witness:
  "\<exists>fs0 is0 ps. classify ''f.P.L.n'' differing_views [] = Inr (fs0, is0, ps) \<and>
     map f_points fs0 = [[''iverilog vs xsim: d/S0 Q[0]: expected 1, got 0 [value]'']]"
proof -
  obtain fs iss ps where c: "classify ''f.P.L.n'' differing_views [divergence_example] = Inr (fs, iss, ps)"
    "map f_points fs = [[''iverilog vs xsim: d/S0 Q[0]: expected 1, got 0 [value]'']]"
    using classify_example by (auto split: sum.splits)
  show ?thesis using divergences_never_mask[OF c(1)] c(2) by auto
qed

end
