(* ===== verification/Text_Search.thy ===== *)
theory Text_Search
  imports Prelude
begin

text \<open>
  The searches that the regular expressions of the runners make in one line of text: a pattern that may
  start anywhere, whole words, and the removal of file paths. All of them ignore case where the source
  compiles the pattern with \<open>re.IGNORECASE\<close>.
\<close>

section \<open>Matches that start anywhere\<close>

text \<open>A match of P starts at some position of the text.\<close>

fun some_start :: "(string \<Rightarrow> bool) \<Rightarrow> string \<Rightarrow> bool" where
  "some_start P [] \<longleftrightarrow> P []"
| "some_start P (c # cs) \<longleftrightarrow> P (c # cs) \<or> some_start P cs"

definition icontains :: "string \<Rightarrow> string \<Rightarrow> bool" where
  "icontains p s \<longleftrightarrow> contains (lower p) (lower s)"

text \<open>The pattern \<open>a.*b\<close> in a line.\<close>

definition in_order :: "string \<Rightarrow> string \<Rightarrow> string \<Rightarrow> bool" where
  "in_order a b s \<longleftrightarrow> some_start (\<lambda>t. starts_with a t \<and> contains b (drop (length a) t)) s"

lemma some_start_iff: "some_start P s \<longleftrightarrow> (\<exists>a b. s = a @ b \<and> P b)"
proof (induction s)
  case (Cons c cs)
  show ?case
  proof
    assume "some_start P (c # cs)"
    then show "\<exists>a b. c # cs = a @ b \<and> P b" using Cons.IH by (metis append_Cons append_Nil some_start.simps(2))
  next
    assume "\<exists>a b. c # cs = a @ b \<and> P b"
    then show "some_start P (c # cs)" using Cons.IH by (auto simp: Cons_eq_append_conv)
  qed
qed simp

lemma contains_iff: "contains p s \<longleftrightarrow> (\<exists>a b. s = a @ p @ b)"
proof -
  have "contains p s \<longleftrightarrow> some_start (starts_with p) s" by (induction s) (auto simp: starts_with_def)
  also have "\<dots> \<longleftrightarrow> (\<exists>a b. s = a @ p @ b)"
    unfolding some_start_iff by (metis append_take_drop_id starts_with_append starts_with_def)
  finally show ?thesis .
qed

section \<open>Words\<close>

text \<open>\<open>\b\<close> between two parts of a line.\<close>

definition boundary :: "string \<Rightarrow> string \<Rightarrow> bool" where
  "boundary l r \<longleftrightarrow> (l \<noteq> [] \<and> is_word (last l)) \<noteq> (r \<noteq> [] \<and> is_word (hd r))"

text \<open>\<open>\bw\b\<close> for a given text w, ignoring case.\<close>

definition whole_word :: "string \<Rightarrow> string \<Rightarrow> bool" where
  "whole_word w s \<longleftrightarrow>
     list_ex (\<lambda>i. starts_with (lower w) (lower (drop i s)) \<and> boundary (take i s) (drop i s) \<and>
                  boundary (take (i + length w) s) (drop (i + length w) s)) [0..<Suc (length s)]"

text \<open>The maximal runs of word characters.\<close>

function word_runs :: "string \<Rightarrow> string list" where
  "word_runs s =
     (case dropWhile (\<lambda>c. \<not> is_word c) s of
        [] \<Rightarrow> []
      | c # cs \<Rightarrow> (c # takeWhile is_word cs) # word_runs (dropWhile is_word cs))"
  by pat_completeness auto
termination
proof (relation "measure length")
  fix s c and cs :: string
  assume "dropWhile (\<lambda>c. \<not> is_word c) s = c # cs"
  then have "length (c # cs) \<le> length s" by (metis length_dropWhile_le)
  then show "(dropWhile is_word cs, s) \<in> measure length"
    using length_dropWhile_le[of is_word cs] by simp
qed simp

declare word_runs.simps [simp del]

section \<open>Removing paths\<close>

text \<open>\<open>re.sub('"[^"]*/[^"]*"', ' ', s)\<close>: the quoted texts that hold a slash.\<close>

function sub_quoted_paths :: "string \<Rightarrow> string" where
  "sub_quoted_paths [] = []"
| "sub_quoted_paths (c # cs) =
     (case span (\<lambda>x. x \<noteq> DQ) cs of (body, rest) \<Rightarrow>
        if c = DQ \<and> rest \<noteq> [] \<and> CHR ''/'' \<in> set body then CHR '' '' # sub_quoted_paths (tl rest)
        else c # sub_quoted_paths cs)"
  by pat_completeness auto
termination
  by (relation "measure length")
     (auto simp: span_def less_Suc_eq_le intro: order_trans[OF diff_le_self] length_dropWhile_le)

text \<open>\<open>re.sub('\S*/\S*', ' ', s)\<close>: the other tokens that hold one.\<close>

function sub_path_tokens :: "string \<Rightarrow> string" where
  "sub_path_tokens [] = []"
| "sub_path_tokens (c # cs) =
     (if is_space c then c # sub_path_tokens cs
      else case span (\<lambda>x. \<not> is_space x) (c # cs) of (tok, rest) \<Rightarrow>
        (if CHR ''/'' \<in> set tok then [CHR '' ''] else tok) @ sub_path_tokens rest)"
  by pat_completeness auto
termination
  by (relation "measure length") (auto simp: span_def less_Suc_eq_le length_dropWhile_le)

lemma sub_path_tokens_no_slash: "CHR ''/'' \<notin> set (sub_path_tokens s)"
proof (induction s rule: sub_path_tokens.induct)
  case (2 c cs)
  have "\<not> is_space (CHR ''/'')" by (simp add: is_space_def)
  then show ?case using 2 by (auto simp: split: prod.split)
qed simp

end
