(* ===== verification/Runner_Base.thy ===== *)
theory Runner_Base
  imports Testspec Xtr Text_Search "HOL-Library.Word"
begin

unbundle bit_operations_syntax

text \<open>
  \<open>tools/xut/runners/base.py\<close>, with the default seed of \<open>tools/xut/seeds.py\<close> and the rules of
  \<open>schemas/result.schema.json\<close> on the fields kept here: one run of a test by a runner, and the
  \<open>result.json\<close> every path of it writes. What a subclass supplies (\<open>run_config\<close>, \<open>configs\<close>, ...) is a
  record of its outcomes for the test at hand. The clock, the host name and the durations are left out.
\<close>

section \<open>Results\<close>

definition STATUSES :: "string list" where
  "STATUSES = [''pass'', ''fail'', ''error'', ''skip'']"

definition RANK :: "(string, nat) dict" where
  "RANK = [(''fail'', 3), (''error'', 2), (''pass'', 1), (''skip'', 0)]"

definition rank_of :: "string \<Rightarrow> nat" where
  "rank_of s = (case map_of RANK s of Some n \<Rightarrow> n | None \<Rightarrow> 0)"

definition DEFAULT_TIMEOUT_S :: int where "DEFAULT_TIMEOUT_S = 600"

text \<open>\<open>max(statuses, key=_RANK)\<close>: the first of the greatest.\<close>

fun worst :: "string list \<Rightarrow> string" where
  "worst [] = ''skip''"
| "worst (s # ss) = foldl (\<lambda>a b. if rank_of a < rank_of b then b else a) s ss"

record config_result =
  cr_cfg :: string
  cr_status :: string
  cr_reason :: "string option"
  cr_stim :: "string option"
  cr_trace :: "string option"
  cr_mismatches :: int
  cr_bins :: "string list option"

definition new_config :: "string \<Rightarrow> string \<Rightarrow> string option \<Rightarrow> config_result" where
  "new_config cfg st why =
     \<lparr>cr_cfg = cfg, cr_status = st, cr_reason = why, cr_stim = None, cr_trace = None, cr_mismatches = 0,
      cr_bins = None\<rparr>"

text \<open>The git state \<open>stamp\<close> records, from \<open>xut.provenance.case_state\<close>.\<close>

record tree_state =
  ts_hash :: "string option"
  ts_head :: "string option"
  ts_dirty :: "string list option"

record run_result =
  rr_test :: string
  rr_runner :: string
  rr_flow :: string
  rr_style :: string
  rr_status :: string
  rr_reason :: "string option"
  rr_configs :: "config_result list"
  rr_ms :: string
  rr_seed :: "int option"
  rr_seeds_x :: "int list"
  rr_defines :: "(string, string) dict"
  rr_tools :: "(string, string) dict"
  rr_container :: "(string \<times> string option) option"
  rr_x_dependence :: "bool option"
  rr_bins :: "string list option"
  rr_tree :: "string option"
  rr_head :: "string option"
  rr_dirty :: "bool option"

record run_context =
  cx_flow :: string
  cx_ms :: string
  cx_seed :: "int option"
  cx_defines :: "(string, string) dict"
  cx_timeout :: "int option"
  cx_jobs :: int
  cx_state :: tree_state

definition new_result :: "test_case \<Rightarrow> string \<Rightarrow> run_context \<Rightarrow> string \<Rightarrow> string option \<Rightarrow> run_result" where
  "new_result c runner cx st why =
     \<lparr>rr_test = tc_id c, rr_runner = runner, rr_flow = cx_flow cx, rr_style = tc_style c, rr_status = st,
      rr_reason = why, rr_configs = [], rr_ms = cx_ms cx, rr_seed = None, rr_seeds_x = [],
      rr_defines = cx_defines cx, rr_tools = [], rr_container = None, rr_x_dependence = None, rr_bins = None,
      rr_tree = ts_hash (cx_state cx), rr_head = ts_head (cx_state cx),
      rr_dirty = map_option (\<lambda>d. d \<noteq> []) (ts_dirty (cx_state cx))\<rparr>"

section \<open>The schema of a result\<close>

definition hex_digit :: "char \<Rightarrow> bool" where
  "hex_digit c \<longleftrightarrow> is_digit c \<or> (97 \<le> code c \<and> code c \<le> 102)"

definition sha_text :: "string \<Rightarrow> bool" where
  "sha_text s \<longleftrightarrow> length s = 64 \<and> list_all hex_digit s"

text \<open>A pattern closed by \<open>$\<close> also matches before a final newline.\<close>

definition to_dollar :: "(string \<Rightarrow> bool) \<Rightarrow> string \<Rightarrow> bool" where
  "to_dollar P s \<longleftrightarrow> P s \<or> (s \<noteq> [] \<and> last s = LF \<and> P (butlast s))"

definition opt_ok :: "('a \<Rightarrow> bool) \<Rightarrow> 'a option \<Rightarrow> bool" where
  "opt_ok P x = (case x of None \<Rightarrow> True | Some v \<Rightarrow> P v)"

definition reason_ok :: "string \<Rightarrow> string option \<Rightarrow> bool" where
  "reason_ok st why \<longleftrightarrow> st = ''pass'' \<or> (why \<noteq> None \<and> why \<noteq> Some [])"

definition config_valid :: "config_result \<Rightarrow> bool" where
  "config_valid c \<longleftrightarrow>
     to_dollar is_cfg (cr_cfg c) \<and> cr_status c \<in> set STATUSES \<and> opt_ok (to_dollar sha_text) (cr_stim c) \<and>
     opt_ok (to_dollar sha_text) (cr_trace c) \<and> 0 \<le> cr_mismatches c \<and> reason_ok (cr_status c) (cr_reason c)"

definition tree_hash_ok :: "string \<Rightarrow> bool" where
  "tree_hash_ok s \<longleftrightarrow> starts_with ''sha256:'' s \<and> sha_text (drop 7 s)"

definition result_valid :: "run_result \<Rightarrow> bool" where
  "result_valid r \<longleftrightarrow>
     rr_test r \<noteq> [] \<and> rr_runner r \<noteq> [] \<and> rr_flow r \<noteq> [] \<and>
     rr_style r \<in> {''vector'', ''sv'', ''cocotb''} \<and> rr_status r \<in> set STATUSES \<and>
     list_all config_valid (rr_configs r) \<and> opt_ok (to_dollar tree_hash_ok) (rr_tree r) \<and>
     reason_ok (rr_status r) (rr_reason r)"

section \<open>Seeds and time limits\<close>

text \<open>\<open>zlib.crc32\<close>: the reflected polynomial, bit by bit, over the UTF-8 bytes of the text.\<close>

definition crc_bit :: "32 word \<Rightarrow> 32 word" where
  "crc_bit c = (if bit c 0 then drop_bit 1 c XOR 0xEDB88320 else drop_bit 1 c)"

definition crc_byte :: "32 word \<Rightarrow> nat \<Rightarrow> 32 word" where
  "crc_byte c b = (crc_bit ^^ 8) (c XOR of_nat b)"

definition crc32 :: "nat list \<Rightarrow> nat" where
  "crc32 bs = unat (NOT (foldl crc_byte (NOT 0) bs))"

definition utf8 :: "string \<Rightarrow> nat list" where
  "utf8 s = concat (map (\<lambda>c. if code c < 128 then [code c] else [192 + code c div 64, 128 + code c mod 64]) s)"

definition default_seed :: "string \<Rightarrow> int" where
  "default_seed tid = int (crc32 (utf8 tid))"

definition seed_for :: "test_case \<Rightarrow> run_context \<Rightarrow> int" where
  "seed_for c cx = (case cx_seed cx of Some s \<Rightarrow> s | None \<Rightarrow> default_seed (tc_id c))"

definition timeout_for :: "test_case \<Rightarrow> run_context \<Rightarrow> int" where
  "timeout_for c cx =
     (case tc_timeout c of
        Some t \<Rightarrow> t
      | None \<Rightarrow> (case cx_timeout cx of Some t \<Rightarrow> t | None \<Rightarrow> DEFAULT_TIMEOUT_S))"

end
