(* ===== verification/Runner.thy ===== *)
theory Runner
  imports Runner_Base Stimcompile
begin

text \<open>
  The rest of \<open>tools/xut/runners/base.py\<close>: what the other runners read of the python run, and the
  template that runs one test and always leaves a result. An exception is its type, whether it is a
  \<open>XutError\<close>, and its text; the texts of the errors other modules raise are a record of functions.
\<close>

section \<open>Exceptions\<close>

record exn =
  ex_user :: bool
  ex_type :: string
  ex_text :: string

record texts =
  tx_xvec :: "xvec_error \<Rightarrow> string"
  tx_xtr :: "xtr_error \<Rightarrow> string"
  tx_wrap :: "wrap_error \<Rightarrow> string"
  tx_stim :: "stim_error \<Rightarrow> string"
  tx_schema :: "run_result \<Rightarrow> string"

definition raise_as :: "bool \<Rightarrow> string \<Rightarrow> ('e \<Rightarrow> string) \<Rightarrow> ('e, 'a) result \<Rightarrow> (exn, 'a) result" where
  "raise_as user ty show r = map_sum (\<lambda>e. \<lparr>ex_user = user, ex_type = ty, ex_text = show e\<rparr>) id r"

text \<open>
  The exceptions \<open>except Exception\<close> lets pass: those of Python's own that are no \<open>Exception\<close>, and
  \<open>RunCancelled\<close> (\<open>container.py\<close>), a \<open>KeyboardInterrupt\<close> on purpose. No other class of the sources is one.
\<close>

definition is_interrupt :: "exn \<Rightarrow> bool" where
  "is_interrupt e \<longleftrightarrow> ex_type e \<in> {''KeyboardInterrupt'', ''RunCancelled'', ''SystemExit'', ''GeneratorExit''}"

definition error_reason :: "exn \<Rightarrow> string" where
  "error_reason e =
     (let text = strip (if ex_user e then ex_text e else ex_type e @ '': '' @ ex_text e)
      in if text = [] then ex_type e else text)"

section \<open>The directory of the python run\<close>

record vec_dir =
  vd_map :: pyval
  vd_stim :: string
  vd_expected :: "string option"

text \<open>
  \<open>py_configs\<close>: the parsed \<open>configs.json\<close>, None without one. \<open>py_result\<close>: the \<open>result.json\<close>, or the
  text of the exception of reading it.
\<close>

record python_dir =
  py_configs :: "pyval option"
  py_result :: "(string, run_result) result"
  py_cfg :: "string \<Rightarrow> vec_dir option"

definition no_python_run :: "string \<Rightarrow> exn" where
  "no_python_run what = \<lparr>ex_user = True, ex_type = ''NoPythonRun'', ex_text = what\<rparr>"

definition read_cfgs :: "pyval \<Rightarrow> (exn, string list) result" where
  "read_cfgs listing =
     (case as_list listing of
        None \<Rightarrow> Inl (no_python_run ''configs.json is not a list of configuration names'')
      | Some cs \<Rightarrow>
          if list_all (\<lambda>c. as_str c \<noteq> None) cs then Inr (List.map_filter as_str cs)
          else Inl (no_python_run ''configs.json is not a list of configuration names''))"

definition load_generated :: "python_dir \<Rightarrow> (exn, string list) result" where
  "load_generated d =
     (case py_configs d of
        None \<Rightarrow> Inl (no_python_run ''no python run for this test (configs.json missing)'')
      | Some listing \<Rightarrow> read_cfgs listing)"

definition opt_text :: "string option \<Rightarrow> string" where
  "opt_text x = (case x of Some s \<Rightarrow> s | None \<Rightarrow> ''None'')"

definition or_else :: "string option \<Rightarrow> string \<Rightarrow> string" where
  "or_else x d = (case x of None \<Rightarrow> d | Some s \<Rightarrow> if s = [] then d else s)"

definition why_missing :: "(string, run_result) result \<Rightarrow> string \<Rightarrow> string" where
  "why_missing py cfg =
     (case py of
        Inl e \<Rightarrow> ''no readable result.json ('' @ e @ '')''
      | Inr r \<Rightarrow>
          (case find (\<lambda>c. cr_cfg c = cfg) (rr_configs r) of
             Some c \<Rightarrow> cr_status c @ '': '' @ or_else (cr_reason c) ''no reason recorded''
           | None \<Rightarrow> if rr_status r \<noteq> ''pass'' then rr_status r @ '': '' @ opt_text (rr_reason r) else ''not run''))"

definition expected_trace :: "python_dir \<Rightarrow> string \<Rightarrow> (exn, vec_dir \<times> string) result" where
  "expected_trace d cfg =
     (case py_cfg d cfg of
        Some vd \<Rightarrow>
          (case vd_expected vd of
             Some t \<Rightarrow> Inr (vd, t)
           | None \<Rightarrow> Inl \<lparr>ex_user = True, ex_type = ''NoExpectedTrace'',
               ex_text = ''no expected trace (python: '' @ why_missing (py_result d) cfg @ '')''\<rparr>)
      | None \<Rightarrow> Inl \<lparr>ex_user = True, ex_type = ''NoExpectedTrace'',
          ex_text = ''no expected trace (python: '' @ why_missing (py_result d) cfg @ '')''\<rparr>)"

definition trace_header :: "string \<Rightarrow> test_case \<Rightarrow> string \<Rightarrow> run_context \<Rightarrow> (string, string) dict" where
  "trace_header runner c cfg cx =
     [(''runner'', runner), (''flow'', cx_flow cx), (''model'', cx_ms cx), (''prim'', tc_prim c), (''cfg'', cfg)]"

text \<open>
  \<open>prepare_vector\<close> after the copies: the stimulus, the map, the compiled words, the expected trace and
  the header.
\<close>

definition prepare_vector ::
  "texts \<Rightarrow> python_dir \<Rightarrow> test_case \<Rightarrow> string \<Rightarrow> run_context \<Rightarrow> string \<Rightarrow>
   (exn, vec \<times> dut_map \<times> compiled \<times> trace \<times> (string, string) dict) result" where
  "prepare_vector tx d c cfg cx runner =
     rbind (expected_trace d cfg) (\<lambda>(vd, exp).
     rbind (raise_as True ''XvecError'' (tx_xvec tx) (loads (vd_stim vd))) (\<lambda>v.
     rbind (raise_as True ''WrapError'' (tx_wrap tx) (from_json (vd_map vd))) (\<lambda>m.
     rbind (raise_as True ''StimCompileError'' (tx_stim tx) (write_stim v m)) (\<lambda>(comp, _).
     rbind (raise_as True ''XtrError'' (tx_xtr tx) (xtr_loads exp)) (\<lambda>t.
       Inr (v, m, comp, t, trace_header runner c cfg cx @ [(''seed'', show_int (hint v ''seed''))]))))))"

section \<open>Summaries\<close>

definition listing_text :: "config_result list \<Rightarrow> string" where
  "listing_text cs =
     join ''; '' (map (\<lambda>c. cr_cfg c @ '': '' @ opt_text (cr_reason c)) (take 5 cs)) @
     (if 5 < length cs then ''; ... ('' @ show_nat (length cs - 5) @ '' more)'' else [])"

definition bad_configs :: "config_result list \<Rightarrow> config_result list" where
  "bad_configs cs = filter (\<lambda>c. cr_status c \<in> {''fail'', ''error''}) cs"

definition skipped_configs :: "config_result list \<Rightarrow> config_result list" where
  "skipped_configs cs = filter (\<lambda>c. cr_status c = ''skip'') cs"

definition summarize :: "config_result list \<Rightarrow> string \<Rightarrow> string option" where
  "summarize cs st =
     (let skipped = skipped_configs cs in
      if st \<in> {''fail'', ''error''} then Some (listing_text (bad_configs cs))
      else if st = ''skip'' then Some (listing_text skipped)
      else if skipped \<noteq> []
      then Some (show_nat (length skipped) @ '' config(s) skipped: '' @ listing_text skipped)
      else None)"

section \<open>The template\<close>

text \<open>
  What one \<open>run_config\<close> leaves: its result or exception, the text of \<open>trace.xtr\<close>, the text of
  \<open>run.log\<close> (the traceback of an exception included).
\<close>

record config_run =
  co_result :: "(exn, config_result) result"
  co_trace :: "string option"
  co_log :: string

record runner =
  ru_name :: string
  ru_styles :: "string list"
  ru_available :: "bool \<times> string"
  ru_tools :: "(exn, (string, string) dict \<times> (string \<times> string option) option) result"
  ru_configs :: "(exn, string list) result"
  ru_seed :: "int option"
  ru_config :: "string \<Rightarrow> config_run"
  ru_finish :: "run_result \<Rightarrow> (exn, run_result) result"

text \<open>\<open>Runner.configs\<close> and \<open>Runner.stimulus_seed\<close>, which only the python runner overrides.\<close>

definition base_configs :: "test_case \<Rightarrow> python_dir \<Rightarrow> (exn, string list) result" where
  "base_configs c d =
     (if tc_style c = ''vector'' then load_generated d
      else Inr (if tc_configs c = [] then [''default''] else map fst (tc_configs c)))"

definition base_seed :: "test_case \<Rightarrow> run_context \<Rightarrow> python_dir \<Rightarrow> int option" where
  "base_seed c cx d =
     (if tc_style c = ''vector''
      then (case py_result d of
              Inr r \<Rightarrow> (case rr_seed r of Some s \<Rightarrow> Some s | None \<Rightarrow> Some (seed_for c cx))
            | Inl _ \<Rightarrow> Some (seed_for c cx))
      else Some (seed_for c cx))"

datatype log_part =
    SkipLog string
  | UnusedGlob string
  | ConfigLog string string "string option" string
  | Traceback exn

record run_output =
  ro_result :: run_result
  ro_trace :: "string option"
  ro_log :: "log_part list"

definition excluded_by :: "(string, string) dict \<Rightarrow> string \<Rightarrow> string option" where
  "excluded_by excluded cfg = find (\<lambda>g. glob g cfg) (dict_keys excluded)"

text \<open>
  What the file system answers: to emptying the directory of the run, to making the directory of a
  configuration, to writing a file of the run, and to writing an error result. A run reads back what it
  has just written.
\<close>

record run_files =
  fs_reset :: "(exn, unit) result"
  fs_mkdir :: "string \<Rightarrow> (exn, unit) result"
  fs_write :: "string \<Rightarrow> (exn, unit) result"
  fs_error :: "(exn, unit) result"

text \<open>
  One configuration: its result, the part of the test's trace, the part of the log. An exception of
  \<open>run_config\<close> is an error of the configuration, unless it is an interrupt.
\<close>

type_synonym config_part = "config_result \<times> (string \<times> trace) list \<times> log_part"

definition config_outcome :: "string \<Rightarrow> (exn, config_result) result \<Rightarrow> (exn, config_result) result" where
  "config_outcome cfg r =
     (case r of
        Inr cr \<Rightarrow> Inr cr
      | Inl e \<Rightarrow> if is_interrupt e then Inl e else Inr (new_config cfg ''error'' (Some (error_reason e))))"

definition with_evidence :: "texts \<Rightarrow> string \<Rightarrow> string option \<Rightarrow> config_result \<Rightarrow> config_result \<times> (string \<times> trace) list" where
  "with_evidence tx cfg trace cr =
     (case trace of
        Some text \<Rightarrow>
          (case xtr_loads text of
             Inr t \<Rightarrow> (cr, [(cfg, t)])
           | Inl e \<Rightarrow> (new_config cfg ''error'' (Some (''malformed trace.xtr: '' @ tx_xtr tx e)), []))
      | None \<Rightarrow>
          (if cr_status cr = ''pass''
           then (new_config cfg ''error'' (Some ''reported pass but wrote no trace.xtr''), [])
           else (cr, [])))"

definition run_one :: "texts \<Rightarrow> runner \<Rightarrow> (string, string) dict \<Rightarrow> string \<Rightarrow> (exn, config_part) result" where
  "run_one tx ru excluded cfg =
     (case excluded_by excluded cfg of
        Some g \<Rightarrow>
          (let cr = new_config cfg ''skip'' (Some (''excluded: '' @ the (map_of excluded g)))
           in Inr (cr, [], ConfigLog cfg ''skip'' (cr_reason cr) []))
      | None \<Rightarrow>
          (let o1 = ru_config ru cfg in
           rbind (config_outcome cfg (co_result o1)) (\<lambda>cr1.
             let (cr, part) = with_evidence tx cfg (co_trace o1) cr1
             in Inr (cr, part, ConfigLog cfg (cr_status cr) (cr_reason cr) (co_log o1)))))"

text \<open>The configurations in order; the directory of one that was there before exists already.\<close>

fun run_all :: "texts \<Rightarrow> run_files \<Rightarrow> runner \<Rightarrow> (string, string) dict \<Rightarrow> string list \<Rightarrow> string list \<Rightarrow> (exn, config_part list) result" where
  "run_all tx fs ru excluded made [] = Inr []"
| "run_all tx fs ru excluded made (cfg # cfgs) =
     (if cfg \<in> set made then Inl \<lparr>ex_user = False, ex_type = ''FileExistsError'', ex_text = ''cfg-'' @ cfg\<rparr>
      else rbind (fs_mkdir fs cfg) (\<lambda>_.
           rbind (run_one tx ru excluded cfg) (\<lambda>p.
           rbind (run_all tx fs ru excluded (cfg # made) cfgs) (\<lambda>ps. Inr (p # ps)))))"

definition unused_globs :: "(string, string) dict \<Rightarrow> string list \<Rightarrow> log_part list" where
  "unused_globs excluded cfgs =
     map UnusedGlob (filter (\<lambda>g. \<not> list_ex (glob g) cfgs) (dict_keys excluded))"

definition test_header :: "test_case \<Rightarrow> string \<Rightarrow> run_context \<Rightarrow> int option \<Rightarrow> (string, string) dict" where
  "test_header c runner cx seed =
     (let h = [(''runner'', runner), (''flow'', cx_flow cx), (''model'', cx_ms cx), (''prim'', tc_prim c),
               (''seed'', (case seed of Some s \<Rightarrow> show_int s | None \<Rightarrow> ''None'')), (''test'', tc_id c)]
      in if tc_style c = ''vector'' \<and> runner = ''python''
         then AList.update ''kind'' ''expected'' (AList.update ''model'' ''golden'' h) else h)"

text \<open>\<open>RunResult.write\<close>: the schema first, then the file.\<close>

definition write_result :: "texts \<Rightarrow> (exn, unit) result \<Rightarrow> run_result \<Rightarrow> (exn, run_result) result" where
  "write_result tx write r =
     (if result_valid r then rbind write (\<lambda>_. Inr r)
      else Inl \<lparr>ex_user = False, ex_type = ''ValidationError'', ex_text = tx_schema tx r\<rparr>)"

definition skip_result ::
  "texts \<Rightarrow> run_files \<Rightarrow> runner \<Rightarrow> test_case \<Rightarrow> run_context \<Rightarrow> string \<Rightarrow> (exn, run_output) result" where
  "skip_result tx fs ru c cx why =
     rbind (fs_write fs ''run.log'') (\<lambda>_.
     rbind (write_result tx (fs_write fs ''result.json'') (new_result c (ru_name ru) cx ''skip'' (Some why))) (\<lambda>r.
       Inr \<lparr>ro_result = r, ro_trace = None, ro_log = [SkipLog why]\<rparr>))"

definition judged :: "config_result list \<Rightarrow> run_result \<Rightarrow> run_result" where
  "judged configs res =
     (if configs = [] then res\<lparr>rr_status := ''error'',
        rr_reason := Some ''no configurations (did the python runner fail?)''\<rparr>
      else (let st = worst (map cr_status configs)
            in res\<lparr>rr_configs := configs, rr_status := st, rr_reason := summarize configs st\<rparr>))"

definition run_configs ::
  "texts \<Rightarrow> run_files \<Rightarrow> runner \<Rightarrow> test_case \<Rightarrow> run_context \<Rightarrow> string list \<Rightarrow> run_result \<Rightarrow> (exn, run_output) result" where
  "run_configs tx fs ru c cx cfgs res0 =
     (let excluded = exclusions_for c (ru_name ru) in
      rbind (run_all tx fs ru excluded [] cfgs) (\<lambda>runs.
      let res = judged (map fst runs) res0; parts = concat (map (fst \<circ> snd) runs) in
      rbind (raise_as True ''XtrError'' (tx_xtr tx) (concat_traces parts (test_header c (ru_name ru) cx (rr_seed res)))) (\<lambda>t.
      rbind (raise_as True ''XtrError'' (tx_xtr tx) (xtr_dumps t)) (\<lambda>text.
      rbind (fs_write fs ''trace.xtr'') (\<lambda>_.
      rbind (fs_write fs ''run.log'') (\<lambda>_.
      rbind (ru_finish ru res) (\<lambda>res'.
      rbind (write_result tx (fs_write fs ''result.json'') res') (\<lambda>r.
        Inr \<lparr>ro_result = r, ro_trace = Some text, ro_log = unused_globs excluded cfgs @ map (snd \<circ> snd) runs\<rparr>)))))))) "

definition run_inner :: "texts \<Rightarrow> run_files \<Rightarrow> runner \<Rightarrow> test_case \<Rightarrow> run_context \<Rightarrow> (exn, run_output) result" where
  "run_inner tx fs ru c cx =
     (case declared c (ru_name ru) of
        (False, why) \<Rightarrow> skip_result tx fs ru c cx (''declared unsupported: '' @ why)
      | (True, _) \<Rightarrow>
          if tc_style c \<notin> set (ru_styles ru)
          then skip_result tx fs ru c cx (''runner '' @ ru_name ru @ '' does not run '' @ tc_style c @ '' tests'')
          else if \<not> fst (ru_available ru)
          then skip_result tx fs ru c cx (''runner unavailable: '' @ snd (ru_available ru))
          else rbind (ru_tools ru) (\<lambda>(tools, container).
               rbind (ru_configs ru) (\<lambda>cfgs.
                 run_configs tx fs ru c cx cfgs
                   ((new_result c (ru_name ru) cx ''skip'' None)
                      \<lparr>rr_tools := tools, rr_container := container, rr_seed := ru_seed ru\<rparr>))))"

definition error_result ::
  "texts \<Rightarrow> (exn, unit) result \<Rightarrow> test_case \<Rightarrow> string \<Rightarrow> run_context \<Rightarrow> exn \<Rightarrow> (exn, run_output) result" where
  "error_result tx write c runner cx e =
     rbind (write_result tx write (new_result c runner cx ''error'' (Some (error_reason e)))) (\<lambda>r.
       Inr \<lparr>ro_result = r, ro_trace = None, ro_log = [Traceback e]\<rparr>)"

text \<open>\<open>Runner.run\<close>: every \<open>Exception\<close> becomes an error result; an interrupt ends the run.\<close>

definition run :: "texts \<Rightarrow> run_files \<Rightarrow> runner \<Rightarrow> test_case \<Rightarrow> run_context \<Rightarrow> (exn, run_output) result" where
  "run tx fs ru c cx =
     (case rbind (fs_reset fs) (\<lambda>_. run_inner tx fs ru c cx) of
        Inr out \<Rightarrow> Inr out
      | Inl e \<Rightarrow> if is_interrupt e then Inl e else error_result tx (fs_error fs) c (ru_name ru) cx e)"

section \<open>The worst of several statuses\<close>

lemma foldl_worst:
  "foldl (\<lambda>a b. if rank_of a < rank_of b then b else a) s ss \<in> insert s (set ss) \<and>
   (\<forall>x \<in> insert s (set ss). rank_of x \<le> rank_of (foldl (\<lambda>a b. if rank_of a < rank_of b then b else a) s ss))"
proof (induction ss arbitrary: s)
  case (Cons b ss)
  show ?case using Cons.IH[of "if rank_of s < rank_of b then b else s"] by (auto split: if_splits)
qed simp

lemma worst_mem: "ss \<noteq> [] \<Longrightarrow> worst ss \<in> set ss"
  using foldl_worst by (cases ss) auto

lemma worst_ge: "s \<in> set ss \<Longrightarrow> rank_of s \<le> rank_of (worst ss)"
  using foldl_worst by (cases ss) auto

lemma worst_pass_parts:
  assumes "worst ss = ''pass''" and "s \<in> set ss" and "s \<in> set STATUSES"
  shows "s = ''pass'' \<or> s = ''skip''"
  using worst_ge[OF assms(2)] assms(1,3) by (auto simp: STATUSES_def rank_of_def RANK_def)

section \<open>Every path leaves a valid result\<close>

lemma error_reason_text: "ex_type e \<noteq> [] \<Longrightarrow> error_reason e \<noteq> []"
  by (simp add: error_reason_def Let_def)

lemma write_result_Inr: "write_result tx w r = Inr r' \<longleftrightarrow> r' = r \<and> result_valid r \<and> w = Inr ()"
  by (auto simp: write_result_def rbind_Inr_iff)

text \<open>What a test and a context hold when they come from a valid \<open>test.yaml\<close> and the command line.\<close>

definition names_ok :: "test_case \<Rightarrow> string \<Rightarrow> run_context \<Rightarrow> bool" where
  "names_ok c runner cx \<longleftrightarrow>
     tc_id c \<noteq> [] \<and> runner \<noteq> [] \<and> cx_flow cx \<noteq> [] \<and> tc_style c \<in> {''vector'', ''sv'', ''cocotb''} \<and>
     opt_ok (to_dollar tree_hash_ok) (ts_hash (cx_state cx))"

lemma new_result_valid:
  "names_ok c runner cx \<Longrightarrow> st \<in> set STATUSES \<Longrightarrow> why \<noteq> [] \<Longrightarrow>
   result_valid (new_result c runner cx st (Some why))"
  by (simp add: names_ok_def new_result_def result_valid_def reason_ok_def)

lemma error_result_parts:
  assumes "names_ok c runner cx" and "ex_type e \<noteq> []"
  shows "result_valid (new_result c runner cx ''error'' (Some (error_reason e)))"
    and "error_result tx w c runner cx e = rbind w (\<lambda>_.
      Inr \<lparr>ro_result = new_result c runner cx ''error'' (Some (error_reason e)), ro_trace = None, ro_log = [Traceback e]\<rparr>)"
proof -
  show v: "result_valid (new_result c runner cx ''error'' (Some (error_reason e)))"
    using assms by (intro new_result_valid) (auto simp: STATUSES_def error_reason_text)
  show "error_result tx w c runner cx e = rbind w (\<lambda>_.
      Inr \<lparr>ro_result = new_result c runner cx ''error'' (Some (error_reason e)), ro_trace = None, ro_log = [Traceback e]\<rparr>)"
    using v by (cases w) (simp_all add: error_result_def write_result_def)
qed

text \<open>Whatever a part of the run raises satisfies \<open>P\<close>.\<close>

definition raises :: "(exn \<Rightarrow> bool) \<Rightarrow> (exn, 'a) result \<Rightarrow> bool" where
  "raises P r \<longleftrightarrow> (\<forall>e. r = Inl e \<longrightarrow> P e)"

lemma raises_rbind [intro]:
  "raises P r \<Longrightarrow> (\<And>a. r = Inr a \<Longrightarrow> raises P (k a)) \<Longrightarrow> raises P (rbind r k)"
  by (cases r) (auto simp: raises_def)

lemma raises_simps [simp]: "raises P (Inr a)" "raises P (Inl e) \<longleftrightarrow> P e"
  by (auto simp: raises_def)

lemma raises_raise_as:
  "(\<And>x. P \<lparr>ex_user = u, ex_type = ty, ex_text = x\<rparr>) \<Longrightarrow> raises P (raise_as u ty show r)"
  by (cases r) (simp_all add: raise_as_def)

text \<open>A class has a name, so an exception has a type.\<close>

definition typed_parts :: "run_files \<Rightarrow> runner \<Rightarrow> bool" where
  "typed_parts fs ru \<longleftrightarrow> (let P = (\<lambda>e. ex_type e \<noteq> []) in
     raises P (fs_reset fs) \<and> (\<forall>cfg. raises P (fs_mkdir fs cfg)) \<and> (\<forall>f. raises P (fs_write fs f)) \<and>
     raises P (ru_tools ru) \<and> raises P (ru_configs ru) \<and> (\<forall>r. raises P (ru_finish ru r)) \<and>
     (\<forall>cfg. raises P (co_result (ru_config ru cfg))))"

text \<open>An interrupt of one of the parts of the run.\<close>

definition interrupted :: "run_files \<Rightarrow> runner \<Rightarrow> exn \<Rightarrow> bool" where
  "interrupted fs ru e \<longleftrightarrow> is_interrupt e \<and>
     (fs_reset fs = Inl e \<or> (\<exists>cfg. fs_mkdir fs cfg = Inl e) \<or> (\<exists>f. fs_write fs f = Inl e) \<or>
      ru_tools ru = Inl e \<or> ru_configs ru = Inl e \<or> (\<exists>r. ru_finish ru r = Inl e) \<or>
      (\<exists>cfg. co_result (ru_config ru cfg) = Inl e))"

definition run_raises :: "run_files \<Rightarrow> runner \<Rightarrow> exn \<Rightarrow> bool" where
  "run_raises fs ru e \<longleftrightarrow> ex_type e \<noteq> [] \<and> (\<not> is_interrupt e \<or> interrupted fs ru e)"

lemma parts_raise:
  assumes "typed_parts fs ru"
  shows "raises (run_raises fs ru) (fs_reset fs)" "raises (run_raises fs ru) (fs_mkdir fs cfg)"
    "raises (run_raises fs ru) (fs_write fs file)" "raises (run_raises fs ru) (ru_tools ru)"
    "raises (run_raises fs ru) (ru_configs ru)" "raises (run_raises fs ru) (ru_finish ru r)"
    "raises (run_raises fs ru) (config_outcome cfg (co_result (ru_config ru cfg)))"
  using assms unfolding raises_def run_raises_def interrupted_def typed_parts_def Let_def config_outcome_def
  by (blast, blast, blast, blast, blast, blast, auto split: sum.split_asm if_split_asm)

lemma own_raise:
  "raises (run_raises fs ru) (raise_as u ''XtrError'' show r)"
  "raises (run_raises fs ru) w \<Longrightarrow> raises (run_raises fs ru) (write_result tx w res)"
proof -
  have n: "run_raises fs ru \<lparr>ex_user = a, ex_type = ty, ex_text = x\<rparr>" if "ty \<in> {''XtrError'', ''ValidationError''}" for a ty x
    using that by (auto simp: run_raises_def is_interrupt_def)
  show "raises (run_raises fs ru) (raise_as u ''XtrError'' show r)" by (rule raises_raise_as) (simp add: n)
  show "raises (run_raises fs ru) w \<Longrightarrow> raises (run_raises fs ru) (write_result tx w res)"
    by (cases w) (simp_all add: write_result_def n)
qed

lemma run_all_raises:
  assumes "typed_parts fs ru"
  shows "raises (run_raises fs ru) (run_all tx fs ru excluded made cfgs)"
proof (induction cfgs arbitrary: made)
  case (Cons cfg cfgs)
  have n: "run_raises fs ru \<lparr>ex_user = False, ex_type = ''FileExistsError'', ex_text = x\<rparr>" for x
    by (simp add: run_raises_def is_interrupt_def)
  have one: "raises (run_raises fs ru) (run_one tx ru excluded cfg)"
    using parts_raise(7)[OF assms] by (auto simp: run_one_def Let_def split: option.split prod.split)
  show ?case using n by (auto intro!: raises_rbind one parts_raise(2)[OF assms] Cons)
qed simp

lemma run_inner_raises:
  assumes "typed_parts fs ru"
  shows "raises (run_raises fs ru) (run_inner tx fs ru c cx)"
  unfolding run_inner_def run_configs_def skip_result_def Let_def
  by (auto split: prod.split bool.split intro!: raises_rbind parts_raise[OF assms] own_raise run_all_raises[OF assms])

lemma run_inner_valid: "run_inner tx fs ru c cx = Inr out \<Longrightarrow> result_valid (ro_result out)"
  unfolding run_inner_def run_configs_def skip_result_def Let_def
  by (auto simp: rbind_Inr_iff write_result_Inr split: prod.splits bool.splits if_split_asm)

text \<open>
  C27. Where the names of the test, the runner and the flow are well formed and an exception has a class
  name, a run leaves a result that is valid against the schema, with a reason unless it is a pass,
  whatever \<open>Exception\<close> the runner or the file system raises. A run that raises was interrupted in one of
  its parts (\<open>KeyboardInterrupt\<close>, \<open>RunCancelled\<close> and the like are no \<open>Exception\<close>), or its error result
  could not be written.
\<close>

theorem run_leaves_result:
  assumes "names_ok c (ru_name ru) cx" and "typed_parts fs ru"
  shows "case run tx fs ru c cx of
      Inr out \<Rightarrow> result_valid (ro_result out) \<and>
        (rr_status (ro_result out) = ''pass'' \<or> (\<exists>why. rr_reason (ro_result out) = Some why \<and> why \<noteq> []))
    | Inl e \<Rightarrow> interrupted fs ru e \<or> fs_error fs = Inl e"
proof -
  have why: "result_valid r \<Longrightarrow> rr_status r = ''pass'' \<or> (\<exists>why. rr_reason r = Some why \<and> why \<noteq> [])" for r
    by (auto simp: result_valid_def reason_ok_def)
  let ?r = "rbind (fs_reset fs) (\<lambda>_. run_inner tx fs ru c cx)"
  have raises: "raises (run_raises fs ru) ?r"
    using parts_raise(1)[OF assms(2)] run_inner_raises[OF assms(2)] by blast
  show ?thesis
  proof (cases ?r)
    case (Inl e)
    then have e: "ex_type e \<noteq> []" "is_interrupt e \<Longrightarrow> interrupted fs ru e"
      using raises by (auto simp: raises_def run_raises_def)
    show ?thesis
    proof (cases "is_interrupt e")
      case True
      then show ?thesis using Inl e(2) by (simp add: run_def)
    next
      case False
      then show ?thesis
        using Inl error_result_parts[OF assms(1) e(1)] why by (cases "fs_error fs") (auto simp: run_def)
    qed
  next
    case (Inr out)
    then have "result_valid (ro_result out)" by (auto simp: rbind_Inr_iff run_inner_valid)
    then show ?thesis using Inr why by (simp add: run_def)
  qed
qed

section \<open>A pass leaves its evidence\<close>

lemma run_one_kept:
  assumes "run_one tx ru excluded cfg = Inr (cr, part, l)" and "excluded_by excluded cfg = None" and "cr_status cr \<noteq> ''error''"
  shows "co_result (ru_config ru cfg) = Inr cr \<and> (cr_status cr = ''pass'' \<longrightarrow>
    (\<exists>text t. co_trace (ru_config ru cfg) = Some text \<and> xtr_loads text = Inr t \<and> part = [(cfg, t)]))"
proof -
  let ?o = "ru_config ru cfg"
  obtain cr1 where c1: "config_outcome cfg (co_result ?o) = Inr cr1"
    "cr = fst (with_evidence tx cfg (co_trace ?o) cr1)" "part = snd (with_evidence tx cfg (co_trace ?o) cr1)"
    using assms(1,2) by (auto simp: run_one_def Let_def rbind_Inr_iff split_def)
  then have c: "config_outcome cfg (co_result ?o) = Inr cr1" "with_evidence tx cfg (co_trace ?o) cr1 = (cr, part)" by simp_all
  have "cr = cr1" and part: "cr_status cr = ''pass'' \<longrightarrow>
      (\<exists>text t. co_trace ?o = Some text \<and> xtr_loads text = Inr t \<and> part = [(cfg, t)])"
    using c(2) assms(3) by (auto simp: with_evidence_def new_config_def split: option.split_asm sum.split_asm if_split_asm)
  moreover have "co_result ?o = Inr cr1"
    using c(1) assms(3) calculation(1) by (auto simp: config_outcome_def new_config_def split: sum.split_asm if_split_asm)
  ultimately show ?thesis by simp
qed

lemma run_one_excluded:
  assumes "excluded_by excluded cfg = Some g"
  shows "\<exists>l. run_one tx ru excluded cfg =
    Inr (new_config cfg ''skip'' (Some (''excluded: '' @ the (map_of excluded g))), [], l)"
  using assms by (simp add: run_one_def Let_def)

lemma run_all_distinct: "run_all tx fs ru excluded made cfgs = Inr ps \<Longrightarrow> distinct cfgs \<and> set cfgs \<inter> set made = {}"
proof (induction cfgs arbitrary: made ps)
  case (Cons cfg cfgs)
  then obtain qs where "cfg \<notin> set made" "run_all tx fs ru excluded (cfg # made) cfgs = Inr qs"
    by (auto simp: rbind_Inr_iff split: if_split_asm)
  then show ?case using Cons.IH[of "cfg # made" qs] by auto
qed simp

lemma run_all_each:
  "run_all tx fs ru excluded made cfgs = Inr ps \<Longrightarrow> list_all2 (\<lambda>cfg p. run_one tx ru excluded cfg = Inr p) cfgs ps"
  by (induction cfgs arbitrary: made ps) (auto simp: rbind_Inr_iff split: if_split_asm)

text \<open>\<open>finish\<close> only fills in fields of its own.\<close>

definition keeps_verdict :: "runner \<Rightarrow> bool" where
  "keeps_verdict ru \<longleftrightarrow>
     (\<forall>r r'. ru_finish ru r = Inr r' \<longrightarrow> rr_status r' = rr_status r \<and> rr_configs r' = rr_configs r)"

lemma run_configs_result:
  assumes "run_configs tx fs ru c cx cfgs res0 = Inr out" and "keeps_verdict ru"
  shows "\<exists>ps. run_all tx fs ru (exclusions_for c (ru_name ru)) [] cfgs = Inr ps \<and>
    rr_configs (ro_result out) = (if ps = [] then rr_configs res0 else map fst ps) \<and>
    rr_status (ro_result out) = (if ps = [] then ''error'' else worst (map cr_status (map fst ps))) \<and>
    result_valid (ro_result out)"
proof -
  obtain ps r where ps: "run_all tx fs ru (exclusions_for c (ru_name ru)) [] cfgs = Inr ps"
    and r: "ru_finish ru (judged (map fst ps) res0) = Inr r" "result_valid r" "ro_result out = r"
    using assms(1) by (auto simp: run_configs_def Let_def rbind_Inr_iff write_result_Inr o_def)
  moreover have "rr_status r = rr_status (judged (map fst ps) res0)" "rr_configs r = rr_configs (judged (map fst ps) res0)"
    using assms(2) r(1) by (auto simp: keeps_verdict_def)
  ultimately show ?thesis by (auto simp: judged_def Let_def)
qed

definition passed_with_trace :: "runner \<Rightarrow> string \<Rightarrow> config_result \<Rightarrow> bool" where
  "passed_with_trace ru cfg e \<longleftrightarrow>
     co_result (ru_config ru cfg) = Inr e \<and>
     (\<exists>text t. co_trace (ru_config ru cfg) = Some text \<and> xtr_loads text = Inr t)"

text \<open>What the result of one configuration is in a test that passed.\<close>

definition accounted :: "test_case \<Rightarrow> runner \<Rightarrow> string \<Rightarrow> config_result \<Rightarrow> bool" where
  "accounted c ru cfg e \<longleftrightarrow>
     (case excluded_by (exclusions_for c (ru_name ru)) cfg of
        Some g \<Rightarrow> cr_cfg e = cfg \<and> cr_status e = ''skip'' \<and>
          cr_reason e = Some (''excluded: '' @ the (map_of (exclusions_for c (ru_name ru)) g))
      | None \<Rightarrow> cr_status e = ''skip'' \<and> co_result (ru_config ru cfg) = Inr e \<or>
          cr_status e = ''pass'' \<and> passed_with_trace ru cfg e)"

text \<open>
  C28. A test reported as passed has a result for every configuration, in order, and at least one of them
  passed: an excluded configuration is skipped with the declared reason; any other passed on the runner
  and left a trace that reads, or is one the runner itself skipped. None failed or was in error. The
  runner's own \<open>finish\<close> must leave status and configurations alone, as every one of the sources does.
\<close>

theorem run_pass_evidence:
  assumes "run tx fs ru c cx = Inr out" and "rr_status (ro_result out) = ''pass''" and "keeps_verdict ru"
  shows "\<exists>cfgs. ru_configs ru = Inr cfgs \<and> distinct cfgs \<and>
    list_all2 (accounted c ru) cfgs (rr_configs (ro_result out)) \<and>
    (\<exists>e \<in> set (rr_configs (ro_result out)). cr_status e = ''pass'')"
proof -
  let ?ex = "exclusions_for c (ru_name ru)" and ?r = "ro_result out"
  have inner: "run_inner tx fs ru c cx = Inr out"
    using assms(1,2) by (auto simp: run_def error_result_def rbind_Inr_iff write_result_Inr new_result_def
        split: sum.splits if_split_asm)
  then obtain cfgs res0 where cfgs: "ru_configs ru = Inr cfgs" and rc: "run_configs tx fs ru c cx cfgs res0 = Inr out"
    using assms(2)
    by (auto simp: run_inner_def skip_result_def rbind_Inr_iff write_result_Inr new_result_def
        split: prod.splits bool.splits if_split_asm)
  from run_configs_result[OF rc assms(3)] obtain ps where ps: "run_all tx fs ru ?ex [] cfgs = Inr ps"
    and es: "rr_configs ?r = map fst ps" and ne: "ps \<noteq> []" and w: "worst (map cr_status (map fst ps)) = ''pass''"
    and v: "result_valid ?r"
    using assms(2) by (auto split: if_split_asm)
  have st: "cr_status e = ''pass'' \<or> cr_status e = ''skip''" if "e \<in> set (map fst ps)" for e
    using worst_pass_parts[OF w, of "cr_status e"] that v es
    by (auto simp: result_valid_def list_all_iff config_valid_def)
  have "accounted c ru cfg (fst p)" if "run_one tx ru ?ex cfg = Inr p" "p \<in> set ps" for cfg p
  proof -
    obtain cr part l where p: "p = (cr, part, l)" by (cases p)
    have s: "cr_status cr = ''pass'' \<or> cr_status cr = ''skip''" using st[of cr] that(2) p by force
    show ?thesis
    proof (cases "excluded_by ?ex cfg")
      case (Some g)
      then show ?thesis using run_one_excluded[OF Some, of tx ru] that(1) by (auto simp: accounted_def new_config_def)
    next
      case None
      then show ?thesis using run_one_kept[OF that(1)[unfolded p] None] s by (auto simp: accounted_def passed_with_trace_def p)
    qed
  qed
  then have "list_all2 (accounted c ru) cfgs (map fst ps)"
    using run_all_each[OF ps] by (auto simp: list_all2_conv_all_nth)
  moreover have "''pass'' \<in> set (map cr_status (rr_configs ?r))"
    using worst_mem[of "map cr_status (map fst ps)"] w ne es by simp
  then have "\<exists>e \<in> set (rr_configs ?r). cr_status e = ''pass''" by (auto simp del: map_map)
  moreover have "distinct cfgs" using run_all_distinct[OF ps] by simp
  ultimately show ?thesis using cfgs es by auto
qed

section \<open>An example run\<close>

definition texts_example :: texts where
  "texts_example = \<lparr>tx_xvec = (\<lambda>_. ''xvec''), tx_xtr = (\<lambda>_. ''xtr''), tx_wrap = (\<lambda>_. ''wrap''),
     tx_stim = (\<lambda>_. ''stim''), tx_schema = (\<lambda>_. ''schema'')\<rparr>"

definition context_example :: run_context where
  "context_example = \<lparr>cx_flow = ''rtl'', cx_ms = ''unisim-2025.2'', cx_seed = None, cx_defines = [],
     cx_timeout = None, cx_jobs = 1, cx_state = \<lparr>ts_hash = None, ts_head = None, ts_dirty = None\<rparr>\<rparr>"

definition run_case_example :: test_case where
  "run_case_example = (case_example ''7series.FDRE.L0.a'')
     \<lparr>tc_exclusions := [(''python'', [(''wide*'', ''too wide'')])]\<rparr>"

definition trace_text_example :: string where
  "trace_text_example = ''# xut-trace 2  runner=python'' @ [LF] @ ''s0  Q=1'' @ [LF]"

definition runner_example :: runner where
  "runner_example = \<lparr>ru_name = ''python'', ru_styles = [''vector''], ru_available = (True, ''''),
     ru_tools = Inr ([], None), ru_configs = Inr [''a'', ''wide8''], ru_seed = Some 1,
     ru_config = (\<lambda>cfg. \<lparr>co_result = Inr (new_config cfg ''pass'' None), co_trace = Some trace_text_example,
                         co_log = ''''\<rparr>),
     ru_finish = Inr\<rparr>"

definition trace_example :: trace where
  "trace_example = \<lparr>t_header = [(''runner'', ''python'')], t_samples = [(''s0'', [(''Q'', ''1'')])], t_prov = []\<rparr>"

definition fs_example :: run_files where
  "fs_example = \<lparr>fs_reset = Inr (), fs_mkdir = (\<lambda>_. Inr ()), fs_write = (\<lambda>_. Inr ()), fs_error = Inr ()\<rparr>"

lemma run_one_example:
  "run_one texts_example runner_example [(''wide*'', ''too wide'')] ''a'' = Inr
     (new_config ''a'' ''pass'' None, [(''a'', trace_example)], ConfigLog ''a'' ''pass'' None [])"
  "run_one texts_example runner_example [(''wide*'', ''too wide'')] ''wide8'' = Inr
     (new_config ''wide8'' ''skip'' (Some ''excluded: too wide''), [],
      ConfigLog ''wide8'' ''skip'' (Some ''excluded: too wide'') [])"
  by code_simp+

lemma run_trace_example:
  "\<exists>text. rbind (concat_traces [(''a'', trace_example)]
      (test_header run_case_example ''python'' context_example (Some 1))) xtr_dumps = Inr text"
proof -
  have "case rbind (concat_traces [(''a'', trace_example)]
      (test_header run_case_example ''python'' context_example (Some 1))) xtr_dumps of Inr _ \<Rightarrow> True | Inl _ \<Rightarrow> False"
    by code_simp
  then show ?thesis by (auto split: sum.splits)
qed

lemma run_example_setting:
  "declared run_case_example ''python'' = (True, [])" "tc_style run_case_example = ''vector''"
  "exclusions_for run_case_example ''python'' = [(''wide*'', ''too wide'')]"
  "worst [''pass'', ''skip''] = ''pass''"
  "result_valid ((new_result run_case_example ''python'' context_example ''skip'' None)
     \<lparr>rr_tools := [], rr_container := None, rr_seed := Some 1,
      rr_configs := [new_config ''a'' ''pass'' None, new_config ''wide8'' ''skip'' (Some ''excluded: too wide'')],
      rr_status := ''pass'', rr_reason := why\<rparr>)"
  by (code_simp, code_simp, code_simp, code_simp)
     (simp add: result_valid_def new_result_def run_case_example_def case_example_def context_example_def opt_ok_def
        reason_ok_def STATUSES_def config_valid_def new_config_def to_dollar_def is_cfg_def cfg_char_def char_class_defs Let_def)

lemma run_example:
  "case run texts_example fs_example runner_example run_case_example context_example of
     Inr out \<Rightarrow> rr_status (ro_result out) = ''pass'' | Inl _ \<Rightarrow> False"
proof -
  obtain t u where t: "concat_traces [(''a'', trace_example)]
      (test_header run_case_example ''python'' context_example (Some 1)) = Inr t" "xtr_dumps t = Inr u"
    using run_trace_example by (auto simp: rbind_Inr_iff)
  have r: "ru_name runner_example = ''python''" "ru_styles runner_example = [''vector'']"
    "ru_available runner_example = (True, [])" "ru_tools runner_example = Inr ([], None)"
    "ru_configs runner_example = Inr [''a'', ''wide8'']" "ru_seed runner_example = Some 1" "ru_finish runner_example = Inr"
    by (simp_all add: runner_example_def)
  have f: "fs_reset fs_example = Inr ()" "fs_mkdir fs_example cfg = Inr ()" "fs_write fs_example f = Inr ()" for cfg f
    by (simp_all add: fs_example_def)
  show ?thesis
    using t run_example_setting
    by (simp add: run_def run_inner_def r f run_configs_def judged_def run_one_example new_config_def raise_as_def Let_def write_result_def)
qed

lemma run_leaves_result_witness:
  "case run texts_example fs_example (runner_example\<lparr>ru_configs := Inl (no_python_run ''none'')\<rparr>)
       run_case_example context_example of
     Inr out \<Rightarrow> result_valid (ro_result out) | Inl e \<Rightarrow> False"
proof -
  let ?ru = "runner_example\<lparr>ru_configs := Inl (no_python_run ''none'')\<rparr>"
  have "names_ok run_case_example ''python'' context_example" by code_simp
  moreover have "typed_parts fs_example ?ru" "interrupted fs_example ?ru e \<Longrightarrow> False" for e
    by (auto simp: typed_parts_def interrupted_def fs_example_def runner_example_def no_python_run_def is_interrupt_def)
  ultimately show ?thesis
    using run_leaves_result[of run_case_example ?ru context_example fs_example texts_example]
    by (auto simp: runner_example_def fs_example_def split: sum.splits)
qed

lemma run_pass_evidence_witness:
  "case run texts_example fs_example runner_example run_case_example context_example of
     Inr out \<Rightarrow> (\<exists>e \<in> set (rr_configs (ro_result out)). cr_status e = ''pass'')
   | Inl _ \<Rightarrow> False"
proof (cases "run texts_example fs_example runner_example run_case_example context_example")
  case (Inl e)
  then show ?thesis using run_example by simp
next
  case (Inr out)
  have "keeps_verdict runner_example" by (simp add: keeps_verdict_def runner_example_def)
  with Inr show ?thesis using run_pass_evidence[OF Inr] run_example by auto
qed

text \<open>The proofs about runners look through the renaming of an exception and a fresh result.\<close>

lemma new_config_status [simp]: "cr_status (new_config cfg st why) = st" "cr_cfg (new_config cfg st why) = cfg"
  by (simp_all add: new_config_def)

lemma raise_as_Inr [simp]: "raise_as user ty show r = Inr a \<longleftrightarrow> r = Inr a"
  by (cases r) (simp_all add: raise_as_def)

end
