(* ===== verification/Reject.thy ===== *)
theory Reject
  imports Runner
begin

text \<open>
  \<open>tools/xut/runners/reject.py\<close>: whether a simulator refused an illegal attribute value. The regular
  expressions of the file are searches of one line of output (\<open>Text_Search\<close>).
\<close>

section \<open>Lines of a simulator's output\<close>

text \<open>\<open>xut.container.OOM_MARK\<close>.\<close>

definition OOM_MARK :: string where
  "OOM_MARK = ''xut-container: oom-killed''"

definition infra_line :: "string \<Rightarrow> bool" where
  "infra_line line \<longleftrightarrow>
     list_ex (\<lambda>p. icontains p line)
       [''Unknown module type'', ''Unable to open'', ''No such file'', ''docker:'', ''permission denied'',
        ''cannot find'', ''cannot open file'', ''cannot open include file'', ''Failed to link the design'', OOM_MARK] \<or>
     in_order ''include file '' '' not found'' (lower line) \<or>
     some_start (\<lambda>t. starts_with ''module <'' t \<and>
       starts_with ''> not found'' (dropWhile (\<lambda>c. c \<noteq> CHR ''>'') (drop 8 t))) (lower line)"

definition diagnostic :: "string \<Rightarrow> bool" where
  "diagnostic s \<longleftrightarrow>
     list_ex (\<lambda>p. icontains p s)
       [''error'', ''illegal'', ''invalid'', ''not allowed'', ''out of range'', ''violat'', ''sorry'']"

definition MAX_LINES :: nat where "MAX_LINES = 3"
definition MAX_LINE :: nat where "MAX_LINE = 200"

record sim_outcome =
  so_compiled :: bool
  so_compile_text :: string
  so_rc :: "int option"
  so_run_text :: string

text \<open>\<open>^\s*(INFO|NOTE)\b\<close>.\<close>

definition info_line :: "string \<Rightarrow> bool" where
  "info_line line \<longleftrightarrow>
     (let s = lstrip line
      in lower (take 4 s) \<in> {''info'', ''note''} \<and> (drop 4 s = [] \<or> \<not> is_word (hd (drop 4 s))))"

definition scrubbed :: "string \<Rightarrow> string" where
  "scrubbed line = (if info_line line then [] else sub_path_tokens (sub_quoted_paths line))"

definition diagnostic_lines :: "string \<Rightarrow> string list" where
  "diagnostic_lines s = map strip (filter (\<lambda>l. diagnostic (scrubbed l)) (splitlines s))"

definition severity :: "string \<Rightarrow> string option" where
  "severity s =
     find (\<lambda>w. w \<in> {''error'', ''fatal'', ''sorry'', ''warning'', ''note'', ''info''}) (map lower (word_runs s))"

definition is_error_line :: "string \<Rightarrow> bool" where
  "is_error_line line \<longleftrightarrow> severity (scrubbed line) \<in> Some ` {''error'', ''fatal'', ''sorry''}"

text \<open>The lines that may count as a refusal: an error outside any path, naming an illegal attribute.\<close>

definition names_one :: "string list \<Rightarrow> string \<Rightarrow> bool" where
  "names_one names line \<longleftrightarrow> list_ex (\<lambda>n. whole_word n (scrubbed line)) names"

definition reject_evidence :: "string \<Rightarrow> string list \<Rightarrow> string list" where
  "reject_evidence s names = map strip (filter (\<lambda>l. is_error_line l \<and> names_one names l) (splitlines s))"

definition show_lines :: "string list \<Rightarrow> string" where
  "show_lines ls =
     (if ls = [] then ''(no diagnostic)''
      else join '' | '' (map (take MAX_LINE) (take MAX_LINES ls)) @
        (if MAX_LINES < length ls then '' | ... ('' @ show_nat (length ls - MAX_LINES) @ '' more)'' else []))"

section \<open>The verdict\<close>

definition rc_text :: "int option \<Rightarrow> string" where
  "rc_text rc = (case rc of Some i \<Rightarrow> show_int i | None \<Rightarrow> ''None'')"

definition reject_result :: "string \<Rightarrow> sim_outcome \<Rightarrow> string list \<Rightarrow> config_result" where
  "reject_result cfg out illegal =
     (let names = sort (dedup illegal); what = join ''/'' names;
          both = so_compile_text out @ [LF] @ so_run_text out;
          tb = map strip (filter (contains ''XUT_ERROR'') (splitlines (so_run_text out)));
          infra = map strip (filter infra_line (splitlines both))
      in if names = [] then new_config cfg ''error'' (Some ''reject config must name its illegal attribute (stimulus header illegal=; GenContext.dut(..., illegal=[...]))'')
      else if so_rc out \<noteq> None \<and> contains ''XUT_DONE'' (so_run_text out)
      then new_config cfg ''fail''
             (Some (''expected rejection, got acceptance: the run reached XUT_DONE ('' @ what @ '')''))
      else if tb \<noteq> [] then new_config cfg ''error'' (Some (''testbench error, not a rejection: '' @ show_lines tb))
      else if infra \<noteq> []
      then new_config cfg ''error'' (Some (''infrastructure failure, not a rejection: '' @ show_lines infra))
      else if \<not> so_compiled out then
        (case reject_evidence (so_compile_text out) names of
           e # _ \<Rightarrow> new_config cfg ''pass'' (Some (''rejected at compile/elaboration: '' @ take MAX_LINE e))
         | [] \<Rightarrow> new_config cfg ''error''
             (Some (''compile failed without an error/fatal diagnostic naming '' @ what @ '': '' @
                    show_lines (diagnostic_lines (so_compile_text out)))))
      else if so_rc out \<noteq> Some 0
      then new_config cfg ''error''
             (Some (''simulator exited with rc '' @ rc_text (so_rc out) @ '' (not a clean rejection): '' @
                    show_lines (diagnostic_lines (so_run_text out))))
      else
        (case reject_evidence (so_run_text out) names of
           e # _ \<Rightarrow> new_config cfg ''pass'' (Some (''rejected at runtime: '' @ take MAX_LINE e))
         | [] \<Rightarrow> new_config cfg ''error''
             (Some (''run ended without XUT_DONE and without an error/fatal diagnostic naming '' @ what @ '': '' @
                    show_lines (diagnostic_lines (so_run_text out))))))"

text \<open>
  \<open>reject_check\<close>: the verdict with its header-only trace. \<open>sha\<close> is the SHA-256 of a file, from hashlib.
\<close>

definition reject_check ::
  "(string \<Rightarrow> string) \<Rightarrow> string \<Rightarrow> sim_outcome \<Rightarrow> string list \<Rightarrow> (string, string) dict \<Rightarrow>
   (xtr_error, config_result \<times> string) result" where
  "reject_check sha stim out illegal header =
     rbind (xtr_dumps (new_trace (AList.update ''expect'' ''reject'' header))) (\<lambda>t.
       Inr ((reject_result (the (map_of header ''cfg'')) out illegal)\<lparr>cr_stim := Some (sha stim), cr_trace := Some (sha t)\<rparr>, t))"

section \<open>A pass needs evidence\<close>

lemma scrubbed_no_slash: "CHR ''/'' \<notin> set (scrubbed line)"
  by (simp add: scrubbed_def sub_path_tokens_no_slash)

definition refusal_line :: "string list \<Rightarrow> string \<Rightarrow> bool" where
  "refusal_line illegal line \<longleftrightarrow>
     \<not> info_line line \<and> severity (scrubbed line) \<in> Some ` {''error'', ''fatal'', ''sorry''} \<and>
     (\<exists>n \<in> set illegal. whole_word n (scrubbed line))"

lemma info_not_error: "info_line line \<Longrightarrow> \<not> is_error_line line"
proof -
  have "word_runs [] = []" by (subst word_runs.simps) simp
  then show "info_line line \<Longrightarrow> \<not> is_error_line line" by (simp add: is_error_line_def scrubbed_def severity_def)
qed

lemma reject_evidence_iff:
  "reject_evidence s (sort (dedup illegal)) \<noteq> [] \<longleftrightarrow> (\<exists>l \<in> set (splitlines s). refusal_line illegal l)"
proof -
  have "is_error_line l \<and> names_one (sort (dedup illegal)) l \<longleftrightarrow> refusal_line illegal l" for l
    using info_not_error[of l] by (auto simp: refusal_line_def is_error_line_def names_one_def list_ex_iff)
  then show ?thesis by (auto simp: reject_evidence_def filter_empty_conv)
qed

definition outcome_example :: sim_outcome where
  "outcome_example = \<lparr>so_compiled = False, so_compile_text = ''a/I error: I'',
     so_rc = None, so_run_text = []\<rparr>"

text \<open>Where the code looks for a refusal: the compiler's output, or that of a run that ended cleanly.\<close>

definition refusal_text :: "sim_outcome \<Rightarrow> string option" where
  "refusal_text out =
     (if \<not> so_compiled out then Some (so_compile_text out)
      else if so_rc out = Some 0 then Some (so_run_text out) else None)"

theorem reject_pass_iff:
  "cr_status (reject_result cfg out illegal) = ''pass'' \<longleftrightarrow>
     \<not> (so_rc out \<noteq> None \<and> contains ''XUT_DONE'' (so_run_text out)) \<and>
     (\<forall>l \<in> set (splitlines (so_run_text out)). \<not> contains ''XUT_ERROR'' l) \<and>
     (\<forall>l \<in> set (splitlines (so_compile_text out @ [LF] @ so_run_text out)). \<not> infra_line l) \<and>
     (case refusal_text out of Some s \<Rightarrow> \<exists>l \<in> set (splitlines s). refusal_line illegal l | None \<Rightarrow> False)"
proof -
  have ne: "illegal \<noteq> []" if "refusal_line illegal l" for l using that by (auto simp: refusal_line_def)
  have d: "sort (dedup illegal) = [] \<longleftrightarrow> illegal = []" by (metis set_dedup set_empty set_sort)
  note ev = reject_evidence_iff[of _ illegal]
  show ?thesis
    using ev[of "so_compile_text out"] ev[of "so_run_text out"] ne
    by (cases "reject_evidence (so_compile_text out) (sort (dedup illegal))";
        cases "reject_evidence (so_run_text out) (sort (dedup illegal))")
       (auto simp: reject_result_def Let_def new_config_def refusal_text_def filter_empty_conv d)
qed

lemma reject_pass_iff_witness: "cr_status (reject_result ''c'' outcome_example [''I'']) = ''pass''"
  by (subst reject_pass_iff) code_simp

end
