(* ===== verification/Sim_Checks.thy ===== *)
theory Sim_Checks
  imports Reject
begin

text \<open>
  \<open>tools/xut/runners/sim.py\<close>: how a run of a simulator is judged, once for every simulator runner, and
  the vector runs of \<open>runners/iverilog.py\<close> and \<open>runners/xsim.py\<close> that end in these checks. What the
  simulator printed and wrote is an argument; \<open>sha\<close> is the SHA-256 of a file's text.
\<close>

section \<open>The ladder after a run\<close>

definition fatal_line :: "string \<Rightarrow> string option" where
  "fatal_line s = map_option strip (find (starts_with ''Fatal:'') (splitlines s))"

definition classify_run :: "string \<Rightarrow> sim_outcome \<Rightarrow> bool \<Rightarrow> config_result option" where
  "classify_run cfg out need_done =
     (if \<not> so_compiled out then Some (new_config cfg ''error'' (Some ''compile failed''))
      else if so_rc out \<noteq> Some 0
      then Some (new_config cfg ''error'' (Some (''simulator exited with rc '' @ rc_text (so_rc out))))
      else case fatal_line (so_run_text out) of
          Some l \<Rightarrow> Some (new_config cfg ''error'' (Some (''simulator reported '' @ l)))
        | None \<Rightarrow>
            if need_done \<and> \<not> contains ''XUT_DONE'' (so_run_text out)
            then Some (new_config cfg ''error'' (Some ''simulation ended early (no XUT_DONE)''))
            else None)"

definition model_errors :: "string \<Rightarrow> string list" where
  "model_errors s = map strip (filter (\<lambda>l. \<not> contains ''XUT_'' l \<and> is_error_line l) (splitlines s))"

definition errors_reason :: "string list \<Rightarrow> string" where
  "errors_reason errors =
     ''model reported errors: '' @ join '' | '' (map (take 200) (take 3 errors)) @
     (if 3 < length errors then '' | ... ('' @ show_nat (length errors - 3) @ '' more)'' else [])"

section \<open>Vector tests\<close>

text \<open>\<open>Mismatch.__str__\<close> of \<open>formats/xtr.py\<close>.\<close>

definition mismatch_str :: "mismatch \<Rightarrow> string" where
  "mismatch_str x =
     m_label x @ '' '' @ m_port x @ (if 0 \<le> m_bit x then ''['' @ show_int (m_bit x) @ '']'' else []) @
     '': expected '' @ m_expected x @ '', got '' @ m_actual x @
     (case m_prov x of None \<Rightarrow> [] | Some p \<Rightarrow> if p = [] then [] else '' ('' @ p @ '')'') @ '' ['' @ m_kind x @ '']''"

text \<open>The verdict, and the text of \<open>trace.xtr\<close> when one is written.\<close>

definition vector_check ::
  "texts \<Rightarrow> (string \<Rightarrow> string) \<Rightarrow> dut_map \<Rightarrow> string list \<Rightarrow> trace \<Rightarrow> (string, string) dict \<Rightarrow> bool \<Rightarrow>
   string \<Rightarrow> string option \<Rightarrow> string \<Rightarrow> (exn, config_result \<times> string option) result" where
  "vector_check tx sha m labels expected header x_obs stim raw run_text =
     (let cfg = the (map_of header ''cfg'') in
      if t_samples expected = []
      then Inr (new_config cfg ''error'' (Some ''expected trace has no samples (ruling S15)''), None)
      else case raw of
        None \<Rightarrow> Inr (new_config cfg ''error'' (Some ''no raw.txt (simulation did not start)''), None)
      | Some r \<Rightarrow>
          rbind (raise_as True ''StimCompileError'' (tx_stim tx) (raw_to_trace r labels m header)) (\<lambda>actual.
          rbind (raise_as True ''XtrError'' (tx_xtr tx) (xtr_dumps actual)) (\<lambda>u.
          let mm = compare expected actual x_obs; errors = model_errors run_text;
              reasons = (if errors \<noteq> [] then [errors_reason errors] else []) @ map mismatch_str (take 3 mm);
              why = join ''; '' reasons
          in Inr (\<lparr>cr_cfg = cfg, cr_status = (if mm \<noteq> [] \<or> errors \<noteq> [] then ''fail'' else ''pass''),
               cr_reason = (if why = [] then None else Some why), cr_stim = Some (sha stim),
               cr_trace = Some (sha u), cr_mismatches = int (length mm), cr_bins = None\<rparr>, Some u))))"

section \<open>SystemVerilog tests\<close>

text \<open>\<open>^\s*KEY (\d+)\s*$\<close> on every line: the digits of each match.\<close>

definition report_digits :: "string \<Rightarrow> string \<Rightarrow> string option" where
  "report_digits key line =
     (let s = strip line in
      if starts_with (key @ '' '') s \<and> drop (Suc (length key)) s \<noteq> [] \<and> list_all is_digit (drop (Suc (length key)) s)
      then Some (drop (Suc (length key)) s) else None)"

definition reports :: "string \<Rightarrow> string \<Rightarrow> string list" where
  "reports key s = List.map_filter (report_digits key) (split_on LF s)"

definition sv_failures :: "string \<Rightarrow> string list" where
  "sv_failures s =
     map strip (filter (\<lambda>l. contains ''XUT_FAIL'' l \<or> starts_with ''ERROR:'' (lstrip l) \<or>
                            starts_with ''Error:'' (lstrip l)) (splitlines s))"

definition sv_check ::
  "texts \<Rightarrow> (string \<Rightarrow> string) \<Rightarrow> string option \<Rightarrow> string \<Rightarrow> (string, string) dict \<Rightarrow>
   (exn, config_result \<times> string option) result" where
  "sv_check tx sha body log header =
     (let cfg = the (map_of header ''cfg'') in
      case rbind (xtr_dumps (new_trace header)) (\<lambda>h. xtr_loads (h @ (case body of Some b \<Rightarrow> b | None \<Rightarrow> []))) of
        Inl e \<Rightarrow> Inr (new_config cfg ''error'' (Some (''malformed trace.body: '' @ tx_xtr tx e)), None)
      | Inr t \<Rightarrow>
          rbind (raise_as True ''XtrError'' (tx_xtr tx) (xtr_dumps t)) (\<lambda>u.
          let ok = (\<lambda>st why. (new_config cfg st why)\<lparr>cr_trace := Some (sha u)\<rparr>);
              counts = reports ''XUT_CHECKS'' log; seen = reports ''XUT_SEED'' log
          in Inr (
            (if sv_failures log \<noteq> [] then ok ''fail'' (Some (hd (sv_failures log)))
             else if \<not> contains ''XUT_PASS'' log
             then new_config cfg ''error'' (Some ''testbench did not report XUT_PASS/XUT_FAIL'')
             else if counts = []
             then new_config cfg ''error''
               (Some ''testbench did not report XUT_CHECKS (include xut_trace.svh and end with xut_finish)'')
             else if parse_base 10 (last counts) = Some 0 \<or> t_samples t = []
             then ok ''error'' (Some (''sv test recorded no checks/samples ('' @ show_nat (the (parse_base 10 (last counts))) @ '' XUT_CHECK(s) executed, '' @
               show_nat (length (t_samples t)) @ '' checkpoint(s) in trace.body; ruling S15)''))
             else if seen = [] \<or> map_of header ''seed'' \<noteq> Some (last seen)
             then ok ''error'' (Some (''testbench saw seed '' @
               (if seen = [] then ''(none: no XUT_SEED line)'' else last seen) @
               '', but this run records seed '' @ opt_text (map_of header ''seed'')))
             else ok ''pass'' None), Some u)))"

definition sv_seed_define :: "int \<Rightarrow> (exn, string) result" where
  "sv_seed_define seed =
     (if 0 \<le> seed \<and> seed < 2 ^ 64 then Inr (''64'' @ [SQ] @ ''d'' @ show_int seed)
      else Inl \<lparr>ex_user = True, ex_type = ''ParamError'',
        ex_text = ''seed '' @ show_int seed @ '': an sv testbench takes a seed in 0 .. 2**64-1''\<rparr>)"

section \<open>cocotb tests\<close>

definition with_seed :: "config_result \<Rightarrow> int \<Rightarrow> config_result" where
  "with_seed r seed =
     (if cr_status r \<in> {''fail'', ''error''}
      then r\<lparr>cr_reason := Some (or_else (cr_reason r) (cr_status r) @ '' [seed '' @ show_int seed @ '']'')\<rparr>
      else r)"

text \<open>
  The parsed \<open>results.xml\<close>: the values of its \<open>random_seed\<close> properties and its test cases, a failure
  (or else an error) with its type and message.
\<close>

record junit_case =
  j_name :: string
  j_skipped :: bool
  j_failure :: "(string \<times> string) option"

record junit =
  j_seeds :: "string list"
  j_cases :: "junit_case list"

definition COCOTB_BUILD_FAILED :: int where "COCOTB_BUILD_FAILED = 3"

definition COCOTB_HEADER_KEYS :: "string list" where
  "COCOTB_HEADER_KEYS = [''runner'', ''flow'', ''model'', ''seed'', ''prim'', ''cfg'']"

record cocotb_dir =
  cd_zmark :: "string option"
  cd_xml :: "(string, junit) result option"
  cd_trace :: "string option"
  cd_log :: string

definition case_failure :: "junit_case \<Rightarrow> (string \<times> string \<times> string) option" where
  "case_failure j = map_option (\<lambda>(ty, msg). (j_name j, ty, msg)) (j_failure j)"

text \<open>The messages of a wrong seed and a wrong header are left to one word each.\<close>

definition cocotb_tests ::
  "(string \<Rightarrow> string) \<Rightarrow> cocotb_dir \<Rightarrow> int \<Rightarrow> string \<Rightarrow> junit_case list \<Rightarrow> nat \<Rightarrow> config_result" where
  "cocotb_tests sha d rc cfg cases n_samples =
     (let with_sha = (\<lambda>r. r\<lparr>cr_trace := map_option sha (cd_trace d)\<rparr>);
          failures = List.map_filter case_failure cases
      in case find (\<lambda>(_, ty, _). ty \<noteq> ''AssertionError'') failures of
           Some (name, ty, msg) \<Rightarrow>
             with_sha (new_config cfg ''error'' (Some (strip (name @ '': '' @ ty @ '': '' @ msg))))
         | None \<Rightarrow>
             (case failures of
                (name, _, msg) # _ \<Rightarrow> with_sha (new_config cfg ''fail'' (Some (strip (name @ '': '' @ msg))))
              | [] \<Rightarrow>
                  if model_errors (cd_log d) \<noteq> []
                  then with_sha (new_config cfg ''fail'' (Some (errors_reason (model_errors (cd_log d)))))
                  else if n_samples = 0
                  then with_sha (new_config cfg ''error'' (Some ''cocotb test recorded no samples''))
                  else if rc \<noteq> 0
                  then new_config cfg ''error'' (Some (''cocotb launcher exited with rc '' @ show_int rc))
                  else with_sha (new_config cfg ''pass'' None)))"

definition cocotb_verdict ::
  "texts \<Rightarrow> (string \<Rightarrow> string) \<Rightarrow> cocotb_dir \<Rightarrow> int \<Rightarrow> int \<Rightarrow> (string, string) dict \<Rightarrow> config_result" where
  "cocotb_verdict tx sha d rc seed header =
     (let cfg = the (map_of header ''cfg''); err = (\<lambda>why. new_config cfg ''error'' (Some why)) in
      case cd_zmark d of
        Some z \<Rightarrow> err (''cocotb test drove z into the DUT: '' @ strip z)
      | None \<Rightarrow>
          (case cd_xml d of
             None \<Rightarrow>
               if rc = COCOTB_BUILD_FAILED then err ''compile failed''
               else err ''cocotb wrote no results.xml (build failed or the test module did not import; see run.log)''
           | Some (Inl e) \<Rightarrow> err (''unreadable results.xml: '' @ e)
           | Some (Inr x) \<Rightarrow>
               if j_seeds x = [] \<or> list_ex (\<lambda>s. s \<noteq> show_int seed) (j_seeds x) then err ''random_seed''
               else if list_all j_skipped (j_cases x)
               then err ''no cocotb test ran (none found, or all skipped)''
               else case cd_trace d of
                   None \<Rightarrow> cocotb_tests sha d rc cfg (j_cases x) 0
                 | Some u \<Rightarrow>
                     (case xtr_loads u of
                        Inl e \<Rightarrow> err (''malformed trace.xtr: '' @ tx_xtr tx e)
                      | Inr t \<Rightarrow>
                          if list_ex (\<lambda>k. map_of (t_header t) k \<noteq> map_of header k) COCOTB_HEADER_KEYS
                          then err ''trace.xtr header''
                          else cocotb_tests sha d rc cfg (j_cases x) (length (t_samples t)))))"

definition cocotb_check ::
  "texts \<Rightarrow> (string \<Rightarrow> string) \<Rightarrow> cocotb_dir \<Rightarrow> int \<Rightarrow> int \<Rightarrow> (string, string) dict \<Rightarrow> config_result" where
  "cocotb_check tx sha d rc seed header = with_seed (cocotb_verdict tx sha d rc seed header) seed"

section \<open>A pass has been checked against something\<close>

text \<open>What the vector, the SystemVerilog and the cocotb check each need before they report a pass.\<close>

definition vector_evidence ::
  "dut_map \<Rightarrow> string list \<Rightarrow> trace \<Rightarrow> (string, string) dict \<Rightarrow> bool \<Rightarrow> string option \<Rightarrow> string \<Rightarrow> bool" where
  "vector_evidence m labels expected header x_obs raw run_text \<longleftrightarrow>
     t_samples expected \<noteq> [] \<and>
     (case raw of
        None \<Rightarrow> False
      | Some r \<Rightarrow> (case raw_to_trace r labels m header of
            Inr actual \<Rightarrow> compare expected actual x_obs = [] | Inl _ \<Rightarrow> False)) \<and>
     (\<forall>l \<in> set (splitlines run_text). is_error_line l \<longrightarrow> contains ''XUT_'' l)"

definition sv_evidence :: "string option \<Rightarrow> string \<Rightarrow> (string, string) dict \<Rightarrow> bool" where
  "sv_evidence body log header \<longleftrightarrow>
     (case rbind (xtr_dumps (new_trace header)) (\<lambda>h. xtr_loads (h @ (case body of Some b \<Rightarrow> b | None \<Rightarrow> []))) of
        Inr t \<Rightarrow> t_samples t \<noteq> [] | Inl _ \<Rightarrow> False) \<and>
     (\<forall>l \<in> set (splitlines log). \<not> contains ''XUT_FAIL'' l) \<and> contains ''XUT_PASS'' log \<and>
     reports ''XUT_CHECKS'' log \<noteq> [] \<and> parse_base 10 (last (reports ''XUT_CHECKS'' log)) \<noteq> Some 0 \<and>
     reports ''XUT_SEED'' log \<noteq> [] \<and> map_of header ''seed'' = Some (last (reports ''XUT_SEED'' log))"

definition cocotb_evidence :: "cocotb_dir \<Rightarrow> int \<Rightarrow> int \<Rightarrow> (string, string) dict \<Rightarrow> bool" where
  "cocotb_evidence d rc seed header \<longleftrightarrow>
     cd_zmark d = None \<and> rc = 0 \<and> model_errors (cd_log d) = [] \<and>
     (case cd_xml d of
        Some (Inr x) \<Rightarrow>
          j_seeds x \<noteq> [] \<and> (\<forall>s \<in> set (j_seeds x). s = show_int seed) \<and>
          (\<exists>j \<in> set (j_cases x). \<not> j_skipped j) \<and> (\<forall>j \<in> set (j_cases x). j_failure j = None)
      | _ \<Rightarrow> False) \<and>
     (case cd_trace d of
        Some u \<Rightarrow> (case xtr_loads u of
            Inr t \<Rightarrow> t_samples t \<noteq> [] \<and> (\<forall>k \<in> set COCOTB_HEADER_KEYS. map_of (t_header t) k = map_of header k)
          | Inl _ \<Rightarrow> False)
      | None \<Rightarrow> False)"

lemma vector_pass:
  assumes "vector_check tx sha m labels expected header x_obs stim raw run_text = Inr (r, out)"
  shows "cr_status r = ''pass'' \<longrightarrow> vector_evidence m labels expected header x_obs raw run_text"
  using assms
  by (auto simp: vector_check_def vector_evidence_def model_errors_def filter_empty_conv Let_def rbind_Inr_iff
      split: if_split_asm option.splits)

lemma sv_pass:
  assumes "sv_check tx sha body log header = Inr (r, out)"
  shows "cr_status r = ''pass'' \<longrightarrow> sv_evidence body log header"
  using assms
  by (auto simp: sv_check_def sv_evidence_def sv_failures_def filter_empty_conv Let_def rbind_Inr_iff
      split: if_split_asm sum.split_asm)

lemma cocotb_tests_pass:
  "cr_status (cocotb_tests sha d rc cfg cases n) = ''pass'' \<Longrightarrow>
   (\<forall>j \<in> set cases. j_failure j = None) \<and> model_errors (cd_log d) = [] \<and> n \<noteq> 0 \<and> rc = 0"
  by (auto simp: cocotb_tests_def Let_def case_failure_def map_filter_def filter_empty_conv
      split: option.split_asm list.split_asm if_split_asm) (metis not_None_eq surj_pair)

lemma with_seed_status [simp]: "cr_status (with_seed r seed) = cr_status r"
  by (simp add: with_seed_def)

lemma cocotb_pass:
  "cr_status (cocotb_check tx sha d rc seed header) = ''pass'' \<longrightarrow> cocotb_evidence d rc seed header"
  using cocotb_tests_pass[of sha d rc "the (map_of header ''cfg'')"]
  by (auto simp: cocotb_check_def cocotb_verdict_def cocotb_evidence_def Let_def list_ex_iff list_all_iff
      split: option.splits sum.splits if_split_asm dest: cocotb_tests_pass)

text \<open>
  A check of any style passes only on evidence: samples compared without mismatch, or checks
  executed under the seed asked for, and no error line in the output.
\<close>

theorem checks_need_evidence:
  "(case vector_check tx sha m labels expected header x_obs stim raw run_text of
      Inr (r, out) \<Rightarrow> cr_status r = ''pass'' \<longrightarrow> vector_evidence m labels expected header x_obs raw run_text
    | Inl _ \<Rightarrow> True) \<and>
   (case sv_check tx sha body log header of
      Inr (r, out) \<Rightarrow> cr_status r = ''pass'' \<longrightarrow> sv_evidence body log header | Inl _ \<Rightarrow> True) \<and>
   (cr_status (cocotb_check tx sha d rc seed header) = ''pass'' \<longrightarrow> cocotb_evidence d rc seed header)"
  using vector_pass sv_pass cocotb_pass by (auto split: sum.split)

section \<open>Examples\<close>

definition out_map_example :: dut_map where
  "out_map_example = \<lparr>m_prim = ''P'', m_family = ''f'', m_cfg = ''c'', m_attrs = [], m_nclk = 0, m_nin = 0, m_nout = 1,
     m_bits = [\<lparr>w_vec = ''out'', w_bit = 0, w_port = ''Q'', w_index = 0, w_cls = ''data'', w_role = ''''\<rparr>],
     m_min_gap = None\<rparr>"

definition check_header_example :: "(string, string) dict" where
  "check_header_example = [(''cfg'', ''c''), (''seed'', ''7'')]"

definition check_trace_example :: string where
  "check_trace_example = ''# xut-trace 2  cfg=c seed=7'' @ [LF] @ ''s Q=1'' @ [LF]"

definition cocotb_example :: cocotb_dir where
  "cocotb_example = \<lparr>cd_zmark = None,
     cd_xml = Some (Inr \<lparr>j_seeds = [''7''], j_cases = [\<lparr>j_name = ''m.t'', j_skipped = False, j_failure = None\<rparr>]\<rparr>),
     cd_trace = Some check_trace_example, cd_log = ''''\<rparr>"

definition sv_log_example :: string where
  "sv_log_example = ''XUT_PASS'' @ [LF] @ ''XUT_CHECKS 2'' @ [LF] @ ''XUT_SEED 7'' @ [LF]"

definition trace_s_example :: trace where
  "trace_s_example = \<lparr>t_header = [], t_samples = [(''s'', [(''Q'', ''1'')])], t_prov = []\<rparr>"

abbreviation vector_run where
  "vector_run \<equiv> vector_check texts_example id out_map_example [''s''] trace_s_example check_header_example True []
     (Some ''S 0 1'') ''XUT_DONE''"

lemma passes:
  "case vector_run of Inr (r, _) \<Rightarrow> cr_status r = ''pass'' | Inl _ \<Rightarrow> False"
  "case sv_check texts_example id (Some ''s Q=1'') sv_log_example check_header_example of
     Inr (r, _) \<Rightarrow> cr_status r = ''pass'' | Inl _ \<Rightarrow> False"
  "cr_status (cocotb_check texts_example id cocotb_example 0 7 check_header_example) = ''pass''"
  by code_simp+

lemma checks_need_evidence_witness:
  "vector_evidence out_map_example [''s''] trace_s_example check_header_example True (Some ''S 0 1'') ''XUT_DONE'' \<and>
   sv_evidence (Some ''s Q=1'') sv_log_example check_header_example \<and>
   cocotb_evidence cocotb_example 0 7 check_header_example"
  using checks_need_evidence[where m = out_map_example and labels = "[''s'']" and expected = trace_s_example
      and header = check_header_example and x_obs = True and raw = "Some ''S 0 1''" and run_text = "''XUT_DONE''"
      and tx = texts_example and sha = id and stim = "[]" and body = "Some ''s Q=1''" and log = sv_log_example
      and d = cocotb_example and rc = 0 and seed = 7] passes
  by (auto split: sum.splits)

end
