(* ===== verification/Sim_Runners.thy ===== *)
theory Sim_Runners
  imports Sim_Checks Attr_Values
begin

text \<open>
  \<open>tools/xut/runners/iverilog.py\<close> and \<open>runners/xsim.py\<close>: the parameter values each simulator takes, when
  a compile has failed, how the output of \<open>xsim.sh\<close> is split, and the vector run both share. The commands
  themselves are run by the container and Vivado: what they printed is an argument.
\<close>

section \<open>Parameter values\<close>

text \<open>\<open>-?[0-9]+\<close>, and the two forms of a real number.\<close>

definition digits1 :: "string \<Rightarrow> bool" where
  "digits1 s \<longleftrightarrow> s \<noteq> [] \<and> list_all is_digit s"

definition unsigned_part :: "string \<Rightarrow> string" where
  "unsigned_part s = (if s \<noteq> [] \<and> hd s = CHR ''-'' then tl s else s)"

definition decimal_text :: "string \<Rightarrow> bool" where
  "decimal_text s \<longleftrightarrow> digits1 (unsigned_part s)"

definition exponent_text :: "string \<Rightarrow> bool" where
  "exponent_text s \<longleftrightarrow>
     s \<noteq> [] \<and> (hd s = CHR ''e'' \<or> hd s = CHR ''E'') \<and>
     digits1 (if tl s \<noteq> [] \<and> (hd (tl s) = CHR ''+'' \<or> hd (tl s) = CHR ''-'') then tl (tl s) else tl s)"

definition real_text :: "string \<Rightarrow> bool" where
  "real_text s \<longleftrightarrow>
     (let (a, r) = span is_digit (unsigned_part s) in
      a \<noteq> [] \<and>
      (if r \<noteq> [] \<and> hd r = CHR ''.''
       then (let (f, e) = span is_digit (tl r) in f \<noteq> [] \<and> (e = [] \<or> exponent_text e))
       else exponent_text r))"

text \<open>A based literal; \<open>digs\<close> gives the digits allowed for a base letter.\<close>

definition based_text :: "(char \<Rightarrow> string) \<Rightarrow> string \<Rightarrow> bool" where
  "based_text digs s \<longleftrightarrow>
     (let r = dropWhile is_digit s;
          b = (if r \<noteq> [] \<and> tl r \<noteq> [] \<and> hd (tl r) = CHR ''s'' then drop 2 r else drop 1 r)
      in r \<noteq> [] \<and> hd r = SQ \<and> b \<noteq> [] \<and> tl b \<noteq> [] \<and> (\<forall>c \<in> set (tl b). c \<in> set (digs (to_lower (hd b)))))"

definition string_text :: "string \<Rightarrow> bool" where
  "string_text s \<longleftrightarrow> 2 \<le> length s \<and> hd s = DQ \<and> last s = DQ \<and> DQ \<notin> set (butlast (tl s))"

definition icarus_digits :: "char \<Rightarrow> string" where
  "icarus_digits b =
     (if b = CHR ''b'' then ''01_'' else if b = CHR ''o'' then ''01234567_'' else if b = CHR ''d'' then ''0123456789_''
      else if b = CHR ''h'' then ''0123456789abcdefABCDEF_'' else [])"

definition xelab_digits :: "char \<Rightarrow> string" where
  "xelab_digits b =
     (if b = CHR ''b'' then ''01xXzZ?_'' else if b = CHR ''o'' then ''01234567xXzZ?_''
      else if b = CHR ''d'' then ''0123456789_''
      else if b = CHR ''h'' then ''0123456789abcdefABCDEFxXzZ?_'' else [])"

definition literal_text :: "(char \<Rightarrow> string) \<Rightarrow> string \<Rightarrow> bool" where
  "literal_text digs s \<longleftrightarrow>
     to_dollar (\<lambda>t. decimal_text t \<or> real_text t \<or> based_text digs t \<or> string_text t) s"

definition param_error :: "string \<Rightarrow> string \<Rightarrow> exn" where
  "param_error name s =
     \<lparr>ex_user = True, ex_type = ''ParamError'', ex_text = ''attribute '' @ name @ ''='' @ s\<rparr>"

text \<open>An attribute of a configuration is an integer or a text (a real number is its text).\<close>

definition param_value :: "string \<Rightarrow> attr_val \<Rightarrow> (exn, string) result" where
  "param_value name v =
     (if literal_text icarus_digits (py_str v) then Inr (py_str v) else Inl (param_error name (py_str v)))"

definition generic_value :: "string \<Rightarrow> attr_val \<Rightarrow> (exn, string) result" where
  "generic_value name v =
     (if literal_text xelab_digits (py_str v) then Inr (py_str v) else Inl (param_error name (py_str v)))"

section \<open>When a compile has failed\<close>

text \<open>\<open>\b(error|sorry):\<close>.\<close>

definition tagged :: "string \<Rightarrow> string \<Rightarrow> bool" where
  "tagged w s \<longleftrightarrow>
     list_ex (\<lambda>i. starts_with (w @ '':'') (lower (drop i s)) \<and> boundary (take i s) (drop i s)) [0..<Suc (length s)]"

definition icarus_compiled :: "int \<Rightarrow> string \<Rightarrow> bool" where
  "icarus_compiled rc out \<longleftrightarrow>
     rc = 0 \<and> \<not> list_ex (\<lambda>l. tagged ''error'' l \<or> tagged ''sorry'' l) (splitlines out)"

definition RUN_MARKER :: string where "RUN_MARKER = ''XUT_XSIM_RUN''"
definition MODEL_SOURCE :: string where "MODEL_SOURCE = ''unisim-2025.2''"

text \<open>\<open>splitlines(keepends=True)\<close>: a line feed after a carriage return belongs to the same line end.\<close>

fun splitlines_keep :: "string \<Rightarrow> string list" where
  "splitlines_keep [] = []"
| "splitlines_keep (c # cs) =
     (if c = CR \<and> cs \<noteq> [] \<and> hd cs = LF
      then (case splitlines_keep cs of l # ls \<Rightarrow> [c # l] @ ls | [] \<Rightarrow> [[c]])
      else if is_linebreak c then [c] # splitlines_keep cs
      else case splitlines_keep cs of l # ls \<Rightarrow> (c # l) # ls | [] \<Rightarrow> [[c]])"

definition xsim_error_line :: "string \<Rightarrow> bool" where
  "xsim_error_line l \<longleftrightarrow> starts_with ''ERROR:'' (lstrip l) \<or> starts_with ''CRITICAL WARNING:'' (lstrip l)"

definition diagnostics :: "string \<Rightarrow> string" where
  "diagnostics s =
     concat (filter (\<lambda>l. \<not> starts_with ''INFO:'' (lstrip l) \<and> \<not> contains ''[XSIM 43-3431]'' l) (splitlines_keep s))"

definition marker_at :: "string list \<Rightarrow> nat option" where
  "marker_at ls = find (\<lambda>i. strip (ls ! i) = RUN_MARKER) [0..<length ls]"

definition split_log :: "string \<Rightarrow> int \<Rightarrow> sim_outcome" where
  "split_log s rc =
     (let ls = splitlines_keep s in
      case marker_at ls of
        None \<Rightarrow> \<lparr>so_compiled = False, so_compile_text = diagnostics s, so_rc = None, so_run_text = []\<rparr>
      | Some i \<Rightarrow>
          (let ctext = concat (take i ls); rtext = concat (drop (Suc i) ls)
           in \<lparr>so_compiled = \<not> list_ex xsim_error_line (splitlines ctext), so_compile_text = diagnostics ctext,
               so_rc = Some rc, so_run_text = rtext\<rparr>))"

text \<open>Whether xsim can run at all; \<open>installed\<close> is the presence of Vivado's settings file.\<close>

definition xsim_available :: "bool \<Rightarrow> run_context \<Rightarrow> bool \<times> string" where
  "xsim_available installed cx =
     (let xil = sort (filter (starts_with ''XIL_'') (map fst (cx_defines cx))) in
      if xil \<noteq> [] then (False, ''xsim cannot honour '' @ join '', '' xil @
        '': its -d defines reach only the work library, and Vivado'' @ [SQ] @
        ''s precompiled unisims_ver was built without them, so the result would misstate the model build'')
      else if \<not> installed then (False, ''Vivado 2025.2 not installed'')
      else if cx_ms cx \<noteq> MODEL_SOURCE
      then (False, ''xsim uses Vivado'' @ [SQ] @ ''s precompiled unisims_ver ('' @ MODEL_SOURCE @ ''); requested '' @ cx_ms cx)
      else (True, []))"

section \<open>A vector run\<close>

text \<open>
  \<open>_run_vector\<close> of both runners: \<open>go\<close> is what building and running the prepared configuration gives,
  with the text of \<open>raw.txt\<close>. The result is the verdict and the \<open>trace.xtr\<close> left.
\<close>

definition illegal_of :: "vec \<Rightarrow> string list" where
  "illegal_of v = (case map_of (v_header v) ''illegal'' of
     None \<Rightarrow> [] | Some s \<Rightarrow> filter (\<lambda>n. n \<noteq> []) (split_on (CHR '','') s))"

definition run_vector ::
  "texts \<Rightarrow> (string \<Rightarrow> string) \<Rightarrow> python_dir \<Rightarrow> test_case \<Rightarrow> string \<Rightarrow> run_context \<Rightarrow> string \<Rightarrow> bool \<Rightarrow>
   (compiled \<Rightarrow> (exn, sim_outcome \<times> string option) result) \<Rightarrow> (exn, config_result \<times> string option) result" where
  "run_vector tx sha d c cfg cx runner x_obs go =
     rbind (prepare_vector tx d c cfg cx runner) (\<lambda>(v, m, cw, expected, header).
     rbind (go cw) (\<lambda>(out, raw).
       let stim = (case py_cfg d cfg of Some vd \<Rightarrow> vd_stim vd | None \<Rightarrow> []) in
       if map_of (v_header v) ''expect'' = Some ''reject''
       then rbind (raise_as True ''XtrError'' (tx_xtr tx) (reject_check sha stim out (illegal_of v) header)) (\<lambda>(r, t).
            Inr (r, Some t))
       else case classify_run cfg out True of
           Some r \<Rightarrow> Inr (r, None)
         | None \<Rightarrow> vector_check tx sha m (c_labels cw) expected header x_obs stim raw (so_run_text out)))"

section \<open>Splitting the log of xsim\<close>

lemma concat_splitlines_keep [simp]: "concat (splitlines_keep s) = s"
proof (induction s)
  case (Cons c cs)
  then show ?case by (cases "splitlines_keep cs") (auto split: if_splits)
qed simp

lemma find_nth: "find P xs = Some x \<Longrightarrow> P x \<and> x \<in> set xs"
  by (induction xs) (auto split: if_splits)

text \<open>
  The run's output is what follows the marker, so a word printed while compiling never counts as
  printed by the run.
\<close>

lemma split_log_run:
  assumes "so_run_text (split_log s rc) \<noteq> []"
  shows "\<exists>a l. s = a @ l @ so_run_text (split_log s rc) \<and> strip l = RUN_MARKER"
proof -
  obtain i where i: "marker_at (splitlines_keep s) = Some i"
    using assms by (auto simp: split_log_def Let_def split: option.splits)
  then have m: "strip (splitlines_keep s ! i) = RUN_MARKER" "i < length (splitlines_keep s)"
    using find_nth[of "\<lambda>i. strip (splitlines_keep s ! i) = RUN_MARKER" "[0..<length (splitlines_keep s)]" i]
    by (auto simp: marker_at_def)
  let ?ls = "splitlines_keep s"
  have "s = concat (take i ?ls @ ?ls ! i # drop (Suc i) ?ls)"
    using id_take_nth_drop[OF m(2)] by (metis concat_splitlines_keep)
  then have "s = concat (take i ?ls) @ ?ls ! i @ so_run_text (split_log s rc)"
    using i by (simp add: split_log_def Let_def)
  then show ?thesis using m(1) by blast
qed

section \<open>A vector run that passes\<close>

lemma classify_run_None:
  "classify_run cfg out True = None \<longleftrightarrow>
     so_compiled out \<and> so_rc out = Some 0 \<and> fatal_line (so_run_text out) = None \<and>
     contains ''XUT_DONE'' (so_run_text out)"
  by (auto simp: classify_run_def split: option.split)

lemma classify_run_error: "classify_run cfg out need = Some r \<Longrightarrow> cr_status r = ''error''"
  by (auto simp: classify_run_def split: if_split_asm option.split_asm)

text \<open>The stimulus and the outcome a passing run rests on.\<close>

definition run_evidence ::
  "vec \<Rightarrow> dut_map \<Rightarrow> compiled \<Rightarrow> trace \<Rightarrow> (string, string) dict \<Rightarrow> bool \<Rightarrow> sim_outcome \<Rightarrow> string option \<Rightarrow> bool" where
  "run_evidence v m cw expected header x_obs out raw \<longleftrightarrow>
     (if vec_expect v = Some ''reject''
      then \<not> (so_rc out \<noteq> None \<and> contains ''XUT_DONE'' (so_run_text out)) \<and>
        list_all (\<lambda>l. \<not> contains ''XUT_ERROR'' l) (splitlines (so_run_text out)) \<and>
        list_all (\<lambda>l. \<not> infra_line l) (splitlines (so_compile_text out @ [LF] @ so_run_text out)) \<and>
        (case refusal_text out of Some s \<Rightarrow> list_ex (refusal_line (illegal_of v)) (splitlines s) | None \<Rightarrow> False)
      else so_compiled out \<and> so_rc out = Some 0 \<and> contains ''XUT_DONE'' (so_run_text out) \<and>
        fatal_line (so_run_text out) = None \<and>
        vector_evidence m (c_labels cw) expected header x_obs raw (so_run_text out))"

text \<open>
  C29. A passing vector configuration rests on a clean run whose samples compare equal to the expected
  trace, or, for an expected rejection, on a refusal that names an illegal attribute.
\<close>

theorem run_vector_pass:
  assumes "run_vector tx sha d c cfg cx runner x_obs go = Inr (r, u)" and "cr_status r = ''pass''"
  shows "\<exists>v m cw expected header out raw.
    prepare_vector tx d c cfg cx runner = Inr (v, m, cw, expected, header) \<and> go cw = Inr (out, raw) \<and>
    run_evidence v m cw expected header x_obs out raw"
proof -
  obtain v m cw expected header where p: "prepare_vector tx d c cfg cx runner = Inr (v, m, cw, expected, header)"
    using assms(1) by (auto simp: run_vector_def rbind_Inr_iff)
  obtain out raw where g: "go cw = Inr (out, raw)" using assms(1) p by (auto simp: run_vector_def rbind_Inr_iff)
  have "run_evidence v m cw expected header x_obs out raw"
  proof (cases "vec_expect v = Some ''reject''")
    case True
    then have "cr_status (reject_result (the (map_of header ''cfg'')) out (illegal_of v)) = ''pass''"
      using assms p g by (auto simp: run_vector_def reject_check_def rbind_Inr_iff vec_expect_def)
    then show ?thesis using True
      by (auto simp: reject_pass_iff run_evidence_def list_all_iff list_ex_iff split: option.splits)
  next
    case False
    then have n: "classify_run cfg out True = None" and
      c: "vector_check tx sha m (c_labels cw) expected header x_obs
            (case py_cfg d cfg of Some vd \<Rightarrow> vd_stim vd | None \<Rightarrow> []) raw (so_run_text out) = Inr (r, u)"
      using assms p g by (auto simp: run_vector_def vec_expect_def dest: classify_run_error split: option.split_asm)
    then show ?thesis using False assms(2) vector_pass[OF c] n by (simp add: run_evidence_def classify_run_None)
  qed
  then show ?thesis using p g by blast
qed

section \<open>An example of a passing run\<close>

lemma stim_written: "written (v_header stim_example) = v_header stim_example"
  by code_simp

lemma map_example_json: "from_json (to_json map_example) = Inr map_example"
  by code_simp

lemma stim_text: "\<exists>u. loads u = Inr stim_example"
  using loads_dumps_vec[of stim_example] stim_rules stim_clocks stim_events stim_order
    check_order_iff[of "v_events stim_example" "\<lambda>_. None"]
  by (auto simp: vec_rules_def stim_written)

lemma stim_words:
  "\<exists>ws. rfold (compile_event stim_example) \<lparr>c_words = [], c_labels = []\<rparr> (v_events stim_example) =
     Inr \<lparr>c_words = ws, c_labels = [''s/1'']\<rparr>"
proof -
  have k: "vec_clock stim_example ''clk0'' =
    Some \<lparr>ck_name = ''clk0'', ck_index = 0, ck_period = 10000, ck_phase = 0, ck_duty = 50, ck_mode = ''stepped''\<rparr>"
    by code_simp
  show ?thesis
    by (simp add: stim_fields compile_event_def event_words_def plain_event_def set_words_def opword_def IDX_MAX_def
        VAL_MAX_def T_MAX_def lookup_key_def BIT_def one_word_def the_clock_def enumerate_eq_zip lift_loop_def k)
qed

lemma stim_fits: "check_fits stim_example map_example = Inr ()"
proof -
  obtain r where r: "validate stim_example map_example 1000 = Inr r" "r_errors r = []" using stim_valid by blast
  have f: "map_of (v_header stim_example) ''prim'' = Some ''FDRE''" "map_of (v_header stim_example) ''cfg'' = Some ''default''"
    by code_simp+
  have m: "m_nin map_example = 3" "m_nout map_example = 1" "m_nclk map_example = 1" "m_prim map_example = ''FDRE''"
    "m_cfg map_example = ''default''" by (simp_all add: map_example_def)
  show ?thesis
    using r by (simp add: check_fits_def stim_structure stim_hints f m stim_fields DEFAULT_GAP_PS_def MIN_SEP_PS_def lift_loop_def)
qed

lemma stim_compiled: "\<exists>cw x. write_stim stim_example map_example = Inr (cw, x) \<and> c_labels cw = [''s/1'']"
proof -
  obtain ws where ws: "rfold (compile_event stim_example) \<lparr>c_words = [], c_labels = []\<rparr> (v_events stim_example) =
     Inr \<lparr>c_words = ws, c_labels = [''s/1'']\<rparr>" using stim_words by blast
  have e: "end_words stim_example = Inr []" by (simp add: end_words_def stim_fields plain_event_def)
  show ?thesis
    by (simp add: write_stim_def compile_vec_def stim_fits ws stim_free lift_loop_def implicit_starts_def e)
qed

definition expected_text_example :: string where
  "expected_text_example = ''# xut-trace 2  kind=expected'' @ [LF] @ ''s/1  Q=1'' @ [LF]"

definition python_dir_example :: "string \<Rightarrow> python_dir" where
  "python_dir_example stim =
     \<lparr>py_configs = Some (PList [PStr ''default'']), py_result = Inl ''none'',
      py_cfg = (\<lambda>cfg. if cfg = ''default''
        then Some \<lparr>vd_map = to_json map_example, vd_stim = stim, vd_expected = Some expected_text_example\<rparr> else None)\<rparr>"

definition passed_outcome :: sim_outcome where
  "passed_outcome = \<lparr>so_compiled = True, so_compile_text = [], so_rc = Some 0, so_run_text = ''XUT_DONE''\<rparr>"

definition vector_header_example :: "(string, string) dict" where
  "vector_header_example = trace_header ''iverilog'' (case_example ''t'') ''default'' context_example @ [(''seed'', ''1'')]"

lemma vector_check_example:
  "case xtr_loads expected_text_example of
     Inr t \<Rightarrow> (case vector_check texts_example (\<lambda>_. []) map_example [''s/1''] t vector_header_example True [] (Some ''S 0 1'') ''XUT_DONE'' of
        Inr (r, _) \<Rightarrow> cr_status r = ''pass'' | Inl _ \<Rightarrow> False)
   | Inl _ \<Rightarrow> False"
  by code_simp

lemma run_vector_pass_witness:
  "\<exists>stim v m cw expected header out raw.
    prepare_vector texts_example (python_dir_example stim) (case_example ''t'') ''default'' context_example ''iverilog'' =
      Inr (v, m, cw, expected, header) \<and> run_evidence v m cw expected header True out raw"
proof -
  obtain stim where stim: "loads stim = Inr stim_example" using stim_text by blast
  obtain cw x where cw: "write_stim stim_example map_example = Inr (cw, x)" "c_labels cw = [''s/1'']"
    using stim_compiled by blast
  obtain t where t: "xtr_loads expected_text_example = Inr t"
    using vector_check_example by (cases "xtr_loads expected_text_example") auto
  let ?d = "python_dir_example stim" and ?c = "case_example ''t''"
  let ?go = "\<lambda>_ :: compiled. Inr (passed_outcome, Some ''S 0 1'') :: (exn, sim_outcome \<times> string option) result"
  have p: "prepare_vector texts_example ?d ?c ''default'' context_example ''iverilog'' =
      Inr (stim_example, map_example, cw, t, vector_header_example)"
  proof -
    have "show_int (hint stim_example ''seed'') = ''1''" by code_simp
    then show ?thesis
      by (simp add: prepare_vector_def expected_trace_def python_dir_example_def stim map_example_json cw t raise_as_def
          vector_header_example_def)
  qed
  have s: "vector_check tx (\<lambda>_. []) m l e h xo st raw rt = vector_check tx (\<lambda>_. []) m l e h xo [] raw rt"
    for tx m l e h xo st raw rt by (simp add: vector_check_def)
  obtain r u where v: "vector_check texts_example (\<lambda>_. []) map_example [''s/1''] t vector_header_example True []
      (Some ''S 0 1'') ''XUT_DONE'' = Inr (r, u)" "cr_status r = ''pass''"
    using vector_check_example t by (auto split: sum.splits)
  have "map_of (v_header stim_example) ''expect'' = None" "classify_run ''default'' passed_outcome True = None"
    by code_simp+
  moreover have "vector_check texts_example (\<lambda>_. []) map_example [''s/1''] t vector_header_example True
      (case py_cfg ?d ''default'' of Some vd \<Rightarrow> vd_stim vd | None \<Rightarrow> []) (Some ''S 0 1'') ''XUT_DONE'' = Inr (r, u)"
    by (rule trans[OF s v(1)])
  ultimately have "run_vector texts_example (\<lambda>_. []) ?d ?c ''default'' context_example ''iverilog'' True ?go = Inr (r, u)"
    by (simp add: run_vector_def p cw passed_outcome_def)
  from run_vector_pass[OF this v(2)] show ?thesis by blast
qed

end
