(* ===== verification/Worklist.thy ===== *)
theory Worklist
  imports Prelude
begin

text \<open>
  The search two loops of \<open>tools/xut/verilatorize/driver.py\<close> make over the models of a source:
  \<open>hierarchy\<close> takes the first name of its worklist, \<open>_link\<close> the last. A graph is a dictionary from a
  model to the names its file instantiates; a name that is no model of the source is passed over.
\<close>

type_synonym graph = "(string, string list) dict"

definition pick :: "bool \<Rightarrow> 'a list \<Rightarrow> ('a \<times> 'a list) option" where
  "pick lifo todo =
     (if todo = [] then None else if lifo then Some (last todo, butlast todo) else Some (hd todo, tl todo))"

lemma pick_None [simp]: "pick lifo todo = None \<longleftrightarrow> todo = []"
  by (simp add: pick_def)

lemma pick_set: "pick lifo todo = Some (d, rest) \<Longrightarrow> set todo = insert d (set rest)"
proof -
  assume p: "pick lifo todo = Some (d, rest)"
  then have "todo = rest @ [d] \<or> todo = d # rest"
    by (auto simp: pick_def split: if_split_asm)
  then show ?thesis by auto
qed

lemma pick_length: "pick lifo todo = Some (d, rest) \<Longrightarrow> length todo = Suc (length rest)"
  by (auto simp: pick_def split: if_split_asm)

function search :: "bool \<Rightarrow> graph \<Rightarrow> string list \<Rightarrow> string list \<Rightarrow> string list" where
  "search lifo g todo seen =
     (case pick lifo todo of
        None \<Rightarrow> seen
      | Some (d, rest) \<Rightarrow>
          if d \<in> set seen then search lifo g rest seen
          else (case map_of g d of
                  None \<Rightarrow> search lifo g rest seen
                | Some ns \<Rightarrow> search lifo g (rest @ ns) (seen @ [d])))"
  by pat_completeness auto
termination
proof (relation "measures [\<lambda>(lifo, g, todo, seen). card (fst ` set g - set seen), \<lambda>(lifo, g, todo, seen). length todo]",
    goal_cases)
  case (4 lifo g todo seen a d rest ns)
  then have "d \<in> fst ` set g - set seen" by (metis DiffI image_eqI fst_conv map_of_SomeD)
  then have "card (fst ` set g - set (seen @ [d])) < card (fst ` set g - set seen)"
    by (intro psubset_card_mono) auto
  then show ?case by simp
qed (auto dest: pick_length)

declare search.simps [simp del]

text \<open>The names reachable from a name, through models of the source only.\<close>

inductive reaches :: "graph \<Rightarrow> string \<Rightarrow> string \<Rightarrow> bool" for g where
  here: "map_of g a \<noteq> None \<Longrightarrow> reaches g a a"
| step: "reaches g a b \<Longrightarrow> map_of g b = Some ns \<Longrightarrow> c \<in> set ns \<Longrightarrow> map_of g c \<noteq> None \<Longrightarrow> reaches g a c"

lemma reaches_first:
  assumes "map_of g a = Some ns" and "b \<in> set ns" and "reaches g b c"
  shows "reaches g a c"
  using assms(3,1,2)
proof (induction rule: reaches.induct)
  case (here b)
  then show ?case using reaches.here[of g a] reaches.step by (metis option.discI)
next
  case (step b d ms c)
  then show ?case using reaches.step by blast
qed

lemma search_Nil [simp]: "search lifo g [] seen = seen"
  by (subst search.simps) (simp add: pick_def)

lemma search_step:
  "pick lifo todo = Some (d, rest) \<Longrightarrow> search lifo g todo seen =
     (if d \<in> set seen then search lifo g rest seen
      else (case map_of g d of None \<Rightarrow> search lifo g rest seen
            | Some ns \<Rightarrow> search lifo g (rest @ ns) (seen @ [d])))"
  by (subst search.simps) simp

lemma search_induct [case_names finished known skip visit]:
  fixes P :: "string list \<Rightarrow> string list \<Rightarrow> bool" and g :: graph
  assumes "\<And>seen. P [] seen"
    and "\<And>todo d rest seen. pick lifo todo = Some (d, rest) \<Longrightarrow> d \<in> set seen \<Longrightarrow> P rest seen \<Longrightarrow> P todo seen"
    and "\<And>todo d rest seen. pick lifo todo = Some (d, rest) \<Longrightarrow> d \<notin> set seen \<Longrightarrow> map_of g d = None \<Longrightarrow>
      P rest seen \<Longrightarrow> P todo seen"
    and "\<And>todo d rest seen ns. pick lifo todo = Some (d, rest) \<Longrightarrow> d \<notin> set seen \<Longrightarrow> map_of g d = Some ns \<Longrightarrow>
      P (rest @ ns) (seen @ [d]) \<Longrightarrow> P todo seen"
  shows "P todo seen"
  using assms
proof (induction lifo g todo seen rule: search.induct)
  case (1 lifo g todo seen)
  show ?case
  proof (cases "pick lifo todo")
    case None
    then show ?thesis using 1(4) by simp
  next
    case (Some dr)
    then obtain d rest where p: "pick lifo todo = Some (d, rest)" by (cases dr) auto
    show ?thesis
    proof (cases "d \<in> set seen")
      case True
      show ?thesis by (rule 1(5)[OF p True]) (rule 1(1)[OF p refl True 1(4-7)])
    next
      case False
      show ?thesis
      proof (cases "map_of g d")
        case None
        show ?thesis by (rule 1(6)[OF p False None]) (rule 1(2)[OF p refl False None 1(4-7)])
      next
        case (Some ns)
        show ?thesis by (rule 1(7)[OF p False Some]) (rule 1(3)[OF p refl False Some 1(4-7)])
      qed
    qed
  qed
qed

lemma search_sound:
  "d \<in> set (search lifo g todo seen) \<Longrightarrow> d \<in> set seen \<or> (\<exists>t \<in> set todo. reaches g t d)"
proof (induction todo seen rule: search_induct[of _ lifo g])
  case (visit todo e rest seen ns)
  have "d \<in> set (seen @ [e]) \<or> (\<exists>t \<in> set (rest @ ns). reaches g t d)"
    using visit by (simp add: search_step[OF visit(1)])
  moreover have "reaches g e t'" if "t \<in> set ns" "reaches g t t'" for t t'
    using reaches_first[OF visit(3)] that by blast
  moreover have "reaches g e e" using visit(3) by (auto intro: reaches.here)
  ultimately show ?case using pick_set[OF visit(1)] by auto
qed (auto simp: search_step dest: pick_set)

definition closed_by :: "graph \<Rightarrow> string set \<Rightarrow> string set \<Rightarrow> bool" where
  "closed_by g A B \<longleftrightarrow>
     (\<forall>a \<in> A. \<forall>ns. map_of g a = Some ns \<longrightarrow> (\<forall>b \<in> set ns. map_of g b \<noteq> None \<longrightarrow> b \<in> B))"

lemma search_complete:
  "closed_by g (set seen) (set seen \<union> set todo) \<Longrightarrow>
   set seen \<subseteq> set (search lifo g todo seen) \<and>
   (\<forall>a \<in> set todo. map_of g a \<noteq> None \<longrightarrow> a \<in> set (search lifo g todo seen)) \<and>
   closed_by g (set (search lifo g todo seen)) (set (search lifo g todo seen))"
proof (induction todo seen rule: search_induct[of _ lifo g])
  case (known todo d rest seen)
  from known(2,4) have "closed_by g (set seen) (set seen \<union> set rest)"
    using pick_set[OF known(1)] by (auto simp: closed_by_def)
  then show ?case using known pick_set[OF known(1)] by (auto simp: search_step[OF known(1)])
next
  case (skip todo d rest seen)
  from skip(3,5) have "closed_by g (set seen) (set seen \<union> set rest)"
    using pick_set[OF skip(1)] by (fastforce simp: closed_by_def)
  then show ?case using skip pick_set[OF skip(1)] by (auto simp: search_step[OF skip(1)])
next
  case (visit todo d rest seen ns)
  from visit(3,5) have "closed_by g (set (seen @ [d])) (set (seen @ [d]) \<union> set (rest @ ns))"
    using pick_set[OF visit(1)] by (auto simp: closed_by_def)
  then show ?case using visit pick_set[OF visit(1)] by (auto simp: search_step[OF visit(1)])
qed simp

lemma search_reaches:
  assumes "map_of g d \<noteq> None"
  shows "d \<in> set (search lifo g todo []) \<longleftrightarrow> (\<exists>t \<in> set todo. reaches g t d)"
proof
  assume "\<exists>t \<in> set todo. reaches g t d"
  then obtain t where t: "t \<in> set todo" "reaches g t d" by blast
  have c: "(\<forall>a \<in> set todo. map_of g a \<noteq> None \<longrightarrow> a \<in> set (search lifo g todo [])) \<and>
    closed_by g (set (search lifo g todo [])) (set (search lifo g todo []))"
    using search_complete[of g "[]" todo lifo] by (simp add: closed_by_def)
  from t(2,1) show "d \<in> set (search lifo g todo [])"
    by (induction rule: reaches.induct) (use c in \<open>auto simp: closed_by_def\<close>)
qed (use search_sound[of d lifo g todo "[]"] in auto)

lemma search_models: "set seen \<subseteq> dom (map_of g) \<Longrightarrow> set (search lifo g todo seen) \<subseteq> dom (map_of g)"
  by (induction todo seen rule: search_induct[of _ lifo g]) (auto simp: search_step)

lemma search_distinct: "distinct seen \<Longrightarrow> distinct (search lifo g todo seen)"
  by (induction todo seen rule: search_induct[of _ lifo g]) (auto simp: search_step)

end
