(* ===== verification/Vz_Manifest.thy ===== *)
theory Vz_Manifest
  imports Worklist
begin

text \<open>
  \<open>tools/xut/verilatorize/driver.py\<close>: the manifest of the transformed models, what of it is redone, the
  hierarchy facts of an entry and the equivalence verdicts; and the model gate of
  \<open>tools/xut/runners/verilator.py\<close> that reads them. The transform of a file, the equivalence check and the
  elaboration of a hierarchy are arguments, and so is SHA-256. Locks and the process pool are not
  modelled: \<open>verilatorize\<close> takes the results in the order they complete.
\<close>

section \<open>Entries\<close>

record dep_config =
  dp_model :: string
  dp_attrs :: "(string, string) dict"
  dp_key :: string

record vz_entry =
  ve_status :: string
  ve_source :: string
  ve_reason :: string
  ve_triggers :: "string list"
  ve_enablers :: "string list"
  ve_generate :: "(string, string) dict list"
  ve_equiv :: "(string, string) dict"
  ve_oracle :: "(string, string) dict"
  ve_tools :: "(string, string) dict"
  ve_why :: "(string, string) dict"
  ve_rewrites :: "string list"
  ve_instantiates :: "string list"
  ve_dep_t :: "string list"
  ve_dep_u :: "string list"
  ve_effective :: "string list"
  ve_deps :: string
  ve_nonconst :: bool
  ve_dep_configs :: "(string, dep_config list) dict"
  ve_version :: string
  ve_glbl :: string
  ve_tool :: string
  ve_choices :: string

type_synonym manifest = "(string, vz_entry) dict"

definition gated :: "vz_entry \<Rightarrow> bool" where
  "gated e \<longleftrightarrow> ve_status e = ''transformed'' \<or> ve_dep_t e \<noteq> []"

text \<open>\<open>_key\<close>, and the fields \<open>_DEP_KEY\<close> names: source, glbl, tool, choices, version.\<close>

definition entry_key :: "vz_entry \<Rightarrow> string list" where
  "entry_key e = [ve_source e, ve_glbl e, ve_tool e, ve_choices e, ve_version e]"

definition set_key :: "string list \<Rightarrow> vz_entry \<Rightarrow> vz_entry" where
  "set_key k e = e\<lparr>ve_source := k ! 0, ve_glbl := k ! 1, ve_tool := k ! 2, ve_choices := k ! 3, ve_version := k ! 4\<rparr>"

definition current :: "vz_entry option \<Rightarrow> string list \<Rightarrow> bool \<Rightarrow> bool" where
  "current e key copy_exists =
     (case e of None \<Rightarrow> False
      | Some x \<Rightarrow> entry_key x = key \<and> (ve_status x = ''transformed'' \<longrightarrow> copy_exists))"

section \<open>Hierarchies\<close>

text \<open>\<open>hierarchy\<close>: the models and every model their files reach.\<close>

definition hierarchy :: "graph \<Rightarrow> string list \<Rightarrow> string list" where
  "hierarchy g models = search False g models []"

definition graph_of :: "manifest \<Rightarrow> graph" where
  "graph_of man = map (\<lambda>(m, e). (m, ve_instantiates e)) man"

definition below :: "manifest \<Rightarrow> vz_entry \<Rightarrow> string list" where
  "below man e = search True (graph_of man) (ve_instantiates e) []"

definition with_status :: "manifest \<Rightarrow> string \<Rightarrow> string list \<Rightarrow> string list" where
  "with_status man st ms = sort (filter (\<lambda>d. map_option ve_status (map_of man d) = Some st) ms)"

definition rewrites_of :: "manifest \<Rightarrow> string \<Rightarrow> string list" where
  "rewrites_of man d = (case map_of man d of Some e \<Rightarrow> ve_rewrites e | None \<Rightarrow> [])"

definition deps_key :: "manifest \<Rightarrow> vz_entry \<Rightarrow> string list list" where
  "deps_key man e =
     map (\<lambda>d. d # (case map_of man d of Some x \<Rightarrow> entry_key x | None \<Rightarrow> [])) (sort (below man e))"

definition no_verdicts :: "vz_entry \<Rightarrow> vz_entry" where
  "no_verdicts e = e\<lparr>ve_equiv := [], ve_oracle := [], ve_why := [], ve_tools := [], ve_dep_configs := []\<rparr>"

definition link_entry :: "(string list list \<Rightarrow> string) \<Rightarrow> manifest \<Rightarrow> vz_entry \<Rightarrow> vz_entry" where
  "link_entry sha man e =
     (let seen = below man e; dt = with_status man ''transformed'' seen; h = sha (deps_key man e);
          e1 = e\<lparr>ve_dep_t := dt, ve_dep_u := with_status man ''unsupported'' seen,
                 ve_effective := sort (dedup (ve_rewrites e @ concat (map (rewrites_of man) dt)))\<rparr>
      in if ve_deps e \<noteq> h then (no_verdicts e1)\<lparr>ve_deps := h\<rparr> else e1)"

text \<open>\<open>_link\<close>; what an entry's facts read of another entry is nothing the loop writes.\<close>

definition link :: "(string list list \<Rightarrow> string) \<Rightarrow> manifest \<Rightarrow> manifest" where
  "link sha man = map (\<lambda>(m, e). (m, link_entry sha man e)) man"

section \<open>Transforming what is not current\<close>

text \<open>A file of the source: its key and whether its transformed copy is there.\<close>

type_synonym files = "(string, string list \<times> bool) dict"

definition outdated :: "manifest \<Rightarrow> files \<Rightarrow> string list" where
  "outdated man fs = map fst (filter (\<lambda>(m, k, c). \<not> current (map_of man m) k c) fs)"

definition record_result :: "files \<Rightarrow> manifest \<Rightarrow> string \<times> (string, vz_entry) result \<Rightarrow> manifest" where
  "record_result fs man = (\<lambda>(m, r).
     case r of
       Inl _ \<Rightarrow> AList.delete m man
     | Inr e \<Rightarrow> AList.update m (set_key (fst (the (map_of fs m))) e) man)"

definition first_crash :: "(string \<times> (string, vz_entry) result) list \<Rightarrow> (string \<times> string) option" where
  "first_crash results =
     (case List.map_filter (\<lambda>(m, r). case r of Inl e \<Rightarrow> Some (m, e) | Inr _ \<Rightarrow> None) results of
        [] \<Rightarrow> None | x # _ \<Rightarrow> Some x)"

text \<open>The manifest saved, and the crash raised after saving it.\<close>

definition verilatorize ::
  "(string list list \<Rightarrow> string) \<Rightarrow> files \<Rightarrow> manifest \<Rightarrow> (string \<times> (string, vz_entry) result) list \<Rightarrow>
   manifest \<times> (string \<times> string) option" where
  "verilatorize sha fs man results = (link sha (foldl (record_result fs) man results), first_crash results)"

section \<open>Verdicts\<close>

text \<open>One (model, configuration) to check; a pass or a fail of the same simulators is kept.\<close>

definition settled :: "vz_entry \<Rightarrow> string \<Rightarrow> string \<Rightarrow> bool" where
  "settled e k tools \<longleftrightarrow>
     map_of (ve_equiv e) k \<in> {Some ''pass'', Some ''fail''} \<and> map_of (ve_tools e) k = Some tools"

definition record_verdict :: "string \<Rightarrow> string \<times> string \<times> string \<Rightarrow> string \<Rightarrow> vz_entry \<Rightarrow> vz_entry" where
  "record_verdict k = (\<lambda>(st, oracle, why) tools e.
     e\<lparr>ve_equiv := AList.update k st (ve_equiv e), ve_oracle := AList.update k oracle (ve_oracle e),
       ve_why := AList.update k why (ve_why e), ve_tools := AList.update k tools (ve_tools e)\<rparr>)"

text \<open>
  \<open>_ensure_one\<close>: \<open>vs_disk\<close> is the manifest on disk, \<open>vs_seen\<close> this process's entries, \<open>vs_checked\<close> what it
  checked. \<open>derive\<close> elaborates the hierarchy, \<open>check\<close> is the equivalence check.
\<close>

record vz_state =
  vs_disk :: manifest
  vs_seen :: manifest
  vs_checked :: "(string \<times> string) list"

definition same_inputs :: "vz_entry \<Rightarrow> vz_entry \<Rightarrow> bool" where
  "same_inputs a b \<longleftrightarrow> ve_source a = ve_source b \<and> ve_deps a = ve_deps b"

definition record_on_disk :: "string \<Rightarrow> vz_entry \<Rightarrow> (vz_entry \<Rightarrow> vz_entry) \<Rightarrow> manifest \<Rightarrow> manifest" where
  "record_on_disk model e f disk =
     (case map_of disk model of
        Some cur \<Rightarrow> if same_inputs cur e then AList.update model (f cur) disk else disk
      | None \<Rightarrow> disk)"

definition copy_verdict :: "string \<Rightarrow> vz_entry \<Rightarrow> vz_entry \<Rightarrow> vz_entry" where
  "copy_verdict k e cur =
     record_verdict k (the (map_of (ve_equiv e) k), the (map_of (ve_oracle e) k), the (map_of (ve_why e) k))
       (the (map_of (ve_tools e) k)) cur"

definition ensure_one ::
  "(vz_entry \<Rightarrow> string \<Rightarrow> (string, dep_config list) result) \<Rightarrow> (string \<Rightarrow> string \<Rightarrow> string \<times> string \<times> string) \<Rightarrow>
   string \<Rightarrow> string \<Rightarrow> string \<Rightarrow> bool \<Rightarrow> manifest \<Rightarrow> vz_state \<Rightarrow>
   (string, vz_state \<times> vz_entry \<times> string option) result" where
  "ensure_one derive check tools model k want_check redone s =
     (let (e, s0) = (case map_of (vs_seen s) model of
              Some e \<Rightarrow> (e, s)
            | None \<Rightarrow> (let e = the (map_of redone model)
                in (e, s\<lparr>vs_disk := redone, vs_seen := AList.update model e (vs_seen s)\<rparr>)))
      in if \<not> want_check \<or> \<not> gated e \<or> ve_status e = ''unsupported'' \<or> ve_dep_u e \<noteq> [] then Inr (s0, e, None)
      else rbind (if ve_dep_t e \<noteq> [] \<and> \<not> dict_has (ve_dep_configs e) k
             then rbind (derive e k) (\<lambda>ds.
               let e1 = e\<lparr>ve_dep_configs := AList.update k ds (ve_dep_configs e)\<rparr>
               in Inr (e1, s0\<lparr>vs_seen := AList.update model e1 (vs_seen s0),
                    vs_disk := record_on_disk model e1
                      (\<lambda>cur. cur\<lparr>ve_dep_configs := AList.update k ds (ve_dep_configs cur)\<rparr>) (vs_disk s0)\<rparr>))
             else Inr (e, s0)) (\<lambda>(e1, s1).
        if (model, k) \<in> set (vs_checked s1) \<or> settled e1 k tools then Inr (s1, e1, Some k)
        else (let e2 = record_verdict k (check model k) tools e1
              in Inr (s1\<lparr>vs_seen := AList.update model e2 (vs_seen s1),
                        vs_checked := (model, k) # vs_checked s1,
                        vs_disk := record_on_disk model e2 (copy_verdict k e2) (vs_disk s1)\<rparr>, e2, Some k))))"

section \<open>The gate\<close>

definition refused :: "vz_entry \<Rightarrow> string \<Rightarrow> string option" where
  "refused e prim =
     (if ve_status e = ''unsupported'' then Some (''verilatorize cannot transform '' @ prim @ '': '' @ ve_reason e)
      else if ve_dep_u e \<noteq> []
      then Some (''verilatorize cannot transform '' @ join '', '' (ve_dep_u e) @ '' in the hierarchy of '' @ prim @
             '' (see the manifest; ruling S45)'')
      else None)"

definition or_text :: "string \<Rightarrow> string \<Rightarrow> string" where
  "or_text s d = (if s = [] then d else s)"

definition got :: "(string, string) dict \<Rightarrow> string \<Rightarrow> string" where
  "got d k = (case map_of d k of Some s \<Rightarrow> s | None \<Rightarrow> [])"

fun first_blocked :: "(string \<Rightarrow> vz_entry option) \<Rightarrow> dep_config list \<Rightarrow> (string \<times> string) option" where
  "first_blocked lookup [] = None"
| "first_blocked lookup (d # ds) =
     (let st = (case lookup (dp_model d) of Some c \<Rightarrow> got (ve_equiv c) (dp_key d) | None \<Rightarrow> []);
          why = (case lookup (dp_model d) of Some c \<Rightarrow> got (ve_why c) (dp_key d) | None \<Rightarrow> [])
      in if st \<noteq> ''pass''
         then Some (st, ''transformed descendant '' @ dp_model d @ '' ['' @ dp_key d @ ''] has equivalence '' @
                or_text st ''no verdict'' @ '': '' @ or_text why ''no reason'')
         else first_blocked lookup ds)"

definition descendants_blocked :: "vz_entry \<Rightarrow> string \<Rightarrow> (string \<Rightarrow> vz_entry option) \<Rightarrow> (string \<times> string) option" where
  "descendants_blocked e key lookup =
     (if ve_dep_t e = [] then None
      else case map_of (ve_dep_configs e) key of
          None \<Rightarrow> Some ([], ''the parameterisations of its transformed descendant(s) '' @ join '', '' (ve_dep_t e) @
             '' under ['' @ key @ ''] were never derived'')
        | Some ds \<Rightarrow> first_blocked lookup ds)"

definition blocked :: "vz_entry \<Rightarrow> string \<Rightarrow> string \<Rightarrow> (string \<Rightarrow> vz_entry option) \<Rightarrow> string option" where
  "blocked e prim key lookup =
     (case refused e prim of
        Some why \<Rightarrow> Some why
      | None \<Rightarrow>
          if \<not> gated e then None
          else (let st = map_of (ve_equiv e) key; why = got (ve_why e) key in
            if st = Some ''fail''
            then Some (''transform-bug: Icarus equivalence fail for '' @ prim @ '' '' @ key @
                   '' blocks Verilator results (spec 6.2): '' @ or_text why ''see the equivalence result.json'')
            else if st \<noteq> Some ''pass''
            then Some (''equivalence check error for '' @ prim @ '' '' @ key @ '': '' @
                   or_text why (case st of Some s \<Rightarrow> or_text s ''no result'' | None \<Rightarrow> ''no result'') @
                   '' blocks Verilator results (spec 6.2)'')
            else case descendants_blocked e key lookup of
                None \<Rightarrow> None
              | Some (kst, kwhy) \<Rightarrow>
                  Some ((if kst = ''fail'' then ''transform-bug: '' else []) @ ''equivalence of '' @ prim @ '' '' @ key @
                    '' is blocked by its hierarchy: '' @ kwhy @ ''; blocks Verilator results (spec 6.2)'')))"

section \<open>The hierarchy facts are exact, and stable\<close>

lemma map_of_graph: "map_of (graph_of man) d = map_option ve_instantiates (map_of man d)"
  by (induction man) (auto simp: graph_of_def)

lemma map_of_link: "map_of (link sha man) m = map_option (link_entry sha man) (map_of man m)"
proof -
  have "map_of (map (\<lambda>(m, e). (m, f e)) xs) m = map_option f (map_of xs m)" for f :: "vz_entry \<Rightarrow> vz_entry" and xs
    by (induction xs) auto
  then show ?thesis by (simp add: link_def)
qed

lemma link_entry_fields [simp]:
  "ve_status (link_entry sha man e) = ve_status e" "ve_instantiates (link_entry sha man e) = ve_instantiates e"
  "ve_rewrites (link_entry sha man e) = ve_rewrites e" "entry_key (link_entry sha man e) = entry_key e"
  "ve_dep_t (link_entry sha man e) = with_status man ''transformed'' (below man e)"
  "ve_dep_u (link_entry sha man e) = with_status man ''unsupported'' (below man e)"
  "ve_deps (link_entry sha man e) = sha (deps_key man e)"
  by (auto simp: link_entry_def Let_def no_verdicts_def entry_key_def)

lemma graph_of_link [simp]: "graph_of (link sha man) = graph_of man"
  by (simp add: graph_of_def link_def split_def)

lemma below_link [simp]: "below (link sha man) e = below man e"
  by (simp add: below_def)

lemma with_status_link [simp]: "with_status (link sha man) st ms = with_status man st ms"
  by (simp add: with_status_def map_of_link option.map_comp o_def)

lemma rewrites_of_link [simp]: "rewrites_of (link sha man) = rewrites_of man"
  by (rule ext) (simp add: rewrites_of_def map_of_link split: option.split)

lemma deps_key_link [simp]: "deps_key (link sha man) e = deps_key man e"
  by (auto simp: deps_key_def map_of_link split: option.split)

lemma below_of_link_entry [simp]:
  "below man (link_entry sha man' e) = below man e" "deps_key man (link_entry sha man' e) = deps_key man e"
  by (simp_all add: below_def deps_key_def)

lemma set_with_status:
  "set (with_status man st ms) = {d \<in> set ms. \<exists>e. map_of man d = Some e \<and> ve_status e = st}"
  by (auto simp: with_status_def)

lemma link_entry_effective [simp]:
  "ve_effective (link_entry sha man e) =
     sort (dedup (ve_rewrites e @ concat (map (rewrites_of man) (with_status man ''transformed'' (below man e)))))"
  by (simp add: link_entry_def Let_def no_verdicts_def)

lemma link_entry_current:
  assumes "ve_deps e = sha (deps_key man e)" and "ve_dep_t e = with_status man ''transformed'' (below man e)"
    and "ve_dep_u e = with_status man ''unsupported'' (below man e)"
    and "ve_effective e =
      sort (dedup (ve_rewrites e @ concat (map (rewrites_of man) (with_status man ''transformed'' (below man e)))))"
  shows "link_entry sha man e = e"
proof -
  have "link_entry sha man e = e\<lparr>ve_dep_t := ve_dep_t e, ve_dep_u := ve_dep_u e, ve_effective := ve_effective e\<rparr>"
    unfolding link_entry_def Let_def using assms by simp
  then show ?thesis by simp
qed

lemma link_entry_idem: "link_entry sha (link sha man) (link_entry sha man e) = link_entry sha man e"
  by (rule link_entry_current) simp_all

lemma link_link: "link sha (link sha man) = link sha man"
proof -
  define L where "L = link sha man"
  have "link sha L = map (\<lambda>(m, e). (m, link_entry sha L e)) L" by (rule link_def)
  also have "\<dots> = map (\<lambda>(m, e). (m, link_entry sha L (link_entry sha man e))) man"
    by (subst (2) L_def) (simp add: link_def split_def)
  also have "\<dots> = L" by (simp add: L_def link_entry_idem) (simp add: link_def)
  finally show ?thesis by (simp add: L_def)
qed

lemma below_reaches:
  assumes "map_of man d \<noteq> None"
  shows "d \<in> set (below man e) \<longleftrightarrow> (\<exists>i \<in> set (ve_instantiates e). reaches (graph_of man) i d)"
proof -
  have "map_of (graph_of man) d \<noteq> None" using assms by (simp add: map_of_graph)
  from search_reaches[OF this] show ?thesis by (simp add: below_def)
qed

text \<open>
  C30. The recorded dependencies are exactly the transformed, and the unsupported, models reachable by
  instantiation, and linking is idempotent.
\<close>

theorem link_exact:
  assumes "map_of man m = Some e" and "map_of (link sha man) m = Some e'"
  shows "set (ve_dep_t e') = {d. (\<exists>i \<in> set (ve_instantiates e). reaches (graph_of man) i d) \<and>
           (\<exists>x. map_of man d = Some x \<and> ve_status x = ''transformed'')} \<and>
    set (ve_dep_u e') = {d. (\<exists>i \<in> set (ve_instantiates e). reaches (graph_of man) i d) \<and>
           (\<exists>x. map_of man d = Some x \<and> ve_status x = ''unsupported'')} \<and>
    link sha (link sha man) = link sha man"
proof -
  have e': "e' = link_entry sha man e" using assms by (simp add: map_of_link)
  show ?thesis using e' below_reaches[of man _ e] by (auto simp: set_with_status link_link)
qed

section \<open>A verdict survives only unchanged inputs\<close>

lemma set_key_equiv [simp]: "ve_equiv (set_key k e) = ve_equiv e"
  by (simp add: set_key_def)

lemma map_of_record_result:
  "map_of (record_result fs man (m, r)) m' =
     (if m' = m then (case r of Inl _ \<Rightarrow> None | Inr e \<Rightarrow> Some (set_key (fst (the (map_of fs m))) e))
      else map_of man m')"
  by (auto simp: record_result_def update_conv' delete_conv' split: sum.split)

lemma foldl_results:
  assumes "\<forall>(m, r) \<in> set results. \<forall>e. r = Inr e \<longrightarrow> ve_equiv e = []"
    and "map_of (foldl (record_result fs) man results) m = Some e" and "ve_equiv e \<noteq> []"
  shows "map_of man m = Some e \<and> m \<notin> fst ` set results"
  using assms
proof (induction results arbitrary: man)
  case (Cons x results)
  obtain k r where x: "x = (k, r)" by (cases x)
  have "map_of (record_result fs man x) m = Some e \<and> m \<notin> fst ` set results"
    by (rule Cons.IH) (use Cons.prems in auto)
  then show ?case using Cons.prems(1,3) x by (auto simp: map_of_record_result split: if_split_asm sum.split_asm)
qed simp

lemma link_entry_verdicts:
  "ve_equiv (link_entry sha man e) \<noteq> [] \<Longrightarrow>
   ve_deps e = sha (deps_key man e) \<and> ve_equiv (link_entry sha man e) = ve_equiv e"
  by (auto simp: link_entry_def Let_def no_verdicts_def split: if_split_asm)

text \<open>
  C31. An entry that still has verdicts after a re-transform had them before, with the same key and
  the same hierarchy key.
\<close>

theorem verdicts_survive:
  assumes "verilatorize sha fs man results = (man', crash)"
    and "\<forall>(m, r) \<in> set results. \<forall>e. r = Inr e \<longrightarrow> ve_equiv e = []"
    and "set (outdated man fs) \<subseteq> fst ` set results"
    and "map_of man' m = Some e'" and "ve_equiv e' \<noteq> []"
  shows "\<exists>e. map_of man m = Some e \<and> ve_equiv e' = ve_equiv e \<and> entry_key e' = entry_key e \<and>
    ve_deps e = sha (deps_key man' e') \<and>
    (\<forall>key copy_there. map_of fs m = Some (key, copy_there) \<longrightarrow> current (Some e) key copy_there)"
proof -
  let ?man = "foldl (record_result fs) man results"
  have man': "man' = link sha ?man" using assms(1) by (simp add: verilatorize_def)
  then obtain e where e: "map_of ?man m = Some e" "e' = link_entry sha ?man e"
    using assms(4) by (auto simp: map_of_link)
  note v = link_entry_verdicts[of sha ?man e]
  have "map_of man m = Some e \<and> m \<notin> fst ` set results"
    by (rule foldl_results[OF assms(2) e(1)]) (use v e(2) assms(5) in auto)
  moreover have "current (Some e) key c" if "map_of fs m = Some (key, c)" "map_of man m = Some e" "m \<notin> fst ` set results"
    for key c
  proof (rule ccontr)
    assume "\<not> current (Some e) key c"
    then have "m \<in> set (outdated man fs)" using that(1,2) by (force simp: outdated_def dest: map_of_SomeD)
    then show False using assms(3) that(3) by blast
  qed
  ultimately show ?thesis using v e(2) assms(5) man' by auto
qed

section \<open>Only proved models pass the gate\<close>

lemma refused_None: "refused e prim = None \<longleftrightarrow> ve_status e \<noteq> ''unsupported'' \<and> ve_dep_u e = []"
  by (simp add: refused_def)

lemma first_blocked_None:
  "first_blocked lookup ds = None \<longleftrightarrow>
     (\<forall>d \<in> set ds. \<exists>c. lookup (dp_model d) = Some c \<and> map_of (ve_equiv c) (dp_key d) = Some ''pass'')"
proof (induction ds)
  case (Cons d ds)
  show ?case
    using Cons.IH by (cases "lookup (dp_model d)") (auto simp: Let_def got_def split: option.splits if_split_asm)
qed simp

text \<open>What the gate asks of a model and configuration before Verilator's result may count.\<close>

definition proved_model :: "vz_entry \<Rightarrow> string \<Rightarrow> (string \<Rightarrow> vz_entry option) \<Rightarrow> bool" where
  "proved_model e key lookup \<longleftrightarrow>
     map_of (ve_equiv e) key = Some ''pass'' \<and>
     (ve_dep_t e \<noteq> [] \<longrightarrow> (\<exists>ds. map_of (ve_dep_configs e) key = Some ds \<and>
        (\<forall>d \<in> set ds. \<exists>c. lookup (dp_model d) = Some c \<and> map_of (ve_equiv c) (dp_key d) = Some ''pass'')))"

text \<open>
  The gate is open exactly for a supported model over a supported hierarchy that, when anything in
  it is transformed, is proved equivalent together with every transformed descendant.
\<close>

theorem blocked_None_iff:
  "blocked e prim key lookup = None \<longleftrightarrow>
     ve_status e \<noteq> ''unsupported'' \<and> ve_dep_u e = [] \<and> (gated e \<longrightarrow> proved_model e key lookup)"
proof -
  have "descendants_blocked e key lookup = None \<longleftrightarrow>
     (ve_dep_t e \<noteq> [] \<longrightarrow> (\<exists>ds. map_of (ve_dep_configs e) key = Some ds \<and>
        (\<forall>d \<in> set ds. \<exists>c. lookup (dp_model d) = Some c \<and> map_of (ve_equiv c) (dp_key d) = Some ''pass'')))"
    by (auto simp: descendants_blocked_def first_blocked_None split: option.split)
  then show ?thesis
    using refused_None[of e prim]
    by (auto simp: blocked_def proved_model_def Let_def split: option.splits)
qed

section \<open>Examples\<close>

definition entry_example :: "string \<Rightarrow> string list \<Rightarrow> vz_entry" where
  "entry_example st insts =
     \<lparr>ve_status = st, ve_source = ''s'', ve_reason = [], ve_triggers = [], ve_enablers = [], ve_generate = [],
      ve_equiv = [], ve_oracle = [], ve_tools = [], ve_why = [], ve_rewrites = [], ve_instantiates = insts,
      ve_dep_t = [], ve_dep_u = [], ve_effective = [], ve_deps = [], ve_nonconst = False, ve_dep_configs = [],
      ve_version = ''v'', ve_glbl = ''g'', ve_tool = ''t'', ve_choices = ''c''\<rparr>"

text \<open>A wraps B, which wraps C and itself; only C is transformed.\<close>

definition manifest_example :: manifest where
  "manifest_example =
     [(''A'', entry_example ''unchanged'' [''B'', ''secure'']), (''B'', entry_example ''unchanged'' [''C'', ''B'']),
      (''C'', (entry_example ''transformed'' [])\<lparr>ve_equiv := [(''default'', ''pass'')], ve_deps := ''0''\<rparr>)]"

definition sha_example :: "string list list \<Rightarrow> string" where
  "sha_example k = show_nat (length k)"

lemma link_example:
  "map_option ve_dep_t (map_of (link sha_example manifest_example) ''A'') = Some [''C'']"
  "map_option ve_equiv (map_of (link sha_example manifest_example) ''C'') = Some [(''default'', ''pass'')]"
  by code_simp+

lemma link_exact_witness:
  "\<exists>i. i \<in> {''B'', ''secure''} \<and> reaches (graph_of manifest_example) i ''C''"
proof -
  obtain e' where e': "map_of (link sha_example manifest_example) ''A'' = Some e'" "ve_dep_t e' = [''C'']"
    using link_example(1) by auto
  have a: "map_of manifest_example ''A'' = Some (entry_example ''unchanged'' [''B'', ''secure''])"
    by (simp add: manifest_example_def)
  have "''C'' \<in> set (ve_dep_t e')" using e'(2) by simp
  then have "\<exists>i \<in> set (ve_instantiates (entry_example ''unchanged'' [''B'', ''secure''])).
      reaches (graph_of manifest_example) i ''C''"
    using link_exact[OF a e'(1), THEN conjunct1] by blast
  then show ?thesis by (simp only: entry_example_def vz_entry.simps) auto
qed

lemma verdicts_survive_witness:
  "\<exists>e. map_of manifest_example ''C'' = Some e \<and> ve_equiv e = [(''default'', ''pass'')] \<and>
     current (Some e) [''s'', ''g'', ''t'', ''c'', ''v''] True"
proof -
  let ?fs = "[(''C'', [''s'', ''g'', ''t'', ''c'', ''v''], True)] :: files"
  obtain e' where e': "map_of (link sha_example manifest_example) ''C'' = Some e'" "ve_equiv e' = [(''default'', ''pass'')]"
    using link_example(2) by auto
  have v: "verilatorize sha_example ?fs manifest_example [] = (link sha_example manifest_example, None)"
    by (simp add: verilatorize_def first_crash_def map_filter_simps)
  have o: "outdated manifest_example ?fs = []" by code_simp
  obtain e where "map_of manifest_example ''C'' = Some e" "ve_equiv e' = ve_equiv e"
    "\<forall>key copy_there. map_of ?fs ''C'' = Some (key, copy_there) \<longrightarrow> current (Some e) key copy_there"
    using verdicts_survive[OF v _ _ e'(1)] e'(2) o by auto
  then show ?thesis using e'(2) by auto
qed

lemma blocked_None_iff_witness:
  "blocked ((entry_example ''transformed'' [])\<lparr>ve_equiv := [(''default'', ''pass'')]\<rparr>) ''C'' ''default'' (\<lambda>_. None) = None"
  by (subst blocked_None_iff) (simp add: proved_model_def entry_example_def)

end
