(* ===== verification/Equiv_Key.thy ===== *)
theory Equiv_Key
  imports Attr_Values Vz_Manifest
begin

text \<open>
  How \<open>tools/xut/verilatorize\<close> names a configuration of a model: \<open>model_attrs\<close> of \<open>driver.py\<close> brings the
  attributes to one spelling, \<open>config_key\<close> and \<open>config_dir\<close> of \<open>equiv.py\<close> make the key under which a
  verdict is recorded and the directory the check works in.
\<close>

section \<open>Keys\<close>

text \<open>\<open>s.replace(c, t)\<close> for one character.\<close>

definition replace_char :: "char \<Rightarrow> string \<Rightarrow> string \<Rightarrow> string" where
  "replace_char c t s = concat (map (\<lambda>x. if x = c then t else [x]) s)"

definition esc :: "string \<Rightarrow> string" where
  "esc v = replace_char (CHR ''='') [BSL, CHR ''=''] (replace_char (CHR '','') [BSL, CHR '',''] (replace_char BSL [BSL, BSL] v))"

definition pair_text :: "string \<times> string \<Rightarrow> string" where
  "pair_text = (\<lambda>(k, v). esc k @ CHR ''='' # esc v)"

definition sorted_pairs :: "(string, string) dict \<Rightarrow> (string \<times> string) list" where
  "sorted_pairs attrs = map (\<lambda>k. (k, the (map_of attrs k))) (sort (dict_keys attrs))"

definition config_key :: "(string, string) dict \<Rightarrow> string" where
  "config_key attrs = (if attrs = [] then ''default'' else join '','' (map pair_text (sorted_pairs attrs)))"

text \<open>\<open>re.sub("[^A-Za-z0-9_.-]+", "_", key)\<close>.\<close>

fun slug_runs :: "bool \<Rightarrow> string \<Rightarrow> string" where
  "slug_runs inside [] = []"
| "slug_runs inside (c # cs) =
     (if cfg_char c then c # slug_runs False cs
      else if inside then slug_runs True cs else US # slug_runs True cs)"

definition strip_us :: "string \<Rightarrow> string" where
  "strip_us s = rev (dropWhile (\<lambda>c. c = US) (rev (dropWhile (\<lambda>c. c = US) s)))"

definition config_dir :: "(string \<Rightarrow> string) \<Rightarrow> string \<Rightarrow> string" where
  "config_dir sha key =
     (if key = ''default'' then key else take 80 (strip_us (slug_runs False key)) @ CHR ''-'' # take 8 (sha key))"

section \<open>One spelling for equal configurations\<close>

definition attr_kind :: "hdl_module \<Rightarrow> string \<Rightarrow> attr_decl" where
  "attr_kind md n =
     (case map_of (hm_params md) n of
        Some (k, w) \<Rightarrow> \<lparr>ad_name = n, ad_kind = k, ad_width = w, ad_allowed = []\<rparr>
      | None \<Rightarrow> \<lparr>ad_name = n, ad_kind = [], ad_width = 0, ad_allowed = []\<rparr>)"

text \<open>\<open>except WrapError\<close>: the exceptions of \<open>int\<close> and \<open>float\<close> themselves are not caught.\<close>

definition except_wrap :: "(wrap_error, 'a) result \<Rightarrow> (wrap_error, 'a) result \<Rightarrow> (wrap_error, 'a) result" where
  "except_wrap r other = (case r of Inl e \<Rightarrow> if e = WrapPyError then Inl e else other | Inr a \<Rightarrow> Inr a)"

definition canon :: "(string \<Rightarrow> string option) \<Rightarrow> hdl_module \<Rightarrow> string \<Rightarrow> pyval \<Rightarrow> (wrap_error, string) result" where
  "canon fl md n v =
     rbind (render_attr fl (attr_kind md n) v True) (\<lambda>lit.
       if ad_kind (attr_kind md n) = ''bits''
       then except_wrap (rbind (literal_value (PStr lit)) (\<lambda>i. render_attr fl (attr_kind md n) (PInt i) False)) (Inr lit)
       else Inr lit)"

text \<open>
  \<open>model_attrs\<close> (the family of the specification plays no part); \<open>defaults\<close> gives the default of each parameter as the HDL parser reads it.
\<close>

definition canon_step ::
  "(string \<Rightarrow> string option) \<Rightarrow> hdl_module \<Rightarrow> (string \<Rightarrow> pyval) \<Rightarrow> (string, string) dict \<Rightarrow> string \<Rightarrow>
   (wrap_error, (string, string) dict) result" where
  "canon_step fl md defaults out n =
     (case map_of out n of
        None \<Rightarrow> Inr out
      | Some v \<Rightarrow>
          rbind (canon fl md n (PStr v)) (\<lambda>c.
          rbind (except_wrap (map_sum id Some (canon fl md n (defaults n))) (Inr None)) (\<lambda>d.
            Inr (if d = Some c then AList.delete n out else AList.update n c out))))"

definition model_attrs ::
  "(string \<Rightarrow> string option) \<Rightarrow> hdl_module \<Rightarrow> (string \<Rightarrow> pyval) \<Rightarrow> (string, pyval) dict \<Rightarrow> (wrap_error, (string, string) dict) result" where
  "model_attrs fl md defaults attrs =
     (if attrs = [] then Inr []
      else rbind (spec_from_hdl fl md ''default'' (filter (\<lambda>(k, v). k \<in> fst ` set (hm_params md)) attrs) True [])
        (\<lambda>spec. rfold (canon_step fl md defaults) (dict_of (ds_attrs spec)) (map fst (hm_params md))))"

section \<open>Two configurations never share a key\<close>

definition esc_char :: "char \<Rightarrow> string" where
  "esc_char c = (if c \<in> {BSL, CHR '','', CHR ''=''} then [BSL, c] else [c])"

lemma esc_chars: "esc v = concat (map esc_char v)"
  by (induction v) (auto simp: esc_def replace_char_def esc_char_def)

text \<open>An escaped text ends where an unescaped separator, or nothing, follows.\<close>

definition stops :: "string \<Rightarrow> bool" where
  "stops s \<longleftrightarrow> s = [] \<or> hd s = CHR '','' \<or> hd s = CHR ''=''"

lemma esc_split: "esc a @ x = esc b @ y \<Longrightarrow> stops x \<Longrightarrow> stops y \<Longrightarrow> a = b \<and> x = y"
proof (induction a arbitrary: b)
  case Nil
  then show ?case by (cases b) (auto simp: esc_chars esc_char_def stops_def split: if_splits)
next
  case (Cons c cs)
  show ?case
  proof (cases b)
    case Nil
    then show ?thesis using Cons.prems by (auto simp: esc_chars esc_char_def stops_def split: if_splits)
  next
    case (Cons d ds)
    then have "c = d \<and> esc cs @ x = esc ds @ y"
      using Cons.prems(1) by (auto simp: esc_chars esc_char_def split: if_splits)
    then show ?thesis using Cons.IH[of ds] Cons.prems(2,3) Cons by simp
  qed
qed

lemma pair_split: "pair_text p @ x = pair_text q @ y \<Longrightarrow> stops x \<Longrightarrow> stops y \<Longrightarrow> p = q \<and> x = y"
proof -
  assume a: "pair_text p @ x = pair_text q @ y" "stops x" "stops y"
  obtain k v where p: "p = (k, v)" by (cases p)
  obtain k' v' where q: "q = (k', v')" by (cases q)
  have "k = k' \<and> CHR ''='' # esc v @ x = CHR ''='' # esc v' @ y"
    by (rule esc_split) (use a(1) p q in \<open>simp_all add: pair_text_def stops_def\<close>)
  then show ?thesis using esc_split[of v x v' y] a(2,3) p q by simp
qed

lemma pair_text_ne [simp]: "pair_text p \<noteq> []" "[] \<noteq> pair_text p"
  by (simp_all add: pair_text_def split: prod.split)

lemma pairs_text_split:
  "join '','' (map pair_text ps) = join '','' (map pair_text qs) \<Longrightarrow> ps = qs"
proof (induction ps arbitrary: qs)
  case Nil
  then show ?case by (cases qs rule: list.exhaust; cases "tl qs") auto
next
  case (Cons p ps)
  then obtain q qs' where q: "qs = q # qs'"
    using pair_text_ne by (cases qs; cases ps) auto
  define tail where "tail = (\<lambda>rs. if rs = [] then [] else '','' @ join '','' (map pair_text rs))"
  have j: "join '','' (map pair_text (r # rs)) = pair_text r @ tail rs" for r rs
    by (cases rs) (simp_all add: tail_def)
  have "p = q \<and> tail ps = tail qs'"
    by (rule pair_split) (use Cons.prems q j in \<open>simp_all add: tail_def stops_def\<close>)
  moreover have "tail ps = tail qs' \<Longrightarrow> ps = qs'"
    using Cons.IH[of qs'] by (auto simp: tail_def split: if_splits)
  ultimately show ?case using q by simp
qed

lemma eq_in_pair: "CHR ''='' \<in> set (pair_text p)"
  by (cases p) (simp add: pair_text_def)

lemma eq_in_join: "ps \<noteq> [] \<Longrightarrow> CHR ''='' \<in> set (join '','' (map pair_text ps))"
  by (cases ps; cases "tl ps") (auto simp: eq_in_pair)

lemma sorted_pairs_map: "map_of (sorted_pairs attrs) = map_of attrs"
proof
  fix k
  have m: "map_of (map (\<lambda>k. (k, the (map_of attrs k))) ks) k =
      (if k \<in> set ks then Some (the (map_of attrs k)) else None)" for ks
    by (induction ks) auto
  have "k \<in> fst ` set attrs \<longleftrightarrow> map_of attrs k \<noteq> None" by (simp add: map_of_eq_None_iff)
  then show "map_of (sorted_pairs attrs) k = map_of attrs k"
    by (simp add: sorted_pairs_def dict_keys_def m del: not_None_eq)
qed

lemma sorted_pairs_Nil: "sorted_pairs attrs = [] \<longleftrightarrow> attrs = []"
  by (simp add: sorted_pairs_def dict_keys_def flip: set_empty)

text \<open>
  C33. \<open>config_key\<close> is injective up to the order of the dictionary: two configurations have the same
  key exactly when they give every attribute the same value, whatever characters names and values
  hold.
\<close>

theorem config_key_exact:
  assumes "distinct (dict_keys a)" and "distinct (dict_keys b)"
  shows "config_key a = config_key b \<longleftrightarrow> dict_eq a b"
proof
  assume eq: "config_key a = config_key b"
  have d: "CHR ''='' \<notin> set ''default''" by simp
  have e: "xs \<noteq> [] \<Longrightarrow> CHR ''='' \<in> set (config_key xs)" for xs
    using eq_in_join[of "sorted_pairs xs"] by (simp add: config_key_def sorted_pairs_Nil)
  have "config_key [] = ''default''" by (simp add: config_key_def)
  then have "a = [] \<longleftrightarrow> b = []" using eq d e[of a] e[of b] by metis
  then have "sorted_pairs a = sorted_pairs b"
    using eq pairs_text_split[of "sorted_pairs a" "sorted_pairs b"] by (auto simp: config_key_def split: if_splits)
  then show "dict_eq a b" by (metis dict_eq_iff sorted_pairs_map)
next
  assume eq: "dict_eq a b"
  then have "set (dict_keys a) = set (dict_keys b)"
    by (metis dict_eq_iff dict_keys_def dom_map_of_conv_image_fst list.set_map)
  then have "sort (dict_keys a) = sort (dict_keys b)"
    using assms by (intro sorted_distinct_set_unique) simp_all
  then have "sorted_pairs a = sorted_pairs b" using eq by (simp add: sorted_pairs_def dict_eq_iff)
  then show "config_key a = config_key b"
    using sorted_pairs_Nil[of a] sorted_pairs_Nil[of b] by (auto simp: config_key_def)
qed

lemma config_key_exact_witness:
  "config_key [(''A'', ''1,B=2'')] \<noteq> config_key [(''B'', ''2''), (''A'', ''1'')] \<and>
   config_key [(''A'', ''1''), (''B'', ''2'')] = config_key [(''B'', ''2''), (''A'', ''1'')]"
  using config_key_exact[of "[(''A'', ''1,B=2'')]" "[(''B'', ''2''), (''A'', ''1'')]"]
    config_key_exact[of "[(''A'', ''1''), (''B'', ''2'')]" "[(''B'', ''2''), (''A'', ''1'')]"]
  by (simp add: dict_keys_def dict_eq_def)

end
