(* ===== verification/Model_Gate.thy ===== *)
theory Model_Gate
  imports Equiv_Key Sim_Runners
begin

text \<open>
  The model gate of \<open>tools/xut/runners/verilator.py\<close> (\<open>gate_config\<close>) over \<open>ensure_model\<close> of
  \<open>tools/xut/verilatorize/driver.py\<close>. A call changes the process's entries and may raise: it maps a state
  to a result and the state it leaves, also when it raises. An entry is an object shared by every
  caller, so it is read from the state each time. The transform, the elaboration of a hierarchy or
  of a testbench and the equivalence check are the fields of an environment.
\<close>

section \<open>Calls with state and exceptions\<close>

type_synonym ('s, 'a) call = "'s \<Rightarrow> (exn, 'a) result \<times> 's"

definition ret :: "'a \<Rightarrow> ('s, 'a) call" where
  "ret a s = (Inr a, s)"

definition lift_res :: "(exn, 'a) result \<Rightarrow> ('s, 'a) call" where
  "lift_res r s = (r, s)"

definition sbind :: "('s, 'a) call \<Rightarrow> ('a \<Rightarrow> ('s, 'b) call) \<Rightarrow> ('s, 'b) call" where
  "sbind f k s = (case f s of (Inl e, s1) \<Rightarrow> (Inl e, s1) | (Inr a, s1) \<Rightarrow> k a s1)"

fun each :: "('a \<Rightarrow> ('s, unit) call) \<Rightarrow> 'a list \<Rightarrow> ('s, unit) call" where
  "each f [] = ret ()"
| "each f (x # xs) = sbind (f x) (\<lambda>_. each f xs)"

text \<open>\<open>try: ... except XutError\<close>.\<close>

definition catch_user :: "(exn \<Rightarrow> 'a) \<Rightarrow> ('s, 'a) call \<Rightarrow> ('s, 'a) call" where
  "catch_user h f s = (case f s of (Inl e, s1) \<Rightarrow> if ex_user e then (Inr (h e), s1) else (Inl e, s1) | r \<Rightarrow> r)"

lemma sbind_Inr: "sbind f k s = (Inr b, s2) \<longleftrightarrow> (\<exists>a s1. f s = (Inr a, s1) \<and> k a s1 = (Inr b, s2))"
  by (auto simp: sbind_def split: prod.splits sum.splits)

lemma sbind_cong [fundef_cong]:
  "f s = f' s \<Longrightarrow> (\<And>a s1. f' s = (Inr a, s1) \<Longrightarrow> k a s1 = k' a s1) \<Longrightarrow> sbind f k s = sbind f' k' s"
  by (auto simp: sbind_def split: prod.splits sum.splits)

lemma ret_simps [simp]: "ret a s = (Inr b, s1) \<longleftrightarrow> a = b \<and> s = s1" "lift_res r s = (Inr b, s1) \<longleftrightarrow> r = Inr b \<and> s = s1"
  by (simp_all add: ret_def lift_res_def)

section \<open>Ensuring a model\<close>

record vz_env =
  en_key :: "string \<Rightarrow> (string, pyval) dict \<Rightarrow> (exn, string) result"
  en_derive :: "string \<Rightarrow> vz_entry \<Rightarrow> string \<Rightarrow> (string, dep_config list) result"
  en_check :: "string \<Rightarrow> string \<Rightarrow> string \<times> string \<times> string"
  en_tools :: string
  en_redo :: "string \<Rightarrow> manifest \<Rightarrow> (exn, manifest) result"
  en_module :: "string \<Rightarrow> hdl_module"

abbreviation xut_error :: "string \<Rightarrow> exn" where
  "xut_error t \<equiv> \<lparr>ex_user = True, ex_type = ''XutError'', ex_text = t\<rparr>"

definition entry :: "string \<Rightarrow> vz_state \<Rightarrow> vz_entry" where
  "entry m s = the (map_of (vs_seen s) m)"

text \<open>
  \<open>_ensure_one\<close>: the entry made current first (\<open>verilatorize\<close> runs only for a model this process has not
  seen), the key only for a model to check.
\<close>

definition ensure_call :: "vz_env \<Rightarrow> string \<Rightarrow> (string, pyval) dict \<Rightarrow> bool \<Rightarrow> (vz_state, string option) call" where
  "ensure_call en m attrs check s =
     (case (if map_of (vs_seen s) m = None then en_redo en m (vs_disk s) else Inr []) of
        Inl x \<Rightarrow> (Inl x, s)
      | Inr redone \<Rightarrow>
          (case ensure_one (en_derive en m) (en_check en) (en_tools en) m [] False redone s of
             Inl t \<Rightarrow> (Inl (xut_error t), s)
           | Inr (s1, e, _) \<Rightarrow>
               if \<not> check \<or> \<not> gated e \<or> ve_status e = ''unsupported'' \<or> ve_dep_u e \<noteq> [] then (Inr None, s1)
               else (case en_key en m attrs of
                  Inl x \<Rightarrow> (Inl x, s1)
                | Inr k \<Rightarrow>
                    (case ensure_one (en_derive en m) (en_check en) (en_tools en) m k True [] s1 of
                       Inl t \<Rightarrow> (Inl (xut_error t), s1)
                     | Inr (s2, _, k') \<Rightarrow> (Inr k', s2)))))"

definition deps_of :: "vz_entry \<Rightarrow> string \<Rightarrow> dep_config list" where
  "deps_of e k = (case map_of (ve_dep_configs e) k of Some ds \<Rightarrow> ds | None \<Rightarrow> [])"

definition dep_attrs :: "dep_config \<Rightarrow> (string, pyval) dict" where
  "dep_attrs d = map (\<lambda>(k, v). (k, PStr v)) (dp_attrs d)"

text \<open>\<open>ensure_model\<close>; the fuel is the depth of calls Python allows, beyond which it raises too.\<close>

fun ensure_model :: "vz_env \<Rightarrow> nat \<Rightarrow> string \<Rightarrow> (string, pyval) dict \<Rightarrow> bool \<Rightarrow> (vz_state, unit) call" where
  "ensure_model en 0 m attrs check = lift_res (Inl \<lparr>ex_user = False, ex_type = ''RecursionError'', ex_text = ''maximum recursion depth exceeded''\<rparr>)"
| "ensure_model en (Suc n) m attrs check =
     sbind (ensure_call en m attrs check) (\<lambda>k s1.
       case k of
         None \<Rightarrow> (Inr (), s1)
       | Some key \<Rightarrow> each (\<lambda>d. ensure_model en n (dp_model d) (dep_attrs d) True) (deps_of (entry m s1) key) s1)"

section \<open>Every input driven\<close>

definition connected :: "dut_map \<Rightarrow> string \<Rightarrow> int" where
  "connected m p =
     int (length (filter (\<lambda>b. w_vec b \<in> {''clk'', ''in''} \<and> w_role b = [] \<and> w_port b = p) (m_bits m)))"

definition undriven_ports :: "hdl_module \<Rightarrow> (string \<Rightarrow> int) \<Rightarrow> string list" where
  "undriven_ports md driven =
     sort (map (\<lambda>(p, _, w). if driven p = 0 then p else p @ '' ('' @ show_int (driven p) @ '' of '' @ show_int w @ '' bits)'')
       (filter (\<lambda>(p, dir, w). dir = ''input'' \<and> driven p < w) (hm_ports md)))"

definition undriven_reason :: "string \<Rightarrow> string list \<Rightarrow> string" where
  "undriven_reason m missing =
     ''input port(s) '' @ join '', '' missing @ '' of '' @ m @
     '' left unconnected by the wrapper: the z-compare rewrite (ruling S38) is valid only with every input driven''"

definition drives_z :: "vec \<Rightarrow> bool" where
  "drives_z v \<longleftrightarrow> list_ex (\<lambda>e. e_op e = ''set'' \<and> CHR ''z'' \<in> set (lower (e_value e))) (v_events v)"

definition Z_STIMULUS :: string where
  "Z_STIMULUS = ''stimulus drives z into a model with the z-compare rewrite (ruling S38)''"

definition REWRITE :: string where "REWRITE = ''zcmp''"

definition rewritten :: "vz_entry \<Rightarrow> bool" where
  "rewritten e \<longleftrightarrow> REWRITE \<in> set (if ve_effective e \<noteq> [] then ve_effective e else ve_rewrites e)"

section \<open>The gate\<close>

type_synonym verdict = "(string \<times> string) option"

record sv_instance =
  si_path :: string
  si_attrs :: "(string, pyval) dict"
  si_undriven :: "string list"
  si_zdriven :: "string list"
  si_floating :: "string list"
  si_model :: string
  si_nested :: bool

text \<open>
  What the gate reads of a configuration: its style, the attributes of test.yaml, the directory of
  the python run, the catalog entry, and what elaborating an sv testbench gives.
\<close>

record gate_case =
  gc_case :: test_case
  gc_cfg :: string
  gc_ctx :: run_context
  gc_python :: python_dir
  gc_attrs :: "(string, attr_val) dict"
  gc_entry :: "(exn, catalog_entry) result"
  gc_sv_models :: "(exn, string list) result"
  gc_sv_instances :: "bool \<Rightarrow> (exn, sv_instance list) result"

definition defines_guard :: "run_context \<Rightarrow> string \<Rightarrow> (exn, unit) result" where
  "defines_guard cx what =
     (if cx_defines cx = [] then Inr ()
      else Inl (xut_error (''defines '' @ join '', '' (sort (map fst (cx_defines cx))) @ '' are set, but '' @ what @
        '' is gated and its transform and equivalence check ran without them: the Verilator result would use '' @
        ''code that was never analysed or proved (fail closed)'')))"

definition py_attrs :: "(string, attr_val) dict \<Rightarrow> (string, pyval) dict" where
  "py_attrs = map (\<lambda>(k, v). (k, case v of VInt i \<Rightarrow> PInt i | VStr s \<Rightarrow> PStr s))"

definition verdict_of :: "vz_env \<Rightarrow> nat \<Rightarrow> string \<Rightarrow> (string, pyval) dict \<Rightarrow> (vz_state, string option) call" where
  "verdict_of en n m attrs =
     sbind (ensure_model en n m attrs True) (\<lambda>_.
     sbind (lift_res (en_key en m attrs)) (\<lambda>key s1.
       let ds = deps_of (entry m s1) key
       in sbind (each (\<lambda>d. ensure_model en n (dp_model d) (dep_attrs d) True) ds) (\<lambda>_ s2.
            (Inr (blocked (entry m s2) m key
                    (\<lambda>x. if x \<in> set (map dp_model ds) then Some (entry x s2) else None)), s2)) s1))"

definition refusal :: "vz_entry \<Rightarrow> string \<Rightarrow> bool \<Rightarrow> string \<times> string" where
  "refusal e why verdicts =
     (if verdicts then (''error'', why) else (''skip'', if ve_status e = ''unsupported'' then ve_reason e else why))"

text \<open>\<open>_undriven\<close>.\<close>

definition undriven :: "texts \<Rightarrow> (string \<Rightarrow> string option) \<Rightarrow> vz_env \<Rightarrow> gate_case \<Rightarrow> (exn, string option) result" where
  "undriven tx fl en g =
     (let prim = tc_prim (gc_case g); md = en_module en prim;
          why = (\<lambda>m. let missing = undriven_ports md (connected m)
                     in if missing \<noteq> [] then Some (undriven_reason prim missing) else None)
      in if tc_style (gc_case g) = ''vector''
         then (case py_cfg (gc_python g) (gc_cfg g) of
                 None \<Rightarrow> Inr None
               | Some vd \<Rightarrow>
                   rbind (raise_as True ''WrapError'' (tx_wrap tx) (from_json (vd_map vd))) (\<lambda>m.
                     case why m of Some w \<Rightarrow> Inr (Some w)
                     | None \<Rightarrow> rbind (raise_as True ''XvecError'' (tx_xvec tx) (loads (vd_stim vd))) (\<lambda>v.
                         Inr (if drives_z v then Some Z_STIMULUS else None))))
         else rbind (gc_entry g) (\<lambda>ce.
              rbind (raise_as True ''WrapError'' (tx_wrap tx)
                (rbind (spec_from_catalog fl ce (gc_cfg g) (py_attrs (gc_attrs g)) False False) build_map)) (\<lambda>m.
              Inr (why m))))"

fun refuse_models :: "vz_env \<Rightarrow> nat \<Rightarrow> bool \<Rightarrow> string list \<Rightarrow> (vz_state, verdict) call" where
  "refuse_models en n verdicts [] = ret None"
| "refuse_models en n verdicts (m # ms) =
     sbind (ensure_model en n m [] False) (\<lambda>_ s1.
       case refused (entry m s1) m of
         Some why \<Rightarrow> (Inr (Some (refusal (entry m s1) why verdicts)), s1)
       | None \<Rightarrow> refuse_models en n verdicts ms s1)"

fun gate_insts :: "vz_env \<Rightarrow> nat \<Rightarrow> bool \<Rightarrow> sv_instance list \<Rightarrow> (vz_state, verdict) call" where
  "gate_insts en n verdicts [] = ret None"
| "gate_insts en n verdicts (i # is) =
     sbind (verdict_of en n (si_model i) (si_attrs i)) (\<lambda>why.
       if why \<noteq> None \<and> verdicts then ret (Some (''error'', si_path i @ '': '' @ the why))
       else gate_insts en n verdicts is)"

fun floating_inst :: "vz_state \<Rightarrow> sv_instance list \<Rightarrow> verdict" where
  "floating_inst s [] = None"
| "floating_inst s (i # is) =
     (if si_nested i \<or> \<not> rewritten (entry (si_model i) s) then floating_inst s is
      else if si_undriven i \<noteq> [] \<or> si_zdriven i \<noteq> [] \<or> si_floating i \<noteq> []
      then Some (''error'', si_path i @ '': input port(s) '' @
        join '', '' (si_undriven i @ map (\<lambda>p. p @ '' (tied to z)'') (si_zdriven i) @ si_floating i) @ '' of '' @ si_model i @
        '' not driven by the testbench: the z-compare rewrite (ruling S38) is valid only with every input driven'')
      else floating_inst s is)"

definition gate_sv :: "vz_env \<Rightarrow> nat \<Rightarrow> gate_case \<Rightarrow> bool \<Rightarrow> bool \<Rightarrow> (vz_state, verdict) call" where
  "gate_sv en n g verdicts prim_gated =
     sbind (lift_res (gc_sv_models g)) (\<lambda>ms.
     sbind (refuse_models en n verdicts ms) (\<lambda>r.
     if r \<noteq> None then ret r else
     sbind (lift_res (gc_sv_instances g prim_gated)) (\<lambda>is.
     sbind (refuse_models en n verdicts (sort (filter (\<lambda>m. m \<notin> set ms) (dedup (map si_model is))))) (\<lambda>r2 s.
     if r2 \<noteq> None then (Inr r2, s) else
     let gs = filter (\<lambda>i. gated (entry (si_model i) s)) is
     in sbind (if gs = [] then ret () else lift_res (defines_guard (gc_ctx g) (join '', '' (sort (dedup (map si_model gs)))))) (\<lambda>_.
        sbind (gate_insts en n verdicts gs) (\<lambda>r3 s3.
        if r3 \<noteq> None then (Inr r3, s3) else (Inr (floating_inst s3 is), s3))) s))))"

text \<open>The attributes a vector or cocotb configuration is proved under.\<close>

definition gate_attrs :: "texts \<Rightarrow> gate_case \<Rightarrow> bool \<Rightarrow> (exn, (string, pyval) dict) result" where
  "gate_attrs tx g reject =
     (if tc_style (gc_case g) \<noteq> ''vector'' then Inr (py_attrs (gc_attrs g))
      else if reject then Inr []
      else (case py_cfg (gc_python g) (gc_cfg g) of
          None \<Rightarrow> Inl \<lparr>ex_user = False, ex_type = ''FileNotFoundError'', ex_text = ''stim.xvec''\<rparr>
        | Some vd \<Rightarrow> rbind (raise_as True ''XvecError'' (tx_xvec tx) (loads (vd_stim vd))) (\<lambda>v.
            Inr (map (\<lambda>(k, s). (k, PStr s)) (vec_attrs v)))))"

definition gate_config :: "texts \<Rightarrow> (string \<Rightarrow> string option) \<Rightarrow> vz_env \<Rightarrow> nat \<Rightarrow> gate_case \<Rightarrow> bool \<Rightarrow> bool \<Rightarrow> (vz_state, verdict) call" where
  "gate_config tx fl en n g verdicts reject =
     catch_user (\<lambda>x. Some (''error'', ex_text x))
      (sbind (ensure_model en n (tc_prim (gc_case g)) [] False) (\<lambda>_ s.
       let prim = tc_prim (gc_case g); e = entry prim s
       in case refused e prim of
            Some why \<Rightarrow> (Inr (Some (refusal e why verdicts)), s)
          | None \<Rightarrow>
              if tc_style (gc_case g) = ''sv'' then gate_sv en n g verdicts (gated e) s
              else if \<not> gated e then (Inr None, s)
              else sbind (lift_res (defines_guard (gc_ctx g) prim)) (\<lambda>_.
                   sbind (lift_res (gate_attrs tx g reject)) (\<lambda>attrs.
                   sbind (verdict_of en n prim attrs) (\<lambda>why s2.
                   if why \<noteq> None \<and> verdicts then (Inr (Some (''error'', the why)), s2)
                   else if \<not> rewritten (entry prim s2) then (Inr None, s2)
                   else sbind (lift_res (undriven tx fl en g)) (\<lambda>u. ret (map_option (Pair ''error'') u)) s2))) s))"

section \<open>What a verdict rests on does not change\<close>

definition preserves :: "('s \<Rightarrow> 's \<Rightarrow> bool) \<Rightarrow> ('s, 'a) call \<Rightarrow> bool" where
  "preserves R f \<longleftrightarrow> (\<forall>s. R s (snd (f s)))"

lemma preservesD: "preserves R f \<Longrightarrow> f s = (r, s') \<Longrightarrow> R s s'"
  by (metis preserves_def snd_conv)

text \<open>Any relation that is a preorder goes through the combinators.\<close>

locale kept_by =
  fixes R :: "'s \<Rightarrow> 's \<Rightarrow> bool"
  assumes refl: "R s s" and trans: "R s t \<Longrightarrow> R t u \<Longrightarrow> R s u"
begin

lemma ret: "preserves R (ret a)"
  by (simp add: preserves_def ret_def refl)

lemma lift: "preserves R (lift_res r)"
  by (simp add: preserves_def lift_res_def refl)

lemma bind: "preserves R f \<Longrightarrow> (\<And>a. preserves R (k a)) \<Longrightarrow> preserves R (sbind f k)"
  unfolding preserves_def sbind_def
  by (auto split: prod.split sum.split) (metis refl snd_conv trans)+

lemma each: "(\<And>x. preserves R (g x)) \<Longrightarrow> preserves R (each g xs)"
  by (induction xs) (auto intro: ret bind)

lemma final: "preserves R (\<lambda>s. (r s, s))"
  by (simp add: preserves_def refl)

text \<open>A call chosen by what the state holds.\<close>

lemma reads: "(\<And>s0. preserves R (F s0)) \<Longrightarrow> preserves R (\<lambda>s. F s s)"
  by (simp add: preserves_def)

lemmas intros = ret lift final bind each

end

text \<open>A configuration whose verdict this process will not compute again.\<close>

definition ungated :: "vz_entry \<Rightarrow> bool" where
  "ungated e \<longleftrightarrow> \<not> gated e \<or> ve_status e = ''unsupported'' \<or> ve_dep_u e \<noteq> []"

definition fixed :: "vz_env \<Rightarrow> vz_state \<Rightarrow> string \<Rightarrow> string \<Rightarrow> bool" where
  "fixed en s m k \<longleftrightarrow>
     (m, k) \<in> set (vs_checked s) \<or>
     (\<exists>e. map_of (vs_seen s) m = Some e \<and> (settled e k (en_tools en) \<or> ungated e))"

definition same_facts :: "vz_entry \<Rightarrow> vz_entry \<Rightarrow> bool" where
  "same_facts a b \<longleftrightarrow>
     ve_status a = ve_status b \<and> ve_dep_t a = ve_dep_t b \<and> ve_dep_u a = ve_dep_u b \<and>
     ve_effective a = ve_effective b \<and> ve_rewrites a = ve_rewrites b"

definition keyed_deps :: "vz_env \<Rightarrow> dep_config list \<Rightarrow> bool" where
  "keyed_deps en ds \<longleftrightarrow> (\<forall>d \<in> set ds. en_key en (dp_model d) (dep_attrs d) = Inr (dp_key d))"

definition keyed_entry :: "vz_env \<Rightarrow> vz_entry \<Rightarrow> bool" where
  "keyed_entry en e \<longleftrightarrow> (\<forall>k ds. map_of (ve_dep_configs e) k = Some ds \<longrightarrow> keyed_deps en ds)"

definition keyed :: "vz_env \<Rightarrow> vz_state \<Rightarrow> bool" where
  "keyed en s \<longleftrightarrow> (\<forall>m e. map_of (vs_seen s) m = Some e \<longrightarrow> keyed_entry en e)"

text \<open>
  What the environment promises: a descendant is recorded under the key of its own attributes, by
  the elaboration and in the manifest read back, and a re-transform has an entry for its model.
\<close>

definition keyed_env :: "vz_env \<Rightarrow> bool" where
  "keyed_env en \<longleftrightarrow>
     (\<forall>m e k ds. en_derive en m e k = Inr ds \<longrightarrow> keyed_deps en ds) \<and>
     (\<forall>m disk man. en_redo en m disk = Inr man \<longrightarrow> (\<exists>e. map_of man m = Some e \<and> keyed_entry en e))"

definition entry_kept :: "vz_env \<Rightarrow> vz_state \<Rightarrow> vz_state \<Rightarrow> string \<Rightarrow> bool" where
  "entry_kept en s s' m \<longleftrightarrow>
     (\<forall>e. map_of (vs_seen s) m = Some e \<longrightarrow>
       (\<exists>e'. map_of (vs_seen s') m = Some e' \<and> same_facts e e' \<and>
         (\<forall>k ds. map_of (ve_dep_configs e) k = Some ds \<longrightarrow> map_of (ve_dep_configs e') k = Some ds) \<and>
         (\<forall>k. fixed en s m k \<longrightarrow> fixed en s' m k \<and> map_of (ve_equiv e') k = map_of (ve_equiv e) k)))"

definition keeps :: "vz_env \<Rightarrow> vz_state \<Rightarrow> vz_state \<Rightarrow> bool" where
  "keeps en s s' \<longleftrightarrow> (keyed en s \<longrightarrow> keyed en s') \<and> (\<forall>m. entry_kept en s s' m)"

lemma same_facts_refl [simp]: "same_facts e e"
  by (simp add: same_facts_def)

lemma keeps_refl [simp]: "keeps en s s"
  by (auto simp: keeps_def entry_kept_def)

lemma keeps_trans: "keeps en s t \<Longrightarrow> keeps en t u \<Longrightarrow> keeps en s u"
proof -
  assume st: "keeps en s t" and tu: "keeps en t u"
  have "entry_kept en s u m" for m
    unfolding entry_kept_def
  proof (intro allI impI)
    have sm: "entry_kept en s t m" and tm: "entry_kept en t u m" using st tu by (simp_all add: keeps_def)
    fix e
    assume "map_of (vs_seen s) m = Some e"
    then obtain f where f: "map_of (vs_seen t) m = Some f" "same_facts e f"
      "\<And>k ds. map_of (ve_dep_configs e) k = Some ds \<Longrightarrow> map_of (ve_dep_configs f) k = Some ds"
      "\<And>k. fixed en s m k \<Longrightarrow> fixed en t m k \<and> map_of (ve_equiv f) k = map_of (ve_equiv e) k"
      using sm[unfolded entry_kept_def, rule_format, of e] by blast
    then obtain g where "map_of (vs_seen u) m = Some g" "same_facts f g"
      "\<And>k ds. map_of (ve_dep_configs f) k = Some ds \<Longrightarrow> map_of (ve_dep_configs g) k = Some ds"
      "\<And>k. fixed en t m k \<Longrightarrow> fixed en u m k \<and> map_of (ve_equiv g) k = map_of (ve_equiv f) k"
      using tm[unfolded entry_kept_def, rule_format, of f] by blast
    then show "\<exists>g. map_of (vs_seen u) m = Some g \<and> same_facts e g \<and>
        (\<forall>k ds. map_of (ve_dep_configs e) k = Some ds \<longrightarrow> map_of (ve_dep_configs g) k = Some ds) \<and>
        (\<forall>k. fixed en s m k \<longrightarrow> fixed en u m k \<and> map_of (ve_equiv g) k = map_of (ve_equiv e) k)"
      using f by (auto simp: same_facts_def)
  qed
  then show "keeps en s u" using st tu by (auto simp: keeps_def)
qed

interpretation kept: kept_by "keeps en" for en
  by unfold_locales (use keeps_trans in \<open>auto\<close>)

text \<open>Steps of \<open>_ensure_one\<close>: an entry added, its descendants recorded, its verdict recorded.\<close>

lemma keeps_added:
  assumes "map_of (vs_seen s) m = None" and "vs_seen s' = AList.update m e (vs_seen s)"
    and "vs_checked s' = vs_checked s" and "keyed_entry en e"
  shows "keeps en s s'"
  using assms by (auto simp: keeps_def entry_kept_def keyed_def fixed_def update_conv' split: if_split_asm)

lemma ungated_same: "same_facts e e' \<Longrightarrow> ungated e' = ungated e"
  by (simp add: same_facts_def ungated_def gated_def)

lemma keeps_replaced:
  assumes m: "map_of (vs_seen s) m = Some e" and s': "vs_seen s' = AList.update m e' (vs_seen s)"
    and c: "set (vs_checked s) \<subseteq> set (vs_checked s')" and f: "same_facts e e'"
    and d: "\<And>k ds. map_of (ve_dep_configs e) k = Some ds \<Longrightarrow> map_of (ve_dep_configs e') k = Some ds"
    and v: "\<And>k. fixed en s m k \<Longrightarrow> map_of (ve_equiv e') k = map_of (ve_equiv e) k \<and>
              map_of (ve_tools e') k = map_of (ve_tools e) k"
    and y: "keyed_entry en e \<Longrightarrow> keyed_entry en e'"
  shows "keeps en s s'"
proof -
  have other: "map_of (vs_seen s') n = map_of (vs_seen s) n" if "n \<noteq> m" for n
    using that s' by (simp add: update_conv')
  have same: "map_of (vs_seen s') m = Some e'" using s' by (simp add: update_conv')
  have fx: "fixed en s' n k" if "fixed en s n k" for n k
  proof (cases "n = m")
    case True
    then show ?thesis using that same m c v[of k] ungated_same[OF f] by (auto simp: fixed_def settled_def)
  next
    case False
    then show ?thesis using that other[of n] c by (auto simp: fixed_def)
  qed
  have "entry_kept en s s' n" for n
  proof (cases "n = m")
    case True
    then show ?thesis using m same f d v fx by (auto simp: entry_kept_def)
  next
    case False
    then show ?thesis using other fx by (auto simp: entry_kept_def)
  qed
  moreover have "keyed en s \<Longrightarrow> keyed en s'"
    unfolding keyed_def using m same other y by (metis option.inject)
  ultimately show ?thesis by (simp add: keeps_def)
qed

lemma keeps_redo:
  assumes "ensure_one derive check tools m k False redone s = Inr (s', e, r)"
    and "map_of (vs_seen s) m = None \<Longrightarrow> map_of redone m = Some e0 \<and> keyed_entry en e0"
  shows "keeps en s s' \<and> map_of (vs_seen s') m = Some e"
proof (cases "map_of (vs_seen s) m")
  case None
  then have "s' = s\<lparr>vs_disk := redone, vs_seen := AList.update m e0 (vs_seen s)\<rparr>" "e = e0"
    using assms by (auto simp: ensure_one_def Let_def)
  then show ?thesis using keeps_added[OF None, of s' e0 en] assms(2)[OF None] by (simp add: update_conv')
next
  case (Some x)
  then show ?thesis using assms(1) by (auto simp: ensure_one_def Let_def)
qed

text \<open>The check itself, in its two halves: what it derives and what it records.\<close>

definition derive_half ::
  "(vz_entry \<Rightarrow> string \<Rightarrow> (string, dep_config list) result) \<Rightarrow> string \<Rightarrow> string \<Rightarrow> vz_entry \<Rightarrow> vz_state \<Rightarrow>
   (string, vz_entry \<times> vz_state) result" where
  "derive_half derive m k e s =
     (if ve_dep_t e \<noteq> [] \<and> \<not> dict_has (ve_dep_configs e) k
      then rbind (derive e k) (\<lambda>ds.
        let e1 = e\<lparr>ve_dep_configs := AList.update k ds (ve_dep_configs e)\<rparr>
        in Inr (e1, s\<lparr>vs_seen := AList.update m e1 (vs_seen s),
             vs_disk := record_on_disk m e1
               (\<lambda>cur. cur\<lparr>ve_dep_configs := AList.update k ds (ve_dep_configs cur)\<rparr>) (vs_disk s)\<rparr>))
      else Inr (e, s))"

definition verdict_half ::
  "(string \<Rightarrow> string \<Rightarrow> string \<times> string \<times> string) \<Rightarrow> string \<Rightarrow> string \<Rightarrow> string \<Rightarrow> vz_entry \<Rightarrow> vz_state \<Rightarrow>
   vz_state \<times> vz_entry \<times> string option" where
  "verdict_half check tools m k e s =
     (if (m, k) \<in> set (vs_checked s) \<or> settled e k tools then (s, e, Some k)
      else (let e2 = record_verdict k (check m k) tools e
        in (s\<lparr>vs_seen := AList.update m e2 (vs_seen s), vs_checked := (m, k) # vs_checked s,
             vs_disk := record_on_disk m e2 (copy_verdict k e2) (vs_disk s)\<rparr>, e2, Some k)))"

lemma ensure_one_halves:
  assumes "map_of (vs_seen s) m = Some e" and "\<not> ungated e"
  shows "ensure_one derive check tools m k True redone s =
    rbind (derive_half derive m k e s) (\<lambda>(e1, s1). Inr (verdict_half check tools m k e1 s1))"
proof -
  have "\<not> (\<not> gated e \<or> ve_status e = ''unsupported'' \<or> ve_dep_u e \<noteq> [])" using assms(2) by (simp add: ungated_def)
  then show ?thesis using assms(1)
    by (simp add: ensure_one_def derive_half_def verdict_half_def Let_def if_distrib[of Inr] cong: if_cong)
qed

lemma keeps_derive:
  assumes m: "map_of (vs_seen s) m = Some e" and r: "derive_half derive m k e s = Inr (e1, s1)"
    and y: "\<And>ds. derive e k = Inr ds \<Longrightarrow> keyed_deps en ds"
  shows "keeps en s s1 \<and> map_of (vs_seen s1) m = Some e1 \<and> same_facts e e1"
proof (cases "ve_dep_t e \<noteq> [] \<and> \<not> dict_has (ve_dep_configs e) k")
  case True
  then obtain ds where ds: "derive e k = Inr ds" "e1 = e\<lparr>ve_dep_configs := AList.update k ds (ve_dep_configs e)\<rparr>"
    "vs_seen s1 = AList.update m e1 (vs_seen s)" "vs_checked s1 = vs_checked s"
    using r by (auto simp: derive_half_def rbind_Inr_iff Let_def)
  have f: "same_facts e e1" by (simp add: ds(2) same_facts_def)
  have "keeps en s s1"
  proof (rule keeps_replaced[OF m ds(3) _ f])
    show "keyed_entry en e \<Longrightarrow> keyed_entry en e1"
      using y[OF ds(1)] by (auto simp: keyed_entry_def ds(2) update_conv' split: if_split_asm)
    show "\<And>j x. map_of (ve_dep_configs e) j = Some x \<Longrightarrow> map_of (ve_dep_configs e1) j = Some x"
      using True by (auto simp: ds(2) update_conv' dict_has_def)
  qed (simp_all add: ds(2,4))
  then show ?thesis using f ds(3) by (simp add: update_conv')
next
  case False
  then have "e1 = e" "s1 = s" using r by (auto simp: derive_half_def)
  then show ?thesis using m by simp
qed

lemma keeps_verdict:
  assumes m: "map_of (vs_seen s) m = Some e" and g: "\<not> ungated e"
    and r: "verdict_half check (en_tools en) m k e s = (s', e', k')"
  shows "keeps en s s' \<and> k' = Some k \<and> fixed en s' m k \<and> map_of (vs_seen s') m = Some e' \<and> same_facts e e'"
proof (cases "(m, k) \<in> set (vs_checked s) \<or> settled e k (en_tools en)")
  case True
  then have "s' = s" "e' = e" "k' = Some k" using r by (auto simp: verdict_half_def)
  then show ?thesis using m True by (auto simp: fixed_def)
next
  case False
  then have s': "vs_seen s' = AList.update m e' (vs_seen s)" "vs_checked s' = (m, k) # vs_checked s"
    "e' = record_verdict k (check m k) (en_tools en) e" "k' = Some k"
    using r by (auto simp: verdict_half_def Let_def)
  have f: "same_facts e e'" by (simp add: s'(3) record_verdict_def same_facts_def split: prod.split)
  have n: "\<not> fixed en s m k" using False m g by (simp add: fixed_def)
  have "keeps en s s'"
  proof (rule keeps_replaced[OF m s'(1) _ f])
    show "\<And>j. fixed en s m j \<Longrightarrow> map_of (ve_equiv e') j = map_of (ve_equiv e) j \<and>
        map_of (ve_tools e') j = map_of (ve_tools e) j"
      using n by (auto simp: s'(3) record_verdict_def update_conv' split: prod.split)
  qed (auto simp: s'(2,3) keyed_entry_def record_verdict_def split: prod.split)
  then show ?thesis using s' f by (simp add: fixed_def update_conv')
qed

lemma keeps_check:
  assumes "map_of (vs_seen s) m = Some e" and "\<not> ungated e"
    and "ensure_one derive check (en_tools en) m k True redone s = Inr (s', e', k')"
    and "\<And>ds. derive e k = Inr ds \<Longrightarrow> keyed_deps en ds"
  shows "keeps en s s' \<and> k' = Some k \<and> fixed en s' m k \<and> map_of (vs_seen s') m = Some e'"
proof -
  obtain e1 s1 where 1: "derive_half derive m k e s = Inr (e1, s1)" "verdict_half check (en_tools en) m k e1 s1 = (s', e', k')"
    using assms(3) by (auto simp: ensure_one_halves[OF assms(1,2)] rbind_Inr_iff)
  note d = keeps_derive[OF assms(1) 1(1) assms(4)]
  have "\<not> ungated e1" using assms(2) ungated_same[of e e1] d by simp
  then show ?thesis using keeps_verdict[OF _ _ 1(2)] d keeps_trans by metis
qed

section \<open>The calls keep it\<close>

lemma ensure_call_cases:
  assumes k: "keyed_env en" and s': "ensure_call en m attrs chk s = (r, s')"
  shows "keeps en s s' \<and>
    (\<forall>k'. r = Inr k' \<longrightarrow> map_of (vs_seen s') m \<noteq> None \<and>
      (chk \<longrightarrow> (\<forall>key. en_key en m attrs = Inr key \<longrightarrow> fixed en s' m key)))"
proof (cases "if map_of (vs_seen s) m = None then en_redo en m (vs_disk s) else Inr []")
  case (Inl x)
  then show ?thesis using s' by (auto simp: ensure_call_def)
next
  case (Inr redone)
  obtain e s1 r1 where 1: "ensure_one (en_derive en m) (en_check en) (en_tools en) m [] False redone s = Inr (s1, e, r1)"
    by (cases "map_of (vs_seen s) m") (auto simp: ensure_one_def Let_def)
  have "map_of (vs_seen s) m = None \<Longrightarrow> map_of redone m = Some (the (map_of redone m)) \<and> keyed_entry en (the (map_of redone m))"
    using Inr k by (fastforce simp: keyed_env_def)
  from keeps_redo[OF 1 this] have s1: "keeps en s s1" "map_of (vs_seen s1) m = Some e" by auto
  show ?thesis
  proof (cases "\<not> chk \<or> ungated e")
    case True
    then have "s' = s1" using s' Inr 1 by (auto simp: ensure_call_def ungated_def)
    then show ?thesis using s1 True by (auto simp: fixed_def)
  next
    case False
    then have u: "\<not> ungated e" by simp
    show ?thesis
    proof (cases "en_key en m attrs")
      case (Inl x)
      then have "s' = s1" "r = Inl x" using s' Inr 1 False by (auto simp: ensure_call_def ungated_def)
      then show ?thesis using s1 by simp
    next
      case key: (Inr key)
      show ?thesis
      proof (cases "ensure_one (en_derive en m) (en_check en) (en_tools en) m key True [] s1")
        case (Inl t)
        then have "s' = s1" "r = Inl (xut_error t)" using s' \<open>(if _ then _ else _) = Inr redone\<close> 1 False key
          by (auto simp: ensure_call_def ungated_def)
        then show ?thesis using s1 by simp
      next
        case (Inr t)
        then obtain s2 e2 k2 where t: "ensure_one (en_derive en m) (en_check en) (en_tools en) m key True [] s1 = Inr (s2, e2, k2)"
          by (cases t) auto
        have "s' = s2" using s' \<open>(if _ then _ else _) = Inr redone\<close> 1 False key t
          by (auto simp: ensure_call_def ungated_def)
        then show ?thesis
          using keeps_check[OF s1(2) u t] k s1(1) key keeps_trans by (auto simp: keyed_env_def)
      qed
    qed
  qed
qed

lemma ensure_call_keeps: "keyed_env en \<Longrightarrow> preserves (keeps en) (ensure_call en m attrs chk)"
  using ensure_call_cases by (metis preserves_def prod.collapse)

lemma ensure_model_keeps: "keyed_env en \<Longrightarrow> preserves (keeps en) (ensure_model en n m attrs chk)"
proof (induction n arbitrary: m attrs chk)
  case (Suc n)
  have "preserves (keeps en) (\<lambda>s1. case k of None \<Rightarrow> (Inr (), s1)
      | Some key \<Rightarrow> each (\<lambda>d. ensure_model en n (dp_model d) (dep_attrs d) True) (deps_of (entry m s1) key) s1)" for k
    using kept.each[of en "\<lambda>d. ensure_model en n (dp_model d) (dep_attrs d) True"] Suc
    by (cases k) (auto simp: preserves_def)
  then show ?case using ensure_call_keeps[OF Suc.prems] by (simp add: kept.intros)
qed (simp add: kept.intros)

text \<open>A model this process has an entry for and whose verdict stands.\<close>

definition held :: "vz_env \<Rightarrow> vz_state \<Rightarrow> string \<Rightarrow> string \<Rightarrow> bool" where
  "held en s m k \<longleftrightarrow> map_of (vs_seen s) m \<noteq> None \<and> fixed en s m k"

lemma keepsD:
  assumes "keeps en s s'" and "map_of (vs_seen s) m = Some e"
  obtains e' where "map_of (vs_seen s') m = Some e'" and "same_facts e e'"
    and "\<And>k ds. map_of (ve_dep_configs e) k = Some ds \<Longrightarrow> map_of (ve_dep_configs e') k = Some ds"
    and "\<And>k. fixed en s m k \<Longrightarrow> fixed en s' m k \<and> map_of (ve_equiv e') k = map_of (ve_equiv e) k"
  using assms unfolding keeps_def entry_kept_def by blast

lemma held_keeps: "keeps en s s' \<Longrightarrow> held en s m k \<Longrightarrow> held en s' m k"
  by (auto simp: held_def elim!: keepsD)

lemma ensure_model_held:
  assumes "keyed_env en" and "ensure_model en n m attrs chk s = (Inr u, s')"
  shows "keeps en s s' \<and> map_of (vs_seen s') m \<noteq> None \<and>
    (chk \<longrightarrow> (\<forall>key. en_key en m attrs = Inr key \<longrightarrow> held en s' m key))"
proof (cases n)
  case (Suc n')
  then obtain k s1 where 1: "ensure_call en m attrs chk s = (Inr k, s1)"
    "(case k of None \<Rightarrow> (Inr (), s1)
      | Some key \<Rightarrow> each (\<lambda>d. ensure_model en n' (dp_model d) (dep_attrs d) True) (deps_of (entry m s1) key) s1) = (Inr u, s')"
    using assms(2) by (auto simp: sbind_Inr)
  have "preserves (keeps en) (each (\<lambda>d. ensure_model en n' (dp_model d) (dep_attrs d) True) ds)" for ds
    by (intro kept.intros ensure_model_keeps assms)
  then have 2: "keeps en s1 s'" using 1(2) by (cases k) (auto dest: preservesD)
  note c = ensure_call_cases[OF assms(1) 1(1)]
  obtain e where "map_of (vs_seen s1) m = Some e" using c by auto
  then have "map_of (vs_seen s') m \<noteq> None" using 2 by (auto elim: keepsD)
  then show ?thesis using c 2 held_keeps[OF 2] keeps_trans by (auto simp: held_def)
qed (use assms in simp)

lemma each_held:
  assumes "keyed_env en" and "each (\<lambda>d. ensure_model en n (dp_model d) (dep_attrs d) True) ds s = (Inr u, s')"
    and "keyed_deps en ds"
  shows "keeps en s s' \<and> (\<forall>d \<in> set ds. held en s' (dp_model d) (dp_key d))"
  using assms(2,3)
proof (induction ds arbitrary: s)
  case (Cons d ds)
  then obtain v s1 where 1: "ensure_model en n (dp_model d) (dep_attrs d) True s = (Inr v, s1)"
    "each (\<lambda>d. ensure_model en n (dp_model d) (dep_attrs d) True) ds s1 = (Inr u, s')"
    by (auto simp: sbind_Inr)
  note h = ensure_model_held[OF assms(1) 1(1)]
  have i: "keeps en s1 s' \<and> (\<forall>d \<in> set ds. held en s' (dp_model d) (dp_key d))"
    using Cons.IH[OF 1(2)] Cons.prems(2) by (simp add: keyed_deps_def)
  have "en_key en (dp_model d) (dep_attrs d) = Inr (dp_key d)" using Cons.prems(2) by (simp add: keyed_deps_def)
  then have "held en s1 (dp_model d) (dp_key d)" using h by blast
  then have "held en s' (dp_model d) (dp_key d)" using i by (blast intro: held_keeps)
  moreover have "keeps en s s'" using h i by (blast intro: keeps_trans)
  ultimately show ?case using i by simp
qed simp

section \<open>An open gate\<close>

definition supported :: "vz_state \<Rightarrow> string \<Rightarrow> bool" where
  "supported s m \<longleftrightarrow>
     (case map_of (vs_seen s) m of None \<Rightarrow> False | Some e \<Rightarrow> ve_status e \<noteq> ''unsupported'' \<and> ve_dep_u e = [])"

lemma supported_keeps: "keeps en s s' \<Longrightarrow> supported s m \<Longrightarrow> supported s' m"
  by (auto simp: supported_def same_facts_def split: option.splits elim!: keepsD)

lemma entry_facts: "keeps en s s' \<Longrightarrow> map_of (vs_seen s) m \<noteq> None \<Longrightarrow>
  gated (entry m s') = gated (entry m s) \<and> rewritten (entry m s') = rewritten (entry m s)"
  by (auto simp: entry_def same_facts_def gated_def rewritten_def elim!: keepsD)

text \<open>A gated model that is proved, with what the proof rests on held.\<close>

definition proved_now :: "vz_state \<Rightarrow> string \<Rightarrow> string \<Rightarrow> bool" where
  "proved_now s m key \<longleftrightarrow> proved_model (entry m s) key (map_of (vs_seen s))"

definition standing :: "vz_env \<Rightarrow> vz_state \<Rightarrow> string \<Rightarrow> string \<Rightarrow> bool" where
  "standing en s m key \<longleftrightarrow>
     proved_now s m key \<and> held en s m key \<and>
     (ve_dep_t (entry m s) \<noteq> [] \<longrightarrow> (\<forall>d \<in> set (deps_of (entry m s) key). held en s (dp_model d) (dp_key d)))"

lemma standing_keeps:
  assumes k: "keeps en s s'" and st: "standing en s m key"
  shows "standing en s' m key"
proof -
  obtain e where e: "map_of (vs_seen s) m = Some e" using st by (auto simp: standing_def held_def)
  obtain e' where e': "map_of (vs_seen s') m = Some e'" "same_facts e e'"
    "\<And>k ds. map_of (ve_dep_configs e) k = Some ds \<Longrightarrow> map_of (ve_dep_configs e') k = Some ds"
    "\<And>k. fixed en s m k \<Longrightarrow> fixed en s' m k \<and> map_of (ve_equiv e') k = map_of (ve_equiv e) k"
    using keepsD[OF k e] by blast
  have own: "map_of (ve_equiv e') key = Some ''pass''"
    using st e e'(4)[of key] by (simp add: standing_def proved_now_def proved_model_def held_def entry_def)
  have deps: "\<exists>ds. map_of (ve_dep_configs e') key = Some ds \<and> (\<forall>d \<in> set ds. held en s' (dp_model d) (dp_key d) \<and>
      (\<exists>c. map_of (vs_seen s') (dp_model d) = Some c \<and> map_of (ve_equiv c) (dp_key d) = Some ''pass''))"
    if t: "ve_dep_t e' \<noteq> []"
  proof -
    have te: "ve_dep_t e \<noteq> []" using t e'(2) by (simp add: same_facts_def)
    then obtain ds where ds: "map_of (ve_dep_configs e) key = Some ds"
      "\<forall>d \<in> set ds. \<exists>c. map_of (vs_seen s) (dp_model d) = Some c \<and> map_of (ve_equiv c) (dp_key d) = Some ''pass''"
      using st e by (auto simp: standing_def proved_now_def proved_model_def entry_def)
    have h: "\<forall>d \<in> set ds. held en s (dp_model d) (dp_key d)"
      using st e te ds(1) by (simp add: standing_def entry_def deps_of_def)
    have "\<exists>c. map_of (vs_seen s') (dp_model d) = Some c \<and> map_of (ve_equiv c) (dp_key d) = Some ''pass''" if "d \<in> set ds" for d
      using ds(2) h that by (metis held_def keepsD[OF k])
    then show ?thesis using e'(3)[OF ds(1)] h held_keeps[OF k] by blast
  qed
  show ?thesis
    using own deps held_keeps[OF k, of m key] st e'(1)
    by (auto simp: standing_def proved_now_def proved_model_def entry_def deps_of_def)
qed

lemma verdict_of_keeps: "keyed_env en \<Longrightarrow> preserves (keeps en) (verdict_of en n m attrs)"
  unfolding verdict_of_def Let_def
  by (rule kept.bind[OF ensure_model_keeps kept.bind[OF kept.lift kept.reads]])
    (auto intro!: kept.intros ensure_model_keeps)

lemma deps_of_mem: "d \<in> set (deps_of e k) \<Longrightarrow> \<exists>ds. map_of (ve_dep_configs e) k = Some ds \<and> d \<in> set ds"
  by (cases "map_of (ve_dep_configs e) k") (auto simp: deps_of_def)

text \<open>A verdict that lets a model through leaves it supported and, when gated, proved.\<close>

lemma verdict_of_open:
  assumes en: "keyed_env en" and y: "keyed en s" and v: "verdict_of en n m attrs s = (Inr None, s')"
  shows "keeps en s s' \<and> supported s' m \<and>
    (\<exists>key. en_key en m attrs = Inr key \<and> (gated (entry m s') \<longrightarrow> standing en s' m key))"
proof -
  obtain u s1 key where 1: "ensure_model en n m attrs True s = (Inr u, s1)" "en_key en m attrs = Inr key"
    "sbind (each (\<lambda>d. ensure_model en n (dp_model d) (dep_attrs d) True) (deps_of (entry m s1) key))
       (\<lambda>_ s2. (Inr (blocked (entry m s2) m key
          (\<lambda>x. if x \<in> set (map dp_model (deps_of (entry m s1) key)) then Some (entry x s2) else None)), s2)) s1 = (Inr None, s')"
    using v by (auto simp: verdict_of_def sbind_Inr Let_def)
  let ?ds = "deps_of (entry m s1) key" and ?look = "\<lambda>x. if x \<in> set (map dp_model (deps_of (entry m s1) key)) then Some (entry x s') else None"
  obtain w where 2: "each (\<lambda>d. ensure_model en n (dp_model d) (dep_attrs d) True) ?ds s1 = (Inr w, s')"
    and b: "blocked (entry m s') m key ?look = None"
    using 1(3) by (auto simp: sbind_Inr)
  note h1 = ensure_model_held[OF en 1(1)]
  then obtain e1 where e1: "map_of (vs_seen s1) m = Some e1" by auto
  have "keyed en s1" using h1 y by (simp add: keeps_def)
  then have "keyed_entry en e1" using e1 by (auto simp: keyed_def)
  then have kd: "keyed_deps en ?ds"
    using e1 by (cases "map_of (ve_dep_configs e1) key") (auto simp: keyed_entry_def deps_of_def entry_def keyed_deps_def)
  note h2 = each_held[OF en 2 kd]
  obtain e2 where e2: "map_of (vs_seen s') m = Some e2"
    "\<And>ds. map_of (ve_dep_configs e1) key = Some ds \<Longrightarrow> map_of (ve_dep_configs e2) key = Some ds"
    using keepsD[OF conjunct1[OF h2] e1] by metis
  have b': "blocked e2 m key ?look = None" using b e2(1) by (simp add: entry_def)
  have sup: "supported s' m" using b' e2(1) by (auto simp: blocked_None_iff supported_def)
  have "standing en s' m key" if g: "gated e2"
  proof -
    have p: "proved_model e2 key ?look" using b' g by (simp add: blocked_None_iff)
    have same: "ds = ?ds" if d: "map_of (ve_dep_configs e2) key = Some ds" "d \<in> set ds" "ve_dep_t e2 \<noteq> []" for d ds
    proof -
      have "\<exists>c. ?look (dp_model d) = Some c" using p d unfolding proved_model_def by fastforce
      then have "?ds \<noteq> []" by auto
      then obtain x where "map_of (ve_dep_configs e1) key = Some x" "x = ?ds"
        using e1 by (cases "map_of (ve_dep_configs e1) key") (auto simp: deps_of_def entry_def)
      then show ?thesis using e2(2) d(1) by simp
    qed
    have seen: "?look x = Some c \<Longrightarrow> map_of (vs_seen s') x = Some c" for x c
      using h2 by (auto simp: entry_def held_def split: if_splits)
    have "proved_model e2 key (map_of (vs_seen s'))"
      using p seen unfolding proved_model_def by blast
    moreover have "held en s' (dp_model d) (dp_key d)" if t: "ve_dep_t e2 \<noteq> []" and i: "d \<in> set (deps_of e2 key)" for d
    proof -
      obtain ds where ds: "map_of (ve_dep_configs e2) key = Some ds" "d \<in> set ds"
        using deps_of_mem[OF i] by blast
      then show ?thesis using same[OF ds t] h2 by auto
    qed
    ultimately show ?thesis
      using e2(1) h1 1(2) held_keeps[OF conjunct1[OF h2]] by (auto simp: standing_def proved_now_def entry_def)
  qed
  then show ?thesis using sup 1(2) h1 h2 e2(1) keeps_trans by (auto simp: entry_def)
qed

lemma refuse_models_keeps: "keyed_env en \<Longrightarrow> preserves (keeps en) (refuse_models en n verdicts ms)"
proof (induction ms)
  case (Cons m ms)
  have "preserves (keeps en) (\<lambda>s1. case refused (entry m s1) m of
      Some why \<Rightarrow> (Inr (Some (refusal (entry m s1) why verdicts)), s1) | None \<Rightarrow> refuse_models en n verdicts ms s1)"
    using Cons by (auto simp: preserves_def split: option.split)
  then show ?case using kept.bind[OF ensure_model_keeps[OF Cons.prems]] by simp
qed (simp add: kept.ret)

lemma refuse_models_open:
  assumes "keyed_env en" and "refuse_models en n verdicts ms s = (Inr None, s')"
  shows "keeps en s s' \<and> (\<forall>m \<in> set ms. supported s' m)"
  using assms(2)
proof (induction ms arbitrary: s)
  case (Cons m ms)
  then obtain u s1 where 1: "ensure_model en n m [] False s = (Inr u, s1)" "refused (entry m s1) m = None"
    "refuse_models en n verdicts ms s1 = (Inr None, s')"
    by (auto simp: sbind_Inr split: option.splits)
  note h = ensure_model_held[OF assms(1) 1(1)]
  have "supported s1 m" using h 1(2) by (auto simp: supported_def entry_def refused_None)
  then show ?case using Cons.IH[OF 1(3)] h supported_keeps keeps_trans by (metis set_ConsD)
qed simp

lemma gate_insts_open:
  assumes "keyed_env en" and "keyed en s" and "gate_insts en n True is s = (Inr None, s')"
  shows "keeps en s s' \<and>
    (\<forall>i \<in> set is. \<exists>key. en_key en (si_model i) (si_attrs i) = Inr key \<and>
      (gated (entry (si_model i) s') \<longrightarrow> standing en s' (si_model i) key))"
  using assms(2,3)
proof (induction "is" arbitrary: s)
  case (Cons i js)
  then obtain s1 where 1: "verdict_of en n (si_model i) (si_attrs i) s = (Inr None, s1)"
    "gate_insts en n True js s1 = (Inr None, s')"
    by (auto simp: sbind_Inr split: if_split_asm)
  note v = verdict_of_open[OF assms(1) Cons.prems(1) 1(1)]
  have y: "keyed en s1" using v Cons.prems(1) by (simp add: keeps_def)
  note r = Cons.IH[OF y 1(2)]
  have "map_of (vs_seen s1) (si_model i) \<noteq> None" using v by (auto simp: supported_def split: option.splits)
  then have "gated (entry (si_model i) s') = gated (entry (si_model i) s1)" using r entry_facts by blast
  then have "\<exists>key. en_key en (si_model i) (si_attrs i) = Inr key \<and>
      (gated (entry (si_model i) s') \<longrightarrow> standing en s' (si_model i) key)"
    using v r standing_keeps by metis
  moreover have "keeps en s s'" using v r by (blast intro: keeps_trans)
  ultimately show ?case using r by simp
qed simp

lemma floating_inst_None:
  "floating_inst s is = None \<longleftrightarrow>
     (\<forall>i \<in> set is. \<not> si_nested i \<and> rewritten (entry (si_model i) s) \<longrightarrow>
        si_undriven i = [] \<and> si_zdriven i = [] \<and> si_floating i = [])"
  by (induction "is") auto

text \<open>Every model instance of an sv testbench, as the gate leaves it.\<close>

definition instance_open :: "vz_env \<Rightarrow> gate_case \<Rightarrow> vz_state \<Rightarrow> sv_instance \<Rightarrow> bool" where
  "instance_open en g s i \<longleftrightarrow>
     supported s (si_model i) \<and>
     (gated (entry (si_model i) s) \<longrightarrow> cx_defines (gc_ctx g) = [] \<and>
        (\<exists>key. en_key en (si_model i) (si_attrs i) = Inr key \<and> proved_now s (si_model i) key)) \<and>
     (rewritten (entry (si_model i) s) \<and> \<not> si_nested i \<longrightarrow>
        si_undriven i = [] \<and> si_zdriven i = [] \<and> si_floating i = [])"

lemma gate_sv_open:
  assumes en: "keyed_env en" and y: "keyed en s" and g: "gate_sv en n g True pg s = (Inr None, s')"
  shows "keeps en s s' \<and> (\<exists>is. gc_sv_instances g pg = Inr is \<and> (\<forall>i \<in> set is. instance_open en g s' i))"
proof -
  obtain ms s1 "is" s2 where 1: "gc_sv_models g = Inr ms" "refuse_models en n True ms s = (Inr None, s1)"
    "gc_sv_instances g pg = Inr is"
    "refuse_models en n True (sort (filter (\<lambda>m. m \<notin> set ms) (dedup (map si_model is)))) s1 = (Inr None, s2)"
    and 2: "(let gs = filter (\<lambda>i. gated (entry (si_model i) s2)) is
      in sbind (if gs = [] then ret () else lift_res (defines_guard (gc_ctx g) (join '', '' (sort (dedup (map si_model gs)))))) (\<lambda>_.
         sbind (gate_insts en n True gs) (\<lambda>r3 s3.
         if r3 \<noteq> None then (Inr r3, s3) else (Inr (floating_inst s3 is), s3))) s2) = (Inr None, s')"
    using g by (auto simp: gate_sv_def sbind_Inr simp del: not_None_eq split: if_split_asm)
  let ?gs = "filter (\<lambda>i. gated (entry (si_model i) s2)) is"
  have 3: "?gs \<noteq> [] \<Longrightarrow> cx_defines (gc_ctx g) = []" "gate_insts en n True ?gs s2 = (Inr None, s')" "floating_inst s' is = None"
    using 2 by (auto simp: Let_def sbind_Inr defines_guard_def simp del: not_None_eq split: if_split_asm)
  note r1 = refuse_models_open[OF en 1(2)] and r2 = refuse_models_open[OF en 1(4)]
  have "keyed en s2" using r1 r2 y by (simp add: keeps_def)
  note gi = gate_insts_open[OF en this 3(2)]
  have sup2: "supported s2 (si_model i)" if "i \<in> set is" for i
    using that r1 r2 supported_keeps by (cases "si_model i \<in> set ms") auto
  have same: "gated (entry (si_model i) s') = gated (entry (si_model i) s2)" if "i \<in> set is" for i
    using entry_facts[OF conjunct1[OF gi], of "si_model i"] sup2[OF that] by (auto simp: supported_def split: option.splits)
  have "instance_open en g s' i" if i: "i \<in> set is" for i
  proof -
    have "supported s' (si_model i)" using sup2[OF i] gi supported_keeps by blast
    moreover have "cx_defines (gc_ctx g) = [] \<and> (\<exists>key. en_key en (si_model i) (si_attrs i) = Inr key \<and> proved_now s' (si_model i) key)"
      if "gated (entry (si_model i) s')"
    proof -
      have "i \<in> set ?gs" using i that same[OF i] by simp
      then have "?gs \<noteq> []" by force
      then show ?thesis using 3(1) gi \<open>i \<in> set ?gs\<close> that by (meson standing_def)
    qed
    ultimately show ?thesis using 3(3) i by (auto simp: instance_open_def floating_inst_None)
  qed
  then show ?thesis using r1 r2 gi 1(3) by (blast intro: keeps_trans)
qed

text \<open>
  What an open gate has established: a vector or cocotb primitive is supported with its whole
  hierarchy and, if anything in it is transformed, proved for the attributes of the configuration
  together with every transformed descendant as parameterised there, under no defines and, where
  z-comparisons were rewritten, with every input driven; for an sv test the same holds of every model
  instance of the elaborated testbench.
\<close>

definition gate_evidence :: "texts \<Rightarrow> (string \<Rightarrow> string option) \<Rightarrow> vz_env \<Rightarrow> gate_case \<Rightarrow> bool \<Rightarrow> vz_state \<Rightarrow> bool" where
  "gate_evidence tx fl en g reject s \<longleftrightarrow>
     (let m = tc_prim (gc_case g); e = entry m s in
      supported s m \<and>
      (if tc_style (gc_case g) = ''sv''
       then \<exists>is. gc_sv_instances g (gated e) = Inr is \<and> (\<forall>i \<in> set is. instance_open en g s i)
       else gated e \<longrightarrow>
         cx_defines (gc_ctx g) = [] \<and>
         (\<exists>attrs key. gate_attrs tx g reject = Inr attrs \<and> en_key en m attrs = Inr key \<and> proved_now s m key) \<and>
         (rewritten e \<longrightarrow> undriven tx fl en g = Inr None)))"

theorem gate_open:
  assumes "keyed_env en" and "keyed en s" and "gate_config tx fl en n g True reject s = (Inr None, s')"
  shows "gate_evidence tx fl en g reject s'"
proof -
  let ?m = "tc_prim (gc_case g)"
  obtain u s1 where 1: "ensure_model en n ?m [] False s = (Inr u, s1)" and r: "refused (entry ?m s1) ?m = None"
    and rest: "(if tc_style (gc_case g) = ''sv'' then gate_sv en n g True (gated (entry ?m s1)) s1
       else if \<not> gated (entry ?m s1) then (Inr None, s1)
       else sbind (lift_res (defines_guard (gc_ctx g) ?m)) (\<lambda>_.
            sbind (lift_res (gate_attrs tx g reject)) (\<lambda>attrs.
            sbind (verdict_of en n ?m attrs) (\<lambda>why s2.
            if why \<noteq> None \<and> True then (Inr (Some (''error'', the why)), s2)
            else if \<not> rewritten (entry ?m s2) then (Inr None, s2)
            else sbind (lift_res (undriven tx fl en g)) (\<lambda>u. ret (map_option (Pair ''error'') u)) s2))) s1) = (Inr None, s')"
    using assms(3) unfolding gate_config_def catch_user_def
    by (auto simp: sbind_Inr Let_def simp del: not_None_eq split: prod.splits sum.splits option.splits if_split_asm)
  note h = ensure_model_held[OF assms(1) 1]
  have y: "keyed en s1" using h assms(2) by (simp add: keeps_def)
  have sup: "supported s1 ?m" using h r by (auto simp: supported_def entry_def refused_None)
  show ?thesis
  proof (cases "tc_style (gc_case g) = ''sv''")
    case True
    then have gs: "gate_sv en n g True (gated (entry ?m s1)) s1 = (Inr None, s')" using rest by simp
    note o = gate_sv_open[OF assms(1) y gs]
    have "gated (entry ?m s') = gated (entry ?m s1)" using o h entry_facts by blast
    moreover have "supported s' ?m" using o sup supported_keeps by blast
    ultimately show ?thesis using True o by (simp add: gate_evidence_def)
  next
    case sv: False
    show ?thesis
    proof (cases "gated (entry ?m s1)")
      case True
      obtain attrs where a: "cx_defines (gc_ctx g) = []" "gate_attrs tx g reject = Inr attrs"
        "verdict_of en n ?m attrs s1 = (Inr None, s')"
        "rewritten (entry ?m s') \<longrightarrow> undriven tx fl en g = Inr None"
        using rest sv True
        by (auto simp: sbind_Inr defines_guard_def simp del: not_None_eq split: if_split_asm)
      note v = verdict_of_open[OF assms(1) y a(3)]
      then show ?thesis using sv a by (auto simp: standing_def gate_evidence_def)
    next
      case False
      then show ?thesis using rest sv sup by (simp add: gate_evidence_def)
    qed
  qed
qed

section \<open>An example\<close>

text \<open>TOP is unchanged but wraps KID, which is transformed and instantiated with A = 1.\<close>

definition env_example :: vz_env where
  "env_example =
     \<lparr>en_key = (\<lambda>m attrs. Inr (if attrs = [] then ''default'' else ''A=1'')),
      en_derive = (\<lambda>m e k. Inr [\<lparr>dp_model = ''KID'', dp_attrs = [(''A'', ''1'')], dp_key = ''A=1''\<rparr>]),
      en_check = (\<lambda>m k. (''pass'', ''iverilog'', [])), en_tools = ''icarus'',
      en_redo = (\<lambda>m disk. Inr [(m, if m = ''TOP'' then (entry_example ''unchanged'' [''KID''])\<lparr>ve_dep_t := [''KID'']\<rparr>
                                  else entry_example ''transformed'' [])]),
      en_module = (\<lambda>m. \<lparr>hm_name = m, hm_ports = [], hm_params = []\<rparr>)\<rparr>"

definition gate_example :: gate_case where
  "gate_example =
     \<lparr>gc_case = run_case_example\<lparr>tc_prim := ''TOP'', tc_style := ''cocotb''\<rparr>, gc_cfg = ''default'',
      gc_ctx = context_example, gc_python = \<lparr>py_configs = None, py_result = Inl ''none'', py_cfg = (\<lambda>_. None)\<rparr>,
      gc_attrs = [], gc_entry = Inl (xut_error ''none''), gc_sv_models = Inr [], gc_sv_instances = (\<lambda>_. Inr [])\<rparr>"

definition start_example :: vz_state where
  "start_example = \<lparr>vs_disk = [], vs_seen = [], vs_checked = []\<rparr>"

lemma gate_run_example:
  "case gate_config texts_example (\<lambda>_. None) env_example 3 gate_example True False start_example of
     (r, s) \<Rightarrow> r = Inr None \<and> set (vs_checked s) = {(''TOP'', ''default''), (''KID'', ''A=1'')} \<and> gated (entry ''TOP'' s)"
  by code_simp

lemma env_example_keyed: "keyed_env env_example" "keyed env_example start_example"
  by (auto simp: keyed_env_def env_example_def keyed_deps_def dep_attrs_def keyed_entry_def entry_example_def
      keyed_def start_example_def)

end
