(* ===== verification/Verilator_Runner.thy ===== *)
theory Verilator_Runner
  imports Model_Gate
begin

text \<open>
  The Verilator and the iverilog-vz runner of \<open>tools/xut/runners/verilator.py\<close>: the two X seeds, the
  build verdict, one configuration of each style behind the model gate, and what \<open>finish\<close> records.
  What the tools print and write is the record \<open>vz_tools\<close>. The configuration's result comes with the
  text of \<open>trace.xtr\<close> and the x-dependence recorded in \<open>xdep.json\<close>, if they were written.
\<close>

section \<open>Seeds and build failures\<close>

definition or_int :: "int \<Rightarrow> int \<Rightarrow> int" where
  "or_int a b = (if a = 0 then b else a)"

definition x_seeds :: "int \<Rightarrow> int \<times> int" where
  "x_seeds seed = (or_int ((2 * seed + 1) mod 2 ^ 31) 1, or_int ((2 * seed + 2) mod 2 ^ 31) 2)"

definition X_STIMULUS :: string where
  "X_STIMULUS = ''2-state simulator cannot apply x stimulus''"

definition TRISTATE :: string where
  "TRISTATE = ''tristate in top-level IO''"

definition TRISTATE_WHY :: string where
  "TRISTATE_WHY = '' (inherent: Verilator 5.048 turns an input port that the model compares with z, e.g. `CE === 1'' @
     [SQ] @ ''bz`, into a tristate, which it supports only on the top module; not caused by the testbench or the transform; see xut.runners.verilator)''"

definition build_failure :: "string \<Rightarrow> string" where
  "build_failure out =
     (let errors = map strip (filter (\<lambda>l. starts_with ''%Error'' (lstrip l)) (splitlines out))
      in ''compile failed: '' @ (if errors \<noteq> [] then take 300 (hd errors) else ''no %Error line (see build.log)'') @
         (if list_ex (contains TRISTATE) errors then TRISTATE_WHY else []))"

section \<open>Joining the two runs\<close>

definition seed_reason :: "int \<Rightarrow> string \<Rightarrow> string" where
  "seed_reason s why = ''X seed '' @ show_int s @ '': '' @ why"

definition pair_results :: "config_result \<Rightarrow> config_result \<Rightarrow> int \<Rightarrow> config_result" where
  "pair_results a b s2 =
     (if worst [cr_status a, cr_status b] = cr_status a then a
      else (let why = seed_reason s2 (or_else (cr_reason b) (cr_status b))
            in a\<lparr>cr_status := cr_status b,
                 cr_reason := Some (case cr_reason a of Some r \<Rightarrow> if r = [] then why else r @ ''; '' @ why | None \<Rightarrow> why)\<rparr>))"

record vz_output =
  vo_result :: config_result
  vo_trace :: "string option"
  vo_xdep :: "bool option"

definition plain_output :: "config_result \<Rightarrow> vz_output" where
  "plain_output r = \<lparr>vo_result = r, vo_trace = None, vo_xdep = None\<rparr>"

definition error_output :: "string \<Rightarrow> string \<Rightarrow> vz_output" where
  "error_output cfg why = plain_output (new_config cfg ''error'' (Some why))"

definition xdep :: "trace \<Rightarrow> trace \<Rightarrow> bool" where
  "xdep a b \<longleftrightarrow> diff a b True True \<noteq> []"

text \<open>The two traces read back; a trace that is not there raises \<open>OSError\<close>.\<close>

definition missing_file :: exn where
  "missing_file = \<lparr>ex_user = False, ex_type = ''FileNotFoundError'', ex_text = ''No such file or directory''\<rparr>"

definition load_two :: "texts \<Rightarrow> string option \<Rightarrow> string option \<Rightarrow> (string, trace \<times> trace) result" where
  "load_two tx a b =
     (let one = (\<lambda>f. case f of None \<Rightarrow> Inl (ex_text missing_file) | Some u \<Rightarrow> map_sum (tx_xtr tx) id (xtr_loads u))
      in rbind (one a) (\<lambda>ta. rbind (one b) (\<lambda>tb. Inr (ta, tb))))"

definition joined :: "texts \<Rightarrow> string \<Rightarrow> int \<times> int \<Rightarrow> (config_result \<times> string option) \<Rightarrow> (config_result \<times> string option) \<Rightarrow> vz_output" where
  "joined tx cfg seeds = (\<lambda>(r1, t1) (r2, t2).
     case load_two tx t1 t2 of
       Inl why \<Rightarrow> (error_output cfg (''malformed trace.xtr: '' @ why))\<lparr>vo_trace := t1\<rparr>
     | Inr (a, b) \<Rightarrow> \<lparr>vo_result = pair_results r1 r2 (snd seeds), vo_trace = t1, vo_xdep = Some (xdep a b)\<rparr>)"

text \<open>\<open>_seeds_done\<close>: the traces are compared only when both were written.\<close>

definition seeds_done :: "texts \<Rightarrow> string \<Rightarrow> int \<times> int \<Rightarrow> (config_result \<times> string option) \<Rightarrow> (config_result \<times> string option) \<Rightarrow> vz_output" where
  "seeds_done tx cfg seeds a b =
     (if snd a \<noteq> None \<and> snd b \<noteq> None then joined tx cfg seeds a b
      else \<lparr>vo_result = pair_results (fst a) (fst b) (snd seeds), vo_trace = snd a, vo_xdep = None\<rparr>)"

section \<open>One configuration\<close>

text \<open>
  What the tools leave: the verdict and output of the build; per X seed the exit code and output of
  the binary, \<open>raw.txt\<close> and \<open>trace.body\<close>; per X seed the exit code of the cocotb launcher and its directory.
\<close>

record seed_run =
  sr_rc :: int
  sr_text :: string
  sr_raw :: "string option"
  sr_body :: "string option"

record vz_tools =
  vt_build :: "bool \<times> string"
  vt_run :: "int \<Rightarrow> seed_run"
  vt_cocotb :: "int \<Rightarrow> int \<times> cocotb_dir"

definition sr_outcome :: "string \<Rightarrow> seed_run \<Rightarrow> sim_outcome" where
  "sr_outcome ctext u = \<lparr>so_compiled = True, so_compile_text = ctext, so_rc = Some (sr_rc u), so_run_text = sr_text u\<rparr>"

text \<open>\<open>_x_inputs\<close>.\<close>

definition x_inputs :: "texts \<Rightarrow> gate_case \<Rightarrow> (exn, bool) result" where
  "x_inputs tx g =
     (case py_cfg (gc_python g) (gc_cfg g) of
        None \<Rightarrow> Inr False
      | Some vd \<Rightarrow>
          rbind (raise_as True ''WrapError'' (tx_wrap tx) (from_json (vd_map vd))) (\<lambda>m.
          rbind (raise_as True ''XvecError'' (tx_xvec tx) (loads (vd_stim vd))) (\<lambda>v.
          rbind (raise_as False ''KeyError'' (\<lambda>_. []) (validate v m DEFAULT_GAP_PS)) (\<lambda>r. Inr (r_x r)))))"

definition stim_text :: "gate_case \<Rightarrow> string" where
  "stim_text g = (case py_cfg (gc_python g) (gc_cfg g) of Some vd \<Rightarrow> vd_stim vd | None \<Rightarrow> [])"

text \<open>The runs of a vector configuration that was built: the first bad outcome, or both checks.\<close>

definition vector_runs ::
  "texts \<Rightarrow> (string \<Rightarrow> string) \<Rightarrow> gate_case \<Rightarrow> vz_tools \<Rightarrow> int \<times> int \<Rightarrow> dut_map \<Rightarrow> compiled \<Rightarrow> trace \<Rightarrow>
   (string, string) dict \<Rightarrow> (exn, vz_output) result" where
  "vector_runs tx sha g vt seeds m cw expected header =
     (let u1 = vt_run vt (fst seeds); u2 = vt_run vt (snd seeds); ctext = snd (vt_build vt);
          bad = (\<lambda>s r. Inr (plain_output (r\<lparr>cr_reason := Some (seed_reason s (opt_text (cr_reason r)))\<rparr>)))
      in case classify_run (gc_cfg g) (sr_outcome ctext u1) True of
           Some r \<Rightarrow> bad (fst seeds) r
         | None \<Rightarrow>
             (case classify_run (gc_cfg g) (sr_outcome ctext u2) True of
                Some r \<Rightarrow> bad (snd seeds) r
              | None \<Rightarrow>
                  if sr_raw u1 = None then Inl missing_file
                  else rbind (vector_check tx sha m (c_labels cw) expected header False (stim_text g) (sr_raw u1) (sr_text u1)) (\<lambda>a.
                       rbind (vector_check tx sha m (c_labels cw) expected header False (stim_text g) (sr_raw u2) (sr_text u2)) (\<lambda>b.
                       Inr (joined tx (gc_cfg g) seeds a b)))))"

definition verilator_reject ::
  "texts \<Rightarrow> (string \<Rightarrow> string) \<Rightarrow> gate_case \<Rightarrow> vz_tools \<Rightarrow> int \<times> int \<Rightarrow> vec \<Rightarrow> (string, string) dict \<Rightarrow> (exn, vz_output) result" where
  "verilator_reject tx sha g vt seeds v header =
     (let (ok, ctext) = vt_build vt; u = vt_run vt (fst seeds);
          out = \<lparr>so_compiled = ok, so_compile_text = ctext, so_rc = (if ok then Some (sr_rc u) else None),
                 so_run_text = (if ok then sr_text u else [])\<rparr>
      in rbind (raise_as True ''XtrError'' (tx_xtr tx) (reject_check sha (stim_text g) out (illegal_of v) header)) (\<lambda>(r, t).
         Inr \<lparr>vo_result = r, vo_trace = Some t, vo_xdep = None\<rparr>))"

definition verilator_vector ::
  "texts \<Rightarrow> (string \<Rightarrow> string option) \<Rightarrow> (string \<Rightarrow> string) \<Rightarrow> vz_env \<Rightarrow> nat \<Rightarrow> gate_case \<Rightarrow> vz_tools \<Rightarrow> int \<times> int \<Rightarrow>
   (vz_state, vz_output) call" where
  "verilator_vector tx fl sha en n g vt seeds =
     sbind (lift_res (x_inputs tx g)) (\<lambda>x.
     if x then ret (error_output (gc_cfg g) X_STIMULUS) else
     sbind (lift_res (prepare_vector tx (gc_python g) (gc_case g) (gc_cfg g) (gc_ctx g) ''verilator'')) (\<lambda>(v, m, cw, expected, header).
     let reject = (vec_expect v = Some ''reject'') in
     sbind (gate_config tx fl en n g True reject) (\<lambda>why.
     lift_res
       (case why of
          Some w \<Rightarrow> Inr (error_output (gc_cfg g) (snd w))
        | None \<Rightarrow>
            if reject then verilator_reject tx sha g vt seeds v header
            else if \<not> fst (vt_build vt) then Inr (error_output (gc_cfg g) (build_failure (snd (vt_build vt))))
            else vector_runs tx sha g vt seeds m cw expected header))))"

definition test_trace_header :: "gate_case \<Rightarrow> int \<Rightarrow> (string, string) dict" where
  "test_trace_header g seed =
     trace_header ''verilator'' (gc_case g) (gc_cfg g) (gc_ctx g) @ [(''seed'', show_int seed)]"

definition sv_one :: "texts \<Rightarrow> (string \<Rightarrow> string) \<Rightarrow> gate_case \<Rightarrow> vz_tools \<Rightarrow> (string, string) dict \<Rightarrow> int \<Rightarrow>
   (exn, config_result \<times> string option) result" where
  "sv_one tx sha g vt header s =
     (case classify_run (gc_cfg g) (sr_outcome (snd (vt_build vt)) (vt_run vt s)) False of
        Some r \<Rightarrow> Inr (r, None)
      | None \<Rightarrow> sv_check tx sha (sr_body (vt_run vt s)) (sr_text (vt_run vt s)) header)"

definition verilator_sv ::
  "texts \<Rightarrow> (string \<Rightarrow> string) \<Rightarrow> gate_case \<Rightarrow> vz_tools \<Rightarrow> int \<Rightarrow> int \<times> int \<Rightarrow> (exn, vz_output) result" where
  "verilator_sv tx sha g vt seed seeds =
     rbind (rmap (\<lambda>(k, v). param_value k v) (gc_attrs g)) (\<lambda>_.
     rbind (sv_seed_define seed) (\<lambda>_.
     if \<not> fst (vt_build vt) then Inr (error_output (gc_cfg g) (build_failure (snd (vt_build vt)))) else
     rbind (sv_one tx sha g vt (test_trace_header g seed) (fst seeds)) (\<lambda>a.
     rbind (sv_one tx sha g vt (test_trace_header g seed) (snd seeds)) (\<lambda>b.
       Inr (seeds_done tx (gc_cfg g) seeds a b)))))"

definition cocotb_one :: "texts \<Rightarrow> (string \<Rightarrow> string) \<Rightarrow> gate_case \<Rightarrow> vz_tools \<Rightarrow> int \<Rightarrow> int \<Rightarrow> config_result \<times> string option" where
  "cocotb_one tx sha g vt seed s =
     (case vt_cocotb vt s of (rc, d) \<Rightarrow> (cocotb_check tx sha d rc seed (test_trace_header g seed), cd_trace d))"

definition verilator_cocotb ::
  "texts \<Rightarrow> (string \<Rightarrow> string option) \<Rightarrow> (string \<Rightarrow> string) \<Rightarrow> gate_case \<Rightarrow> vz_tools \<Rightarrow> int \<Rightarrow> int \<times> int \<Rightarrow> (exn, vz_output) result" where
  "verilator_cocotb tx fl sha g vt seed seeds =
     rbind (gc_entry g) (\<lambda>ce.
     rbind (raise_as True ''WrapError'' (tx_wrap tx)
       (rbind (spec_from_catalog fl ce (gc_cfg g) (py_attrs (gc_attrs g)) False False) build_map)) (\<lambda>_.
       Inr (seeds_done tx (gc_cfg g) seeds (cocotb_one tx sha g vt seed (fst seeds)) (cocotb_one tx sha g vt seed (snd seeds)))))"

definition verilator_config ::
  "texts \<Rightarrow> (string \<Rightarrow> string option) \<Rightarrow> (string \<Rightarrow> string) \<Rightarrow> vz_env \<Rightarrow> nat \<Rightarrow> gate_case \<Rightarrow> vz_tools \<Rightarrow> int \<Rightarrow>
   (vz_state, vz_output) call" where
  "verilator_config tx fl sha en n g vt seed =
     (let seeds = x_seeds seed in
      if tc_style (gc_case g) = ''vector'' then verilator_vector tx fl sha en n g vt seeds
      else sbind (gate_config tx fl en n g True False) (\<lambda>why.
           lift_res
             (case why of
                Some w \<Rightarrow> Inr (error_output (gc_cfg g) (snd w))
              | None \<Rightarrow>
                  if tc_style (gc_case g) = ''cocotb'' then verilator_cocotb tx fl sha g vt seed seeds
                  else verilator_sv tx sha g vt seed seeds)))"

section \<open>What finish records\<close>

definition finish_verilator :: "bool list \<Rightarrow> run_result \<Rightarrow> run_result" where
  "finish_verilator flags r =
     r\<lparr>rr_seeds_x := (case rr_seed r of Some s \<Rightarrow> [fst (x_seeds s), snd (x_seeds s)] | None \<Rightarrow> []),
       rr_x_dependence := (if flags = [] then None else Some (list_ex id flags))\<rparr>"

section \<open>Icarus on the transformed models\<close>

definition iverilog_vz_config ::
  "texts \<Rightarrow> (string \<Rightarrow> string option) \<Rightarrow> vz_env \<Rightarrow> nat \<Rightarrow> gate_case \<Rightarrow>
   (exn, config_result \<times> string option) result \<Rightarrow> (vz_state, config_result \<times> string option) call" where
  "iverilog_vz_config tx fl en n g icarus =
     (if tc_style (gc_case g) = ''vector'' \<and> py_cfg (gc_python g) (gc_cfg g) = None then lift_res icarus
      else sbind (lift_res
             (if tc_style (gc_case g) = ''vector''
              then rbind (raise_as True ''XvecError'' (tx_xvec tx) (loads (stim_text g))) (\<lambda>v. Inr (vec_expect v = Some ''reject''))
              else Inr False)) (\<lambda>reject.
           sbind (gate_config tx fl en n g False reject) (\<lambda>why.
             lift_res
               (case why of
                  Some (st, w) \<Rightarrow> Inr (new_config (gc_cfg g) st (Some (if st = ''skip'' then ''model not transformed: '' @ w else w)), None)
                | None \<Rightarrow> icarus))))"

section \<open>Two seeds, never the random one\<close>

lemma x_seeds_distinct: "fst (x_seeds s) \<noteq> snd (x_seeds s) \<and> fst (x_seeds s) \<noteq> 0 \<and> snd (x_seeds s) \<noteq> 0"
proof -
  have odd: "(2 * s + 1) mod 2 ^ 31 mod 2 = (1::int)" by (simp add: mod_mod_cancel)
  have "(2 * s + 2) mod 2 ^ 31 mod 2 = (0::int)" by (simp add: mod_mod_cancel)
  then show ?thesis using odd by (auto simp: x_seeds_def or_int_def)
qed

section \<open>A pass of Verilator\<close>

definition judged :: "config_result \<Rightarrow> bool" where
  "judged r \<longleftrightarrow> cr_status r \<in> {''pass'', ''fail'', ''error''}"

lemma pair_pass:
  "judged a \<Longrightarrow> judged b \<Longrightarrow> cr_status (pair_results a b s) = ''pass'' \<Longrightarrow> cr_status a = ''pass'' \<and> cr_status b = ''pass''"
  by (auto simp: judged_def pair_results_def rank_of_def RANK_def Let_def split: if_split_asm)

lemma vector_check_judged:
  "vector_check tx sha m labels expected header x_obs stim raw run_text = Inr (r, u) \<Longrightarrow> judged r"
  by (auto simp: vector_check_def judged_def Let_def rbind_Inr_iff split: if_split_asm option.splits)

lemma sv_check_judged: "sv_check tx sha body log header = Inr (r, u) \<Longrightarrow> judged r"
  by (auto simp: sv_check_def judged_def Let_def rbind_Inr_iff split: if_split_asm sum.split_asm)

lemma cocotb_tests_judged: "judged (cocotb_tests sha d rc cfg cases n)"
  by (auto simp: cocotb_tests_def judged_def Let_def split: option.split list.split)

lemma cocotb_check_judged: "judged (cocotb_check tx sha d rc seed header)"
  using cocotb_tests_judged[of sha d rc]
  by (auto simp: cocotb_check_def cocotb_verdict_def judged_def Let_def split: option.split sum.split)

lemma joined_pass:
  assumes "judged (fst a)" "judged (fst b)" and "cr_status (vo_result (joined tx cfg seeds a b)) = ''pass''"
  shows "cr_status (fst a) = ''pass'' \<and> cr_status (fst b) = ''pass''"
  using assms pair_pass by (auto simp: joined_def error_output_def plain_output_def split: prod.splits sum.splits)

lemma seeds_done_pass:
  assumes "judged (fst a)" "judged (fst b)" and "cr_status (vo_result (seeds_done tx cfg seeds a b)) = ''pass''"
  shows "cr_status (fst a) = ''pass'' \<and> cr_status (fst b) = ''pass''"
  using assms pair_pass joined_pass by (auto simp: seeds_done_def simp del: not_None_eq split: if_split_asm)

text \<open>What the runs of one X seed show when they pass, for each style.\<close>

definition seed_evidence :: "gate_case \<Rightarrow> vz_tools \<Rightarrow> int \<Rightarrow> int \<Rightarrow> bool" where
  "seed_evidence g vt seed s \<longleftrightarrow>
     (if tc_style (gc_case g) = ''cocotb''
      then (case vt_cocotb vt s of (rc, d) \<Rightarrow> cocotb_evidence d rc seed (test_trace_header g seed))
      else fst (vt_build vt) \<and> sr_rc (vt_run vt s) = 0 \<and> fatal_line (sr_text (vt_run vt s)) = None \<and>
        sv_evidence (sr_body (vt_run vt s)) (sr_text (vt_run vt s)) (test_trace_header g seed))"

definition reject_outcome :: "vz_tools \<Rightarrow> int \<Rightarrow> sim_outcome" where
  "reject_outcome vt s =
     \<lparr>so_compiled = fst (vt_build vt), so_compile_text = snd (vt_build vt),
      so_rc = (if fst (vt_build vt) then Some (sr_rc (vt_run vt s)) else None),
      so_run_text = (if fst (vt_build vt) then sr_text (vt_run vt s) else [])\<rparr>"

definition vector_pass_evidence :: "texts \<Rightarrow> gate_case \<Rightarrow> vz_tools \<Rightarrow> int \<Rightarrow> bool \<Rightarrow> bool" where
  "vector_pass_evidence tx g vt seed reject \<longleftrightarrow>
     x_inputs tx g = Inr False \<and>
     (\<exists>v m cw expected header.
        prepare_vector tx (gc_python g) (gc_case g) (gc_cfg g) (gc_ctx g) ''verilator'' = Inr (v, m, cw, expected, header) \<and>
        (reject \<longleftrightarrow> vec_expect v = Some ''reject'') \<and>
        (if reject then run_evidence v m cw expected header False (reject_outcome vt (fst (x_seeds seed))) None
         else fst (vt_build vt) \<and>
           (\<forall>s \<in> {fst (x_seeds seed), snd (x_seeds seed)}.
              run_evidence v m cw expected header False (sr_outcome (snd (vt_build vt)) (vt_run vt s)) (sr_raw (vt_run vt s)))))"

lemma vector_runs_pass:
  assumes "vector_runs tx sha g vt seeds m cw expected header = Inr out" and "cr_status (vo_result out) = ''pass''"
    and "s \<in> {fst seeds, snd seeds}" and "vec_expect v \<noteq> Some ''reject''"
  shows "run_evidence v m cw expected header False (sr_outcome (snd (vt_build vt)) (vt_run vt s)) (sr_raw (vt_run vt s))"
proof -
  let ?o = "\<lambda>s. sr_outcome (snd (vt_build vt)) (vt_run vt s)"
  have e: "classify_run cfg o1 True = Some r \<Longrightarrow> cr_status r \<noteq> ''pass''" for cfg o1 r
    using classify_run_error by force
  obtain a b where
    c: "classify_run (gc_cfg g) (?o (fst seeds)) True = None" "classify_run (gc_cfg g) (?o (snd seeds)) True = None"
    and a: "vector_check tx sha m (c_labels cw) expected header False (stim_text g)
        (sr_raw (vt_run vt (fst seeds))) (sr_text (vt_run vt (fst seeds))) = Inr a"
    and b: "vector_check tx sha m (c_labels cw) expected header False (stim_text g)
        (sr_raw (vt_run vt (snd seeds))) (sr_text (vt_run vt (snd seeds))) = Inr b"
    and o: "out = joined tx (gc_cfg g) seeds a b"
    using assms(1,2) e
    by (auto simp: vector_runs_def Let_def rbind_Inr_iff plain_output_def simp del: not_None_eq
        split: option.splits if_split_asm)
  have j: "judged (fst a)" "judged (fst b)" using a b vector_check_judged by (cases a; cases b; auto)+
  have p: "cr_status (fst a) = ''pass'' \<and> cr_status (fst b) = ''pass''"
    using joined_pass[OF j] assms(2) o by simp
  have va: "vector_evidence m (c_labels cw) expected header False (sr_raw (vt_run vt (fst seeds))) (sr_text (vt_run vt (fst seeds)))"
    using vector_pass[of tx sha m "c_labels cw" expected header False "stim_text g" "sr_raw (vt_run vt (fst seeds))"
        "sr_text (vt_run vt (fst seeds))" "fst a" "snd a"] a p by simp
  have vb: "vector_evidence m (c_labels cw) expected header False (sr_raw (vt_run vt (snd seeds))) (sr_text (vt_run vt (snd seeds)))"
    using vector_pass[of tx sha m "c_labels cw" expected header False "stim_text g" "sr_raw (vt_run vt (snd seeds))"
        "sr_text (vt_run vt (snd seeds))" "fst b" "snd b"] b p by simp
  show ?thesis using va vb c assms(3,4) by (auto simp: run_evidence_def classify_run_None sr_outcome_def)
qed

lemma reject_runs_pass:
  assumes "verilator_reject tx sha g vt seeds v header = Inr out" and "cr_status (vo_result out) = ''pass''"
    and "vec_expect v = Some ''reject''"
  shows "run_evidence v m cw expected header False (reject_outcome vt (fst seeds)) None"
proof -
  have "cr_status (reject_result (the (map_of header ''cfg'')) (reject_outcome vt (fst seeds)) (illegal_of v)) = ''pass''"
    using assms(1,2)
    by (auto simp: verilator_reject_def reject_outcome_def reject_check_def Let_def rbind_Inr_iff split: prod.splits)
  then show ?thesis using assms(3)
    by (auto simp: reject_pass_iff run_evidence_def list_all_iff list_ex_iff split: option.splits)
qed

lemma sv_one_pass:
  assumes "sv_one tx sha g vt header s = Inr a"
  shows "judged (fst a) \<and> (cr_status (fst a) = ''pass'' \<longrightarrow>
    sr_rc (vt_run vt s) = 0 \<and> fatal_line (sr_text (vt_run vt s)) = None \<and>
    sv_evidence (sr_body (vt_run vt s)) (sr_text (vt_run vt s)) header)"
proof (cases "classify_run (gc_cfg g) (sr_outcome (snd (vt_build vt)) (vt_run vt s)) False")
  case (Some r)
  then show ?thesis using assms classify_run_error[OF Some] by (auto simp: sv_one_def judged_def)
next
  case None
  have "sr_rc (vt_run vt s) = 0 \<and> fatal_line (sr_text (vt_run vt s)) = None"
    using None by (auto simp: classify_run_def sr_outcome_def split: if_split_asm option.split_asm)
  then show ?thesis using assms None sv_pass sv_check_judged by (cases a) (auto simp: sv_one_def)
qed

lemma cocotb_one_pass:
  "judged (fst (cocotb_one tx sha g vt seed s)) \<and>
   (cr_status (fst (cocotb_one tx sha g vt seed s)) = ''pass'' \<longrightarrow>
      (case vt_cocotb vt s of (rc, d) \<Rightarrow> cocotb_evidence d rc seed (test_trace_header g seed)))"
  using cocotb_pass cocotb_check_judged by (auto simp: cocotb_one_def split: prod.split)

lemma error_output_status [simp]: "cr_status (vo_result (error_output cfg why)) = ''error''"
  by (simp add: error_output_def plain_output_def)

definition after_gate ::
  "texts \<Rightarrow> (string \<Rightarrow> string) \<Rightarrow> gate_case \<Rightarrow> vz_tools \<Rightarrow> int \<times> int \<Rightarrow> vec \<Rightarrow> dut_map \<Rightarrow> compiled \<Rightarrow> trace \<Rightarrow>
   (string, string) dict \<Rightarrow> (exn, vz_output) result" where
  "after_gate tx sha g vt seeds v m cw expected header =
     (if vec_expect v = Some ''reject'' then verilator_reject tx sha g vt seeds v header
      else if \<not> fst (vt_build vt) then Inr (error_output (gc_cfg g) (build_failure (snd (vt_build vt))))
      else vector_runs tx sha g vt seeds m cw expected header)"

lemma verilator_vector_cases:
  assumes "verilator_vector tx fl sha en n g vt seeds s = (Inr out, s')" and "cr_status (vo_result out) = ''pass''"
  obtains v m cw expected header where "x_inputs tx g = Inr False"
    and "prepare_vector tx (gc_python g) (gc_case g) (gc_cfg g) (gc_ctx g) ''verilator'' = Inr (v, m, cw, expected, header)"
    and "gate_config tx fl en n g True (vec_expect v = Some ''reject'') s = (Inr None, s')"
    and "after_gate tx sha g vt seeds v m cw expected header = Inr out"
proof -
  obtain x where x: "x_inputs tx g = Inr x" using assms(1) by (auto simp: verilator_vector_def sbind_Inr)
  then have f: "x = False" using assms by (cases x) (auto simp: verilator_vector_def sbind_Inr)
  obtain v m cw expected header
    where p: "prepare_vector tx (gc_python g) (gc_case g) (gc_cfg g) (gc_ctx g) ''verilator'' = Inr (v, m, cw, expected, header)"
    using assms(1) x f by (auto simp: verilator_vector_def sbind_Inr)
  have "sbind (gate_config tx fl en n g True (vec_expect v = Some ''reject'')) (\<lambda>why.
      lift_res (case why of Some w \<Rightarrow> Inr (error_output (gc_cfg g) (snd w))
        | None \<Rightarrow> after_gate tx sha g vt seeds v m cw expected header)) s = (Inr out, s')"
    using assms(1) x f p by (simp add: verilator_vector_def sbind_def lift_res_def Let_def after_gate_def cong: option.case_cong)
  then obtain why where w: "gate_config tx fl en n g True (vec_expect v = Some ''reject'') s = (Inr why, s')"
    "(case why of Some w \<Rightarrow> Inr (error_output (gc_cfg g) (snd w))
        | None \<Rightarrow> after_gate tx sha g vt seeds v m cw expected header) = Inr out"
    by (auto simp: sbind_Inr)
  have "why = None" using w(2) assms(2) by (cases why) auto
  then show ?thesis using that x f p w by simp
qed

text \<open>
  C32. A configuration of any style that Verilator reports as passed rests on an open gate, so on
  supported models that are proved equivalent wherever the transform changed them, and on passing runs
  for both X seeds, which differ and are never the seed that asks for a random one (for a vector
  configuration that must be refused, on one refusal with the first seed). That a descendant is recorded
  under the key of its own attributes is assumed of what elaborates the models (\<open>keyed_env\<close>) and of the
  state at the start (\<open>keyed\<close>, which every call preserves).
\<close>

theorem verilator_pass:
  assumes "keyed_env en" and "keyed en s"
    and "verilator_config tx fl sha en n g vt seed s = (Inr out, s')" and "cr_status (vo_result out) = ''pass''"
  shows "\<exists>reject. gate_evidence tx fl en g reject s' \<and>
    (if tc_style (gc_case g) = ''vector'' then vector_pass_evidence tx g vt seed reject
     else \<forall>x \<in> {fst (x_seeds seed), snd (x_seeds seed)}. seed_evidence g vt seed x) \<and>
    fst (x_seeds seed) \<noteq> snd (x_seeds seed) \<and> 0 \<notin> {fst (x_seeds seed), snd (x_seeds seed)}"
proof -
  have x: "fst (x_seeds seed) \<noteq> snd (x_seeds seed) \<and> 0 \<notin> {fst (x_seeds seed), snd (x_seeds seed)}"
    using x_seeds_distinct[of seed] by auto
  note gate = gate_open[OF assms(1,2)]
  show ?thesis
  proof (cases "tc_style (gc_case g) = ''vector''")
    case True
    then have "verilator_vector tx fl sha en n g vt (x_seeds seed) s = (Inr out, s')"
      using assms(3) by (simp add: verilator_config_def Let_def)
    then obtain v m cw expected header where p: "x_inputs tx g = Inr False"
      "prepare_vector tx (gc_python g) (gc_case g) (gc_cfg g) (gc_ctx g) ''verilator'' = Inr (v, m, cw, expected, header)"
      "gate_config tx fl en n g True (vec_expect v = Some ''reject'') s = (Inr None, s')"
      "after_gate tx sha g vt (x_seeds seed) v m cw expected header = Inr out"
      using assms(4) by (rule verilator_vector_cases)
    have "vector_pass_evidence tx g vt seed (vec_expect v = Some ''reject'')"
      using p(1,2,4) reject_runs_pass[OF _ assms(4)] vector_runs_pass[OF _ assms(4)] assms(4)
      by (auto simp: vector_pass_evidence_def after_gate_def split: if_split_asm)
    then show ?thesis using gate[OF p(3)] x True by auto
  next
    case False
    let ?go = "if tc_style (gc_case g) = ''cocotb'' then verilator_cocotb tx fl sha g vt seed (x_seeds seed)
      else verilator_sv tx sha g vt seed (x_seeds seed)"
    obtain why where w: "gate_config tx fl en n g True False s = (Inr why, s')"
      "(case why of Some w \<Rightarrow> Inr (error_output (gc_cfg g) (snd w)) | None \<Rightarrow> ?go) = Inr out"
      using assms(3) False by (auto simp: verilator_config_def sbind_Inr Let_def)
    have "why = None" using w(2) assms(4) by (cases why) auto
    then have g: "gate_config tx fl en n g True False s = (Inr None, s')" and r: "?go = Inr out" using w by simp_all
    have "\<forall>x \<in> {fst (x_seeds seed), snd (x_seeds seed)}. seed_evidence g vt seed x"
    proof (cases "tc_style (gc_case g) = ''cocotb''")
      case True
      then have "cr_status (vo_result (seeds_done tx (gc_cfg g) (x_seeds seed)
          (cocotb_one tx sha g vt seed (fst (x_seeds seed))) (cocotb_one tx sha g vt seed (snd (x_seeds seed))))) = ''pass''"
        using r assms(4) by (auto simp: verilator_cocotb_def rbind_Inr_iff)
      from seeds_done_pass[OF _ _ this] show ?thesis
        using True cocotb_one_pass[of tx sha g vt seed "fst (x_seeds seed)"]
          cocotb_one_pass[of tx sha g vt seed "snd (x_seeds seed)"] by (auto simp: seed_evidence_def)
    next
      case False
      then obtain a b where b: "fst (vt_build vt)" "sv_one tx sha g vt (test_trace_header g seed) (fst (x_seeds seed)) = Inr a"
        "sv_one tx sha g vt (test_trace_header g seed) (snd (x_seeds seed)) = Inr b"
        "out = seeds_done tx (gc_cfg g) (x_seeds seed) a b"
        using r assms(4) by (auto simp: verilator_sv_def rbind_Inr_iff split: if_split_asm)
      from seeds_done_pass[OF _ _ assms(4)[unfolded b(4)]] show ?thesis
        using False b(1) sv_one_pass[OF b(2)] sv_one_pass[OF b(3)] by (auto simp: seed_evidence_def)
    qed
    then show ?thesis using gate[OF g] x False by auto
  qed
qed

section \<open>An example\<close>

text \<open>An sv test that instantiates TOP, whose transformed KID is checked on the way.\<close>

definition sv_gate_example :: gate_case where
  "sv_gate_example = gate_example\<lparr>gc_case := run_case_example\<lparr>tc_prim := ''TOP'', tc_style := ''sv''\<rparr>,
     gc_sv_models := Inr [''TOP''],
     gc_sv_instances := (\<lambda>_. Inr [\<lparr>si_path = ''tb.dut'', si_attrs = [], si_undriven = [], si_zdriven = [],
        si_floating = [], si_model = ''TOP'', si_nested = False\<rparr>])\<rparr>"

definition tools_example :: vz_tools where
  "tools_example = \<lparr>vt_build = (True, []),
     vt_run = (\<lambda>_. \<lparr>sr_rc = 0, sr_text = sv_log_example, sr_raw = None, sr_body = Some ''s Q=1''\<rparr>),
     vt_cocotb = (\<lambda>_. (0, cocotb_example))\<rparr>"

lemma gate_sv_example:
  "case gate_config texts_example (\<lambda>_. None) env_example 3 sv_gate_example True False start_example of
     (r, s) \<Rightarrow> r = Inr None"
  by code_simp

lemma sv_one_example:
  "rmap (\<lambda>(k, v). param_value k v) (gc_attrs sv_gate_example) = Inr []" "sv_seed_define 7 = Inr (''64'' @ SQ # ''d7'')"
  "map_sum id (\<lambda>(r, t). (cr_status r, t)) (sv_one texts_example id sv_gate_example tools_example (test_trace_header sv_gate_example 7) x) =
     Inr (''pass'', Some (''# xut-trace 2  runner=verilator flow=rtl model=unisim-2025.2 prim=TOP cfg=default seed=7'' @ [LF] @ ''s  Q=1'' @ [LF]))"
  by code_simp+

lemma verilator_example:
  "\<exists>out s. verilator_config texts_example (\<lambda>_. None) id env_example 3 sv_gate_example tools_example 7 start_example = (Inr out, s) \<and>
     cr_status (vo_result out) = ''pass''"
proof -
  obtain s where g: "gate_config texts_example (\<lambda>_. None) env_example 3 sv_gate_example True False start_example = (Inr None, s)"
    using gate_sv_example by (auto split: prod.splits)
  obtain r t where o: "sv_one texts_example id sv_gate_example tools_example (test_trace_header sv_gate_example 7) 0 = Inr (r, Some t)"
    "cr_status r = ''pass''"
    using sv_one_example(3)[of 0] by (auto simp: map_sum_def split: sum.splits prod.splits)
  have same: "sv_one texts_example id sv_gate_example tools_example (test_trace_header sv_gate_example 7) x =
      sv_one texts_example id sv_gate_example tools_example (test_trace_header sv_gate_example 7) 0" for x
  proof -
    have v: "vt_run tools_example x = vt_run tools_example 0" by (simp add: tools_example_def)
    show ?thesis by (simp only: sv_one_def v)
  qed
  define t0 where "t0 = ''# xut-trace 2  runner=verilator flow=rtl model=unisim-2025.2 prim=TOP cfg=default seed=7'' @ [LF] @ ''s  Q=1'' @ [LF]"
  have t: "t = t0" using sv_one_example(3)[of 0] o(1) by (simp add: t0_def)
  have l: "\<exists>u. xtr_loads t0 = Inr u"
  proof -
    have "case xtr_loads t0 of Inr u \<Rightarrow> True | Inl _ \<Rightarrow> False" unfolding t0_def by code_simp
    then show ?thesis by (auto split: sum.splits)
  qed
  then obtain u where u: "xtr_loads t = Inr u" using t by blast
  have j: "cr_status (vo_result (seeds_done texts_example cfg seeds (r, Some t) (r, Some t))) = ''pass''" for cfg seeds
    using o(2) u by (simp add: seeds_done_def joined_def load_two_def pair_results_def)
  have "fst (vt_build tools_example)" "tc_style (gc_case sv_gate_example) = ''sv''"
    by (simp_all add: tools_example_def sv_gate_example_def)
  then show ?thesis using g j o(1) same[of "fst (x_seeds 7)"] same[of "snd (x_seeds 7)"] sv_one_example(1,2)
    by (simp add: verilator_config_def verilator_sv_def sbind_def lift_res_def Let_def)
qed

lemma verilator_pass_witness:
  "\<exists>s. gate_evidence texts_example (\<lambda>_. None) env_example sv_gate_example False s \<or>
       gate_evidence texts_example (\<lambda>_. None) env_example sv_gate_example True s"
proof -
  let ?run = "verilator_config texts_example (\<lambda>_. None) id env_example 3 sv_gate_example tools_example 7 start_example"
  obtain out s where s: "?run = (Inr out, s)" "cr_status (vo_result out) = ''pass''"
    using verilator_example by blast
  show ?thesis using verilator_pass[OF env_example_keyed s] by (metis (full_types))
qed

end
