(* ===== verification/Equiv_Stim.thy ===== *)
theory Equiv_Stim
  imports Stimgen
begin

text \<open>
  The equivalence stimulus of \<open>tools/xut/verilatorize/equiv.py\<close> (\<open>_Stim\<close>, its phases and
  \<open>equiv_stimulus\<close>), a script of calls of the stimulus builder. \<open>rng ws k\<close> is what \<open>getrandbits(k)\<close>
  gives after draws of the widths \<open>ws\<close>. Sets are lists without repetition.
\<close>

section \<open>Triggers and the state of the script\<close>

datatype equiv_error =
    NoChannel string
  | NotAnInput string
  | WideAsync nat string
  | CurrentLevel string
  | Invalid "vmsg list"
  | EquivGen gen_error
  | EquivWrap wrap_error
  | EquivLoop loop_error

datatype tkind = TGlbl | TClock | TAsync | TData

record trig =
  tg_name :: string
  tg_kind :: tkind
  tg_target :: string
  tg_ones :: int

record estim =
  es_b :: builder
  es_draws :: "nat list"
  es_clocks :: "string list"
  es_trigs :: "trig list"
  es_data :: "string list"
  es_asyncs :: "string list"
  es_held :: "string list"
  es_on :: "string list"
  es_tag :: string
  es_n :: nat

type_synonym estep = "estim \<Rightarrow> (equiv_error, estim) result"
type_synonym draws = "nat list \<Rightarrow> nat \<Rightarrow> int"

definition GLBL_CHANNEL :: "string list" where
  "GLBL_CHANNEL = [''GSR'', ''GTS'', ''GRESTORE'']"

definition in_width :: "dut_map \<Rightarrow> string \<Rightarrow> nat" where
  "in_width m port = length (port_bits m ''in'' port [])"

definition is_async_class :: "string \<Rightarrow> bool" where
  "is_async_class c \<longleftrightarrow> c \<in> {''async'', ''gate''}"

definition class_in :: "dut_map \<Rightarrow> string \<Rightarrow> (equiv_error, string) result" where
  "class_in m p = map_sum EquivWrap id (cls_of m p)"

definition mk_trig :: "dut_map \<Rightarrow> string list \<Rightarrow> string list \<Rightarrow> string \<Rightarrow> (equiv_error, trig) result" where
  "mk_trig m clocks ins name =
     (if starts_with ''glbl.'' name
      then (let sig = drop 5 name in
        if sig \<notin> set GLBL_CHANNEL then Inl (NoChannel name)
        else Inr \<lparr>tg_name = name, tg_kind = TGlbl, tg_target = sig, tg_ones = 1\<rparr>)
      else if name \<in> set clocks then Inr \<lparr>tg_name = name, tg_kind = TClock, tg_target = name, tg_ones = 1\<rparr>
      else if name \<notin> set ins then Inl (NotAnInput name)
      else rbind (class_in m name) (\<lambda>c.
        if is_async_class c
        then (if in_width m name \<noteq> 1 then Inl (WideAsync (in_width m name) name)
              else Inr \<lparr>tg_name = name, tg_kind = TAsync, tg_target = name, tg_ones = 1\<rparr>)
        else Inr \<lparr>tg_name = name, tg_kind = TData, tg_target = name, tg_ones = 2 ^ in_width m name - 1\<rparr>))"

text \<open>The inputs that are no triggers, split by class.\<close>

definition free_inputs :: "dut_map \<Rightarrow> string list \<Rightarrow> trig list \<Rightarrow> (equiv_error, string list \<times> string list) result" where
  "free_inputs m ins ts =
     rbind (rmap (\<lambda>p. rbind (class_in m p) (\<lambda>c. Inr (p, is_async_class c))) ins) (\<lambda>ps.
       let ports = map tg_target (filter (\<lambda>t. tg_kind t \<noteq> TGlbl) ts);
           rest = filter (\<lambda>(p, a). p \<notin> set ports) ps
       in Inr (map fst (filter (\<lambda>(p, a). \<not> a) rest), map fst (filter (\<lambda>(p, a). a) rest)))"

definition new_estim :: "string list \<Rightarrow> dut_map \<Rightarrow> int \<Rightarrow> (equiv_error, estim) result" where
  "new_estim triggers m seed =
     rbind (map_sum EquivGen id
       (new_builder m seed DEFAULT_SETTLE_PS DEFAULT_PERIOD_PS DEFAULT_GAP_PS DEFAULT_ASYNC_SEP_PS None [])) (\<lambda>b.
     let clocks = dedup (map w_port (on_vec m ''clk'')); ins = in_ports m
     in rbind (rmap (mk_trig m clocks ins) triggers) (\<lambda>ts.
        rbind (free_inputs m ins ts) (\<lambda>(data, asyncs).
        Inr \<lparr>es_b = b, es_draws = [], es_clocks = clocks, es_trigs = ts, es_data = data, es_asyncs = asyncs,
             es_held = [], es_on = [], es_tag = ''base'', es_n = 0\<rparr>)))"

section \<open>Moves of the script\<close>

definition call :: "(builder \<Rightarrow> gres) \<Rightarrow> estep" where
  "call f s = map_sum EquivGen (\<lambda>b. s\<lparr>es_b := b\<rparr>) (f (es_b s))"

fun steps :: "estep list \<Rightarrow> estep" where
  "steps [] s = Inr s"
| "steps (f # fs) s = rbind (f s) (steps fs)"

definition for_each :: "'a list \<Rightarrow> ('a \<Rightarrow> estep) \<Rightarrow> estep" where
  "for_each xs f = steps (map f xs)"

definition tag :: "string \<Rightarrow> estep" where
  "tag x s = Inr (s\<lparr>es_tag := x\<rparr>)"

definition smp :: "string \<Rightarrow> estep" where
  "smp what s =
     rbind (call (sample_at (Some (es_tag s @ ''.'' @ what @ ''.'' @ show_nat (es_n s)))) s) (\<lambda>s1.
       Inr (s1\<lparr>es_n := Suc (es_n s1)\<rparr>))"

definition put_in :: "bool \<Rightarrow> string \<Rightarrow> string list \<Rightarrow> string list" where
  "put_in up x xs = (if up then List.insert x xs else removeAll x xs)"

definition drive :: "trig \<Rightarrow> bool \<Rightarrow> estep" where
  "drive t up s =
     (if (tg_name t \<in> set (es_on s)) = up then Inl (CurrentLevel (tg_name t))
      else let s1 = s\<lparr>es_on := put_in up (tg_name t) (es_on s)\<rparr> in
        case tg_kind t of
          TGlbl \<Rightarrow> call (glbl_event (tg_target t) (of_bool up)) s1
        | TClock \<Rightarrow> rbind (call (edge_port (tg_target t) up) s1) (\<lambda>s2.
            Inr (s2\<lparr>es_held := put_in up (tg_target t) (es_held s2)\<rparr>))
        | TAsync \<Rightarrow> call (async_port (tg_target t) (VInt (of_bool up))) s1
        | TData \<Rightarrow> call (set_ports [(tg_target t, VInt (if up then tg_ones t else 0))]) s1)"

definition pulse_async :: "string \<Rightarrow> bool \<Rightarrow> estep" where
  "pulse_async port up s =
     (if in_width (b_map (es_b s)) port \<noteq> 1 then Inl (WideAsync (in_width (b_map (es_b s)) port) port)
      else call (async_port port (VInt (of_bool up))) s)"

definition randomize :: "draws \<Rightarrow> estep" where
  "randomize rng s =
     (let (vals, ds) = foldl (\<lambda>(vs, ds) p. let w = in_width (b_map (es_b s)) p in (vs @ [(p, VInt (rng ds w))], ds @ [w]))
                         ([], es_draws s) (es_data s);
          s1 = s\<lparr>es_draws := ds\<rparr>
      in if vals = [] then Inr s1 else call (set_ports vals) s1)"

text \<open>One cycle of a clock, a sample after each edge.\<close>

definition wait_till :: "int \<Rightarrow> estep" where
  "wait_till t s = call (wait_ps (max 0 (t - b_t (es_b s)))) s"

definition cycle_at :: "string \<Rightarrow> int \<Rightarrow> int \<Rightarrow> estep" where
  "cycle_at c start period =
     steps [call (edge_port c True), smp (c @ ''r''), wait_till (start + period div 2),
            call (edge_port c False), smp (c @ ''f''), wait_till (start + period)]"

definition clock_cycle :: "string \<Rightarrow> estep" where
  "clock_cycle c s = cycle_at c (b_t (es_b s)) (b_period (es_b s)) s"

definition activity_of :: "draws \<Rightarrow> nat \<Rightarrow> string list \<Rightarrow> estep" where
  "activity_of rng n free =
     for_each [0..<n] (\<lambda>_. if free = [] then steps [randomize rng, smp ''a'']
                         else for_each free (\<lambda>c. steps [randomize rng, clock_cycle c]))"

definition activity :: "draws \<Rightarrow> nat \<Rightarrow> estep" where
  "activity rng n s = activity_of rng n (filter (\<lambda>c. c \<notin> set (es_held s)) (es_clocks s)) s"

definition together :: "estep list \<Rightarrow> estep" where
  "together fs = steps [call enter_sim, steps fs, call leave_sim]"

section \<open>Phases\<close>

definition independent :: "draws \<Rightarrow> trig list \<Rightarrow> estep" where
  "independent rng ts = for_each ts (\<lambda>t. for_each [0..<3] (\<lambda>k. steps
     [tag (''ind.'' @ tg_name t @ ''.'' @ show_nat k), activity rng 2, drive t True, smp ''on'', activity rng 2,
      drive t False, smp ''off'', activity rng 1]))"

text \<open>\<open>int.bit_length\<close>.\<close>

fun bit_length :: "nat \<Rightarrow> nat" where
  "bit_length n = (if n = 0 then 0 else Suc (bit_length (n div 2)))"

declare bit_length.simps [simp del]

definition walk_values :: "trig \<Rightarrow> (string \<times> int) list" where
  "walk_values t =
     concat (map (\<lambda>i. [(''one'' @ show_nat i, push_bit i 1), (''zero'' @ show_nat i, unset_bit i (tg_ones t))])
       [0..<bit_length (nat (tg_ones t))])"

definition walk :: "draws \<Rightarrow> trig list \<Rightarrow> estep" where
  "walk rng ts = for_each (filter (\<lambda>t. tg_kind t = TData \<and> tg_ones t \<noteq> 1) ts) (\<lambda>t.
     for_each (walk_values t) (\<lambda>(pat, v). steps
       [tag (''walk.'' @ tg_name t @ ''.'' @ pat), call (set_ports [(tg_target t, VInt v)]), smp ''on'', activity rng 1,
        call (set_ports [(tg_target t, VInt 0)]), smp ''off'', activity rng 1]))"

definition coincident :: "draws \<Rightarrow> trig list \<Rightarrow> string list \<Rightarrow> estep" where
  "coincident rng ts cs = for_each (filter (\<lambda>t. tg_kind t \<noteq> TClock) ts) (\<lambda>t.
     for_each cs (\<lambda>c. steps
       [tag (''coin.'' @ tg_name t @ ''.'' @ c),
        together [call (edge_port c True), drive t True], smp ''on'', call (edge_port c False), smp ''fall'', activity rng 1,
        together [call (edge_port c True), drive t False], smp ''off'', call (edge_port c False), smp ''idle'']))"

definition play :: "draws \<Rightarrow> (trig \<times> bool) list \<Rightarrow> estep" where
  "play rng moves = for_each moves (\<lambda>(t, up). steps
     [drive t up, smp (tg_name t @ (if up then ''u'' else ''d'')), activity rng 1])"

text \<open>\<open>itertools.combinations(xs, 2)\<close>.\<close>

fun pairs_of :: "'a list \<Rightarrow> ('a \<times> 'a) list" where
  "pairs_of [] = []"
| "pairs_of (x # xs) = map (Pair x) xs @ pairs_of xs"

definition pair_name :: "trig \<Rightarrow> trig \<Rightarrow> string \<Rightarrow> string" where
  "pair_name a b what = ''pair.'' @ tg_name a @ ''.'' @ tg_name b @ ''.'' @ what"

definition pairs :: "draws \<Rightarrow> trig list \<Rightarrow> estep" where
  "pairs rng ts = for_each (pairs_of ts) (\<lambda>(a, b). steps
     ([tag (pair_name a b ''overlap''), play rng [(a, True), (b, True), (a, False), (b, False)],
       tag (pair_name a b ''nested''), play rng [(a, True), (b, True), (b, False), (a, False)],
       tag (pair_name a b ''coincident'')] @
      concat (map (\<lambda>up. [together [drive a up, drive b up], smp (if up then ''u'' else ''d''), activity rng 1]) [True, False])))"

definition with_async :: "draws \<Rightarrow> trig list \<Rightarrow> string list \<Rightarrow> estep" where
  "with_async rng ts qs = for_each ts (\<lambda>t. for_each qs (\<lambda>q. steps
     [tag (''async.'' @ tg_name t @ ''.'' @ q), pulse_async q True, smp (q @ ''u''), drive t True, smp ''u'',
      pulse_async q False, smp (q @ ''d''), drive t False, smp ''d'', activity rng 1]))"

text \<open>One draw per one-bit async input, which changes when the draw differs from its value.\<close>

definition flip_input :: "draws \<Rightarrow> string \<Rightarrow> estep" where
  "flip_input rng q s =
     (if in_width (b_map (es_b s)) q \<noteq> 1 then Inr s
      else let d = rng (es_draws s) 1; s1 = s\<lparr>es_draws := es_draws s @ [1]\<rparr> in
        rbind (map_sum EquivGen id (port_val q (es_b s1))) (\<lambda>v.
          if VInt d \<noteq> v then steps [pulse_async q (v = VInt 0), smp q] s1 else Inr s1))"

definition inputs :: "draws \<Rightarrow> string list \<Rightarrow> estep" where
  "inputs rng qs = for_each [0..<8] (\<lambda>k. steps
     [tag (''zcmp.'' @ show_nat k), for_each qs (flip_input rng), activity rng 1])"

section \<open>The stimulus\<close>

definition HW_REASON :: string where
  "HW_REASON = ''verilatorize equivalence stimulus: simulation only (spec '' @ [CHR 0xA7] @ ''6.2)''"

text \<open>The subject: its name, its triggers, its rewrites and the models whose copies are compiled.\<close>

record subject =
  sj_model :: string
  sj_triggers :: "string list"
  sj_rewrites :: "string list"
  sj_lib :: "string list"

definition phases :: "draws \<Rightarrow> subject \<Rightarrow> trig list \<Rightarrow> string list \<Rightarrow> string list \<Rightarrow> estep list" where
  "phases rng an ts cs qs =
     [independent rng ts, walk rng ts, coincident rng ts cs, pairs rng ts, with_async rng ts qs] @
     (if ''zcmp'' \<in> set (sj_rewrites an) \<or> sj_model an \<notin> set (sj_lib an) then [inputs rng qs] else [])"

definition equiv_script :: "draws \<Rightarrow> subject \<Rightarrow> dut_map \<Rightarrow> int \<Rightarrow> (equiv_error, estim) result" where
  "equiv_script rng an m seed =
     rbind (new_estim (sj_triggers an) m seed) (\<lambda>s.
     rbind (activity rng 2 s) (steps (phases rng an (es_trigs s) (es_clocks s) (es_asyncs s))))"

definition equiv_stimulus :: "draws \<Rightarrow> subject \<Rightarrow> dut_map \<Rightarrow> int \<Rightarrow> (equiv_error, vec) result" where
  "equiv_stimulus rng an m seed =
     rbind (equiv_script rng an m seed) (\<lambda>s.
     rbind (map_sum EquivGen id (build (es_b s))) (\<lambda>v0.
     let v = v0\<lparr>v_hw := Some False, v_reason := HW_REASON\<rparr> in
     rbind (map_sum EquivLoop id (validate v m DEFAULT_GAP_PS)) (\<lambda>r.
       if r_errors r \<noteq> [] then Inl (Invalid (take 5 (r_errors r))) else Inr v)))"

section \<open>No trigger is driven to the level it has\<close>

text \<open>A step that keeps its promise, unless something other than the generator's own bug stops it.\<close>

definition triple :: "(estim \<Rightarrow> bool) \<Rightarrow> estep \<Rightarrow> (estim \<Rightarrow> bool) \<Rightarrow> bool" where
  "triple P f Q \<longleftrightarrow> (\<forall>s. P s \<longrightarrow> (case f s of Inl e \<Rightarrow> \<forall>n. e \<noteq> CurrentLevel n | Inr s' \<Rightarrow> Q s'))"

text \<open>The triggers asserted.\<close>

definition lev :: "string set \<Rightarrow> estim \<Rightarrow> bool" where
  "lev X s \<longleftrightarrow> set (es_on s) = X"

named_theorems triples "what the moves of the script do to the asserted triggers"

lemma triple_steps_Nil: "triple P (steps []) P"
  by (simp add: triple_def)

lemma triple_rbind:
  assumes "triple P f Q" and "triple Q g R"
  shows "triple P (\<lambda>s. rbind (f s) g) R"
  unfolding triple_def
proof (intro allI impI)
  fix s
  assume "P s"
  then have "case f s of Inl e \<Rightarrow> \<forall>n. e \<noteq> CurrentLevel n | Inr s' \<Rightarrow> Q s'" using assms(1) by (auto simp: triple_def)
  then show "case rbind (f s) g of Inl e \<Rightarrow> \<forall>n. e \<noteq> CurrentLevel n | Inr s' \<Rightarrow> R s'"
    using assms(2) by (cases "f s") (auto simp: triple_def)
qed

lemma triple_steps_Cons: "triple P f Q \<Longrightarrow> triple Q (steps fs) R \<Longrightarrow> triple P (steps (f # fs)) R"
proof -
  have "steps (f # fs) = (\<lambda>s. rbind (f s) (steps fs))" by (rule ext) simp
  then show "triple P f Q \<Longrightarrow> triple Q (steps fs) R \<Longrightarrow> triple P (steps (f # fs)) R"
    using triple_rbind by simp
qed

lemma triple_steps_append: "triple P (steps fs) Q \<Longrightarrow> triple Q (steps gs) R \<Longrightarrow> triple P (steps (fs @ gs)) R"
proof -
  have "steps (fs @ gs) s = rbind (steps fs s) (steps gs)" for s
  proof (induction fs arbitrary: s)
    case (Cons f fs)
    then show ?case by (cases "f s") simp_all
  qed simp
  then have "steps (fs @ gs) = (\<lambda>s. rbind (steps fs s) (steps gs))" by (rule ext)
  then show "triple P (steps fs) Q \<Longrightarrow> triple Q (steps gs) R \<Longrightarrow> triple P (steps (fs @ gs)) R"
    using triple_rbind by simp
qed

lemma triple_for_each: "(\<And>x. x \<in> set xs \<Longrightarrow> triple P (f x) P) \<Longrightarrow> triple P (for_each xs f) P"
  by (induction xs) (auto simp: for_each_def intro: triple_steps_Nil triple_steps_Cons)

lemma call_iff [simp]:
  "call f s = Inl e \<longleftrightarrow> (\<exists>g. f (es_b s) = Inl g \<and> e = EquivGen g)"
  "call f s = Inr s' \<longleftrightarrow> (\<exists>b. f (es_b s) = Inr b \<and> s' = s\<lparr>es_b := b\<rparr>)"
  by (cases "f (es_b s)"; auto simp: call_def)+

lemma triple_call [triples]: "triple (lev X) (call f) (lev X)"
  by (auto simp: triple_def lev_def split: sum.split)

lemma triple_tag [triples]: "triple (lev X) (tag x) (lev X)"
  by (auto simp: triple_def tag_def lev_def)

lemma triple_smp [triples]: "triple (lev X) (smp x) (lev X)"
  by (auto simp: triple_def smp_def lev_def rbind_Inr_iff rbind_Inl_iff split: sum.split)

lemma triple_wait [triples]: "triple (lev X) (wait_till t) (lev X)"
  using triple_call by (auto simp: triple_def wait_till_def)

lemma triple_randomize [triples]: "triple (lev X) (randomize rng) (lev X)"
  by (auto simp: triple_def randomize_def lev_def Let_def split: sum.split prod.split)

lemma triple_pulse [triples]: "triple (lev X) (pulse_async q v) (lev X)"
  by (auto simp: triple_def pulse_async_def lev_def split: sum.split)

lemmas step_rules = triple_steps_Cons triple_steps_Nil triples

lemma triple_cycle [triples]: "triple (lev X) (clock_cycle c) (lev X)"
proof -
  have "triple (lev X) (cycle_at c a p) (lev X)" for a p
    unfolding cycle_at_def by (rule step_rules)+
  then show ?thesis by (simp add: triple_def clock_cycle_def)
qed

lemma triple_activity [triples]: "triple (lev X) (activity rng n) (lev X)"
proof -
  have one: "triple (lev X) (steps [randomize rng, smp ''a'']) (lev X)" by (rule step_rules)+
  have cyc: "triple (lev X) (steps [randomize rng, clock_cycle c]) (lev X)" for c by (rule step_rules triple_cycle)+
  have "triple (lev X) (activity_of rng n free) (lev X)" for free
    unfolding activity_of_def using one cyc by (auto intro!: triple_for_each)
  then show ?thesis by (simp add: triple_def activity_def)
qed

lemma triple_drive_on: "tg_name t \<notin> X \<Longrightarrow> triple (lev X) (drive t True) (lev (insert (tg_name t) X))"
  by (auto simp: triple_def drive_def lev_def put_in_def Let_def rbind_Inr_iff rbind_Inl_iff split: sum.split tkind.split)

lemma triple_drive_off: "tg_name t \<in> X \<Longrightarrow> triple (lev X) (drive t False) (lev (X - {tg_name t}))"
  by (auto simp: triple_def drive_def lev_def put_in_def Let_def rbind_Inr_iff rbind_Inl_iff split: sum.split tkind.split)

lemma triple_together: "triple P (steps fs) Q \<Longrightarrow> (\<And>f. triple P (call f) P) \<Longrightarrow> (\<And>f. triple Q (call f) Q) \<Longrightarrow> triple P (together fs) Q"
  unfolding together_def by (blast intro: triple_steps_Cons triple_steps_Nil)

lemma triple_drive: "(tg_name t \<in> X \<longleftrightarrow> \<not> up) \<Longrightarrow>
  triple (lev X) (drive t up) (lev (if up then insert (tg_name t) X else X - {tg_name t}))"
  using triple_drive_on triple_drive_off by (cases up) auto

text \<open>Each phase leaves every trigger released.\<close>

lemmas phase_rules = triple_steps_Cons triple_steps_Nil triples triple_cycle triple_activity

lemma one_on: "triple (lev {}) (drive t True) (lev {tg_name t})" "triple (lev {tg_name t}) (drive t False) (lev {})"
  using triple_drive[of t "{}" True] triple_drive[of t "{tg_name t}" False] by auto

lemma two_on:
  assumes "tg_name a \<noteq> tg_name b"
  shows "triple (lev {tg_name a}) (drive b True) (lev {tg_name a, tg_name b})"
    and "triple (lev {tg_name a, tg_name b}) (drive a False) (lev {tg_name b})"
    and "triple (lev {tg_name a, tg_name b}) (drive b False) (lev {tg_name a})"
  using assms triple_drive[of b "{tg_name a}" True] triple_drive[of a "{tg_name a, tg_name b}" False]
    triple_drive[of b "{tg_name a, tg_name b}" False]
  by (auto simp: insert_commute insert_Diff_if)

lemma triple_independent: "triple (lev {}) (independent rng ts) (lev {})"
  unfolding independent_def by (rule triple_for_each phase_rules one_on)+

lemma triple_walk: "triple (lev {}) (walk rng ts) (lev {})"
  unfolding walk_def split_def by (rule triple_for_each phase_rules)+

lemma together_edge:
  "triple (lev X) (drive t up) (lev Y) \<Longrightarrow> triple (lev X) (together [call (edge_port c True), drive t up]) (lev Y)"
  by (rule triple_together triple_steps_Cons triple_call | assumption | rule triple_steps_Nil)+

lemma triple_coincident: "triple (lev {}) (coincident rng ts cs) (lev {})"
  unfolding coincident_def by (rule triple_for_each phase_rules together_edge one_on)+

lemma triple_play:
  "triple P (drive t up) Q \<Longrightarrow> Q = lev X \<Longrightarrow> triple Q (play rng ms) R \<Longrightarrow> triple P (play rng ((t, up) # ms)) R"
  unfolding play_def for_each_def list.map prod.case
  by (hypsubst, rule triple_steps_Cons, rule phase_rules, assumption, (rule phase_rules)+, assumption)

lemma triple_play_Nil: "triple P (play rng []) P"
  by (simp add: play_def for_each_def triple_steps_Nil)

lemma triple_pair:
  assumes d: "tg_name a \<noteq> tg_name b"
  shows "triple (lev {}) (play rng [(a, True), (b, True), (a, False), (b, False)]) (lev {})"
    and "triple (lev {}) (play rng [(a, True), (b, True), (b, False), (a, False)]) (lev {})"
    and "triple (lev {}) (together [drive a True, drive b True]) (lev {tg_name a, tg_name b})"
    and "triple (lev {tg_name a, tg_name b}) (together [drive a False, drive b False]) (lev {})"
proof -
  show "triple (lev {}) (play rng [(a, True), (b, True), (a, False), (b, False)]) (lev {})"
    by (rule triple_play triple_play_Nil one_on two_on[OF d] refl)+
  show "triple (lev {}) (play rng [(a, True), (b, True), (b, False), (a, False)]) (lev {})"
    by (rule triple_play triple_play_Nil one_on two_on[OF d] refl)+
  show "triple (lev {}) (together [drive a True, drive b True]) (lev {tg_name a, tg_name b})"
    by (rule triple_together triple_steps_Cons one_on two_on[OF d] triple_call triple_steps_Nil)+
  show "triple (lev {tg_name a, tg_name b}) (together [drive a False, drive b False]) (lev {})"
    by (rule triple_together triple_steps_Cons one_on two_on[OF d] triple_call triple_steps_Nil)+
qed

lemma pairs_of_distinct: "distinct (map f xs) \<Longrightarrow> (a, b) \<in> set (pairs_of xs) \<Longrightarrow> f a \<noteq> f b"
  by (induction xs) auto

lemma triple_pairs:
  assumes "distinct (map tg_name ts)"
  shows "triple (lev {}) (pairs rng ts) (lev {})"
  unfolding pairs_def
proof (rule triple_for_each, clarify)
  fix a b
  assume "(a, b) \<in> set (pairs_of ts)"
  then have d: "tg_name a \<noteq> tg_name b" using pairs_of_distinct[OF assms] by blast
  note p = triple_pair[OF d]
  show "triple (lev {}) (steps
     ([tag (pair_name a b ''overlap''), play rng [(a, True), (b, True), (a, False), (b, False)],
       tag (pair_name a b ''nested''), play rng [(a, True), (b, True), (b, False), (a, False)],
       tag (pair_name a b ''coincident'')] @
      concat (map (\<lambda>up. [together [drive a up, drive b up], smp (if up then ''u'' else ''d''), activity rng 1]) [True, False]))) (lev {})"
    unfolding list.map concat.simps append.simps append_Nil2 by (rule phase_rules p)+
qed

lemma triple_with_async: "triple (lev {}) (with_async rng ts qs) (lev {})"
  unfolding with_async_def by (rule triple_for_each phase_rules one_on)+

lemma triple_flip: "triple (lev X) (flip_input rng q) (lev X)"
  unfolding triple_def
proof (intro allI impI)
  fix s
  assume l: "lev X s"
  let ?s = "s\<lparr>es_draws := es_draws s @ [1]\<rparr>"
  have "triple (lev X) (steps [pulse_async q v, smp q]) (lev X)" for v by (rule phase_rules)+
  then have p: "case steps [pulse_async q v, smp q] ?s of Inl e \<Rightarrow> \<forall>n. e \<noteq> CurrentLevel n | Inr s' \<Rightarrow> lev X s'" for v
    using l by (simp add: triple_def lev_def del: steps.simps)
  show "case flip_input rng q s of Inl e \<Rightarrow> \<forall>n. e \<noteq> CurrentLevel n | Inr s' \<Rightarrow> lev X s'"
    using l p by (cases "port_val q (es_b s)") (auto simp: flip_input_def lev_def Let_def simp del: steps.simps)
qed

lemma triple_inputs: "triple (lev X) (inputs rng qs) (lev X)"
  unfolding inputs_def by (rule triple_for_each phase_rules triple_flip)+

lemma rmap_names: "rmap (mk_trig m clocks ins) names = Inr ts \<Longrightarrow> map tg_name ts = names"
  by (induction names arbitrary: ts)
    (auto simp: mk_trig_def Let_def rbind_Inr_iff split: if_split_asm)

lemma new_estim_start:
  "new_estim names m seed = Inr s \<Longrightarrow> lev {} s \<and> map tg_name (es_trigs s) = names"
  by (auto simp: new_estim_def lev_def Let_def rbind_Inr_iff dest: rmap_names)

lemma rmap_Inl: "rmap f xs = Inl e \<Longrightarrow> \<exists>x \<in> set xs. f x = Inl e"
  by (induction xs) (auto simp: rbind_Inl_iff)

lemma new_estim_error: "new_estim names m seed = Inl e \<Longrightarrow> e \<noteq> CurrentLevel n"
  by (auto simp: new_estim_def free_inputs_def class_in_def mk_trig_def Let_def rbind_Inl_iff map_sum_def
      dest!: rmap_Inl split: sum.splits if_split_asm)

text \<open>
  C34. If the triggers are named once each, the script of the equivalence stimulus never drives a
  trigger to the level it already has, the error it reserves for a bug of its own, and when it ends
  every trigger is released again.
\<close>

theorem script_balanced:
  assumes "distinct (sj_triggers an)"
  shows "case equiv_script rng an m seed of
      Inl e \<Rightarrow> (\<forall>n. e \<noteq> CurrentLevel n)
    | Inr s \<Rightarrow> es_on s = []"
proof (cases "new_estim (sj_triggers an) m seed")
  case (Inl e)
  then show ?thesis using new_estim_error by (simp add: equiv_script_def)
next
  case (Inr s)
  let ?ts = "es_trigs s" and ?cs = "es_clocks s" and ?qs = "es_asyncs s"
  note n = new_estim_start[OF Inr]
  have p: "triple (lev {}) (pairs rng ?ts) (lev {})" using assms n by (intro triple_pairs) simp
  have five: "triple (lev {}) (steps [independent rng ?ts, walk rng ?ts, coincident rng ?ts ?cs, pairs rng ?ts,
      with_async rng ?ts ?qs]) (lev {})"
    by (rule triple_steps_Cons, rule triple_independent, rule triple_steps_Cons, rule triple_walk,
        rule triple_steps_Cons, rule triple_coincident, rule triple_steps_Cons, rule p,
        rule triple_steps_Cons, rule triple_with_async, rule triple_steps_Nil)
  have "triple (lev {}) (steps [inputs rng ?qs]) (lev {})"
    by (rule triple_steps_Cons, rule triple_inputs, rule triple_steps_Nil)
  then have "triple (lev {}) (steps (if ''zcmp'' \<in> set (sj_rewrites an) \<or> sj_model an \<notin> set (sj_lib an)
      then [inputs rng ?qs] else [])) (lev {})"
    using triple_steps_Nil[of "lev {}"] by (simp only: split: if_split) blast
  then have "triple (lev {}) (steps (phases rng an ?ts ?cs ?qs)) (lev {})"
    unfolding phases_def using five by (rule triple_steps_append[rotated])
  from triple_rbind[OF triple_activity this, of rng 2]
  have "case rbind (activity rng 2 s) (steps (phases rng an ?ts ?cs ?qs)) of
      Inl e \<Rightarrow> \<forall>n. e \<noteq> CurrentLevel n | Inr s' \<Rightarrow> lev {} s'"
    using n unfolding triple_def by blast
  moreover have "equiv_script rng an m seed = rbind (activity rng 2 s) (steps (phases rng an ?ts ?cs ?qs))"
    using Inr by (simp add: equiv_script_def)
  ultimately show ?thesis by (simp add: lev_def split: sum.splits)
qed

text \<open>A model with one data trigger, whose z-compare rewrite adds the phase of random inputs.\<close>

definition subject_example :: subject where
  "subject_example = \<lparr>sj_model = ''FDRE'', sj_triggers = [''glbl.GSR'', ''R''], sj_rewrites = [''zcmp''], sj_lib = [''FDRE'']\<rparr>"

theorem script_balanced_witness:
  "case equiv_script (\<lambda>ds w. int (length ds mod 2)) subject_example map_example 1 of
      Inl e \<Rightarrow> (\<forall>n. e \<noteq> CurrentLevel n)
    | Inr s \<Rightarrow> es_on s = []"
  by (rule script_balanced) (simp add: subject_example_def)

end
