(* ===== verification/Equiv_Check.thy ===== *)
theory Equiv_Check
  imports Equiv_Stim Model_Gate
begin

text \<open>
  The equivalence check of \<open>tools/xut/verilatorize/equiv.py\<close>: the verdict of one transformed model for one
  configuration (\<open>check_model\<close>). What the simulators print and write, and which files exist, is the
  record \<open>equiv_world\<close>; the stimulus is \<open>equiv_stimulus\<close>.
\<close>

section \<open>One run\<close>

definition DONE :: string where "DONE = ''XUT_DONE''"

record erun =
  er_ok :: bool
  er_why :: string
  er_raw :: string
  er_early :: bool

definition bad_run :: "string \<Rightarrow> erun" where
  "bad_run why = \<lparr>er_ok = False, er_why = why, er_raw = [], er_early = False\<rparr>"

definition or_empty :: "string option \<Rightarrow> string" where
  "or_empty x = (case x of Some s \<Rightarrow> s | None \<Rightarrow> [])"

definition ended_early :: "string \<Rightarrow> int option \<Rightarrow> string \<Rightarrow> string option \<Rightarrow> erun" where
  "ended_early what rc out raw =
     (let msg = (case find (whole_word ''error'') (splitlines out) of Some l \<Rightarrow> strip l | None \<Rightarrow> ''no message'')
      in \<lparr>er_ok = False, er_why = what @ '' ended early (exit '' @ rc_text rc @ '', no '' @ DONE @ ''): '' @ msg,
          er_raw = or_empty raw, er_early = True\<rparr>)"

text \<open>What the compiler and the simulator leave: exit codes, their output, \<open>raw.txt\<close>.\<close>

record icarus_tools =
  it_rc :: int
  it_out :: string
  it_run_rc :: int
  it_run_out :: string
  it_raw :: "string option"

definition unclean :: "string \<Rightarrow> string list" where
  "unclean s = filter (\<lambda>l. tagged ''error'' l \<or> tagged ''sorry'' l) (splitlines s)"

definition icarus_run :: "icarus_tools \<Rightarrow> (exn, erun) result" where
  "icarus_run it =
     (let bad = unclean (it_out it); sorries = filter (tagged ''sorry'') (splitlines (it_run_out it)) in
      if it_rc it \<noteq> 0 \<or> bad \<noteq> []
      then Inr (bad_run (''compile failed (exit '' @ show_int (it_rc it) @ ''): '' @
             strip (if bad = [] then ''no diagnostic'' else hd bad)))
      else if sorries \<noteq> [] then Inr (bad_run (''run reported: '' @ strip (hd sorries)))
      else if it_run_rc it \<noteq> 0 \<or> \<not> contains DONE (it_run_out it)
      then Inr (ended_early ''simulation'' (Some (it_run_rc it)) (it_run_out it) (it_raw it))
      else case it_raw it of
          Some r \<Rightarrow> Inr \<lparr>er_ok = True, er_why = [], er_raw = r, er_early = False\<rparr>
        | None \<Rightarrow> Inl \<lparr>ex_user = False, ex_type = ''FileNotFoundError'', ex_text = ''raw.txt''\<rparr>)"

record xsim_tools =
  xt_rc :: int
  xt_log :: string
  xt_raw :: "string option"

definition xsim_run :: "xsim_tools \<Rightarrow> (exn, erun) result" where
  "xsim_run xt =
     (let out = split_log (xt_log xt) (xt_rc xt) in
      if \<not> so_compiled out
      then (let first = (case find (contains ''ERROR'') (splitlines (so_compile_text out)) of Some l \<Rightarrow> strip l | None \<Rightarrow> [])
            in Inr (bad_run (''xsim compile failed (exit '' @ show_int (xt_rc xt) @ ''): '' @ or_text first ''see run.log'')))
      else if so_rc out \<noteq> Some 0 \<or> \<not> contains DONE (so_run_text out)
      then Inr (ended_early ''xsim simulation'' (so_rc out) (so_run_text out) (xt_raw xt))
      else case xt_raw xt of
          Some r \<Rightarrow> Inr \<lparr>er_ok = True, er_why = [], er_raw = r, er_early = False\<rparr>
        | None \<Rightarrow> Inl \<lparr>ex_user = False, ex_type = ''FileNotFoundError'', ex_text = ''raw.txt''\<rparr>)"

section \<open>The verdict\<close>

record equiv_result =
  qr_status :: string
  qr_reason :: string
  qr_mismatches :: "string list"
  qr_config :: string
  qr_oracle :: string

record equiv_world =
  ew_subject :: subject
  ew_nonconst :: bool
  ew_module :: hdl_module
  ew_ms :: string
  ew_seed :: int
  ew_force :: bool
  ew_xsim_there :: bool
  ew_original :: string
  ew_copy :: "string \<Rightarrow> string option"
  ew_vz :: icarus_tools
  ew_orig :: icarus_tools
  ew_orig_xsim :: xsim_tools
  ew_rng :: draws
  ew_sha :: "string \<Rightarrow> string"
  ew_float :: "string \<Rightarrow> string option"
  ew_texts :: texts
  ew_why :: "equiv_error \<Rightarrow> string"

definition xsim_reason :: "equiv_world \<Rightarrow> string" where
  "xsim_reason w =
     (if ew_force w then ''xsim oracle forced''
      else if ew_nonconst w
      then ''a non-constant override expression: Icarus 12 evaluates such a procedural continuous assign once (ruling S28b)''
      else [])"

text \<open>The wrapper's map, without the attributes, and the stimulus.\<close>

definition equiv_map :: "equiv_world \<Rightarrow> (string, string) dict \<Rightarrow> string \<Rightarrow> (exn, dut_map) result" where
  "equiv_map w attrs key =
     rbind (raise_as True ''WrapError'' (tx_wrap (ew_texts w))
       (rbind (spec_from_hdl (ew_float w) (ew_module w) (config_dir (ew_sha w) key) (map (\<lambda>(k, v). (k, PStr v)) attrs) True []) build_map))
       (\<lambda>m. Inr (m\<lparr>m_attrs := []\<rparr>))"

definition equiv_vec :: "equiv_world \<Rightarrow> dut_map \<Rightarrow> (exn, vec) result" where
  "equiv_vec w m = raise_as True ''TransformError'' (ew_why w) (equiv_stimulus (ew_rng w) (ew_subject w) m (ew_seed w))"

text \<open>Why the check stops before anything runs: the validity condition of the z-compare rewrite.\<close>

definition z_invalid :: "equiv_world \<Rightarrow> dut_map \<Rightarrow> vec \<Rightarrow> string option" where
  "z_invalid w m v =
     (if REWRITE \<notin> set (sj_rewrites (ew_subject w)) then None
      else (let missing = undriven_ports (ew_module w) (connected m) in
        if missing \<noteq> [] then Some (undriven_reason (sj_model (ew_subject w)) missing)
        else if drives_z v then Some Z_STIMULUS else None))"

definition copies_invalid :: "equiv_world \<Rightarrow> string option" where
  "copies_invalid w =
     (let an = ew_subject w; missing = filter (\<lambda>n. ew_copy w n = None) (sj_lib an) in
      if missing \<noteq> [] \<or> sj_lib an = []
      then Some (''no transformed copy of '' @ sj_model an @ SQ # ''s hierarchy at '' @ join '', '' missing)
      else if sj_model an \<in> set (sj_lib an) \<and> ew_copy w (hd (sj_lib an)) = Some (ew_original w)
      then Some (''the transformed copy '' @ hd (sj_lib an) @ '' is identical to the original'')
      else None)"

text \<open>The original's run: on Icarus when that is sound and clean, else on xsim.\<close>

definition unavailable :: "string \<Rightarrow> string" where
  "unavailable need = ''xsim oracle needed ('' @ need @ '') but Vivado 2025.2 is unavailable''"

datatype original_run = NoOracle string string | Oracle string erun

definition on_xsim :: "equiv_world \<Rightarrow> string \<Rightarrow> string \<Rightarrow> (exn, original_run) result" where
  "on_xsim w used need =
     (if \<not> ew_xsim_there w then Inr (NoOracle used (unavailable need))
      else rbind (xsim_run (ew_orig_xsim w)) (\<lambda>r. Inr (Oracle ''xsim'' r)))"

definition run_original :: "equiv_world \<Rightarrow> (exn, original_run) result" where
  "run_original w =
     (if xsim_reason w \<noteq> [] then on_xsim w [] (xsim_reason w)
      else rbind (icarus_run (ew_orig w)) (\<lambda>r.
        if er_ok r then Inr (Oracle ''iverilog'' r)
        else on_xsim w ''iverilog'' (''Icarus does not run the original cleanly: '' @ er_why r)))"

definition first_lines :: "string \<Rightarrow> nat \<Rightarrow> string" where
  "first_lines raw n = unlines (take n (splitlines raw))"

definition equiv_header :: "equiv_world \<Rightarrow> string \<Rightarrow> string \<Rightarrow> (string, string) dict" where
  "equiv_header w cfg runner =
     [(''model'', ew_ms w), (''prim'', sj_model (ew_subject w)), (''cfg'', cfg), (''flow'', ''rtl''), (''runner'', runner)]"

definition two_traces ::
  "equiv_world \<Rightarrow> dut_map \<Rightarrow> string \<Rightarrow> string list \<Rightarrow> string \<Rightarrow> string \<Rightarrow> string \<Rightarrow> (exn, trace \<times> trace) result" where
  "two_traces w m cfg labels name orig vz =
     (let read = (\<lambda>raw runner. raise_as True ''StimCompileError'' (tx_stim (ew_texts w)) (raw_to_trace raw labels m (equiv_header w cfg runner)))
      in rbind (read orig name) (\<lambda>a. rbind (read vz ''iverilog-vz'') (\<lambda>b. Inr (a, b))))"

definition differences :: "trace \<Rightarrow> trace \<Rightarrow> string list" where
  "differences a b = map mismatch_str (diff a b True True)"

text \<open>Both runs are there: status, reason and mismatches.\<close>

definition judge ::
  "equiv_world \<Rightarrow> dut_map \<Rightarrow> string \<Rightarrow> string list \<Rightarrow> string \<Rightarrow> erun \<Rightarrow> erun \<Rightarrow> (exn, string \<times> string \<times> string list) result" where
  "judge w m cfg labels name orig vz =
     (if er_early vz \<and> er_early orig
      then (let n = min (length (splitlines (er_raw vz))) (length (splitlines (er_raw orig))) in
        rbind (two_traces w m cfg (take n labels) name (first_lines (er_raw orig) n) (first_lines (er_raw vz) n)) (\<lambda>(a, b).
        Inr (''error'', ''both models stopped before the end of the stimulus: the original on '' @ name @ '': '' @ er_why orig @
          ''; the transformed model on Icarus: '' @ er_why vz @ ''; '' @ show_nat n @ '' of '' @ show_nat (length labels) @
          '' samples ran, '' @ show_nat (length (differences a b)) @ '' differ'', differences a b)))
      else if \<not> er_ok vz then Inr (''error'', ''transformed model on Icarus: '' @ er_why vz, [])
      else if \<not> er_ok orig then Inr (''error'', ''original model on '' @ name @ '': '' @ er_why orig, [])
      else rbind (two_traces w m cfg labels name (er_raw orig) (er_raw vz)) (\<lambda>(a, b).
        let mm = differences a b in
        Inr (if mm = [] then (''pass'', [], [])
             else (''fail'', show_nat (length mm) @ '' mismatch(es) against the original on '' @ name, mm))))"

definition stopped :: "equiv_result \<Rightarrow> string \<Rightarrow> equiv_result" where
  "stopped res why = res\<lparr>qr_reason := why\<rparr>"

definition check_inner :: "equiv_world \<Rightarrow> (string, string) dict \<Rightarrow> equiv_result \<Rightarrow> (exn, equiv_result) result" where
  "check_inner w attrs res =
     (let cfg = config_dir (ew_sha w) (qr_config res) in
      rbind (equiv_map w attrs (qr_config res)) (\<lambda>m.
      rbind (equiv_vec w m) (\<lambda>v.
      case z_invalid w m v of Some why \<Rightarrow> Inr (stopped res why) | None \<Rightarrow>
      rbind (raise_as True ''XvecError'' (tx_xvec (ew_texts w)) (dumps v)) (\<lambda>_.
      rbind (raise_as True ''StimCompileError'' (tx_stim (ew_texts w)) (write_stim v m)) (\<lambda>(cw, _).
      if xsim_reason w \<noteq> [] \<and> \<not> ew_xsim_there w then Inr (stopped res (unavailable (xsim_reason w)))
      else case copies_invalid w of Some why \<Rightarrow> Inr (stopped res why) | None \<Rightarrow>
      rbind (icarus_run (ew_vz w)) (\<lambda>vz.
      rbind (run_original w) (\<lambda>og.
      case og of
        NoOracle used why \<Rightarrow> Inr ((stopped res why)\<lparr>qr_oracle := used\<rparr>)
      | Oracle name orig \<Rightarrow>
          rbind (judge w m cfg (c_labels cw) name orig vz) (\<lambda>(st, why, mm).
          Inr (res\<lparr>qr_status := st, qr_reason := why, qr_mismatches := mm, qr_oracle := name\<rparr>)))))))))"

text \<open>
  \<open>check_model\<close>: an exception is an error, and so is a result that cannot be recorded. What \<open>_check\<close> had
  set before it raised (the oracle) is not kept here.
\<close>

definition check_model :: "equiv_world \<Rightarrow> bool \<Rightarrow> (string, string) dict \<Rightarrow> equiv_result" where
  "check_model w recorded attrs =
     (let res0 = \<lparr>qr_status = ''error'', qr_reason = [], qr_mismatches = [], qr_config = config_key attrs, qr_oracle = []\<rparr>;
          res = (case check_inner w attrs res0 of
                   Inr r \<Rightarrow> r | Inl e \<Rightarrow> res0\<lparr>qr_reason := ex_type e @ '': '' @ ex_text e\<rparr>)
      in if recorded then res else res\<lparr>qr_status := ''error'', qr_reason := ''cannot record the result''\<rparr>)"

section \<open>What a verdict rests on\<close>

definition clean_icarus :: "icarus_tools \<Rightarrow> string \<Rightarrow> bool" where
  "clean_icarus it raw \<longleftrightarrow>
     it_rc it = 0 \<and> unclean (it_out it) = [] \<and> (\<forall>l \<in> set (splitlines (it_run_out it)). \<not> tagged ''sorry'' l) \<and>
     it_run_rc it = 0 \<and> contains DONE (it_run_out it) \<and> it_raw it = Some raw"

definition clean_xsim :: "xsim_tools \<Rightarrow> string \<Rightarrow> bool" where
  "clean_xsim xt raw \<longleftrightarrow>
     (let out = split_log (xt_log xt) (xt_rc xt)
      in so_compiled out \<and> so_rc out = Some 0 \<and> contains DONE (so_run_text out)) \<and> xt_raw xt = Some raw"

lemma icarus_run_ok: "icarus_run it = Inr r \<Longrightarrow> er_ok r \<Longrightarrow> clean_icarus it (er_raw r)"
  by (auto simp: icarus_run_def clean_icarus_def bad_run_def ended_early_def Let_def filter_empty_conv
      split: if_split_asm option.split_asm)

lemma xsim_run_ok: "xsim_run xt = Inr r \<Longrightarrow> er_ok r \<Longrightarrow> clean_xsim xt (er_raw r)"
  by (auto simp: xsim_run_def clean_xsim_def bad_run_def ended_early_def Let_def split: if_split_asm option.split_asm)

text \<open>The original ran to the end on an oracle that may be trusted with it.\<close>

definition sound_oracle :: "equiv_world \<Rightarrow> string \<Rightarrow> string \<Rightarrow> bool" where
  "sound_oracle w name raw \<longleftrightarrow>
     (name = ''iverilog'' \<and> \<not> ew_nonconst w \<and> \<not> ew_force w \<and> clean_icarus (ew_orig w) raw) \<or>
     (name = ''xsim'' \<and> ew_xsim_there w \<and> clean_xsim (ew_orig_xsim w) raw)"

lemma run_original_sound: "run_original w = Inr (Oracle name r) \<Longrightarrow> er_ok r \<Longrightarrow> sound_oracle w name (er_raw r)"
  by (auto simp: run_original_def on_xsim_def sound_oracle_def xsim_reason_def rbind_Inr_iff
      intro: icarus_run_ok xsim_run_ok split: if_split_asm)

text \<open>What \<open>check_inner\<close> has found when it answers ''pass''.\<close>

definition agreed :: "equiv_world \<Rightarrow> (string, string) dict \<Rightarrow> equiv_result \<Rightarrow> bool" where
  "agreed w attrs res \<longleftrightarrow> (\<exists>m v cw ops vz og a b.
     equiv_map w attrs (config_key attrs) = Inr m \<and> equiv_vec w m = Inr v \<and> write_stim v m = Inr (cw, ops) \<and>
     z_invalid w m v = None \<and> copies_invalid w = None \<and> clean_icarus (ew_vz w) vz \<and>
     sound_oracle w (qr_oracle res) og \<and>
     two_traces w m (config_dir (ew_sha w) (config_key attrs)) (c_labels cw) (qr_oracle res) og vz = Inr (a, b) \<and>
     diff a b True True = [])"

lemma judge_pass:
  assumes "judge w m cfg labels name orig vz = Inr (''pass'', why, mm)"
  shows "er_ok vz \<and> er_ok orig \<and> mm = [] \<and>
    (\<exists>a b. two_traces w m cfg labels name (er_raw orig) (er_raw vz) = Inr (a, b) \<and> diff a b True True = [])"
  using assms by (auto simp: judge_def differences_def Let_def rbind_Inr_iff split: if_split_asm)

lemma judge_fail:
  assumes "judge w m cfg labels name orig vz = Inr (''fail'', why, mm)"
  shows "mm \<noteq> []"
  using assms by (auto simp: judge_def differences_def Let_def rbind_Inr_iff split: if_split_asm)

lemma judge_status: "judge w m cfg labels name orig vz = Inr (st, why, mm) \<Longrightarrow> st \<in> {''pass'', ''fail'', ''error''}"
  by (auto simp: judge_def Let_def rbind_Inr_iff split: if_split_asm)

text \<open>Every other way out of \<open>check_inner\<close> leaves the status it was given.\<close>

lemma check_inner_judged:
  assumes r: "check_inner w attrs res = Inr r" and s: "qr_status r \<noteq> qr_status res"
  shows "\<exists>m v cw ops vz orig st why.
    equiv_map w attrs (qr_config res) = Inr m \<and> equiv_vec w m = Inr v \<and> write_stim v m = Inr (cw, ops) \<and>
    z_invalid w m v = None \<and> copies_invalid w = None \<and> icarus_run (ew_vz w) = Inr vz \<and>
    run_original w = Inr (Oracle (qr_oracle r) orig) \<and>
    judge w m (config_dir (ew_sha w) (qr_config res)) (c_labels cw) (qr_oracle r) orig vz = Inr (qr_status r, why, qr_mismatches r)"
proof -
  let ?cfg = "config_dir (ew_sha w) (qr_config res)"
  obtain m v where m: "equiv_map w attrs (qr_config res) = Inr m" and v: "equiv_vec w m = Inr v"
    using r by (auto simp: check_inner_def rbind_Inr_iff)
  have z: "z_invalid w m v = None"
    using r s m v by (cases "z_invalid w m v") (auto simp: check_inner_def stopped_def rbind_Inr_iff)
  have ns: "\<not> (xsim_reason w \<noteq> [] \<and> \<not> ew_xsim_there w)"
  proof
    assume "xsim_reason w \<noteq> [] \<and> \<not> ew_xsim_there w"
    then show False using r s m v z by (auto simp: check_inner_def stopped_def rbind_Inr_iff)
  qed
  have c: "copies_invalid w = None"
  proof (cases "copies_invalid w")
    case (Some why)
    then show ?thesis using r s m v z ns by (auto simp: check_inner_def stopped_def rbind_Inr_iff)
  qed
  obtain cw ops vz og where st: "write_stim v m = Inr (cw, ops)" and vz: "icarus_run (ew_vz w) = Inr vz"
      and og: "run_original w = Inr og"
      and k: "(case og of NoOracle used why \<Rightarrow> Inr ((stopped res why)\<lparr>qr_oracle := used\<rparr>)
        | Oracle name orig \<Rightarrow> rbind (judge w m ?cfg (c_labels cw) name orig vz) (\<lambda>(st, why, mm).
            Inr (res\<lparr>qr_status := st, qr_reason := why, qr_mismatches := mm, qr_oracle := name\<rparr>))) = (Inr r :: (exn, equiv_result) result)"
    using r m v z ns c by (auto simp: check_inner_def Let_def rbind_Inr_iff)
  show ?thesis
  proof (cases og)
    case (NoOracle used why)
    then show ?thesis using k s by (auto simp: stopped_def)
  next
    case (Oracle name orig)
    then show ?thesis using k s m v z c st vz og by (auto simp: rbind_Inr_iff)
  qed
qed

text \<open>
  C35. The equivalence check of a transformed model for a configuration ends in one of three verdicts.
  It passes only if the transformed copies of the model's hierarchy are there and the model's own copy
  is not the original, the stimulus is one the rewrite is valid for, both models were compiled and run
  to the end without a diagnostic, the original on an oracle that is sound for it, their traces have no
  difference, and the result was recorded. It fails only on mismatches, which it names, and recorded.
  Everything else is an error.
\<close>

theorem equiv_verdict:
  "(let r = check_model w recorded attrs in
    if qr_status r = ''pass'' then recorded \<and> agreed w attrs r
    else if qr_status r = ''fail'' then recorded \<and> qr_mismatches r \<noteq> []
    else qr_status r = ''error'')"
proof -
  let ?res0 = "\<lparr>qr_status = ''error'', qr_reason = [], qr_mismatches = [], qr_config = config_key attrs, qr_oracle = []\<rparr>"
  let ?r = "check_model w recorded attrs"
  have inner: "recorded \<and> check_inner w attrs ?res0 = Inr ?r" if "qr_status ?r \<noteq> ''error''"
    using that by (auto simp: check_model_def Let_def split: if_split_asm sum.split_asm)
  have pass: "recorded \<and> agreed w attrs ?r" if p: "qr_status ?r = ''pass''"
  proof -
    have i: "recorded \<and> check_inner w attrs ?res0 = Inr ?r" using p by (intro inner) simp
    then show ?thesis
      using check_inner_judged[of w attrs ?res0 ?r] p
      by (auto simp: agreed_def dest!: judge_pass icarus_run_ok run_original_sound) metis
  qed
  have fail: "recorded \<and> qr_mismatches ?r \<noteq> []" if p: "qr_status ?r = ''fail''"
  proof -
    have i: "recorded \<and> check_inner w attrs ?res0 = Inr ?r" using p by (intro inner) simp
    then show ?thesis using check_inner_judged[of w attrs ?res0 ?r] p by (auto dest: judge_fail)
  qed
  have "qr_status ?r \<in> {''pass'', ''fail'', ''error''}"
  proof (cases "qr_status ?r = ''error''")
    case False
    then show ?thesis using check_inner_judged[of w attrs ?res0 ?r] inner by (auto dest: judge_status)
  qed simp
  then show ?thesis using pass fail by (auto simp: Let_def)
qed

end
