(* ===== verification/Status_Bins.thy ===== *)
theory Status_Bins
  imports Catalog Equiv_Stim Runner_Base Crosscheck
begin

text \<open>
  The coverage bins of a primitive and a fresh status entry (\<open>tools/xut/status.py\<close>), and the reader of
  results (\<open>tools/xut/results.py\<close>). A status file is the record \<open>status_file\<close>; a key that may be absent
  is empty. The text of a default value is what \<open>str\<close> gives.
\<close>

section \<open>Coverage bins\<close>

record cat_port =
  cp_name :: string
  cp_dir :: string
  cp_width :: nat
  cp_cls :: string
  cp_active :: "string option"

record cat_attr =
  ca_name :: string
  ca_default :: string
  ca_allowed :: "string list"

record cat_entry =
  cb_name :: string
  cb_family :: string
  cb_library :: string
  cb_ports :: "cat_port list"
  cb_attrs :: "cat_attr list"
  cb_claims :: "string list"
  cb_crosses :: "string list list"

definition port_names :: "cat_port \<Rightarrow> string list" where
  "port_names p =
     (if cp_width p = 1 then [cp_name p]
      else map (\<lambda>i. cp_name p @ ''['' @ show_nat i @ '']'') [0..<cp_width p])"

definition port_bin :: "string \<Rightarrow> string \<Rightarrow> string" where
  "port_bin n e = ''port:'' @ n @ '':'' @ e"

definition port_class_bins :: "cat_port \<Rightarrow> string list" where
  "port_class_bins p =
     (let each = (\<lambda>es. concat (map (\<lambda>n. map (port_bin n) es) (port_names p))) in
      if cp_dir p = ''output'' then []
      else if cp_cls p = ''data'' \<and> cp_dir p = ''input'' then each [''0'', ''1'']
      else if cp_cls p = ''clock'' then [port_bin (cp_name p) ''edge'']
      else if cp_cls p = ''async'' \<or> cp_cls p = ''gate'' then
        each (if cp_active p \<noteq> None \<and> cp_active p \<noteq> Some [] then [''assert'', ''release''] else [''rise'', ''fall''])
      else if cp_cls p = ''inout'' then map (port_bin (cp_name p)) [''drive0'', ''drive1'', ''release'']
      else [])"

definition allowed_of :: "cat_entry \<Rightarrow> (string, string list) dict" where
  "allowed_of e = dict_of (map (\<lambda>a. (ca_name a, ca_allowed a)) (cb_attrs e))"

definition cross_bin :: "string \<Rightarrow> string \<Rightarrow> string \<Rightarrow> string \<Rightarrow> string" where
  "cross_bin a va b vb = ''cross:'' @ a @ ''='' @ va @ '','' @ b @ ''='' @ vb"

definition allowed_values :: "cat_entry \<Rightarrow> string \<Rightarrow> string list" where
  "allowed_values e a = (case map_of (allowed_of e) a of Some vs \<Rightarrow> vs | None \<Rightarrow> [])"

definition pair_bins :: "cat_entry \<Rightarrow> string \<times> string \<Rightarrow> string list" where
  "pair_bins e = (\<lambda>(a, b).
     let vas = allowed_values e a; vbs = allowed_values e b in
     if \<not> (is_enumerated vas \<and> is_enumerated vbs) then []
     else concat (map (\<lambda>va. map (\<lambda>vb. cross_bin a va b vb) vbs) vas))"

definition cross_bins :: "cat_entry \<Rightarrow> string list" where
  "cross_bins e = dedup (concat (map (\<lambda>c. concat (map (pair_bins e) (pairs_of c))) (cb_crosses e)))"

definition attr_value_bins :: "cat_attr \<Rightarrow> string list" where
  "attr_value_bins a =
     (if is_enumerated (ca_allowed a) then map (\<lambda>v. ''attr:'' @ ca_name a @ ''='' @ v) (ca_allowed a)
      else [''attr:'' @ ca_name a])"

definition coverage_bins :: "cat_entry \<Rightarrow> string list" where
  "coverage_bins e =
     concat (map (\<lambda>p. (''port:'' @ cp_name p) # port_class_bins p) (cb_ports e)) @
     concat (map attr_value_bins (cb_attrs e)) @ cross_bins e @ map (\<lambda>c. ''claim:'' @ c) (cb_claims e)"

section \<open>A status file\<close>

definition RESULT_VALUES :: "string list" where
  "RESULT_VALUES = [''pass'', ''fail'', ''error'', ''skip'', ''not-run'', ''unsupported'', ''n/a'']"

record status_file =
  sf_prim :: string
  sf_family :: string
  sf_unit :: string
  sf_library :: string
  sf_hash :: "string option"
  sf_tools :: "(string, string) dict"
  sf_hashes :: "(string, string) dict"
  sf_tools_by :: "(string, (string, string) dict) dict"
  sf_sources :: "string list"
  sf_results :: "(string, string) dict"
  sf_by_source :: "(string, (string, string) dict) dict"
  sf_findings :: "string list"
  sf_covered :: "string list"
  sf_uncovered :: "string list"
  sf_notes :: string

text \<open>\<open>status.schema.json\<close>. The pattern of a results key: \<open>^L[0-3]/[a-z]+/[a-z0-9-]+$\<close>.\<close>

definition result_key :: "string \<Rightarrow> bool" where
  "result_key k \<longleftrightarrow>
     (case split_on (CHR ''/'') k of
        [l, r, f] \<Rightarrow> l \<in> {''L0'', ''L1'', ''L2'', ''L3''} \<and> r \<noteq> [] \<and> list_all is_lower_az r \<and>
          f \<noteq> [] \<and> list_all (\<lambda>c. is_lower_az c \<or> is_digit c \<or> c = CHR ''-'') f
      | _ \<Rightarrow> False)"

definition results_ok :: "(string, string) dict \<Rightarrow> bool" where
  "results_ok d \<longleftrightarrow> list_all (\<lambda>(k, v). to_dollar result_key k \<and> v \<in> set RESULT_VALUES) d"

definition prim_name :: "string \<Rightarrow> bool" where
  "prim_name s \<longleftrightarrow> s \<noteq> [] \<and> is_upper_az (hd s) \<and> list_all (\<lambda>c. is_upper_az c \<or> is_digit c \<or> c = US) (tl s)"

definition REFERENCE_MODEL_SOURCE :: string where
  "REFERENCE_MODEL_SOURCE = ''unisim-2025.2''"

definition status_valid :: "status_file \<Rightarrow> bool" where
  "status_valid s \<longleftrightarrow>
     to_dollar prim_name (sf_prim s) \<and> sf_library s \<in> {''unisims'', ''retarget'', ''none''} \<and>
     list_all (\<lambda>(k, h). k \<noteq> [] \<and> to_dollar tree_hash_ok h) (sf_hashes s) \<and>
     list_all (\<lambda>(k, d). k \<noteq> []) (sf_tools_by s) \<and>
     list_all (\<lambda>m. m \<noteq> []) (sf_sources s) \<and> distinct (sf_sources s) \<and> results_ok (sf_results s) \<and>
     list_all (\<lambda>(k, d). k \<noteq> [] \<and> k \<noteq> REFERENCE_MODEL_SOURCE \<and> results_ok d) (sf_by_source s)"

definition new_stub :: "cat_entry \<Rightarrow> string \<Rightarrow> status_file" where
  "new_stub e unit =
     \<lparr>sf_prim = cb_name e, sf_family = cb_family e, sf_unit = unit, sf_library = cb_library e, sf_hash = None,
      sf_tools = [], sf_hashes = [], sf_tools_by = [], sf_sources = [], sf_results = [], sf_by_source = [],
      sf_findings = [], sf_covered = [], sf_uncovered = coverage_bins e, sf_notes = []\<rparr>"

definition never_recorded :: "status_file \<Rightarrow> bool" where
  "never_recorded s \<longleftrightarrow> sf_hash s = None \<and> sf_hashes s = []"

datatype status_error =
    NoTests
  | NotCheckout
  | DirtyTree "string list"
  | NoResults
  | StaleResults "(string \<times> string \<times> string) list"
  | BadStatus string
  | SchemaRefused

text \<open>\<open>refresh_bins\<close> of a loaded file: the file to write, None where it is left alone.\<close>

definition refresh_bins :: "status_file \<Rightarrow> cat_entry \<Rightarrow> (status_error, status_file option) result" where
  "refresh_bins s e =
     (if \<not> never_recorded s then Inr None
      else if sf_covered s = [] \<and> sf_uncovered s = coverage_bins e then Inr None
      else let s' = s\<lparr>sf_covered := [], sf_uncovered := coverage_bins e\<rparr>
        in if status_valid s' then Inr (Some s') else Inl SchemaRefused)"

section \<open>Reading a result\<close>

text \<open>
  What is at the place of a result: nothing, a text that does not parse, JSON that is no object or whose
  fields have other types than the schema's, or an object. What \<open>jsonschema\<close> would say is \<open>why\<close>.
\<close>

datatype result_json = Absent | Unreadable string | NotObject | IllTyped string | Parsed run_result

definition key_of :: "run_result \<Rightarrow> string \<times> string \<times> string \<times> string" where
  "key_of r = (rr_flow r, rr_runner r, rr_ms r, rr_test r)"

definition key_text :: "string \<times> string \<times> string \<times> string \<Rightarrow> string" where
  "key_text = (\<lambda>(a, b, c, d). join '', '' [a, b, c, d])"

definition read_result ::
  "(run_result \<Rightarrow> string) \<Rightarrow> result_json \<Rightarrow> string \<times> string \<times> string \<times> string \<Rightarrow> (string, run_result) result option" where
  "read_result why j key =
     (case j of
        Absent \<Rightarrow> None
      | Unreadable m \<Rightarrow> Some (Inl (''unreadable result.json: '' @ m))
      | NotObject \<Rightarrow> Some (Inl ''result.json is not an object'')
      | IllTyped m \<Rightarrow> Some (Inl (''invalid result.json '' @ m))
      | Parsed r \<Rightarrow> Some
          (if \<not> result_valid r then Inl (''invalid result.json '' @ why r)
           else if key_of r \<noteq> key then Inl (''result.json names '' @ key_text (key_of r) @ '', not its path'')
           else if rr_status r \<in> set RAN \<and> \<not> list_ex (\<lambda>c. cr_status c \<in> set RAN) (rr_configs r)
           then Inl (''reported '' @ rr_status r @ '' but ran no configuration: no evidence'')
           else Inr r))"

lemma read_result_usable:
  assumes "read_result why j key = Some (Inr r)"
  shows "j = Parsed r \<and> result_valid r \<and> key_of r = key \<and>
    (rr_status r \<in> set RAN \<longrightarrow> (\<exists>c \<in> set (rr_configs r). cr_status c \<in> set RAN))"
  using assms by (auto simp: read_result_def list_ex_iff split: result_json.split_asm if_split_asm)

end
