(* ===== verification/Status_Record.thy ===== *)
theory Status_Record
  imports Status_Bins
begin

text \<open>
  \<open>xut status record\<close> (\<open>tools/xut/status.py\<close>): the cells and the coverage that the results of a
  primitive's tests give, and the status file they are recorded in. A function that may warn returns
  its warnings as well. The files it reads are parameters: the results, the stimuli, the views of the
  Verilator companion (\<open>crosscheck.py\<close>), the old status file and the finding files.
\<close>

section \<open>Cells\<close>

definition RECORDED_RUNNERS :: "string list" where
  "RECORDED_RUNNERS = filter (\<lambda>r. r \<notin> set (dict_keys DECLARATION_OF)) RUNNER_ORDER"

definition RECORD_PRECEDENCE :: "string list" where
  "RECORD_PRECEDENCE = [''fail'', ''error'', ''not-run'', ''pass'', ''skip'', ''unsupported'', ''n/a'']"

definition precedence :: "string \<Rightarrow> nat" where
  "precedence v = length (takeWhile (\<lambda>x. x \<noteq> v) RECORD_PRECEDENCE)"

text \<open>\<open>min(values, key=...)\<close>: the first value of least precedence.\<close>

fun worst_result :: "string list \<Rightarrow> string" where
  "worst_result [] = []"
| "worst_result (v # vs) = foldl (\<lambda>a b. if precedence b < precedence a then b else a) v vs"

text \<open>A result that was loaded; an unusable one stands in as an error.\<close>

datatype loaded = Usable run_result | Unusable string

fun l_status :: "loaded \<Rightarrow> string" where
  "l_status (Usable r) = rr_status r"
| "l_status (Unusable why) = ''error''"

fun l_reason :: "loaded \<Rightarrow> string" where
  "l_reason (Usable r) = (case rr_reason r of Some why \<Rightarrow> why | None \<Rightarrow> [])"
| "l_reason (Unusable why) = why"

fun l_configs :: "loaded \<Rightarrow> config_result list" where
  "l_configs (Usable r) = rr_configs r"
| "l_configs (Unusable why) = []"

definition cell :: "string option \<Rightarrow> loaded option \<Rightarrow> string" where
  "cell declared_as res =
     (if declared_as = Some ''unsupported'' then ''unsupported''
      else if declared_as = Some ''no'' then ''n/a''
      else case res of
        None \<Rightarrow> ''not-run''
      | Some r \<Rightarrow>
          if l_status r \<noteq> ''skip'' then l_status r
          else if starts_with ''runner unavailable'' (l_reason r) then ''not-run''
          else if starts_with ''runner '' (l_reason r) \<and> contains '' does not run '' (l_reason r) then ''n/a''
          else if starts_with ''declared unsupported'' (l_reason r) then ''not-run''
          else ''skip'')"

type_synonym rec_key = "string \<times> string \<times> string"
type_synonym results = "(rec_key, loaded) dict"

datatype warning =
    UnusableResult rec_key string
  | UnconfirmedPass string string string
  | NoStimulus string string
  | NotDefaultSeed string int
  | NoneCredited string bool
  | NoBins string string
  | UnknownBin string string
  | NotReached string string
  | NotRealised string string
  | StaleSource string string

text \<open>The files \<open>record\<close> reads for one model source.\<close>

record rec_files =
  rf_result :: "rec_key \<Rightarrow> result_json"
  rf_why :: "run_result \<Rightarrow> string"
  rf_stim :: "string \<Rightarrow> string \<Rightarrow> string option"
  rf_views :: "string \<Rightarrow> string \<Rightarrow> string \<Rightarrow> view option"
  rf_state :: tree_state
  rf_status :: "(status_error, status_file) result option"
  rf_findings :: "(string \<times> string) list"

definition result_keys :: "test_case list \<Rightarrow> (test_case \<times> string \<times> string) list" where
  "result_keys cases =
     concat (map (\<lambda>c. concat (map (\<lambda>r. map (\<lambda>f. (c, r, f)) (runner_flows r (tc_flows c))) RECORDED_RUNNERS)) cases)"

definition load_one :: "rec_files \<Rightarrow> string \<Rightarrow> results \<times> warning list \<Rightarrow> test_case \<times> string \<times> string \<Rightarrow> results \<times> warning list" where
  "load_one rf ms = (\<lambda>(out, ws) (c, runner, flow).
     let k = (flow, runner, tc_id c) in
     case read_result (rf_why rf) (rf_result rf k) (flow, runner, ms, tc_id c) of
       None \<Rightarrow> (out, ws)
     | Some (Inl why) \<Rightarrow> (AList.update k (Unusable why) out, ws @ [UnusableResult k why])
     | Some (Inr r) \<Rightarrow> (AList.update k (Usable r) out, ws))"

definition load_results :: "rec_files \<Rightarrow> string \<Rightarrow> test_case list \<Rightarrow> results \<times> warning list" where
  "load_results rf ms cases = foldl (load_one rf ms) ([], []) (result_keys cases)"

definition unless_transform_bug :: "rec_files \<Rightarrow> string \<Rightarrow> string \<Rightarrow> string \<times> warning list" where
  "unless_transform_bug rf tid flow =
     (case verilator_unconfirmed (rf_views rf tid flow ''verilator'') (rf_views rf tid flow ''iverilog'')
             (rf_views rf tid flow ''iverilog-vz'') of
        None \<Rightarrow> (''pass'', [])
      | Some gap \<Rightarrow> (''error'', [UnconfirmedPass flow tid gap]))"

section \<open>Coverage\<close>

text \<open>\<open>s.strip('"')\<close>.\<close>

definition strip_quotes :: "string \<Rightarrow> string" where
  "strip_quotes s = rev (dropWhile (\<lambda>c. c = DQ) (rev (dropWhile (\<lambda>c. c = DQ) s)))"

definition enum_value :: "string \<Rightarrow> string list \<Rightarrow> string option" where
  "enum_value s allowed =
     (case filter (\<lambda>c. c \<in> set allowed) [s, DQ # s @ [DQ], strip_quotes s] of
        c # _ \<Rightarrow> Some c
      | [] \<Rightarrow>
          (case int_literal (VStr s) of
             None \<Rightarrow> None
           | Some n \<Rightarrow> find (\<lambda>a. int_literal (VStr a) = Some n) allowed))"

definition passed_cfgs :: "loaded option \<Rightarrow> (string, config_result) dict" where
  "passed_cfgs res =
     (case res of None \<Rightarrow> []
      | Some r \<Rightarrow> dict_of (map (\<lambda>c. (cr_cfg c, c)) (filter (\<lambda>c. cr_status c = ''pass'') (l_configs r))))"

definition sim_results :: "test_case \<Rightarrow> results \<Rightarrow> loaded option list" where
  "sim_results c res =
     concat (map (\<lambda>s. map (\<lambda>f. map_of res (f, s, tc_id c)) (runner_flows s (tc_flows c))) SIMULATORS)"

definition sim_passed_cfgs :: "test_case \<Rightarrow> results \<Rightarrow> string list" where
  "sim_passed_cfgs c res = concat (map (\<lambda>r. map fst (passed_cfgs r)) (sim_results c res))"

definition sim_passed :: "test_case \<Rightarrow> results \<Rightarrow> bool" where
  "sim_passed c res \<longleftrightarrow> list_ex (\<lambda>r. case r of Some l \<Rightarrow> l_status l = ''pass'' | None \<Rightarrow> False) (sim_results c res)"

text \<open>The attributes, as texts, of the configurations \<open>cfgs\<close> of a test.\<close>

definition declared_configs :: "test_case \<Rightarrow> (string \<times> (string, attr_val) dict) list" where
  "declared_configs c = (if tc_configs c = [] then [(''default'', [])] else tc_configs c)"

definition stim_attrs :: "rec_files \<Rightarrow> string \<Rightarrow> string \<Rightarrow> (string, string) dict option" where
  "stim_attrs rf tid cfg =
     (case rf_stim rf tid cfg of
        None \<Rightarrow> None
      | Some t \<Rightarrow> (case loads t of Inl _ \<Rightarrow> None | Inr v \<Rightarrow> Some (vec_attrs v)))"

definition config_attrs :: "rec_files \<Rightarrow> test_case \<Rightarrow> string list \<Rightarrow> (string, string) dict list \<times> warning list" where
  "config_attrs rf c cfgs =
     (if tc_style c \<noteq> ''vector''
      then (map (\<lambda>(n, attrs). map (\<lambda>(k, v). (k, py_str v)) attrs) (filter (\<lambda>(n, attrs). n \<in> set cfgs) (declared_configs c)), [])
      else (let ns = sort (remdups cfgs) in
        (List.map_filter (stim_attrs rf (tc_id c)) ns,
         map (NoStimulus (tc_id c)) (filter (\<lambda>n. stim_attrs rf (tc_id c) n = None) ns))))"

text \<open>The cross bins one configuration realises; the attributes of a cross are the entry's (\<open>load_entry\<close>).\<close>

definition value_of :: "cat_entry \<Rightarrow> (string, string) dict \<Rightarrow> string \<Rightarrow> string option" where
  "value_of e attrs a =
     (let vals = dict_update (dict_of (map (\<lambda>x. (ca_name x, ca_default x)) (cb_attrs e))) attrs
      in enum_value (case map_of vals a of Some v \<Rightarrow> v | None \<Rightarrow> ''None'') (allowed_values e a))"

definition realised :: "cat_entry \<Rightarrow> (string, string) dict \<Rightarrow> string list" where
  "realised e attrs =
     List.map_filter (\<lambda>(a, b).
       case (value_of e attrs a, value_of e attrs b) of
         (Some va, Some vb) \<Rightarrow> Some (cross_bin a va b vb)
       | _ \<Rightarrow> None) (concat (map pairs_of (cb_crosses e)))"

definition crosses_reached :: "rec_files \<Rightarrow> cat_entry \<Rightarrow> test_case \<Rightarrow> string list \<Rightarrow> string list \<times> warning list" where
  "crosses_reached rf e c cfgs =
     (let (as, ws) = config_attrs rf c cfgs in (concat (map (realised e) as), ws))"

definition is_frozen :: "test_case \<Rightarrow> bool" where
  "is_frozen c \<longleftrightarrow> (case tc_source c of Some s \<Rightarrow> starts_with (rev ''.xvec'') (rev s) | None \<Rightarrow> False)"

definition warn_non_default_seed :: "test_case \<Rightarrow> loaded option \<Rightarrow> warning list" where
  "warn_non_default_seed c python =
     (if is_frozen c then []
      else case python of
          Some (Usable r) \<Rightarrow>
            (case rr_seed r of
               Some s \<Rightarrow> if s \<noteq> default_seed (tc_id c) then [NotDefaultSeed (tc_id c) s] else []
             | None \<Rightarrow> [])
        | _ \<Rightarrow> [])"

definition vector_reached :: "test_case \<Rightarrow> results \<Rightarrow> (string list \<times> string list) option \<times> warning list" where
  "vector_reached c res =
     (let python = map_of res (''rtl'', ''python'', tc_id c);
          golden = passed_cfgs python;
          credited = sort (filter (\<lambda>n. n \<in> set (sim_passed_cfgs c res)) (map fst golden))
      in if credited = [] then (None, if tc_exercises c = [] then [] else [NoneCredited (tc_id c) (golden = [])])
         else (let bins = (\<lambda>n. case map_of golden n of Some g \<Rightarrow> cr_bins g | None \<Rightarrow> None) in
           (Some (credited, concat (map (\<lambda>n. case bins n of Some bs \<Rightarrow> bs | None \<Rightarrow> []) credited)),
            warn_non_default_seed c python @ map (NoBins (tc_id c)) (filter (\<lambda>n. bins n = None) credited))))"

definition is_cross :: "string \<Rightarrow> bool" where
  "is_cross b \<longleftrightarrow> starts_with ''cross:'' b"

text \<open>The configurations a test is credited with and the bins it covers without its crosses; None
  ends the test's part.\<close>

definition plain_covered :: "test_case \<Rightarrow> results \<Rightarrow> (string list \<times> string list) option \<times> warning list" where
  "plain_covered c res =
     (let plain = filter (\<lambda>b. \<not> is_cross b) (tc_exercises c) in
      if tc_style c = ''vector''
      then (case vector_reached c res of
          (None, ws) \<Rightarrow> (None, ws)
        | (Some (cfgs, reached), ws) \<Rightarrow>
            (Some (cfgs, filter (\<lambda>b. b \<in> set reached) plain),
             ws @ map (NotReached (tc_id c)) (filter (\<lambda>b. b \<notin> set reached) plain)))
      else (Some (sim_passed_cfgs c res, if sim_passed c res then plain else []), []))"

definition case_covered :: "rec_files \<Rightarrow> cat_entry \<Rightarrow> results \<Rightarrow> test_case \<Rightarrow> string list \<times> warning list" where
  "case_covered rf e res c =
     (let unknown = map (UnknownBin (tc_id c)) (filter (\<lambda>b. b \<notin> set (coverage_bins e)) (tc_exercises c));
          crosses = filter is_cross (tc_exercises c)
      in case plain_covered c res of
           (None, ws) \<Rightarrow> ([], unknown @ ws)
         | (Some (cfgs, bs), ws) \<Rightarrow>
             if crosses = [] then (bs, unknown @ ws)
             else (let (x, wx) = crosses_reached rf e c cfgs in
               (bs @ filter (\<lambda>b. b \<in> set x) crosses,
                unknown @ ws @ wx @ map (NotRealised (tc_id c)) (sort (remdups (filter (\<lambda>b. b \<notin> set x) crosses))))))"

definition coverage ::
  "rec_files \<Rightarrow> cat_entry \<Rightarrow> test_case list \<Rightarrow> results \<Rightarrow> (string list \<times> string list) \<times> warning list" where
  "coverage rf e cases res =
     (let parts = map (case_covered rf e res) cases; covered = concat (map fst parts); bins = coverage_bins e
      in ((filter (\<lambda>b. b \<in> set covered) bins, filter (\<lambda>b. b \<notin> set covered) bins), concat (map snd parts)))"

section \<open>Recording\<close>

definition tree_hash :: "tree_state \<Rightarrow> (status_error, string) result" where
  "tree_hash st =
     (case (ts_hash st, ts_dirty st) of
        (Some h, Some d) \<Rightarrow> if d \<noteq> [] then Inl (DirtyTree d) else Inr h
      | _ \<Rightarrow> Inl NotCheckout)"

definition open_findings :: "(string \<times> string) list \<Rightarrow> string \<Rightarrow> string list" where
  "open_findings files prim =
     map fst (filter (\<lambda>(stem, text). finding_status text = Some ''open'')
       (sort_key (\<lambda>(stem, text). stem @ ''.md'') (filter (\<lambda>(stem, text). starts_with (prim @ ''-'') stem) files)))"

definition add_tool :: "(string, string list) dict \<Rightarrow> string \<times> string \<Rightarrow> (string, string list) dict" where
  "add_tool d = (\<lambda>(k, v). AList.update k (List.insert v (case map_of d k of Some vs \<Rightarrow> vs | None \<Rightarrow> [])) d)"

definition merge_tools :: "(string, string list) dict \<Rightarrow> loaded \<Rightarrow> (string, string list) dict" where
  "merge_tools into l =
     (case l of
        Unusable _ \<Rightarrow> into
      | Usable r \<Rightarrow>
          let d = foldl add_tool into (rr_tools r) in
          (case rr_container r of
             None \<Rightarrow> d
           | Some (img, digest) \<Rightarrow>
               add_tool d (''container'', case digest of Some g \<Rightarrow> if g = [] then img else g | None \<Rightarrow> img)))"

text \<open>What the loop over tests, runners and flows gathers.\<close>

record gathered =
  ga_cells :: "(string, string list) dict"
  ga_tools :: "(string, string list) dict"
  ga_found :: nat
  ga_stale :: "rec_key list"
  ga_warnings :: "warning list"

definition is_stale :: "string \<Rightarrow> loaded \<Rightarrow> bool" where
  "is_stale h l \<longleftrightarrow> (case l of Unusable _ \<Rightarrow> False | Usable r \<Rightarrow> rr_tree r \<noteq> Some h \<or> rr_dirty r \<noteq> Some False)"

definition cell_key :: "test_case \<Rightarrow> string \<Rightarrow> string \<Rightarrow> string" where
  "cell_key c runner flow = tc_level c @ ''/'' @ runner @ ''/'' @ flow"

definition result_cell :: "rec_files \<Rightarrow> results \<Rightarrow> test_case \<times> string \<times> string \<Rightarrow> string \<times> warning list" where
  "result_cell rf res = (\<lambda>(c, runner, flow).
     let v = cell (map_of (tc_runners c) runner) (map_of res (flow, runner, tc_id c))
     in if runner = ''verilator'' \<and> v = ''pass'' then unless_transform_bug rf (tc_id c) flow else (v, []))"

definition gather_one :: "rec_files \<Rightarrow> string \<Rightarrow> results \<Rightarrow> gathered \<Rightarrow> test_case \<times> string \<times> string \<Rightarrow> gathered" where
  "gather_one rf h res g = (\<lambda>(c, runner, flow).
     let r = map_of res (flow, runner, tc_id c);
         g1 = (case r of
             None \<Rightarrow> g
           | Some l \<Rightarrow> g\<lparr>ga_found := Suc (ga_found g), ga_tools := merge_tools (ga_tools g) l,
               ga_stale := ga_stale g @ (if is_stale h l then [(flow, runner, tc_id c)] else [])\<rparr>);
         (v, ws) = result_cell rf res (c, runner, flow);
         k = cell_key c runner flow;
         old = (case map_of (ga_cells g1) k of Some vs \<Rightarrow> vs | None \<Rightarrow> [])
     in g1\<lparr>ga_cells := AList.update k (old @ [v]) (ga_cells g1), ga_warnings := ga_warnings g1 @ ws\<rparr>)"

definition gather_all :: "rec_files \<Rightarrow> string \<Rightarrow> results \<Rightarrow> test_case list \<Rightarrow> gathered" where
  "gather_all rf h res cases =
     foldl (gather_one rf h res) \<lparr>ga_cells = [], ga_tools = [], ga_found = 0, ga_stale = [], ga_warnings = []\<rparr> (result_keys cases)"

definition by_name :: "(string, 'v) dict \<Rightarrow> (string, 'v) dict" where
  "by_name d = sort_key fst d"

definition update_status ::
  "status_file \<Rightarrow> cat_entry \<Rightarrow> string \<Rightarrow> string \<Rightarrow> string \<Rightarrow> (string, string) dict \<Rightarrow> (string, string) dict \<Rightarrow>
   string list \<times> string list \<Rightarrow> string list \<Rightarrow> status_file" where
  "update_status s e unit ms h tools results cov findings =
     (let s1 = s\<lparr>sf_unit := unit, sf_library := cb_library e,
        sf_hashes := by_name (AList.update ms h (sf_hashes s)), sf_tools_by := by_name (AList.update ms tools (sf_tools_by s)),
        sf_sources := sort (remdups (sf_sources s @ [ms])), sf_findings := findings\<rparr>
      in if ms = REFERENCE_MODEL_SOURCE
         then s1\<lparr>sf_hash := Some h, sf_tools := tools, sf_results := results, sf_covered := fst cov, sf_uncovered := snd cov\<rparr>
         else s1\<lparr>sf_by_source := by_name (AList.update ms results (sf_by_source s))\<rparr>)"

text \<open>The new file for the old one, at the tree \<open>h\<close>.\<close>

definition cell_results :: "gathered \<Rightarrow> (string, string) dict" where
  "cell_results g = map (\<lambda>(k, vs). (k, worst_result vs)) (by_name (ga_cells g))"

definition new_status ::
  "rec_files \<Rightarrow> cat_entry \<Rightarrow> string \<Rightarrow> test_case list \<Rightarrow> string \<Rightarrow> string \<Rightarrow> results \<Rightarrow> status_file \<Rightarrow> status_file \<times> warning list" where
  "new_status rf e ms cases unit h res old =
     (let g = gather_all rf h res cases;
          tools = map (\<lambda>(k, vs). (k, join '', '' (sort vs))) (by_name (ga_tools g));
          w2 = map (\<lambda>(other, _). StaleSource (cb_name e) other)
            (filter (\<lambda>(other, oh). other \<noteq> ms \<and> oh \<noteq> h) (AList.update ms h (sf_hashes old)));
          (cov, w3) = (if ms = REFERENCE_MODEL_SOURCE then coverage rf e cases res else (([], []), []))
      in (update_status old e unit ms h tools (cell_results g) cov (open_findings (rf_findings rf) (cb_name e)),
          ga_warnings g @ w2 @ w3))"

definition old_status :: "rec_files \<Rightarrow> cat_entry \<Rightarrow> string \<Rightarrow> (status_error, status_file) result" where
  "old_status rf e unit = (case rf_status rf of Some s \<Rightarrow> s | None \<Rightarrow> Inr (new_stub e unit))"

definition record_status ::
  "rec_files \<Rightarrow> cat_entry \<Rightarrow> string \<Rightarrow> test_case list \<Rightarrow> (status_error, status_file \<times> warning list) result" where
  "record_status rf e ms cases =
     (if cases = [] then Inl NoTests
      else rbind (tree_hash (rf_state rf)) (\<lambda>h.
      let (res, w1) = load_results rf ms cases; g = gather_all rf h res cases; unit = tc_work_unit (hd cases) in
      if ga_found g = 0 then Inl NoResults
      else if ga_stale g \<noteq> [] then Inl (StaleResults (ga_stale g))
      else rbind (old_status rf e unit) (\<lambda>old.
      let (new, ws) = new_status rf e ms cases unit h res old
      in if status_valid new then Inr (new, w1 @ ws) else Inl SchemaRefused)))"

end
