(* ===== verification/Status_Facts.thy ===== *)
theory Status_Facts
  imports Status_Record
begin

text \<open>
  What a recorded status means: a bin is covered exactly when a test has evidence for it, a pass is
  recorded only on passes measured at the current tree, and recording a model source leaves the others
  alone.
\<close>

section \<open>A covered bin has evidence\<close>

definition passed_on :: "results \<Rightarrow> rec_key \<Rightarrow> string \<Rightarrow> config_result \<Rightarrow> bool" where
  "passed_on res k cfg x \<longleftrightarrow> map_of (passed_cfgs (map_of res k)) cfg = Some x"

definition on_simulator :: "test_case \<Rightarrow> results \<Rightarrow> string \<Rightarrow> bool" where
  "on_simulator c res cfg \<longleftrightarrow>
     (\<exists>s \<in> set SIMULATORS. \<exists>f \<in> set (runner_flows s (tc_flows c)). \<exists>x. passed_on res (f, s, tc_id c) cfg x)"

definition credited :: "test_case \<Rightarrow> results \<Rightarrow> string \<Rightarrow> bool" where
  "credited c res cfg \<longleftrightarrow>
     on_simulator c res cfg \<and> (tc_style c = ''vector'' \<longrightarrow> (\<exists>x. passed_on res (''rtl'', ''python'', tc_id c) cfg x))"

definition has_attrs :: "rec_files \<Rightarrow> test_case \<Rightarrow> string \<Rightarrow> (string, string) dict \<Rightarrow> bool" where
  "has_attrs rf c cfg attrs \<longleftrightarrow>
     (if tc_style c = ''vector'' then stim_attrs rf (tc_id c) cfg = Some attrs
      else \<exists>as. (cfg, as) \<in> set (declared_configs c) \<and> attrs = map (\<lambda>(k, v). (k, py_str v)) as)"

definition covered_by :: "rec_files \<Rightarrow> cat_entry \<Rightarrow> results \<Rightarrow> test_case \<Rightarrow> string \<Rightarrow> bool" where
  "covered_by rf e res c b \<longleftrightarrow> b \<in> set (tc_exercises c) \<and>
     (if is_cross b then \<exists>cfg attrs. credited c res cfg \<and> has_attrs rf c cfg attrs \<and> b \<in> set (realised e attrs)
      else if tc_style c = ''vector''
      then \<exists>cfg x bs. credited c res cfg \<and> passed_on res (''rtl'', ''python'', tc_id c) cfg x \<and> cr_bins x = Some bs \<and> b \<in> set bs
      else \<exists>s \<in> set SIMULATORS. \<exists>f \<in> set (runner_flows s (tc_flows c)). \<exists>l.
             map_of res (f, s, tc_id c) = Some l \<and> l_status l = ''pass'')"

lemma in_keys_iff: "k \<in> fst ` set d \<longleftrightarrow> (\<exists>x. map_of d k = Some x)"
  by (metis domD domI dom_map_of_conv_image_fst)

lemma in_case_list: "b \<in> set (case x of Some bs \<Rightarrow> bs | None \<Rightarrow> []) \<longleftrightarrow> (\<exists>bs. x = Some bs \<and> b \<in> set bs)"
  by (cases x) auto

lemma case_Some_iff: "(case y of Some g \<Rightarrow> f g | None \<Rightarrow> None) = Some z \<longleftrightarrow> (\<exists>x. y = Some x \<and> f x = Some z)"
  by (cases y) auto

lemma case_ex_iff: "(case y of Some l \<Rightarrow> P l | None \<Rightarrow> False) \<longleftrightarrow> (\<exists>l. y = Some l \<and> P l)"
  by (cases y) auto

lemma sim_passed_cfgs_iff: "cfg \<in> set (sim_passed_cfgs c res) \<longleftrightarrow> on_simulator c res cfg"
  by (auto simp: sim_passed_cfgs_def sim_results_def on_simulator_def passed_on_def in_keys_iff)

lemma sim_passed_iff:
  "sim_passed c res \<longleftrightarrow> (\<exists>s \<in> set SIMULATORS. \<exists>f \<in> set (runner_flows s (tc_flows c)). \<exists>l.
     map_of res (f, s, tc_id c) = Some l \<and> l_status l = ''pass'')"
  by (simp add: sim_passed_def sim_results_def list_ex_iff case_ex_iff)

lemma vector_reached_cases:
  assumes "tc_style c = ''vector''"
  shows "(\<exists>cfgs reached ws. vector_reached c res = (Some (cfgs, reached), ws) \<and>
         (\<forall>cfg. cfg \<in> set cfgs \<longleftrightarrow> credited c res cfg) \<and>
         (\<forall>b. b \<in> set reached \<longleftrightarrow> (\<exists>cfg x bs. credited c res cfg \<and>
            passed_on res (''rtl'', ''python'', tc_id c) cfg x \<and> cr_bins x = Some bs \<and> b \<in> set bs)))
    \<or> (\<forall>cfg. \<not> credited c res cfg) \<and> (\<exists>ws. vector_reached c res = (None, ws))"
proof -
  let ?golden = "passed_cfgs (map_of res (''rtl'', ''python'', tc_id c))"
  let ?credited = "sort (filter (\<lambda>n. n \<in> set (sim_passed_cfgs c res)) (map fst ?golden))"
  have cr: "cfg \<in> set ?credited \<longleftrightarrow> credited c res cfg" for cfg
    using assms by (auto simp: credited_def sim_passed_cfgs_iff passed_on_def in_keys_iff simp flip: in_keys_iff)
  show ?thesis
  proof (cases "?credited = []")
    case True
    then have "\<not> credited c res cfg" for cfg using cr[of cfg] by simp
    then show ?thesis using True by (simp add: vector_reached_def Let_def)
  next
    case False
    then obtain cfgs reached ws where v: "vector_reached c res = (Some (cfgs, reached), ws)"
      "cfgs = ?credited" "reached = concat (map (\<lambda>n. case case map_of ?golden n of Some g \<Rightarrow> cr_bins g | None \<Rightarrow> None of
          Some bs \<Rightarrow> bs | None \<Rightarrow> []) ?credited)"
      by (simp add: vector_reached_def Let_def)
    have r: "b \<in> set reached \<longleftrightarrow> (\<exists>cfg x bs. credited c res cfg \<and>
            passed_on res (''rtl'', ''python'', tc_id c) cfg x \<and> cr_bins x = Some bs \<and> b \<in> set bs)" for b
    proof -
      have "b \<in> set reached \<longleftrightarrow> (\<exists>n \<in> set ?credited. b \<in> set (case case map_of ?golden n of Some g \<Rightarrow> cr_bins g | None \<Rightarrow> None of
          Some bs \<Rightarrow> bs | None \<Rightarrow> []))" by (simp add: v(3))
      also have "\<dots> \<longleftrightarrow> (\<exists>n. credited c res n \<and> (\<exists>x bs. map_of ?golden n = Some x \<and> cr_bins x = Some bs \<and> b \<in> set bs))"
        unfolding Bex_def cr in_case_list case_Some_iff by blast
      finally show ?thesis by (auto simp: passed_on_def)
    qed
    show ?thesis
      by (rule disjI1, intro exI[of _ cfgs] exI[of _ reached] exI[of _ ws] conjI allI) (simp_all only: v(1) v(2) cr r)
  qed
qed

lemma config_attrs_iff:
  "a \<in> set (fst (config_attrs rf c cfgs)) \<longleftrightarrow> (\<exists>cfg \<in> set cfgs. has_attrs rf c cfg a)"
proof (cases "tc_style c = ''vector''")
  case True
  then show ?thesis by (auto simp: config_attrs_def has_attrs_def Let_def List.map_filter_def image_iff)
next
  case False
  then show ?thesis by (force simp: config_attrs_def has_attrs_def image_iff)
qed

lemma crosses_reached_iff:
  "b \<in> set (fst (crosses_reached rf e c cfgs)) \<longleftrightarrow> (\<exists>cfg \<in> set cfgs. \<exists>a. has_attrs rf c cfg a \<and> b \<in> set (realised e a))"
  using config_attrs_iff[of _ rf c cfgs] by (auto simp: crosses_reached_def split: prod.splits) (metis fst_conv)+

lemma case_covered_set:
  "set (fst (case_covered rf e res c)) =
     (case fst (plain_covered c res) of None \<Rightarrow> {}
      | Some (cfgs, bs) \<Rightarrow> set bs \<union> {b \<in> set (tc_exercises c). is_cross b \<and>
          (\<exists>cfg \<in> set cfgs. \<exists>a. has_attrs rf c cfg a \<and> b \<in> set (realised e a))})"
proof (cases "plain_covered c res")
  case (Pair p ws)
  show ?thesis
  proof (cases p)
    case None
    then show ?thesis using Pair by (simp add: case_covered_def Let_def)
  next
    case (Some q)
    obtain cfgs bs where q: "q = (cfgs, bs)" by (cases q)
    show ?thesis
      by (auto simp: case_covered_def Let_def Pair Some q split_def filter_empty_conv crosses_reached_iff[symmetric])
  qed
qed

lemma case_covered_iff: "b \<in> set (fst (case_covered rf e res c)) \<longleftrightarrow> covered_by rf e res c b"
proof (cases "tc_style c = ''vector''")
  case True
  from vector_reached_cases[OF this, of res] show ?thesis
  proof (elim disjE conjE exE)
    fix cfgs reached ws
    assume v: "vector_reached c res = (Some (cfgs, reached), ws)" "\<forall>cfg. cfg \<in> set cfgs \<longleftrightarrow> credited c res cfg"
      "\<forall>b. b \<in> set reached \<longleftrightarrow> (\<exists>cfg x bs. credited c res cfg \<and>
          passed_on res (''rtl'', ''python'', tc_id c) cfg x \<and> cr_bins x = Some bs \<and> b \<in> set bs)"
    have p: "fst (plain_covered c res) = Some (cfgs, filter (\<lambda>b. b \<in> set reached) (filter (\<lambda>b. \<not> is_cross b) (tc_exercises c)))"
      using True by (simp add: plain_covered_def v(1) Let_def)
    show ?thesis using True v(2,3) by (auto simp: case_covered_set p covered_by_def)
  next
    fix ws
    assume "\<forall>cfg. \<not> credited c res cfg" "vector_reached c res = (None, ws)"
    then show ?thesis using True by (auto simp: case_covered_set plain_covered_def covered_by_def Let_def)
  qed
next
  case False
  then have "credited c res = on_simulator c res" by (simp add: credited_def fun_eq_iff)
  then show ?thesis using False
    by (auto simp: case_covered_set plain_covered_def covered_by_def sim_passed_cfgs_iff sim_passed_iff Let_def)
qed


section \<open>A recorded pass was measured\<close>

lemma load_one_step:
  assumes "map_of (fst (load_one rf ms out t)) (f, r, i) = Some (Usable x)"
  shows "map_of (fst out) (f, r, i) = Some (Usable x) \<or>
    read_result (rf_why rf) (rf_result rf (f, r, i)) (f, r, ms, i) = Some (Inr x)"
  using assms
  by (cases out; cases t) (auto simp: load_one_def Let_def update_conv split: option.split_asm sum.split_asm if_split_asm)

lemma load_all:
  "map_of (fst (foldl (load_one rf ms) out ts)) (f, r, i) = Some (Usable x) \<Longrightarrow>
    map_of (fst out) (f, r, i) = Some (Usable x) \<or>
    read_result (rf_why rf) (rf_result rf (f, r, i)) (f, r, ms, i) = Some (Inr x)"
proof (induction ts arbitrary: out)
  case (Cons t ts)
  then have "map_of (fst (load_one rf ms out t)) (f, r, i) = Some (Usable x) \<or>
      read_result (rf_why rf) (rf_result rf (f, r, i)) (f, r, ms, i) = Some (Inr x)" by simp
  then show ?case using load_one_step by blast
qed simp

lemma load_results_read:
  "map_of (fst (load_results rf ms cases)) (f, r, i) = Some (Usable x) \<Longrightarrow>
    read_result (rf_why rf) (rf_result rf (f, r, i)) (f, r, ms, i) = Some (Inr x)"
  unfolding load_results_def using load_all[of rf ms "([], [])" "result_keys cases" f r i x] by simp

definition key_of_cell :: "test_case \<times> string \<times> string \<Rightarrow> string" where
  "key_of_cell = (\<lambda>(c, runner, flow). cell_key c runner flow)"

definition key_of_result :: "test_case \<times> string \<times> string \<Rightarrow> rec_key" where
  "key_of_result = (\<lambda>(c, runner, flow). (flow, runner, tc_id c))"

lemma gather_one_cells:
  "ga_cells (gather_one rf h res g t) = AList.update (key_of_cell t)
     ((case map_of (ga_cells g) (key_of_cell t) of Some vs \<Rightarrow> vs | None \<Rightarrow> []) @ [fst (result_cell rf res t)]) (ga_cells g)"
  by (cases t) (auto simp: gather_one_def key_of_cell_def Let_def split_def split: option.splits)

lemma gather_one_stale:
  "ga_stale (gather_one rf h res g t) =
     ga_stale g @ (case map_of res (key_of_result t) of Some l \<Rightarrow> if is_stale h l then [key_of_result t] else [] | None \<Rightarrow> [])"
  by (cases t) (auto simp: gather_one_def key_of_result_def Let_def split_def split: option.splits)

lemma gather_one_distinct:
  "distinct (map fst (ga_cells g)) \<Longrightarrow> distinct (map fst (ga_cells (gather_one rf h res g t)))"
  by (simp add: gather_one_cells distinct_update)

lemma gather_distinct:
  "distinct (map fst (ga_cells g)) \<Longrightarrow> distinct (map fst (ga_cells (foldl (gather_one rf h res) g ts)))"
  by (induction ts arbitrary: g) (simp_all add: gather_one_distinct)

lemma gather_cells:
  "map_of (ga_cells (foldl (gather_one rf h res) g ts)) k = (
      let vs = map (\<lambda>t. fst (result_cell rf res t)) (filter (\<lambda>t. key_of_cell t = k) ts) in
      case map_of (ga_cells g) k of Some ws \<Rightarrow> Some (ws @ vs) | None \<Rightarrow> if vs = [] then None else Some vs)"
proof (induction ts arbitrary: g)
  case Nil
  show ?case by (simp split: option.split)
next
  case (Cons t ts)
  show ?case unfolding foldl_Cons Cons.IH
    by (cases "key_of_cell t = k"; cases "map_of (ga_cells g) k") (simp_all add: gather_one_cells update_conv Let_def)
qed

lemma gather_fresh:
  "ga_stale (foldl (gather_one rf h res) g ts) = [] \<Longrightarrow> t \<in> set ts \<Longrightarrow> map_of res (key_of_result t) = Some l \<Longrightarrow> \<not> is_stale h l"
proof (induction ts arbitrary: g)
  case (Cons u ts)
  have mono: "ga_stale (foldl (gather_one rf h res) g' us) = [] \<Longrightarrow> ga_stale g' = []" for g' us
    proof (induction us arbitrary: g')
    case (Cons u us)
    from Cons.IH[of "gather_one rf h res g' u"] Cons.prems show ?case by (simp add: gather_one_stale)
  qed simp
  show ?case
  proof (cases "t = u")
    case True
    then show ?thesis using mono[of "gather_one rf h res g u" ts] Cons.prems by (auto simp: gather_one_stale split: if_split_asm)
  next
    case False
    then show ?thesis using Cons by auto
  qed
qed simp

lemma worst_fold:
  "foldl (\<lambda>a b. if precedence b < precedence a then b else a) v vs \<in> set (v # vs) \<and>
   (\<forall>x \<in> set (v # vs). precedence (foldl (\<lambda>a b. if precedence b < precedence a then b else a) v vs) \<le> precedence x)"
proof (induction vs arbitrary: v)
  case (Cons b vs)
  then show ?case using Cons.IH[of b] Cons.IH[of v] by (auto intro: order_trans) (meson less_le_trans less_le not_less order_trans)+
qed simp

lemma worst_result_least:
  "vs \<noteq> [] \<Longrightarrow> worst_result vs \<in> set vs \<and> (\<forall>x \<in> set vs. precedence (worst_result vs) \<le> precedence x)"
  using worst_fold[of "hd vs" "tl vs"] by (cases vs) simp_all

lemma map_of_by_name: "distinct (map fst d) \<Longrightarrow> map_of (by_name d) = map_of d"
  unfolding by_name_def by (rule map_of_inject_set[THEN iffD2]) (simp_all add: distinct_map)

text \<open>The result of this very test, valid, and measured at the tree that is checked out, clean.\<close>

definition measured :: "rec_files \<Rightarrow> string \<Rightarrow> test_case \<times> string \<times> string \<Rightarrow> run_result \<Rightarrow> bool" where
  "measured rf ms = (\<lambda>(c, runner, flow) r.
     rf_result rf (flow, runner, tc_id c) = Parsed r \<and> result_valid r \<and> key_of r = (flow, runner, ms, tc_id c) \<and>
     (\<exists>h. ts_hash (rf_state rf) = Some h \<and> ts_dirty (rf_state rf) = Some [] \<and> rr_tree r = Some h \<and> rr_dirty r = Some False))"

definition measured_pass :: "rec_files \<Rightarrow> string \<Rightarrow> test_case \<times> string \<times> string \<Rightarrow> bool" where
  "measured_pass rf ms = (\<lambda>(c, runner, flow). \<exists>r.
     measured rf ms (c, runner, flow) r \<and> rr_status r = ''pass'' \<and> (\<exists>x \<in> set (rr_configs r). cr_status x \<in> set RAN) \<and>
     (runner = ''verilator'' \<longrightarrow> verilator_unconfirmed (rf_views rf (tc_id c) flow ''verilator'')
        (rf_views rf (tc_id c) flow ''iverilog'') (rf_views rf (tc_id c) flow ''iverilog-vz'') = None))"

text \<open>
  A test that is declared not to run there, or whose measured result is a skip for a reason that is
  neither a runner that was not available nor a declaration that has changed since: a declared test
  that did not run is not excused.
\<close>

definition excused :: "rec_files \<Rightarrow> string \<Rightarrow> test_case \<times> string \<times> string \<Rightarrow> bool" where
  "excused rf ms = (\<lambda>(c, runner, flow).
     map_of (tc_runners c) runner \<in> {Some ''unsupported'', Some ''no''} \<or>
     (\<exists>r why. measured rf ms (c, runner, flow) r \<and> rr_status r = ''skip'' \<and> rr_reason r = Some why \<and>
        \<not> starts_with ''runner unavailable'' why \<and> \<not> starts_with ''declared unsupported'' why))"

definition recorded_results :: "string \<Rightarrow> status_file \<Rightarrow> (string, string) dict" where
  "recorded_results ms s =
     (if ms = REFERENCE_MODEL_SOURCE then sf_results s
      else case map_of (sf_by_source s) ms of Some d \<Rightarrow> d | None \<Rightarrow> [])"

lemma cell_pass:
  assumes "fst (result_cell rf res (c, runner, flow)) = ''pass''"
  shows "\<exists>l. map_of res (flow, runner, tc_id c) = Some l \<and> l_status l = ''pass'' \<and>
    (runner = ''verilator'' \<longrightarrow> verilator_unconfirmed (rf_views rf (tc_id c) flow ''verilator'')
        (rf_views rf (tc_id c) flow ''iverilog'') (rf_views rf (tc_id c) flow ''iverilog-vz'') = None)"
  using assms
  by (auto simp: result_cell_def cell_def unless_transform_bug_def Let_def split: if_split_asm option.split_asm)

lemma precedence_low: "precedence ''pass'' \<le> precedence v \<Longrightarrow> v \<notin> {''fail'', ''error'', ''not-run''}"
  by (auto simp: precedence_def RECORD_PRECEDENCE_def)

lemma cell_low:
  assumes "precedence ''pass'' \<le> precedence (fst (result_cell rf res (c, runner, flow)))"
    and "\<And>l. map_of res (flow, runner, tc_id c) = Some l \<Longrightarrow> l_status l \<in> set STATUSES"
  shows "fst (result_cell rf res (c, runner, flow)) = ''pass'' \<or>
    map_of (tc_runners c) runner \<in> {Some ''unsupported'', Some ''no''} \<or>
    (\<exists>l. map_of res (flow, runner, tc_id c) = Some l \<and> l_status l = ''skip'' \<and>
      \<not> starts_with ''runner unavailable'' (l_reason l) \<and> \<not> starts_with ''declared unsupported'' (l_reason l))"
proof -
  have other: "starts_with ''runner '' s \<Longrightarrow> \<not> starts_with ''declared unsupported'' s" for s
    by (cases s) (auto simp: starts_with_def)
  show ?thesis using precedence_low[OF assms(1)] assms(2) other
    by (auto simp: result_cell_def cell_def unless_transform_bug_def STATUSES_def Let_def split: if_split_asm option.split_asm)
qed

lemma tree_hash_clean: "tree_hash st = Inr h \<Longrightarrow> ts_hash st = Some h \<and> ts_dirty st = Some []"
  by (auto simp: tree_hash_def split: option.split_asm if_split_asm)

lemma new_status_update:
  "\<exists>tools cov. fst (new_status rf e ms cases unit h res old) =
     update_status old e unit ms h tools (cell_results (gather_all rf h res cases)) cov (open_findings (rf_findings rf) (cb_name e))"
  unfolding new_status_def Let_def split_def fst_conv by (intro exI) (rule refl)

lemma record_parts:
  assumes "record_status rf e ms cases = Inr (new, ws)"
  obtains h old tools cov where "tree_hash (rf_state rf) = Inr h"
    and "ga_stale (gather_all rf h (fst (load_results rf ms cases)) cases) = []"
    and "old_status rf e (tc_work_unit (hd cases)) = Inr old"
    and "new = update_status old e (tc_work_unit (hd cases)) ms h tools
      (cell_results (gather_all rf h (fst (load_results rf ms cases)) cases)) cov (open_findings (rf_findings rf) (cb_name e))"
    and "status_valid new"
proof -
  obtain h where h: "tree_hash (rf_state rf) = Inr h"
    "ga_stale (gather_all rf h (fst (load_results rf ms cases)) cases) = []"
    and o: "\<exists>old. old_status rf e (tc_work_unit (hd cases)) = Inr old \<and>
      new = fst (new_status rf e ms cases (tc_work_unit (hd cases)) h (fst (load_results rf ms cases)) old) \<and> status_valid new"
    using assms by (auto simp: record_status_def rbind_Inr_iff Let_def split_def split: if_split_asm)
  then obtain old where "old_status rf e (tc_work_unit (hd cases)) = Inr old"
    "new = fst (new_status rf e ms cases (tc_work_unit (hd cases)) h (fst (load_results rf ms cases)) old)" "status_valid new"
    by blast
  then show ?thesis using that[OF h] new_status_update[of rf e ms cases _ h] by metis
qed

lemma update_results:
  "distinct (map fst (sf_by_source old)) \<Longrightarrow> recorded_results ms (update_status old e unit ms h tools results cov fs) = results"
  by (simp add: recorded_results_def update_status_def Let_def map_of_by_name distinct_update update_conv)

text \<open>The keys of the mappings of a status file that was loaded are distinct, as those of any \<open>dict\<close>.\<close>

definition loaded_dicts :: "rec_files \<Rightarrow> bool" where
  "loaded_dicts rf \<longleftrightarrow> (case rf_status rf of
     Some (Inr s) \<Rightarrow> distinct (map fst (sf_by_source s)) \<and> distinct (map fst (sf_hashes s)) \<and> distinct (map fst (sf_tools_by s))
   | _ \<Rightarrow> True)"

lemma old_distinct:
  assumes "loaded_dicts rf" and "old_status rf e unit = Inr old"
  shows "distinct (map fst (sf_by_source old))" "distinct (map fst (sf_hashes old))" "distinct (map fst (sf_tools_by old))"
  using assms by (auto simp: loaded_dicts_def old_status_def new_stub_def split: option.split_asm)

lemma cell_results_of:
  "map_of (cell_results (gather_all rf h res cases)) k = (
     let vs = map (\<lambda>t. fst (result_cell rf res t)) (filter (\<lambda>t. key_of_cell t = k) (result_keys cases))
     in if vs = [] then None else Some (worst_result vs))"
proof -
  let ?g = "gather_all rf h res cases"
  have "distinct (map fst (ga_cells ?g))" unfolding gather_all_def by (rule gather_distinct) simp
  then have "map_of (cell_results ?g) k = map_option worst_result (map_of (ga_cells ?g) k)"
    by (simp add: cell_results_def map_of_map map_of_by_name)
  then show ?thesis by (simp add: gather_all_def gather_cells Let_def)
qed

text \<open>A result that was loaded, and is not stale, was measured.\<close>

lemma loaded_measured:
  assumes h: "tree_hash (rf_state rf) = Inr h"
    and f: "ga_stale (gather_all rf h (fst (load_results rf ms cases)) cases) = []"
    and t: "(c, runner, flow) \<in> set (result_keys cases)"
    and l: "map_of (fst (load_results rf ms cases)) (flow, runner, tc_id c) = Some (Usable r)"
  shows "measured rf ms (c, runner, flow) r" "rr_status r \<in> set RAN \<longrightarrow> (\<exists>x \<in> set (rr_configs r). cr_status x \<in> set RAN)"
proof -
  note u = read_result_usable[OF load_results_read[OF l]]
  have "\<not> is_stale h (Usable r)"
    using gather_fresh[OF f[unfolded gather_all_def] t, of "Usable r"] l by (simp add: key_of_result_def)
  then show "measured rf ms (c, runner, flow) r" using u tree_hash_clean[OF h] by (auto simp: measured_def is_stale_def)
  show "rr_status r \<in> set RAN \<longrightarrow> (\<exists>x \<in> set (rr_configs r). cr_status x \<in> set RAN)" using u by blast
qed

lemma measured_cell:
  assumes h: "tree_hash (rf_state rf) = Inr h"
    and f: "ga_stale (gather_all rf h (fst (load_results rf ms cases)) cases) = []"
    and t: "t \<in> set (result_keys cases)" and v: "fst (result_cell rf (fst (load_results rf ms cases)) t) = ''pass''"
  shows "measured_pass rf ms t"
proof -
  obtain c runner flow where t3: "t = (c, runner, flow)" by (cases t)
  from cell_pass[OF v[unfolded t3]] obtain l where l: "map_of (fst (load_results rf ms cases)) (flow, runner, tc_id c) = Some l"
    "l_status l = ''pass''" and vz: "runner = ''verilator'' \<longrightarrow> verilator_unconfirmed (rf_views rf (tc_id c) flow ''verilator'')
        (rf_views rf (tc_id c) flow ''iverilog'') (rf_views rf (tc_id c) flow ''iverilog-vz'') = None" by blast
  from l(2) obtain r where r: "l = Usable r" "rr_status r = ''pass''" by (cases l) auto
  note m = loaded_measured[OF h f t[unfolded t3] l(1)[unfolded r(1)]]
  have "\<exists>x \<in> set (rr_configs r). cr_status x \<in> set RAN" using m(2) r(2) by (simp add: RAN_def)
  then show ?thesis using m(1) r(2) vz by (auto simp: measured_pass_def t3)
qed

text \<open>
  C37. If recording stores a pass for a level, runner and flow, some test has passed there: its
  result is valid, is that test's own, ran a configuration, and was measured at the current tree
  with nothing uncommitted; under Verilator its companion confirms it. Every other test there passed
  likewise, or is declared not to run there, or was measured there as a skip for another reason than
  a runner that was not available or a declaration that has changed since: none failed, was in error, was
  kept from running or is missing. The mappings of the file that was loaded are dictionaries.
\<close>

theorem record_pass:
  assumes "loaded_dicts rf" and "record_status rf e ms cases = Inr (new, ws)"
    and "map_of (recorded_results ms new) k = Some ''pass''"
  shows "(\<exists>t \<in> set (result_keys cases). key_of_cell t = k \<and> measured_pass rf ms t) \<and>
    (\<forall>t \<in> set (result_keys cases). key_of_cell t = k \<longrightarrow> measured_pass rf ms t \<or> excused rf ms t)"
proof -
  from assms(2) obtain h old tools cov where p: "tree_hash (rf_state rf) = Inr h"
    "ga_stale (gather_all rf h (fst (load_results rf ms cases)) cases) = []"
    "old_status rf e (tc_work_unit (hd cases)) = Inr old"
    "new = update_status old e (tc_work_unit (hd cases)) ms h tools
      (cell_results (gather_all rf h (fst (load_results rf ms cases)) cases)) cov (open_findings (rf_findings rf) (cb_name e))"
    by (rule record_parts)
  let ?res = "fst (load_results rf ms cases)"
  let ?ts = "filter (\<lambda>t. key_of_cell t = k) (result_keys cases)"
  let ?vs = "map (\<lambda>t. fst (result_cell rf ?res t)) ?ts"
  have "map_of (cell_results (gather_all rf h ?res cases)) k = Some ''pass''"
    using assms(3) unfolding p(4) update_results[OF old_distinct(1)[OF assms(1) p(3)]] .
  then have vs: "?vs \<noteq> []" and w: "worst_result ?vs = ''pass''"
    unfolding cell_results_of Let_def by (simp_all split: if_split_asm)
  note least = worst_result_least[OF vs, unfolded w]
  show ?thesis
  proof (intro conjI ballI impI)
    from least obtain t where t: "t \<in> set ?ts" "''pass'' = fst (result_cell rf ?res t)" by (auto simp only: set_map)
    then have "t \<in> set (result_keys cases)" "key_of_cell t = k" by simp_all
    moreover have "measured_pass rf ms t" using measured_cell[OF p(1,2) calculation(1) t(2)[symmetric]] .
    ultimately show "\<exists>t \<in> set (result_keys cases). key_of_cell t = k \<and> measured_pass rf ms t" by blast
  next
    fix t
    assume t: "t \<in> set (result_keys cases)" "key_of_cell t = k"
    obtain c runner flow where t3: "t = (c, runner, flow)" by (cases t)
    have low: "precedence ''pass'' \<le> precedence (fst (result_cell rf ?res (c, runner, flow)))" using least t t3 by simp
    have st: "l_status l \<in> set STATUSES" if "map_of ?res (flow, runner, tc_id c) = Some l" for l
    proof (cases l)
      case (Usable r)
      then show ?thesis using read_result_usable[OF load_results_read] that by (force simp: result_valid_def)
    qed (simp add: STATUSES_def)
    from cell_low[OF low st] consider "fst (result_cell rf ?res t) = ''pass''"
      | "map_of (tc_runners c) runner \<in> {Some ''unsupported'', Some ''no''}"
      | l where "map_of ?res (flow, runner, tc_id c) = Some l" "l_status l = ''skip''"
        "\<not> starts_with ''runner unavailable'' (l_reason l)" "\<not> starts_with ''declared unsupported'' (l_reason l)" using t3 by blast
    then show "measured_pass rf ms t \<or> excused rf ms t"
    proof cases
      case 1
      then show ?thesis using measured_cell[OF p(1,2) t(1)] by blast
    next
      case 2
      then show ?thesis by (auto simp: excused_def t3)
    next
      case (3 l)
      then obtain r where r: "l = Usable r" "rr_status r = ''skip''" by (cases l) auto
      have m: "measured rf ms (c, runner, flow) r" using loaded_measured(1)[OF p(1,2) t(1)[unfolded t3]] 3(1) r(1) by blast
      then obtain why where "rr_reason r = Some why"
        using r(2) by (auto simp: measured_def result_valid_def reason_ok_def)
      then show ?thesis using m r 3(3,4) by (auto simp: excused_def t3)
    qed
  qed
qed

text \<open>A test with a python run, at a clean tree, recorded for a second model source.\<close>

definition hash_example :: string where
  "hash_example = ''sha256:'' @ replicate 64 (CHR ''0'')"

definition result_example :: run_result where
  "result_example =
     \<lparr>rr_test = ''7.FDRE.L0.a'', rr_runner = ''python'', rr_flow = ''rtl'', rr_style = ''vector'', rr_status = ''pass'',
      rr_reason = None, rr_configs = [new_config ''default'' ''pass'' None], rr_ms = ''gh'', rr_seed = Some 7, rr_seeds_x = [],
      rr_defines = [], rr_tools = [(''python'', ''3.12'')], rr_container = None, rr_x_dependence = None, rr_bins = None,
      rr_tree = Some hash_example, rr_head = Some ''h'', rr_dirty = Some False\<rparr>"

definition entry_example :: cat_entry where
  "entry_example =
     \<lparr>cb_name = ''FDRE'', cb_family = ''7series'', cb_library = ''unisims'',
      cb_ports = [\<lparr>cp_name = ''C'', cp_dir = ''input'', cp_width = 1, cp_cls = ''clock'', cp_active = None\<rparr>],
      cb_attrs = [], cb_claims = [''c1''], cb_crosses = []\<rparr>"

definition files_example :: rec_files where
  "files_example =
     \<lparr>rf_result = (\<lambda>k. if k = (''rtl'', ''python'', ''7.FDRE.L0.a'') then Parsed result_example else Absent), rf_why = (\<lambda>_. []),
      rf_stim = (\<lambda>_ _. None), rf_views = (\<lambda>_ _ _. None),
      rf_state = \<lparr>ts_hash = Some hash_example, ts_head = Some ''h'', ts_dirty = Some []\<rparr>,
      rf_status = Some (Inr (new_stub entry_example ''flops'')), rf_findings = []\<rparr>"

lemma record_example:
  "case record_status files_example entry_example ''gh'' [case_example ''7.FDRE.L0.a''] of
     Inr (new, ws) \<Rightarrow> map_of (recorded_results ''gh'' new) ''L0/python/rtl'' = Some ''pass'' | Inl _ \<Rightarrow> False"
  by code_simp

lemma files_example_dicts: "loaded_dicts files_example"
  by (simp add: loaded_dicts_def files_example_def new_stub_def)

theorem record_pass_witness:
  "\<exists>t \<in> set (result_keys [case_example ''7.FDRE.L0.a'']). key_of_cell t = ''L0/python/rtl'' \<and> measured_pass files_example ''gh'' t"
proof -
  obtain new ws where r: "record_status files_example entry_example ''gh'' [case_example ''7.FDRE.L0.a''] = Inr (new, ws)"
    "map_of (recorded_results ''gh'' new) ''L0/python/rtl'' = Some ''pass''"
    using record_example by (auto split: sum.splits prod.splits)
  show ?thesis using record_pass[OF files_example_dicts r] by blast
qed

text \<open>
  C39. Recording one model source leaves the results, the tree hash and the tools of every other
  source as they are, and the reference's coverage too unless it is the one recorded. It keeps
  its own hash, the one of the current tree, and joins the recorded sources.
\<close>

theorem record_isolated:
  assumes "loaded_dicts rf" and "rf_status rf = Some (Inr old)" and "record_status rf e ms cases = Inr (new, ws)"
  shows "(\<forall>other. other \<noteq> ms \<longrightarrow> recorded_results other new = recorded_results other old \<and>
      map_of (sf_hashes new) other = map_of (sf_hashes old) other \<and>
      map_of (sf_tools_by new) other = map_of (sf_tools_by old) other) \<and>
    (ms \<noteq> REFERENCE_MODEL_SOURCE \<longrightarrow> sf_hash new = sf_hash old \<and> sf_tools new = sf_tools old \<and>
      sf_covered new = sf_covered old \<and> sf_uncovered new = sf_uncovered old) \<and>
    map_of (sf_hashes new) ms = ts_hash (rf_state rf) \<and> set (sf_sources new) = insert ms (set (sf_sources old)) \<and>
    sf_notes new = sf_notes old"
proof -
  from assms(3) obtain h old' tools cov where p: "tree_hash (rf_state rf) = Inr h"
    "old_status rf e (tc_work_unit (hd cases)) = Inr old'"
    "new = update_status old' e (tc_work_unit (hd cases)) ms h tools
      (cell_results (gather_all rf h (fst (load_results rf ms cases)) cases)) cov (open_findings (rf_findings rf) (cb_name e))"
    by (rule record_parts)
  have "old' = old" using p(2) assms(2) by (simp add: old_status_def)
  moreover have "distinct (map fst (sf_by_source old))" "distinct (map fst (sf_hashes old))" "distinct (map fst (sf_tools_by old))"
    using assms(1,2) by (simp_all add: loaded_dicts_def)
  ultimately show ?thesis using tree_hash_clean[OF p(1)]
    by (auto simp: p(3) update_status_def recorded_results_def Let_def map_of_by_name distinct_update update_conv)
qed

theorem record_isolated_witness:
  "\<exists>new ws. record_status files_example entry_example ''gh'' [case_example ''7.FDRE.L0.a''] = Inr (new, ws) \<and>
     sf_covered new = [] \<and> sf_sources new \<noteq> []"
proof -
  obtain new ws where r: "record_status files_example entry_example ''gh'' [case_example ''7.FDRE.L0.a''] = Inr (new, ws)"
    using record_example by (auto split: sum.splits prod.splits)
  have o: "rf_status files_example = Some (Inr (new_stub entry_example ''flops''))" by (simp add: files_example_def)
  have "''gh'' \<noteq> REFERENCE_MODEL_SOURCE" "sf_covered (new_stub entry_example ''flops'') = []"
    by (simp_all add: REFERENCE_MODEL_SOURCE_def new_stub_def)
  with record_isolated[OF files_example_dicts o r] have "sf_covered new = []" "set (sf_sources new) \<noteq> {}" by simp_all
  with r show ?thesis by (metis list.set(1))
qed

end
