(* ===== verification/Work_Units.thy ===== *)
theory Work_Units
  imports Py_Files Runner
begin

text \<open>
  Who owns what and what has to run: the work units (\<open>tools/xut/workunits.py\<close>), what a change needs in
  CI (\<open>tools/xut/ci_select.py\<close>), and the pairs of test and runner of an invocation (\<open>tools/xut/run.py\<close>).
\<close>

section \<open>Work units\<close>

record work_unit =
  wu_name :: string
  wu_family :: string
  wu_prims :: "string list"
  wu_groups :: "string list"

datatype unit_error = ListedTwice string string string

text \<open>\<open>docs/work-units.yaml\<close>, parsed: the family, and for each unit its primitives and its group.\<close>

definition own_prim ::
  "string \<Rightarrow> (string, string) dict \<Rightarrow> string \<Rightarrow> (unit_error, (string, string) dict) result" where
  "own_prim name seen prim =
     (case map_of seen prim of
        Some other \<Rightarrow> Inl (ListedTwice prim other name)
      | None \<Rightarrow> Inr (AList.update prim name seen))"

definition add_unit ::
  "string \<Rightarrow> (string, string) dict \<times> (string, work_unit) dict \<Rightarrow> string \<times> string list \<times> string \<Rightarrow>
   (unit_error, (string, string) dict \<times> (string, work_unit) dict) result" where
  "add_unit family = (\<lambda>(seen, units) (name, prims, group).
     rbind (rfold (own_prim name) seen prims) (\<lambda>seen'. Inr
       (seen', AList.update name
         \<lparr>wu_name = name, wu_family = family, wu_prims = prims, wu_groups = [group]\<rparr> units)))"

definition load_units ::
  "string \<Rightarrow> (string, string list \<times> string) dict \<Rightarrow> (unit_error, (string, work_unit) dict) result" where
  "load_units family data = rbind (rfold (add_unit family) ([], []) data) (\<lambda>(_, units). Inr units)"

definition prim_paths :: "string \<Rightarrow> string \<Rightarrow> string \<Rightarrow> string list" where
  "prim_paths family grp prim =
     [''tests/'' @ family @ ''/'' @ grp @ ''/'' @ prim @ ''/**'',
      ''catalog/'' @ family @ ''/'' @ prim @ ''.overrides.yaml'',
      ''models/xut_models/'' @ family @ ''/'' @ lower prim @ ''.py'',
      ''status/'' @ family @ ''/'' @ prim @ ''.yaml'',
      ''findings/'' @ prim @ ''-*.md'']"

definition owned_paths :: "work_unit \<Rightarrow> string list" where
  "owned_paths u =
     (let family = wu_family u; grp = hd (wu_groups u) in
      concat (map (prim_paths family grp) (wu_prims u)) @
      [''tests/'' @ family @ ''/'' @ grp @ ''/_shared/'' @ wu_name u @ ''/**'',
       ''models/xut_models/'' @ family @ ''/_common/'' @ wu_name u @ ''.py'',
       ''log/*-unit-'' @ family @ ''-'' @ wu_name u @ ''-*.md''])"

text \<open>\<open>^unit/[^/]+/(?P<unit>[^/]+)$\<close>; the last part takes a final newline too, so the dollar only matches the end.\<close>

definition unit_for_branch :: "string \<Rightarrow> string option" where
  "unit_for_branch branch =
     (case split_on (CHR ''/'') branch of
        [u, f, n] \<Rightarrow>
          if u = ''unit'' \<and> f \<noteq> [] \<and> n \<noteq> [] then Some n else None
      | _ \<Rightarrow> None)"

definition branch_slug :: "string \<Rightarrow> string" where
  "branch_slug branch = map (\<lambda>c. if c = CHR ''/'' then CHR ''-'' else c) branch"

section \<open>What a change needs\<close>

definition DOC_ONLY :: "string list" where
  "DOC_ONLY = [''log/*.md'', ''docs/superpowers/*'', ''README.md'', ''AGENTS.md'']"

definition doc_only :: "string \<Rightarrow> bool" where
  "doc_only path \<longleftrightarrow> list_ex (\<lambda>p. glob p path) DOC_ONLY"

definition sim_needed :: "string \<Rightarrow> string list option \<Rightarrow> bool \<times> string" where
  "sim_needed event files =
     (if event \<noteq> ''pull_request'' then (True, ''event '' @ event @ '': everything runs'')
      else case files of
        None \<Rightarrow> (True, ''the changed files could not be listed: everything runs'')
      | Some fs \<Rightarrow>
          if fs = [] then (True, ''no changed files listed: everything runs'')
          else (let other = filter (\<lambda>f. \<not> doc_only f) fs in
            if other \<noteq> []
            then (True, show_nat (length other) @ '' non-doc file(s) changed, e.g. '' @ hd other @ '': everything runs'')
            else (False, ''all '' @ show_nat (length fs) @ '' changed file(s) are docs/logs only: sim steps skipped'')))"

definition changed_files :: "int \<Rightarrow> string \<Rightarrow> string list option" where
  "changed_files rc out =
     (if rc \<noteq> 0 then None else Some (filter (\<lambda>l. strip l \<noteq> []) (splitlines out)))"

section \<open>The pairs of an invocation\<close>

definition COMPANIONS :: "(string, string list) dict" where
  "COMPANIONS = [(''verilator'', [''iverilog-vz''])]"

definition add_companions :: "string list \<Rightarrow> string \<Rightarrow> string list" where
  "add_companions out n =
     out @ filter (\<lambda>c. c \<notin> set out) (case map_of COMPANIONS n of Some cs \<Rightarrow> cs | None \<Rightarrow> [])"

definition with_companions :: "string list \<Rightarrow> string list" where
  "with_companions names = foldl add_companions (dedup names) (dedup names)"

definition first_pairs :: "test_case list \<Rightarrow> string list \<Rightarrow> (test_case \<times> string) list" where
  "first_pairs cases names =
     (if names = [] then [] else map (\<lambda>c. (c, ''python'')) (filter (\<lambda>c. tc_style c = ''vector'') cases))"

definition rest_pairs :: "test_case list \<Rightarrow> string list \<Rightarrow> (test_case \<times> string) list" where
  "rest_pairs cases names =
     concat (map (\<lambda>c. map (Pair c) (filter (\<lambda>n. \<not> (n = ''python'' \<and> tc_style c = ''vector'')) names)) cases)"

text \<open>
  \<open>_one\<close>: a run that raises an \<open>Exception\<close> is an error result, and one that cannot be written is still a
  result; an interrupt ends the invocation. \<open>wr\<close> is what writing the error result answers.
\<close>

definition run_pair ::
  "texts \<Rightarrow> run_context \<Rightarrow> (test_case \<Rightarrow> string \<Rightarrow> (exn, unit) result) \<Rightarrow>
   (test_case \<Rightarrow> string \<Rightarrow> (exn, run_result) result) \<Rightarrow> test_case \<times> string \<Rightarrow> (exn, run_result) result" where
  "run_pair tx cx wr go = (\<lambda>(c, n).
     case go c n of
       Inr r \<Rightarrow> Inr r
     | Inl e \<Rightarrow>
         if is_interrupt e then Inl e
         else (case error_result tx (wr c n) c n cx e of
            Inr out \<Rightarrow> Inr (ro_result out)
          | Inl e2 \<Rightarrow>
              if is_interrupt e2 then Inl e2
              else Inr (new_result c n cx ''error'' (Some (ex_type e @ '': '' @ ex_text e @
                ''; and result.json could not be written: '' @ ex_type e2 @ '': '' @ ex_text e2)))))"

text \<open>The results in order, or the first interrupt among them (its summary is left out).\<close>

definition run_tests ::
  "string list \<Rightarrow> texts \<Rightarrow> run_context \<Rightarrow> (test_case \<Rightarrow> string \<Rightarrow> (exn, unit) result) \<Rightarrow>
   (test_case \<Rightarrow> string \<Rightarrow> (exn, run_result) result) \<Rightarrow> test_case list \<Rightarrow> string list \<Rightarrow> (exn, run_result list) result" where
  "run_tests known tx cx wr go cases runner_names =
     (let names = with_companions runner_names; unknown = filter (\<lambda>n. n \<notin> set known) names in
      if unknown \<noteq> []
      then Inl \<lparr>ex_user = True, ex_type = ''XutError'', ex_text = ''unknown runner(s) '' @ join '', '' unknown\<rparr>
      else rmap (run_pair tx cx wr go) (first_pairs cases names @ rest_pairs cases names))"

text \<open>The entries of the summary: test, runner, status, reason.\<close>

definition summary_rows :: "run_result list \<Rightarrow> (string \<times> string \<times> string \<times> string option) list" where
  "summary_rows rs = map (\<lambda>r. (rr_test r, rr_runner r, rr_status r, rr_reason r)) rs"

section \<open>Facts\<close>

lemma own_prim_Inr_iff:
  "own_prim name seen p = Inr seen' \<longleftrightarrow> map_of seen p = None \<and> seen' = AList.update p name seen"
  by (cases "map_of seen p") (auto simp: own_prim_def)

lemma own_prims:
  "rfold (own_prim name) seen prims = Inr seen' \<Longrightarrow>
   map_of seen' = (\<lambda>p. if p \<in> set prims then Some name else map_of seen p) \<and> distinct prims \<and>
   (\<forall>p \<in> set prims. map_of seen p = None)"
proof (induction prims arbitrary: seen)
  case (Cons p prims)
  have new: "map_of seen p = None" and rest: "rfold (own_prim name) (AList.update p name seen) prims = Inr seen'"
    using Cons.prems by (simp_all add: rbind_Inr_iff own_prim_Inr_iff)
  have ih: "map_of seen' = (\<lambda>q. if q \<in> set prims then Some name else map_of (AList.update p name seen) q)"
    "distinct prims" "\<forall>q \<in> set prims. map_of (AList.update p name seen) q = None"
    using Cons.IH[OF rest] by blast+
  have "p \<notin> set prims" using ih(3) by (auto simp: update_conv)
  moreover have "\<forall>q \<in> set prims. map_of seen q = None"
    using ih(3) calculation by (auto simp: update_conv split: if_split_asm)
  ultimately show ?case using ih(1,2) new by (simp add: update_conv fun_eq_iff)
qed simp

text \<open>What the units that were loaded own: each primitive is one unit's, and listed there once.\<close>

definition owners_agree :: "(string, string) dict \<times> (string, work_unit) dict \<Rightarrow> bool" where
  "owners_agree = (\<lambda>(seen, units).
     (\<forall>n u. map_of units n = Some u \<longrightarrow> distinct (wu_prims u) \<and> (\<forall>p \<in> set (wu_prims u). map_of seen p = Some n)))"

lemma add_unit_agrees:
  assumes "add_unit family st (name, prims, grp) = Inr st'" and "owners_agree st" and "name \<notin> fst ` set (snd st)"
  shows "owners_agree st' \<and> fst ` set (snd st') = insert name (fst ` set (snd st))"
proof -
  obtain seen units where st: "st = (seen, units)" by (cases st)
  obtain seen' where s: "rfold (own_prim name) seen prims = Inr seen'"
    "st' = (seen', AList.update name \<lparr>wu_name = name, wu_family = family, wu_prims = prims, wu_groups = [grp]\<rparr> units)"
    using assms(1) by (auto simp: add_unit_def st rbind_Inr_iff)
  have old: "map_of seen' p = Some n" if "map_of seen p = Some n" for p n
    using own_prims[OF s(1)] that by auto
  show ?thesis using assms(2,3) own_prims[OF s(1)] old
    by (auto simp: owners_agree_def st s(2) update_conv dom_update)
qed

lemma load_units_owners:
  assumes "load_units family data = Inr units" and "distinct (map fst data)"
    and "map_of units a = Some u" "map_of units b = Some v" "p \<in> set (wu_prims u)" "p \<in> set (wu_prims v)"
  shows "a = b"
proof -
  have "owners_agree st' \<and> fst ` set (snd st') = fst ` set ds \<union> fst ` set (snd st)"
    if "rfold (add_unit family) st ds = Inr st'" "owners_agree st" "distinct (map fst ds)"
      "fst ` set ds \<inter> fst ` set (snd st) = {}" for st st' ds
    using that
  proof (induction ds arbitrary: st)
    case (Cons d ds)
    obtain name prims grp where d: "d = (name, prims, grp)" by (cases d)
    obtain st1 where st1: "add_unit family st d = Inr st1" "rfold (add_unit family) st1 ds = Inr st'"
      using Cons.prems(1) by (auto simp: rbind_Inr_iff)
    have "owners_agree st1 \<and> fst ` set (snd st1) = insert name (fst ` set (snd st))"
      using add_unit_agrees[of family st name prims grp st1] st1(1) Cons.prems(2,4) d by auto
    then show ?case using Cons.IH[OF st1(2)] Cons.prems(3,4) d by auto
  qed simp
  note fold = this
  obtain seen where run: "rfold (add_unit family) ([], []) data = Inr (seen, units)"
    using assms(1) by (auto simp: load_units_def rbind_Inr_iff)
  have "owners_agree (seen, units)" using fold[OF run] assms(2) by (simp add: owners_agree_def)
  then have own: "map_of seen p = Some n" if "map_of units n = Some w" "p \<in> set (wu_prims w)" for n w
    using that by (auto simp: owners_agree_def)
  show ?thesis using own[OF assms(3,5)] own[OF assms(4,6)] by simp
qed

text \<open>Simulation is skipped only on a pull request that changes documents and nothing else.\<close>

lemma sim_skipped_iff:
  "\<not> fst (sim_needed event files) \<longleftrightarrow>
     event = ''pull_request'' \<and> (\<exists>fs. files = Some fs \<and> fs \<noteq> [] \<and> list_all doc_only fs)"
  by (auto simp: sim_needed_def Let_def filter_empty_conv list_all_iff split: option.split)

lemma companions_there:
  "set names \<subseteq> set (with_companions names) \<and>
   (''verilator'' \<in> set names \<longrightarrow> ''iverilog-vz'' \<in> set (with_companions names))"
proof -
  have keep: "set out \<subseteq> set (foldl add_companions out ns)" for out ns
  proof (induction ns arbitrary: out)
    case (Cons n ns)
    have "set out \<subseteq> set (add_companions out n)" by (simp add: add_companions_def)
    then show ?case using Cons[of "add_companions out n"] by simp
  qed simp
  have add: "''iverilog-vz'' \<in> set (foldl add_companions out ns)" if "''verilator'' \<in> set ns" for out ns
    using that
  proof (induction ns arbitrary: out)
    case (Cons n ns)
    have "''iverilog-vz'' \<in> set (add_companions out ''verilator'')" by (simp add: add_companions_def COMPANIONS_def)
    then show ?case using Cons keep[of "add_companions out n" ns] by (cases "n = ''verilator''") auto
  qed simp
  show ?thesis using keep[of "dedup names" "dedup names"] add[of "dedup names"] by (auto simp: with_companions_def)
qed

text \<open>Every selected pair is run, no pair twice, and the python run of a vector test before all others.\<close>

lemma distinct_pairs:
  assumes "distinct cases" and "distinct names"
  shows "distinct (first_pairs cases names @ rest_pairs cases names)"
proof -
  have "distinct (rest_pairs cases names)" using assms
    by (induction cases) (auto simp: rest_pairs_def distinct_map inj_on_def)
  moreover have "distinct (first_pairs cases names)" using assms(1)
    by (auto simp: first_pairs_def distinct_map inj_on_def)
  ultimately show ?thesis by (auto simp: first_pairs_def rest_pairs_def)
qed

lemma pairs_complete:
  "c \<in> set cases \<Longrightarrow> n \<in> set names \<Longrightarrow> (c, n) \<in> set (first_pairs cases names @ rest_pairs cases names)"
  by (auto simp: first_pairs_def rest_pairs_def)

text \<open>Only an interrupt keeps a pair from its result.\<close>

lemma run_pair_result:
  "run_pair tx cx wr go p = Inl e \<Longrightarrow> is_interrupt e"
  by (auto simp: run_pair_def split: prod.split_asm sum.split_asm if_split_asm)

end
