(* ===== verification/Status_Report.thy ===== *)
theory Status_Report
  imports Status_Record Work_Units
begin

text \<open>
  The reports made of the status files (\<open>PROGRESS.md\<close>, \<open>TODO.md\<close> and \<open>LOG.md\<close> of \<open>tools/xut/status.py\<close>):
  what each cell says, the grouping and the order of the entries, and the wrapping of lines. The marks are
  characters outside the range of \<open>char\<close>, so they are a datatype, and the reports are records of what
  each line holds. Percentages (a rounded float) and the legends are not modelled.
\<close>

section \<open>Cells of the progress table\<close>

datatype mark = MFail | MError | MPass | MSkip | MNotRun | MUnsupported | MNotApplicable | MPartial

definition LEVELS :: "string list" where
  "LEVELS = [''L0'', ''L1'', ''L2'', ''L3'']"

definition PRECEDENCE :: "string list" where
  "PRECEDENCE = [''fail'', ''error'', ''pass'', ''skip'', ''not-run'', ''unsupported'', ''n/a'']"

definition MARKS :: "(string, mark) dict" where
  "MARKS = [(''fail'', MFail), (''error'', MError), (''pass'', MPass), (''skip'', MSkip), (''not-run'', MNotRun),
    (''unsupported'', MUnsupported), (''n/a'', MNotApplicable)]"

definition runner_values :: "(string, string) dict \<Rightarrow> string \<Rightarrow> string \<Rightarrow> string list" where
  "runner_values results level runner =
     map snd (filter (\<lambda>(k, v). starts_with (level @ ''/'' @ runner @ ''/'') k) results)"

definition runner_mark :: "(string, string) dict \<Rightarrow> string \<Rightarrow> string \<Rightarrow> mark" where
  "runner_mark results level runner =
     (let vs = runner_values results level runner in
      if vs = [] then MNotRun
      else if ''fail'' \<notin> set vs \<and> ''error'' \<notin> set vs \<and> ''pass'' \<in> set vs \<and> (''not-run'' \<in> set vs \<or> ''skip'' \<in> set vs)
      then MPartial
      else case find (\<lambda>v. v \<in> set vs) PRECEDENCE of
          Some v \<Rightarrow> (case map_of MARKS v of Some m \<Rightarrow> m | None \<Rightarrow> MNotRun)
        | None \<Rightarrow> MNotRun)"

definition level_cell :: "(string, string) dict \<Rightarrow> string \<Rightarrow> mark list" where
  "level_cell results level = map (runner_mark results level) RECORDED_RUNNERS"

definition has_pass :: "status_file \<Rightarrow> string \<Rightarrow> bool" where
  "has_pass s level \<longleftrightarrow> list_ex (\<lambda>(k, v). v = ''pass'' \<and> starts_with (level @ ''/'') k) (sf_results s)"

text \<open>\<open>name.removeprefix("unisim-").split("-")[0]\<close>.\<close>

definition source_tag :: "string \<Rightarrow> string" where
  "source_tag name =
     hd (split_on (CHR ''-'') (if starts_with ''unisim-'' name then drop 7 name else name))"

definition disagrees :: "string option \<Rightarrow> string option \<Rightarrow> bool" where
  "disagrees a b \<longleftrightarrow>
     (a = Some ''pass'' \<and> b \<in> {Some ''fail'', Some ''error''}) \<or> (b = Some ''pass'' \<and> a \<in> {Some ''fail'', Some ''error''})"

definition source_mark :: "status_file \<Rightarrow> string \<Rightarrow> string \<times> (string, string) dict \<Rightarrow> string list" where
  "source_mark s level = (\<lambda>(name, other).
     if map_of (sf_hashes s) name \<noteq> sf_hash s
     then (if list_ex (\<lambda>(k, v). starts_with (level @ ''/'') k) other then [''~'' @ source_tag name] else [])
     else if list_ex (\<lambda>(k, v). starts_with (level @ ''/'') k \<and> disagrees (map_of (sf_results s) k) (Some v)) other
     then [''+'' @ source_tag name] else [])"

definition source_suffix :: "status_file \<Rightarrow> string \<Rightarrow> string" where
  "source_suffix s level = concat (concat (map (source_mark s level) (by_name (sf_by_source s))))"

section \<open>The tables\<close>

definition unit_of_map :: "(string, work_unit) dict \<Rightarrow> (string, string) dict" where
  "unit_of_map units = dict_of (concat (map (\<lambda>(name, u). map (\<lambda>p. (p, name)) (wu_prims u)) units))"

definition group_of_map :: "(string, work_unit) dict \<Rightarrow> (string, string) dict" where
  "group_of_map units = dict_of (concat (map (\<lambda>(name, u). map (\<lambda>p. (p, hd (wu_groups u))) (wu_prims u)) units))"

definition unit_of :: "(string, work_unit) dict \<Rightarrow> status_file \<Rightarrow> string" where
  "unit_of units s = (case map_of (unit_of_map units) (sf_prim s) of Some u \<Rightarrow> u | None \<Rightarrow> sf_unit s)"

definition group_of :: "(string, work_unit) dict \<Rightarrow> status_file \<Rightarrow> string" where
  "group_of units s = (case map_of (group_of_map units) (sf_prim s) of Some g \<Rightarrow> g | None \<Rightarrow> ''?'')"

text \<open>\<open>d.setdefault(key(s), []).append(s)\<close> for each entry, and \<open>sorted(d)\<close>.\<close>

definition bucket :: "(status_file \<Rightarrow> string) \<Rightarrow> (string, status_file list) dict \<Rightarrow> status_file \<Rightarrow> (string, status_file list) dict" where
  "bucket key d s = AList.update (key s) ((case map_of d (key s) of Some ss \<Rightarrow> ss | None \<Rightarrow> []) @ [s]) d"

definition buckets :: "(status_file \<Rightarrow> string) \<Rightarrow> status_file list \<Rightarrow> (string, status_file list) dict" where
  "buckets key ss = by_name (foldl (bucket key) [] ss)"

record progress_row =
  pr_prim :: string
  pr_unit :: string
  pr_library :: string
  pr_cells :: "(mark list \<times> string) list"
  pr_counts :: "nat \<times> nat \<times> nat"

definition primitive_table_row :: "status_file \<Rightarrow> string \<Rightarrow> progress_row" where
  "primitive_table_row s unit =
     \<lparr>pr_prim = sf_prim s, pr_unit = unit, pr_library = sf_library s,
      pr_cells = map (\<lambda>l. (level_cell (sf_results s) l, source_suffix s l)) LEVELS,
      pr_counts = (length (sf_covered s), length (sf_uncovered s), length (sf_findings s))\<rparr>"

definition summary_row :: "string \<times> status_file list \<Rightarrow> string \<times> nat \<times> nat list" where
  "summary_row = (\<lambda>(grp, ss). (grp, length ss, map (\<lambda>l. length (filter (\<lambda>s. has_pass s l) ss)) LEVELS))"

text \<open>The rows of the summary and, per group, of the table, ordered by unit and primitive.\<close>

definition render_progress ::
  "status_file list \<Rightarrow> (string, work_unit) dict \<Rightarrow> (string \<times> nat \<times> nat list) list \<times> (string \<times> progress_row list) list" where
  "render_progress ss units =
     (let by_group = buckets (group_of units) ss in
      (map summary_row by_group,
       map (\<lambda>(grp, es). (grp, map (\<lambda>s. primitive_table_row s (unit_of units s))
         (sort_key (unit_of units) (sort_key sf_prim es)))) by_group))"

section \<open>What is left to do\<close>

definition TODO_WIDTH :: nat where
  "TODO_WIDTH = 100"

fun with_commas :: "string list \<Rightarrow> string list" where
  "with_commas [] = []"
| "with_commas [x] = [x]"
| "with_commas (x # y # xs) = (x @ '','') # with_commas (y # xs)"

text \<open>The lines without their indent, and the line being filled.\<close>

definition wrap_token :: "nat \<Rightarrow> string list list \<times> string list \<Rightarrow> string \<Rightarrow> string list list \<times> string list" where
  "wrap_token w = (\<lambda>(lines, cur) tok.
     if cur \<noteq> [] \<and> length (join '' '' cur) + 1 + length tok > w then (lines @ [cur], [tok]) else (lines, cur @ [tok]))"

definition wrap_tokens :: "nat \<Rightarrow> string list \<Rightarrow> string list list" where
  "wrap_tokens w toks = (let (lines, cur) = foldl (wrap_token w) ([], []) toks in if cur = [] then lines else lines @ [cur])"

text \<open>An item is never the empty text here (it is quoted), so \<open>if cur\<close> asks for a token.\<close>

definition wrapped :: "string list \<Rightarrow> string \<Rightarrow> nat \<Rightarrow> string list" where
  "wrapped items indent width =
     map (\<lambda>ts. indent @ join '' '' ts) (wrap_tokens (width - length indent) (with_commas items))"

record todo_item =
  td_prim :: string
  td_uncovered :: "nat \<times> string list"
  td_unsupported :: "string list \<times> string"
  td_findings :: "string list"

definition todo_item_of :: "status_file \<Rightarrow> todo_item option" where
  "todo_item_of s =
     (let unsupported = sort (map fst (filter (\<lambda>(k, v). v = ''unsupported'') (sf_results s))) in
      if sf_uncovered s = [] \<and> unsupported = [] \<and> sf_findings s = [] then None
      else Some \<lparr>td_prim = sf_prim s,
        td_uncovered = (length (sf_uncovered s), wrapped (map (\<lambda>b. CHR 0x60 # b @ [CHR 0x60]) (sf_uncovered s)) ''    '' TODO_WIDTH),
        td_unsupported = (unsupported, sf_notes s), td_findings = sf_findings s\<rparr>)"

definition render_todo :: "status_file list \<Rightarrow> (string, work_unit) dict \<Rightarrow> (string \<times> todo_item list) list" where
  "render_todo ss units =
     filter (\<lambda>(u, items). items \<noteq> [])
       (map (\<lambda>(u, es). (u, List.map_filter todo_item_of (sort_key sf_prim es))) (buckets (unit_of units) ss))"

text \<open>The entries of the log: title and file name; the files are the name and the text of each.\<close>

definition log_title :: "string \<Rightarrow> string \<Rightarrow> string" where
  "log_title name text = (case splitlines text of l # _ \<Rightarrow> strip (dropWhile (\<lambda>c. c = CHR ''#'') l) | [] \<Rightarrow> path_stem name)"

definition render_log :: "(string \<times> string) list \<Rightarrow> string" where
  "render_log files =
     join [LF] ([''# Log'', []] @
       map (\<lambda>(name, text). ''- ['' @ log_title name text @ ''](../log/'' @ name @ '')'') (sort_key fst files)) @ [LF]"

section \<open>Facts\<close>

text \<open>A plain pass mark hides nothing that failed, was skipped or was not run.\<close>

lemma find_precedence:
  "find (\<lambda>v. v \<in> V) PRECEDENCE = Some ''pass'' \<longleftrightarrow> ''fail'' \<notin> V \<and> ''error'' \<notin> V \<and> ''pass'' \<in> V"
  by (simp add: PRECEDENCE_def)

lemma map_of_MARKS: "map_of MARKS v = Some MPass \<longleftrightarrow> v = ''pass''"
  by (simp add: MARKS_def)

lemma runner_mark_pass:
  "runner_mark results level runner = MPass \<longleftrightarrow>
     (let vs = set (runner_values results level runner) in
      ''pass'' \<in> vs \<and> ''fail'' \<notin> vs \<and> ''error'' \<notin> vs \<and> ''not-run'' \<notin> vs \<and> ''skip'' \<notin> vs)"
proof -
  let ?V = "set (runner_values results level runner)"
  have "(case find (\<lambda>v. v \<in> ?V) PRECEDENCE of
      Some v \<Rightarrow> (case map_of MARKS v of Some m \<Rightarrow> m | None \<Rightarrow> MNotRun) | None \<Rightarrow> MNotRun) = MPass \<longleftrightarrow>
    find (\<lambda>v. v \<in> ?V) PRECEDENCE = Some ''pass''"
  proof (cases "find (\<lambda>v. v \<in> ?V) PRECEDENCE")
    case (Some v)
    then show ?thesis using map_of_MARKS[of v] by (cases "map_of MARKS v") auto
  qed simp
  then show ?thesis by (auto simp: runner_mark_def Let_def find_precedence)
qed

text \<open>Wrapping keeps the tokens and their order, and a line is too long only when it is one token.\<close>

lemma wrap_fold:
  assumes "foldl (wrap_token w) (lines, cur) toks = (lines', cur')"
    and "\<forall>l \<in> set lines. length (join '' '' l) \<le> w \<or> (\<exists>t. l = [t])" and "length (join '' '' cur) \<le> w \<or> (\<exists>t. cur = [t]) \<or> cur = []"
  shows "concat lines' @ cur' = concat lines @ cur @ toks \<and>
    (\<forall>l \<in> set lines'. length (join '' '' l) \<le> w \<or> (\<exists>t. l = [t])) \<and> (length (join '' '' cur') \<le> w \<or> (\<exists>t. cur' = [t]) \<or> cur' = [])"
  using assms
proof (induction toks arbitrary: lines cur)
  case (Cons t toks)
  have len: "length (join '' '' (cur @ [t])) = length (join '' '' cur) + 1 + length t" if "cur \<noteq> []"
    using that by (induction cur rule: induct_list012) (simp_all add: join_Cons)
  show ?case
  proof (cases "cur \<noteq> [] \<and> length (join '' '' cur) + 1 + length t > w")
    case True
    then have "foldl (wrap_token w) (lines @ [cur], [t]) toks = (lines', cur')" using Cons.prems(1) by (simp add: wrap_token_def)
    from Cons.IH[OF this] True Cons.prems(2,3) show ?thesis by auto
  next
    case False
    then have f: "foldl (wrap_token w) (lines, cur @ [t]) toks = (lines', cur')" using Cons.prems(1) by (auto simp: wrap_token_def)
    have "length (join '' '' (cur @ [t])) \<le> w \<or> (\<exists>u. cur @ [t] = [u]) \<or> cur @ [t] = []"
      using False len by (cases "cur = []") auto
    from Cons.IH[OF f Cons.prems(2) this] show ?thesis by simp
  qed
qed simp

lemma wrap_tokens_ok:
  "concat (wrap_tokens w toks) = toks \<and> (\<forall>l \<in> set (wrap_tokens w toks). length (join '' '' l) \<le> w \<or> (\<exists>t. l = [t]))"
proof -
  obtain lines cur where f: "foldl (wrap_token w) ([], []) toks = (lines, cur)" by fastforce
  show ?thesis using wrap_fold[OF f] f by (auto simp: wrap_tokens_def)
qed

end
