(* ===== verification/Python_Runner.thy ===== *)
theory Python_Runner
  imports Runner Golden_Facts Wrapper_Text
begin

text \<open>
  The python runner (\<open>tools/xut/runners/python.py\<close>): the configurations of a vector test, their stimulus
  and the expected trace its golden model gives. A generator is code of the tests: what it yields is a
  parameter, and so is what \<open>registry.get\<close> finds. The deadline is two tests: whether a call starts
  after it, and whether it is still running then.
\<close>

section \<open>The world of a run\<close>

text \<open>
  \<open>pw_yield\<close>: what the generator yields (None for an object that is no \<open>Vec\<close>) and the specifications
  \<open>ctx.dut\<close> recorded. \<open>pw_model\<close>: the golden model, the text of a \<open>LookupError\<close>, or another exception.
\<close>

datatype 's registry = Found "'s model_cls" | NoModel string | BadImport exn

record 's py_world =
  pw_texts :: texts
  pw_golden :: "golden_error \<Rightarrow> string"
  pw_float :: "string \<Rightarrow> string option"
  pw_sha :: "string \<Rightarrow> string"
  pw_late :: "string \<Rightarrow> bool"
  pw_slow :: "string \<Rightarrow> bool"
  pw_frozen :: "(exn, string) result"
  pw_entry :: "(exn, catalog_entry) result"
  pw_levels :: "(string, string) dict"
  pw_attrs :: "(attr_decl \<times> attr_val) list"
  pw_yield :: "(exn, vec option list \<times> (string, dut_spec) dict) result"
  pw_model :: "'s registry"
  pw_reasons :: "hmsg list \<Rightarrow> string"
  pw_vmsg :: "vmsg list \<Rightarrow> string"

definition source_error :: "string \<Rightarrow> exn" where
  "source_error why = \<lparr>ex_user = True, ex_type = ''SourceError'', ex_text = why\<rparr>"

definition watchdog :: "'s py_world \<Rightarrow> string \<Rightarrow> int \<Rightarrow> (exn, 'a) result \<Rightarrow> (exn, 'a) result" where
  "watchdog w what limit r =
     (if pw_late w what \<or> pw_slow w what
      then Inl \<lparr>ex_user = True, ex_type = ''PythonTimeout'',
        ex_text = ''timeout: '' @ what @ '' exceeded the '' @ show_int limit @ '' s limit''\<rparr>
      else r)"

section \<open>The configurations\<close>

definition yielded :: "test_case \<Rightarrow> (string, dut_spec) dict \<Rightarrow> vec option \<Rightarrow> (exn, vec \<times> dut_spec) result" where
  "yielded c specs v =
     (case v of
        None \<Rightarrow> Inl (source_error (tc_id c @ '': generator yielded something that is not a Vec''))
      | Some x \<Rightarrow>
          (case map_of specs (the (map_of (v_header x) ''cfg'')) of
             None \<Rightarrow> Inl (source_error (tc_id c @ '': a configuration was not built with ctx.dut(...)''))
           | Some s \<Rightarrow> Inr (x, s)))"

definition generate :: "'s py_world \<Rightarrow> test_case \<Rightarrow> (exn, (vec \<times> dut_spec) list) result" where
  "generate w c =
     (let tx = pw_texts w in
      case tc_source c of
        None \<Rightarrow> Inl (source_error (tc_id c @ '': test.yaml has no source''))
      | Some src \<Rightarrow>
          if src = [] then Inl (source_error (tc_id c @ '': test.yaml has no source''))
          else if starts_with (rev ''.xvec'') (rev src)
          then rbind (pw_frozen w) (\<lambda>text.
               rbind (raise_as True ''XvecError'' (tx_xvec tx) (loads text)) (\<lambda>v.
               rbind (pw_entry w) (\<lambda>entry.
               rbind (raise_as True ''WrapError'' (tx_wrap tx)
                 (spec_from_catalog (pw_float w) entry (the (map_of (v_header v) ''cfg''))
                   (map (\<lambda>(k, x). (k, PStr x)) (vec_attrs v)) (vec_expect v = Some ''reject'') False)) (\<lambda>s.
               Inr [(v, s)]))))
          else rbind (pw_yield w) (\<lambda>(vs, specs). rmap (yielded c specs) vs))"

definition cfg_name :: "vec \<Rightarrow> string" where
  "cfg_name v = the (map_of (v_header v) ''cfg'')"

text \<open>\<open>configs\<close>: the names, the seed and the table of the configurations.\<close>

record py_state =
  ps_names :: "string list"
  ps_seed :: "int option"
  ps_gen :: "(string, vec \<times> dut_spec) dict"

definition py_configs_of :: "'s py_world \<Rightarrow> test_case \<Rightarrow> run_context \<Rightarrow> (exn, py_state) result" where
  "py_configs_of w c cx =
     rbind (watchdog w ''generator'' (timeout_for c cx) (generate w c)) (\<lambda>gen.
     let names = map (\<lambda>(v, s). cfg_name v) gen;
         seeds = sort (remdups (map (\<lambda>(v, s). hint v ''seed'') gen));
         bad = filter (\<lambda>n. \<not> is_cfg n) names
     in if 1 < length seeds then Inl (source_error (tc_id c @ '': configurations use different seeds''))
        else if bad \<noteq> [] \<or> \<not> distinct names then Inl (source_error (tc_id c @ '': bad configuration names or duplicates''))
        else rbind (pw_entry w) (\<lambda>_. Inr
          \<lparr>ps_names = names, ps_seed = (case seeds of [] \<Rightarrow> None | s # _ \<Rightarrow> Some s),
           ps_gen = dict_of (map (\<lambda>(v, s). (cfg_name v, (v, s))) gen)\<rparr>))"

section \<open>One configuration\<close>

text \<open>The errors of a replay, as the runner tells them apart.\<close>

datatype error_class = ModelSkip | BadStimulus | ModelBug | OtherError string

fun replay_class :: "golden_error \<Rightarrow> error_class" where
  "replay_class (GModel (Unsupported _)) = ModelSkip"
| "replay_class (GModel (PyValueError _)) = OtherError ''ValueError''"
| "replay_class (GModel _) = ModelBug"
| "replay_class (SimultaneousAt _) = ModelSkip"
| "replay_class (XZStimulus _ _) = ModelSkip"
| "replay_class (InvalidStim _) = BadStimulus"
| "replay_class (OutputsMismatch _) = ModelBug"
| "replay_class (OutputWidth _ _) = ModelBug"
| "replay_class PrimMismatch = ModelBug"
| "replay_class CountsMismatch = ModelBug"
| "replay_class InputsMismatch = ModelBug"
| "replay_class (GLoop _) = OtherError ''Exception''"
| "replay_class (GWrap _) = OtherError ''WrapError''"
| "replay_class (GTrace _) = OtherError ''XtrError''"
| "replay_class (GIndex _) = OtherError ''IndexError''"
| "replay_class ZipStrict = OtherError ''ValueError''"
| "replay_class (GValue _) = OtherError ''ValueError''"

definition reject_trace :: "run_context \<Rightarrow> vec \<Rightarrow> trace" where
  "reject_trace cx v = new_trace
     [(''runner'', ''python''), (''flow'', cx_flow cx), (''model'', ''golden''), (''seed'', show_int (hint v ''seed'')),
      (''kind'', ''expected''), (''prim'', the (map_of (v_header v) ''prim'')), (''cfg'', cfg_name v), (''expect'', ''reject'')]"

definition cfg_done :: "string \<Rightarrow> string \<Rightarrow> string \<Rightarrow> string \<Rightarrow> config_result" where
  "cfg_done cfg st why sha = (new_config cfg st (Some why))\<lparr>cr_stim := Some sha\<rparr>"

text \<open>The trace expected of a configuration and its bins, or the result that ends it.\<close>

definition replay_config ::
  "'s py_world \<Rightarrow> 's model_cls \<Rightarrow> vec \<Rightarrow> dut_map \<Rightarrow> (golden_error, trace \<times> string set) result" where
  "replay_config w mc v m = rbind (replay mc v m) (\<lambda>(t, r). Inr (t, coverage_reach (pw_levels w) (pw_attrs w) v r))"

definition golden_trace ::
  "'s py_world \<Rightarrow> test_case \<Rightarrow> run_context \<Rightarrow> string \<Rightarrow> string \<Rightarrow> vec \<Rightarrow> dut_map \<Rightarrow>
   (exn, config_result + trace \<times> string set) result" where
  "golden_trace w c cx cfg sha v m =
     (case pw_model w of
        NoModel why \<Rightarrow> Inr (Inl (cfg_done cfg ''skip'' (''no golden model: '' @ why) sha))
      | BadImport e \<Rightarrow> Inl e
      | Found mc \<Rightarrow>
          let what = ''golden model ('' @ cfg @ '')'' in
          rbind (watchdog w what (timeout_for c cx) (Inr ())) (\<lambda>_.
          case replay_config w mc v m of
            Inl e \<Rightarrow>
              (case replay_class e of
                 ModelSkip \<Rightarrow> Inr (Inl (cfg_done cfg ''skip'' (''model unsupported: '' @ pw_golden w e) sha))
               | BadStimulus \<Rightarrow> Inr (Inl (cfg_done cfg ''error'' (pw_golden w e) sha))
               | ModelBug \<Rightarrow> Inr (Inl (cfg_done cfg ''error'' (''golden model bug: '' @ pw_golden w e) sha))
               | OtherError ty \<Rightarrow> Inl \<lparr>ex_user = False, ex_type = ty, ex_text = pw_golden w e\<rparr>)
          | Inr (t, bins) \<Rightarrow>
              if t_samples t = [] then Inr (Inl (cfg_done cfg ''error'' ''golden replay has no samples'' sha))
              else Inr (Inr (t\<lparr>t_header := AList.update ''flow'' (cx_flow cx) (t_header t)\<rparr>, bins))))"

text \<open>What a configuration leaves: its result, the files of the wrapper, the stimulus and the trace.\<close>

record py_files =
  pf_result :: "(exn, config_result) result"
  pf_map :: "dut_map option"
  pf_stim :: "string option"
  pf_trace :: "string option"
  pf_bins :: "string set"

definition ended :: "config_result \<Rightarrow> dut_map \<Rightarrow> string option \<Rightarrow> py_files" where
  "ended cr m stim = \<lparr>pf_result = Inr cr, pf_map = Some m, pf_stim = stim, pf_trace = None, pf_bins = {}\<rparr>"

text \<open>The bins are gathered before the trace is written.\<close>

definition with_trace ::
  "(exn, string \<times> config_result) result \<Rightarrow> dut_map \<Rightarrow> string \<Rightarrow> string set \<Rightarrow> py_files" where
  "with_trace wr m stim bins =
     \<lparr>pf_result = map_sum id snd wr, pf_map = Some m, pf_stim = Some stim,
      pf_trace = (case wr of Inl _ \<Rightarrow> None | Inr (text, _) \<Rightarrow> Some text), pf_bins = bins\<rparr>"

definition passed_config :: "'s py_world \<Rightarrow> string \<Rightarrow> string \<Rightarrow> string \<Rightarrow> string set \<Rightarrow> config_result" where
  "passed_config w cfg stim text bins =
     (new_config cfg ''pass'' None)\<lparr>cr_stim := Some (pw_sha w stim), cr_trace := Some (pw_sha w text),
        cr_bins := Some (sorted_list_of_set bins)\<rparr>"

definition expected_of ::
  "'s py_world \<Rightarrow> test_case \<Rightarrow> run_context \<Rightarrow> string \<Rightarrow> string \<Rightarrow> vec \<Rightarrow> dut_map \<Rightarrow>
   (exn, config_result + trace \<times> string set) result" where
  "expected_of w c cx cfg stim v m =
     (if vec_expect v = Some ''reject'' then Inr (Inr (reject_trace cx v, {}))
      else golden_trace w c cx cfg (pw_sha w stim) v m)"

definition finish_config ::
  "'s py_world \<Rightarrow> string \<Rightarrow> dut_map \<Rightarrow> string \<Rightarrow> config_result + trace \<times> string set \<Rightarrow> py_files" where
  "finish_config w cfg m stim got =
     (case got of
        Inl cr \<Rightarrow> ended cr m (Some stim)
      | Inr (t, bins) \<Rightarrow>
          with_trace (map_sum id (\<lambda>text. (text, passed_config w cfg stim text bins))
            (raise_as True ''XtrError'' (tx_xtr (pw_texts w)) (xtr_dumps t))) m stim bins)"

definition py_run_config ::
  "'s py_world \<Rightarrow> test_case \<Rightarrow> run_context \<Rightarrow> py_state \<Rightarrow> string \<Rightarrow> (exn, py_files) result" where
  "py_run_config w c cx ps cfg =
     (case map_of (ps_gen ps) cfg of
        None \<Rightarrow> Inl \<lparr>ex_user = False, ex_type = ''KeyError'', ex_text = cfg\<rparr>
      | Some (v0, spec) \<Rightarrow>
          let tx = pw_texts w in
          rbind (raise_as True ''WrapError'' (tx_wrap tx) (write_dut spec False)) (\<lambda>(m, _).
          rbind (raise_as False ''Exception'' (pw_golden w) (lift_gloop (validate v0 m DEFAULT_GAP_PS))) (\<lambda>report.
          case mark v0 report (pw_reasons w) of
            None \<Rightarrow> Inr (ended (new_config cfg ''error''
              (Some (''stimulus violates class rules (a generator bug): '' @ pw_vmsg w (take 3 (r_errors report))))) m None)
          | Some v \<Rightarrow>
              rbind (raise_as True ''XvecError'' (tx_xvec tx) (dumps v)) (\<lambda>stim.
              rbind (expected_of w c cx cfg stim v m) (\<lambda>got. Inr (finish_config w cfg m stim got))))))"

section \<open>The runner\<close>

definition py_finish :: "string set list \<Rightarrow> run_result \<Rightarrow> (exn, run_result) result" where
  "py_finish bins res = Inr (res\<lparr>rr_bins := Some (sorted_list_of_set (\<Union> (set bins)))\<rparr>)"

definition py_config_run :: "(exn, py_files) result \<Rightarrow> config_run" where
  "py_config_run r =
     (case r of
        Inl e \<Rightarrow> \<lparr>co_result = Inl e, co_trace = None, co_log = []\<rparr>
      | Inr f \<Rightarrow> \<lparr>co_result = pf_result f, co_trace = pf_trace f, co_log = []\<rparr>)"

text \<open>The bins gathered by the configurations that reached the end; a configuration excluded by the
  test is not run.\<close>

definition bins_of :: "(exn, py_files) result \<Rightarrow> string set" where
  "bins_of r = (case r of Inl _ \<Rightarrow> {} | Inr f \<Rightarrow> pf_bins f)"

definition python_runner :: "'s py_world \<Rightarrow> string \<Rightarrow> test_case \<Rightarrow> run_context \<Rightarrow> runner" where
  "python_runner w version c cx =
     (let ps = py_configs_of w c cx;
          one = (\<lambda>cfg. case ps of Inl e \<Rightarrow> Inl e | Inr s \<Rightarrow> py_run_config w c cx s cfg);
          names = (case ps of Inl _ \<Rightarrow> [] | Inr s \<Rightarrow> filter (\<lambda>n. excluded_by (exclusions_for c ''python'') n = None) (ps_names s))
      in \<lparr>ru_name = ''python'', ru_styles = [''vector''], ru_available = (True, []),
          ru_tools = Inr ([(''python'', version)], None),
          ru_configs = map_sum id ps_names ps,
          ru_seed = (case ps of Inl _ \<Rightarrow> None | Inr s \<Rightarrow> ps_seed s),
          ru_config = (\<lambda>cfg. py_config_run (one cfg)),
          ru_finish = py_finish (map (\<lambda>n. bins_of (one n)) names)\<rparr>)"

section \<open>What a python pass leaves\<close>

text \<open>The stimulus is valid for the map and marked; the trace is its golden replay, or for a stimulus
  the model must refuse a header that says so.\<close>

definition golden_evidence :: "'s py_world \<Rightarrow> run_context \<Rightarrow> vec \<Rightarrow> dut_map \<Rightarrow> trace \<Rightarrow> bool" where
  "golden_evidence w cx v m t \<longleftrightarrow>
     (if vec_expect v = Some ''reject'' then t_samples t = [] \<and> map_of (t_header t) ''expect'' = Some ''reject''
      else \<exists>mc t0 r. pw_model w = Found mc \<and> replay mc v m = Inr (t0, r) \<and> t_samples t0 \<noteq> [] \<and>
        t = t0\<lparr>t_header := AList.update ''flow'' (cx_flow cx) (t_header t0)\<rparr>)"

definition python_evidence :: "'s py_world \<Rightarrow> run_context \<Rightarrow> py_state \<Rightarrow> string \<Rightarrow> py_files \<Rightarrow> config_result \<Rightarrow> bool" where
  "python_evidence w cx ps cfg f cr \<longleftrightarrow> (\<exists>v0 spec v m files report stim t text.
     map_of (ps_gen ps) cfg = Some (v0, spec) \<and> write_dut spec False = Inr (m, files) \<and>
     validate v0 m DEFAULT_GAP_PS = Inr report \<and> r_errors report = [] \<and>
     v = v0\<lparr>v_hw := Some (hw_renderable report), v_reason := pw_reasons w (r_hw report)\<rparr> \<and>
     dumps v = Inr stim \<and> xtr_dumps t = Inr text \<and> golden_evidence w cx v m t \<and>
     pf_map f = Some m \<and> pf_stim f = Some stim \<and> pf_trace f = Some text \<and>
     cr_stim cr = Some (pw_sha w stim) \<and> cr_trace cr = Some (pw_sha w text))"

lemma lift_gloop_Inr [simp]: "lift_gloop r = Inr x \<longleftrightarrow> r = Inr x"
  by (cases r) (simp_all add: lift_gloop_def)

text \<open>Exceptions have a class and replay errors a message.\<close>

definition typed :: "exn \<Rightarrow> bool" where
  "typed e \<longleftrightarrow> ex_type e \<noteq> []"

definition speaking :: "'s py_world \<Rightarrow> bool" where
  "speaking w \<longleftrightarrow> (\<forall>e. pw_golden w e \<noteq> []) \<and> raises typed (pw_frozen w) \<and> raises typed (pw_entry w) \<and>
     raises typed (pw_yield w) \<and> (case pw_model w of BadImport e \<Rightarrow> typed e | _ \<Rightarrow> True)"

text \<open>An end that is no pass: a skip or an error that says why.\<close>

definition explained :: "config_result \<Rightarrow> bool" where
  "explained cr \<longleftrightarrow> cr_status cr \<in> {''skip'', ''error''} \<and> (case cr_reason cr of Some why \<Rightarrow> why \<noteq> [] | None \<Rightarrow> False)"

lemma explained_new [simp]:
  "explained (new_config cfg st (Some why)) \<longleftrightarrow> st \<in> {''skip'', ''error''} \<and> why \<noteq> []"
  "explained (cfg_done cfg st why sha) \<longleftrightarrow> st \<in> {''skip'', ''error''} \<and> why \<noteq> []"
  by (simp_all add: explained_def new_config_def cfg_done_def)

lemma golden_trace_cases:
  assumes "golden_trace w c cx cfg sha v m = Inr got" and "\<forall>e. pw_golden w e \<noteq> []"
  shows "case got of Inl cr \<Rightarrow> explained cr
    | Inr (t, bins) \<Rightarrow> \<exists>mc t0 r. pw_model w = Found mc \<and> replay mc v m = Inr (t0, r) \<and> t_samples t0 \<noteq> [] \<and>
        t = t0\<lparr>t_header := AList.update ''flow'' (cx_flow cx) (t_header t0)\<rparr>"
  using assms
  by (auto simp: golden_trace_def Let_def rbind_Inr_iff replay_config_def
      split: registry.split_asm sum.split_asm error_class.split_asm if_split_asm)

lemma py_run_config_cases:
  assumes "\<forall>e. pw_golden w e \<noteq> []" and "py_run_config w c cx ps cfg = Inr f" and "pf_result f = Inr cr"
  shows "if cr_status cr = ''pass'' then python_evidence w cx ps cfg f cr else explained cr"
proof -
  note Inr = assms(2,3)
  obtain v0 spec where g: "map_of (ps_gen ps) cfg = Some (v0, spec)"
    using Inr by (auto simp: py_run_config_def split: option.split_asm)
  obtain m files report where m: "write_dut spec False = Inr (m, files)" and r: "validate v0 m DEFAULT_GAP_PS = Inr report"
    using Inr by (auto simp: py_run_config_def g Let_def rbind_Inr_iff)
  show ?thesis
  proof (cases "mark v0 report (pw_reasons w)")
    case None
    then obtain why where "f = ended (new_config cfg ''error'' (Some (''stimulus violates class rules (a generator bug): '' @ why))) m None"
      using Inr by (auto simp: py_run_config_def g m r Let_def rbind_Inr_iff)
    then have "cr = new_config cfg ''error'' (Some (''stimulus violates class rules (a generator bug): '' @ why))"
      using Inr by (simp add: ended_def)
    then show ?thesis by simp
  next
    case (Some v)
    then have e: "r_errors report = []" and v: "v = v0\<lparr>v_hw := Some (hw_renderable report), v_reason := pw_reasons w (r_hw report)\<rparr>"
      by (auto simp: mark_def split: if_split_asm)
    obtain stim got where stim: "dumps v = Inr stim" and got: "expected_of w c cx cfg stim v m = Inr got"
      and f: "f = finish_config w cfg m stim got"
      using Inr by (auto simp: py_run_config_def g m r Some Let_def rbind_Inr_iff)
    show ?thesis
    proof (cases got)
      case (Inl cr')
      then have "explained cr'" using golden_trace_cases[of w c cx cfg "pw_sha w stim" v m got] got assms(1)
        by (auto simp: expected_of_def split: if_split_asm)
      then show ?thesis using Inr f Inl by (auto simp: ended_def finish_config_def explained_def)
    next
      case got_t: (Inr tb)
      obtain t bins where tb: "tb = (t, bins)" by (cases tb)
      have ge: "golden_evidence w cx v m t"
        using golden_trace_cases[of w c cx cfg "pw_sha w stim" v m got] got assms(1)
        by (auto simp: got_t tb expected_of_def golden_evidence_def reject_trace_def new_trace_def split: if_split_asm)
      obtain tx where dumped: "xtr_dumps t = Inr tx"
        using Inr f got_t tb by (cases "xtr_dumps t") (simp_all add: with_trace_def raise_as_def finish_config_def)
      then have fin: "f = \<lparr>pf_result = Inr (passed_config w cfg stim tx bins), pf_map = Some m, pf_stim = Some stim,
          pf_trace = Some tx, pf_bins = bins\<rparr>"
        using f got_t tb by (simp add: with_trace_def raise_as_def finish_config_def)
      then have "python_evidence w cx ps cfg f (passed_config w cfg stim tx bins)"
        unfolding python_evidence_def using g m r e v stim ge dumped
        by (intro exI[of _ v0] exI[of _ spec] exI[of _ v] exI[of _ m] exI[of _ files] exI[of _ report] exI[of _ stim]
            exI[of _ t] exI[of _ tx]) (simp add: passed_config_def)
      moreover have cr: "cr = passed_config w cfg stim tx bins" using Inr(2) fin by simp
      moreover have "cr_status cr = ''pass''" by (simp add: cr passed_config_def)
      ultimately show ?thesis by simp
    qed
  qed
qed

text \<open>What the runner raises has a class.\<close>

lemma raise_as_typed: "ty \<noteq> [] \<Longrightarrow> raises typed (raise_as u ty show r)"
  by (rule raises_raise_as) (simp add: typed_def)

lemma watchdog_typed: "raises typed r \<Longrightarrow> raises typed (watchdog w what limit r)"
  by (simp add: watchdog_def typed_def)

lemma rmap_raises: "(\<And>x. raises P (f x)) \<Longrightarrow> raises P (rmap f xs)"
  by (induction xs) (auto intro!: raises_rbind)

lemma generate_typed:
  assumes "speaking w"
  shows "raises typed (generate w c)"
proof -
  have "raises typed (yielded c specs v)" for specs v
    by (simp add: yielded_def source_error_def typed_def split: option.split)
  then show ?thesis using assms
    by (auto simp: generate_def speaking_def source_error_def typed_def[of "_\<lparr>ex_user := _\<rparr>"] Let_def
        intro!: raises_rbind raise_as_typed rmap_raises split: option.split prod.split)
      (simp_all add: typed_def)
qed

lemma py_configs_typed: "speaking w \<Longrightarrow> raises typed (py_configs_of w c cx)"
  unfolding py_configs_of_def Let_def
  by (intro raises_rbind watchdog_typed generate_typed) (auto simp: source_error_def typed_def speaking_def intro!: raises_rbind)

lemma replay_class_type: "replay_class e = OtherError ty \<Longrightarrow> ty \<noteq> []"
  by (cases e rule: replay_class.cases) auto

lemma golden_trace_typed: "speaking w \<Longrightarrow> raises typed (golden_trace w c cx cfg sha v m)"
  unfolding golden_trace_def Let_def speaking_def
  by (auto intro!: raises_rbind watchdog_typed simp: typed_def split: registry.split sum.split error_class.split dest: replay_class_type)

lemma py_run_config_typed:
  assumes "speaking w"
  shows "raises typed (py_run_config w c cx ps cfg)"
  unfolding py_run_config_def Let_def expected_of_def
  by (auto simp: typed_def intro!: raises_rbind raise_as_typed golden_trace_typed[OF assms] split: option.split prod.split)

lemma pf_result_typed:
  assumes "py_run_config w c cx ps cfg = Inr f"
  shows "raises typed (pf_result f)"
proof -
  obtain v0 spec where g: "map_of (ps_gen ps) cfg = Some (v0, spec)"
    using assms by (auto simp: py_run_config_def split: option.split_asm)
  obtain m files report where m: "write_dut spec False = Inr (m, files)" and r: "validate v0 m DEFAULT_GAP_PS = Inr report"
    using assms by (auto simp: py_run_config_def g Let_def rbind_Inr_iff)
  have wt: "raises typed (pf_result (with_trace (map_sum id k (raise_as u ''XtrError'' sh x)) m stim bins))" for k u sh x stim bins
    by (cases x) (simp_all add: with_trace_def raise_as_def typed_def)
  have fin: "raises typed (pf_result (finish_config w cfg m stim got))" for stim got
    using wt by (auto simp: finish_config_def ended_def split: sum.split)
  show ?thesis
  proof (cases "mark v0 report (pw_reasons w)")
    case None
    then show ?thesis using assms by (auto simp: py_run_config_def g m r Let_def rbind_Inr_iff ended_def)
  next
    case (Some v)
    obtain stim got where "f = finish_config w cfg m stim got"
      using assms by (auto simp: py_run_config_def g m r Some Let_def rbind_Inr_iff)
    then show ?thesis using fin by simp
  qed
qed

text \<open>
  C36. What the run of a test makes of a configuration of the python runner. It passes only with a
  stimulus that validates without an error against the map of its wrapper and a trace that is the golden
  replay of that very stimulus, with at least one sample, or is the header of an expected rejection;
  both are written, and the result carries their hashes. Otherwise it is a skip or an error with a
  reason, whatever \<open>Exception\<close> was raised on the way; only an interrupt leaves no result.
\<close>

theorem python_outcomes:
  assumes "speaking w"
  shows "case run_one tx (python_runner w version c cx) excluded cfg of
     Inl e \<Rightarrow> is_interrupt e
   | Inr (cr, parts, log) \<Rightarrow>
       if cr_status cr = ''pass''
       then \<exists>ps f. py_configs_of w c cx = Inr ps \<and> py_run_config w c cx ps cfg = Inr f \<and> python_evidence w cx ps cfg f cr
       else explained cr"
proof (cases "run_one tx (python_runner w version c cx) excluded cfg")
  case (Inl e)
  then show ?thesis
    by (auto simp: run_one_def config_outcome_def Let_def rbind_Inl_iff split: option.split_asm sum.split_asm if_split_asm prod.split_asm)
next
  case (Inr p)
  obtain cr parts l where p: "p = (cr, parts, l)" by (cases p)
  show ?thesis
  proof (cases "excluded_by excluded cfg")
    case (Some g)
    then show ?thesis using Inr by (simp add: p run_one_def Let_def) (auto simp: new_config_def explained_def)
  next
    case None
    let ?o = "ru_config (python_runner w version c cx) cfg"
    have o: "?o = py_config_run (case py_configs_of w c cx of Inl e \<Rightarrow> Inl e | Inr s \<Rightarrow> py_run_config w c cx s cfg)"
      by (simp add: python_runner_def Let_def)
    have ty: "raises typed (co_result ?o)"
    proof (cases "py_configs_of w c cx")
      case (Inl e)
      then show ?thesis using py_configs_typed[OF assms, of c cx] by (simp add: o py_config_run_def)
    next
      case c: (Inr ps)
      then show ?thesis
        using py_run_config_typed[OF assms, of c cx ps cfg] pf_result_typed[of w c cx ps cfg]
        by (cases "py_run_config w c cx ps cfg") (simp_all add: o py_config_run_def)
    qed
    obtain cr1 where c1: "config_outcome cfg (co_result ?o) = Inr cr1" "cr = fst (with_evidence tx cfg (co_trace ?o) cr1)"
      using Inr None by (auto simp: p run_one_def Let_def rbind_Inr_iff split_def)
    have kept: "cr = cr1 \<or> explained cr"
      using c1(2) by (auto simp: with_evidence_def split: option.split_asm sum.split_asm if_split_asm)
    show ?thesis
    proof (cases "co_result ?o")
      case (Inl e)
      then have "explained cr1" using c1(1) ty error_reason_text
        by (auto simp: config_outcome_def raises_def typed_def split: if_split_asm)
      then show ?thesis using kept Inr p by (auto simp: explained_def)
    next
      case r: (Inr cr2)
      then obtain ps f where f: "py_configs_of w c cx = Inr ps" "py_run_config w c cx ps cfg = Inr f" "pf_result f = Inr cr2"
        by (auto simp: o py_config_run_def split: sum.split_asm)
      have "cr1 = cr2" using c1(1) r by (simp add: config_outcome_def)
      moreover have "if cr_status cr2 = ''pass'' then python_evidence w cx ps cfg f cr2 else explained cr2"
        using assms by (intro py_run_config_cases[OF _ f(2,3)]) (simp add: speaking_def)
      ultimately show ?thesis using kept f(1,2) Inr p by (auto simp: explained_def)
    qed
  qed
qed

text \<open>\<open>finish\<close> adds the bins and leaves the verdict alone.\<close>

lemma python_keeps_verdict: "keeps_verdict (python_runner w version c cx)"
  by (auto simp: keeps_verdict_def python_runner_def py_finish_def Let_def)

text \<open>A test without a source: its configuration is an error that says so.\<close>

definition world_example :: "unit py_world" where
  "world_example =
     \<lparr>pw_texts = texts_example, pw_golden = (\<lambda>_. ''model''), pw_float = (\<lambda>_. None), pw_sha = (\<lambda>_. ''sha''),
      pw_late = (\<lambda>_. False), pw_slow = (\<lambda>_. False), pw_frozen = Inl (source_error ''gone''), pw_entry = Inl (source_error ''gone''),
      pw_levels = [], pw_attrs = [], pw_yield = Inl \<lparr>ex_user = False, ex_type = ''ZeroDivisionError'', ex_text = ''division by zero''\<rparr>,
      pw_model = NoModel ''none'', pw_reasons = (\<lambda>_. []), pw_vmsg = (\<lambda>_. [])\<rparr>"

lemma world_speaking: "speaking world_example"
  by (simp add: speaking_def world_example_def typed_def source_error_def)

theorem python_outcomes_witness:
  "case run_one texts_example (python_runner world_example ''3.12'' (case_example ''a'') context_example) [] ''default'' of
     Inr (cr, parts, log) \<Rightarrow> cr_status cr = ''error'' \<and> explained cr | Inl e \<Rightarrow> False"
proof -
  let ?ru = "python_runner world_example ''3.12'' (case_example ''a'') context_example"
  have "case run_one texts_example ?ru [] ''default'' of Inr (cr, parts, log) \<Rightarrow> cr_status cr = ''error'' | Inl e \<Rightarrow> False"
    by code_simp
  then show ?thesis
    using python_outcomes[OF world_speaking, where tx = texts_example and version = "''3.12''" and c = "case_example ''a''"
        and cx = context_example and excluded = "[]" and cfg = "''default''"]
    by (auto split: sum.splits prod.splits)
qed

end
