(* ===== verification/Unit_Guards.thy ===== *)
theory Unit_Guards
  imports Python_Runner Status_Bins
begin

text \<open>
  The guards of a work unit (\<open>tools/xut/unitkit.py\<close>): what the vector tests of a primitive reach, and
  whether a model that breaks a claimed rule fails a documented bit. A generator of Python is the list
  of what it yields, with the exception it ends in, if any, as an item.
\<close>

section \<open>Documented bits\<close>

datatype guard_error = GuardKey string | GuardIndex nat | GuardLengths | GuardReplay golden_error

type_synonym doc_item = "guard_error + string \<times> string \<times> nat"

definition tag_of :: "string list \<Rightarrow> nat \<Rightarrow> (guard_error, string) result" where
  "tag_of tags i =
     (if 1 < length tags then (if i < length tags then Inr (tags ! i) else Inl (GuardIndex i)) else Inr (hd tags))"

definition is_01 :: "char \<Rightarrow> bool" where
  "is_01 c \<longleftrightarrow> c = CHR ''0'' \<or> c = CHR ''1''"

definition doc_bit :: "string \<Rightarrow> string \<Rightarrow> string list \<Rightarrow> nat \<times> char \<times> char \<Rightarrow> doc_item list" where
  "doc_bit label port tags = (\<lambda>(i, x, g).
     case tag_of tags i of
       Inl e \<Rightarrow> [Inl e]
     | Inr tg \<Rightarrow> if starts_with ''doc:'' tg \<and> is_01 x \<and> is_01 g \<and> x \<noteq> g then [Inr (label, port, i)] else [])"

definition doc_port :: "trace \<Rightarrow> trace \<Rightarrow> string \<Rightarrow> string \<times> string \<Rightarrow> doc_item list" where
  "doc_port want got label = (\<lambda>(port, bv).
     case (case map_of (t_prov want) label of Some pv \<Rightarrow> map_of pv port | None \<Rightarrow> None) of
       None \<Rightarrow> [Inl (GuardKey port)]
     | Some token \<Rightarrow>
         (case (case map_of (t_samples got) label of Some s \<Rightarrow> map_of s port | None \<Rightarrow> None) of
            None \<Rightarrow> [Inl (GuardKey label)]
          | Some g \<Rightarrow>
              concat (map (doc_bit label port (split_on (CHR '','') token)) (enumerate 0 (zip (rev bv) (rev g)))) @
              (if length bv = length g then [] else [Inl GuardLengths])))"

definition doc_diffs :: "trace \<Rightarrow> trace \<Rightarrow> doc_item list" where
  "doc_diffs want got =
     concat (map (\<lambda>(label, ports). concat (map (doc_port want got label) ports)) (t_samples want))"

text \<open>\<open>next\<close> takes the first item; \<open>sum\<close> runs to the end, or to the exception.\<close>

definition doc_mismatch :: "trace \<Rightarrow> trace \<Rightarrow> (guard_error, bool) result" where
  "doc_mismatch want got =
     (case doc_diffs want got of [] \<Rightarrow> Inr False | Inl e # _ \<Rightarrow> Inl e | Inr _ # _ \<Rightarrow> Inr True)"

definition doc_count :: "trace \<Rightarrow> trace \<Rightarrow> (guard_error, nat) result" where
  "doc_count want got = map_sum id length (rmap id (doc_diffs want got))"

section \<open>Reach\<close>

record replayed =
  rp_cfg :: string
  rp_bins :: "string set"
  rp_pure :: bool
  rp_vec :: vec
  rp_map :: dut_map
  rp_trace :: trace

definition documented :: "(string, sample) dict \<Rightarrow> bool" where
  "documented tags \<longleftrightarrow>
     list_all (\<lambda>(label, ports). list_all (\<lambda>(port, token). list_all (starts_with ''doc:'') (split_on (CHR '','') token)) ports) tags"

definition replay_one :: "'s py_world \<Rightarrow> 's model_cls \<Rightarrow> vec \<times> dut_spec \<Rightarrow> (exn, replayed) result" where
  "replay_one w mc = (\<lambda>(v, spec).
     rbind (raise_as True ''WrapError'' (tx_wrap (pw_texts w)) (build_map spec)) (\<lambda>m.
     rbind (raise_as False ''Exception'' (pw_golden w) (replay_config w mc v m)) (\<lambda>(t, bins). Inr
       \<lparr>rp_cfg = cfg_name v, rp_bins = bins, rp_pure = documented (t_prov t), rp_vec = v, rp_map = m, rp_trace = t\<rparr>)))"

definition replay_all :: "'s py_world \<Rightarrow> test_case \<Rightarrow> (exn, replayed list) result" where
  "replay_all w c =
     (case pw_model w of
        NoModel why \<Rightarrow> Inl \<lparr>ex_user = False, ex_type = ''LookupError'', ex_text = why\<rparr>
      | BadImport e \<Rightarrow> Inl e
      | Found mc \<Rightarrow>
          rbind (generate w c) (\<lambda>gen.
            rmap (replay_one w mc) (filter (\<lambda>(v, s). vec_expect v \<noteq> Some ''reject'') gen)))"

section \<open>Mutants\<close>

definition mutant_trace :: "'s model_cls \<Rightarrow> replayed \<Rightarrow> (guard_error, trace) result" where
  "mutant_trace mutant r = map_sum GuardReplay fst (replay mutant (rp_vec r) (rp_map r))"

definition caught :: "'s model_cls \<Rightarrow> replayed \<Rightarrow> (guard_error, bool) result" where
  "caught mutant r = rbind (mutant_trace mutant r) (doc_mismatch (rp_trace r))"

text \<open>\<open>all\<close> and \<open>any\<close> over a generator stop at the first answer.\<close>

fun all_lazy :: "('a \<Rightarrow> ('e, bool) result) \<Rightarrow> 'a list \<Rightarrow> ('e, bool) result" where
  "all_lazy f [] = Inr True"
| "all_lazy f (x # xs) = rbind (f x) (\<lambda>b. if b then all_lazy f xs else Inr False)"

fun any_lazy :: "('a \<Rightarrow> ('e, bool) result) \<Rightarrow> 'a list \<Rightarrow> ('e, bool) result" where
  "any_lazy f [] = Inr False"
| "any_lazy f (x # xs) = rbind (f x) (\<lambda>b. if b then Inr True else any_lazy f xs)"

definition crediting :: "string \<Rightarrow> replayed list \<Rightarrow> replayed list" where
  "crediting claim rs = filter (\<lambda>r. ''claim:'' @ claim \<in> rp_bins r) rs"

definition mutant_fails :: "replayed list \<Rightarrow> string \<Rightarrow> 's model_cls \<Rightarrow> bool \<Rightarrow> (guard_error, bool option) result" where
  "mutant_fails rs claim mutant every =
     (let cr = crediting claim rs in
      if cr = [] then Inr None
      else map_sum id Some (if every then all_lazy (caught mutant) cr else any_lazy (caught mutant) cr))"

fun doc_total :: "'s model_cls \<Rightarrow> replayed list \<Rightarrow> (guard_error, nat) result" where
  "doc_total mc [] = Inr 0"
| "doc_total mc (r # rs) =
     rbind (rbind (mutant_trace mc r) (doc_count (rp_trace r))) (\<lambda>n. rbind (doc_total mc rs) (\<lambda>k. Inr (n + k)))"

section \<open>The guards\<close>

text \<open>The vector tests of a primitive with their replays.\<close>

type_synonym unit_tests = "(test_case \<times> replayed list) list"

definition unreached :: "test_case \<times> replayed list \<Rightarrow> string set" where
  "unreached = (\<lambda>(c, rs). set (tc_exercises c) - \<Union> (rp_bins ` set rs))"

definition declared_bins :: "unit_tests \<Rightarrow> string set" where
  "declared_bins ts = \<Union> ((\<lambda>(c, rs). set (tc_exercises c)) ` set ts)"

definition pure_bins :: "unit_tests \<Rightarrow> string set" where
  "pure_bins ts = \<Union> ((\<lambda>(c, rs). \<Union> ((\<lambda>r. if rp_pure r then rp_bins r \<inter> set (tc_exercises c) else {}) ` set rs)) ` set ts)"

definition impure :: "unit_tests \<Rightarrow> string set" where
  "impure ts = declared_bins ts - pure_bins ts"

definition claims_declared :: "unit_tests \<Rightarrow> string list" where
  "claims_declared ts =
     sort (remdups (map (drop 6) (filter (starts_with ''claim:'') (concat (map (\<lambda>(c, rs). tc_exercises c) ts)))))"

text \<open>The guard of one claim: every crediting configuration of every declaring test, or some of one.\<close>

definition claim_guarded :: "unit_tests \<Rightarrow> string \<Rightarrow> 's model_cls \<Rightarrow> bool \<Rightarrow> (guard_error, bool) result" where
  "claim_guarded ts claim mutant event =
     rbind (rmap (\<lambda>(c, rs). mutant_fails rs claim mutant event)
       (filter (\<lambda>(c, rs). ''claim:'' @ claim \<in> set (tc_exercises c)) ts)) (\<lambda>verdicts.
     let oks = List.map_filter id verdicts
     in Inr (oks \<noteq> [] \<and> (if event then list_all id oks else list_ex id oks)))"

section \<open>A caught mutant is seen by every runner\<close>

text \<open>Bit \<open>i\<close> of a port is documented: the tag of that bit, or the one tag of the port, is a \<open>doc:\<close> tag.\<close>

definition documents :: "string \<Rightarrow> nat \<Rightarrow> bool" where
  "documents token i \<longleftrightarrow>
     (let tags = split_on (CHR '','') token in
      starts_with ''doc:'' (if 1 < length tags then tags ! i else hd tags) \<and> (1 < length tags \<longrightarrow> i < length tags))"

text \<open>Some bit that the golden trace documents is defined in both traces and differs.\<close>

definition documented_failure :: "trace \<Rightarrow> trace \<Rightarrow> bool" where
  "documented_failure want got \<longleftrightarrow>
     (\<exists>label ports port bv pv token s g i. (label, ports) \<in> set (t_samples want) \<and> (port, bv) \<in> set ports \<and>
        map_of (t_prov want) label = Some pv \<and> map_of pv port = Some token \<and> documents token i \<and>
        map_of (t_samples got) label = Some s \<and> map_of s port = Some g \<and> i < length bv \<and> i < length g \<and>
        is_01 (rev bv ! i) \<and> is_01 (rev g ! i) \<and> rev bv ! i \<noteq> rev g ! i)"

lemma doc_bit_in:
  "Inr x \<in> set (doc_bit label port (split_on (CHR '','') token) (i, c, d)) \<Longrightarrow>
   documents token i \<and> is_01 c \<and> is_01 d \<and> c \<noteq> d"
  by (auto simp: doc_bit_def documents_def tag_of_def Let_def split: sum.split_asm if_split_asm)

lemma doc_port_in:
  assumes "Inr x \<in> set (doc_port want got label (port, bv))"
  shows "\<exists>i s g pv token. map_of (t_prov want) label = Some pv \<and> map_of pv port = Some token \<and> documents token i \<and>
    map_of (t_samples got) label = Some s \<and> map_of s port = Some g \<and>
    i < length bv \<and> i < length g \<and> is_01 (rev bv ! i) \<and> is_01 (rev g ! i) \<and> rev bv ! i \<noteq> rev g ! i"
proof -
  obtain tok where t: "(case map_of (t_prov want) label of Some pv \<Rightarrow> map_of pv port | None \<Rightarrow> None) = Some tok"
    using assms by (auto simp: doc_port_def split: option.split_asm)
  then obtain pv where pv: "map_of (t_prov want) label = Some pv" "map_of pv port = Some tok"
    by (cases "map_of (t_prov want) label") auto
  obtain g where g: "(case map_of (t_samples got) label of Some s \<Rightarrow> map_of s port | None \<Rightarrow> None) = Some g"
    using assms by (auto simp: doc_port_def t split: option.split_asm)
  then obtain s where s: "map_of (t_samples got) label = Some s" "map_of s port = Some g"
    by (cases "map_of (t_samples got) label") auto
  obtain y where y: "y \<in> set (enumerate 0 (zip (rev bv) (rev g)))" "Inr x \<in> set (doc_bit label port (split_on (CHR '','') tok) y)"
    using assms by (auto simp: doc_port_def t g split: if_split_asm)
  obtain i c d where icd: "y = (i, c, d)" by (cases y)
  then have "i < length bv \<and> i < length g \<and> c = rev bv ! i \<and> d = rev g ! i"
    using y(1) by (auto simp: in_set_enumerate_eq)
  then show ?thesis using doc_bit_in[OF y(2)[unfolded icd]] pv s by blast
qed

lemma compare_bit:
  assumes "i < length bv" "i < length g" "is_01 (rev bv ! i)" "rev bv ! i \<noteq> rev g ! i"
  shows "mismatch_of l p (int i) [rev bv ! i] [rev g ! i] pv ''value'' \<in> set (compare_bits l p pv x_obs bv g)"
proof -
  have m: "(i, rev bv ! i, rev g ! i) \<in> set (enumerate 0 (zip (rev bv) (rev g)))"
    using assms(1,2) by (simp add: in_set_enumerate_eq)
  have "rev bv ! i \<noteq> CHR ''-''" "\<not> is_xz (rev bv ! i)" using assms(3) by (auto simp: is_01_def)
  then show ?thesis unfolding compare_bits_def set_concat set_map
    by (intro UN_I[OF imageI[OF m]] ) (use assms(4) in simp)
qed

lemma compare_catches:
  assumes "(l, ports) \<in> set (t_samples want)" "(p, bv) \<in> set ports" "map_of (t_samples got) l = Some s" "map_of s p = Some g"
    and "i < length bv" "i < length g" "is_01 (rev bv ! i)" "rev bv ! i \<noteq> rev g ! i"
  shows "compare want got x_obs \<noteq> []"
proof -
  have "compare_port want x_obs l s (p, bv) \<noteq> []"
    using compare_bit[OF assms(5-8), of l p "map_of (prov_for want l) p" x_obs] assms(4)
    by (auto simp: compare_port_def Let_def)
  then have "compare_sample want got x_obs (l, ports) \<noteq> []"
    using assms(2,3) by (auto simp: compare_sample_def)
  then show ?thesis using assms(1) by (auto simp: compare_def)
qed

lemma doc_mismatch_documented:
  assumes "doc_mismatch want got = Inr True"
  shows "documented_failure want got"
proof -
  obtain x xs where "doc_diffs want got = Inr x # xs"
    using assms by (auto simp: doc_mismatch_def split: list.split_asm sum.split_asm)
  then have "Inr x \<in> set (doc_diffs want got)" by simp
  then obtain l ports p bv where c: "(l, ports) \<in> set (t_samples want)" "(p, bv) \<in> set ports" "Inr x \<in> set (doc_port want got l (p, bv))"
    unfolding doc_diffs_def by auto
  from doc_port_in[OF c(3)] c(1,2) show ?thesis unfolding documented_failure_def by blast
qed

lemma documented_failure_compared: "documented_failure want got \<Longrightarrow> compare want got x_obs \<noteq> []"
  unfolding documented_failure_def by (elim exE conjE) (rule compare_catches)

lemma all_lazy_True: "all_lazy f xs = Inr True \<Longrightarrow> x \<in> set xs \<Longrightarrow> f x = Inr True"
  by (induction xs) (auto simp: rbind_Inr_iff split: if_split_asm)

lemma any_lazy_True: "any_lazy f xs = Inr True \<Longrightarrow> \<exists>x \<in> set xs. f x = Inr True"
  by (induction xs) (auto simp: rbind_Inr_iff split: if_split_asm)

definition seen_failing :: "'s model_cls \<Rightarrow> replayed \<Rightarrow> bool" where
  "seen_failing mutant r \<longleftrightarrow> (\<exists>t. mutant_trace mutant r = Inr t \<and> documented_failure (rp_trace r) t \<and> (\<forall>x_obs. compare (rp_trace r) t x_obs \<noteq> []))"

lemma caught_seen: "caught mutant r = Inr True \<Longrightarrow> seen_failing mutant r"
  by (auto simp: caught_def seen_failing_def rbind_Inr_iff doc_mismatch_documented documented_failure_compared)

lemma mutant_fails_True:
  assumes "mutant_fails rs claim mutant every = Inr (Some True)"
  shows "crediting claim rs \<noteq> [] \<and> (if every then \<forall>r \<in> set (crediting claim rs). seen_failing mutant r
    else \<exists>r \<in> set (crediting claim rs). seen_failing mutant r)"
proof (cases every)
  case True
  then have "all_lazy (caught mutant) (crediting claim rs) = Inr True" "crediting claim rs \<noteq> []"
    using assms by (auto simp: mutant_fails_def Let_def map_sum_def split: if_split_asm sum.split_asm)
  then show ?thesis using True all_lazy_True caught_seen by (metis (full_types))
next
  case False
  then have "any_lazy (caught mutant) (crediting claim rs) = Inr True" "crediting claim rs \<noteq> []"
    using assms by (auto simp: mutant_fails_def Let_def map_sum_def split: if_split_asm sum.split_asm)
  then show ?thesis using False any_lazy_True caught_seen by (metis (full_types))
qed

lemma list_all2_right: "list_all2 P xs ys \<Longrightarrow> y \<in> set ys \<Longrightarrow> \<exists>x \<in> set xs. P x y"
  by (induction rule: list_all2_induct) auto

lemma list_all2_left: "list_all2 P xs ys \<Longrightarrow> x \<in> set xs \<Longrightarrow> \<exists>y \<in> set ys. P x y"
  by (induction rule: list_all2_induct) auto

text \<open>
  C40. A claim whose guard holds is tested: some test that declares it has a configuration that credits
  it, and there the model that breaks the rule gives a trace with another defined value on a bit the
  golden trace documents, so that \<open>compare\<close> reports it, for a runner that observes x and for one that
  does not. For an event claim that is so
  in every crediting configuration of every declaring test.
\<close>

theorem claim_guarded_tested:
  assumes "claim_guarded ts claim mutant event = Inr True"
  shows "(\<exists>(c, rs) \<in> set ts. ''claim:'' @ claim \<in> set (tc_exercises c) \<and>
      (\<exists>r \<in> set (crediting claim rs). seen_failing mutant r)) \<and>
    (event \<longrightarrow> (\<forall>(c, rs) \<in> set ts. ''claim:'' @ claim \<in> set (tc_exercises c) \<longrightarrow>
      (\<forall>r \<in> set (crediting claim rs). seen_failing mutant r)))"
proof -
  let ?ts = "filter (\<lambda>(c, rs). ''claim:'' @ claim \<in> set (tc_exercises c)) ts"
  let ?f = "\<lambda>(c :: test_case, rs). mutant_fails rs claim mutant event"
  obtain vs where vs: "rmap ?f ?ts = Inr vs"
    and ok: "List.map_filter id vs \<noteq> []"
      "if event then list_all id (List.map_filter id vs) else list_ex id (List.map_filter id vs)"
    using assms by (auto simp: claim_guarded_def rbind_Inr_iff Let_def split: if_split_asm)
  have each: "list_all2 (\<lambda>t v. ?f t = Inr v) ?ts vs" by (rule rmap_Inr_list_all2[OF vs])
  have split: "List.map_filter id vs \<noteq> [] \<and> (event \<longrightarrow> (\<forall>b. Some b \<in> set vs \<longrightarrow> b)) \<and> Some True \<in> set vs"
  proof -
    have m: "b \<in> set (List.map_filter id vs) \<longleftrightarrow> Some b \<in> set vs" for b
      by (induction vs) (auto simp: List.map_filter_simps split: option.split)
    obtain b where b: "b \<in> set (List.map_filter id vs)" using ok(1) by (cases "List.map_filter id vs") auto
    show ?thesis
    proof (cases event)
      case True
      then have all: "\<forall>b \<in> set (List.map_filter id vs). b" using ok(2) by (simp add: list_all_iff)
      then show ?thesis using True b m ok(1) by metis
    next
      case False
      then have "\<exists>b \<in> set (List.map_filter id vs). b" using ok(2) by (simp add: list_ex_iff)
      then show ?thesis using False m ok(1) by metis
    qed
  qed
  then obtain c rs where c: "(c, rs) \<in> set ?ts" "mutant_fails rs claim mutant event = Inr (Some True)"
    using list_all2_right[OF each, of "Some True"] by auto
  show ?thesis
  proof (intro conjI impI)
    obtain r where "r \<in> set (crediting claim rs)" "seen_failing mutant r"
      using mutant_fails_True[OF c(2)] by (cases event; cases "crediting claim rs") auto
    moreover have "(c, rs) \<in> set ts" "''claim:'' @ claim \<in> set (tc_exercises c)" using c(1) by simp_all
    ultimately show "\<exists>(c, rs) \<in> set ts. ''claim:'' @ claim \<in> set (tc_exercises c) \<and>
        (\<exists>r \<in> set (crediting claim rs). seen_failing mutant r)" by blast
  next
    assume event
    have "seen_failing mutant r" if "(d, qs) \<in> set ts" "''claim:'' @ claim \<in> set (tc_exercises d)" "r \<in> set (crediting claim qs)" for d qs r
    proof -
      note q = that
      obtain v where v: "v \<in> set vs" "mutant_fails qs claim mutant event = Inr v"
        using list_all2_left[OF each, of "(d, qs)"] q(1,2) by auto
      have "v \<noteq> None" using v(2) q(3) by (auto simp: mutant_fails_def Let_def map_sum_def split: if_split_asm sum.split_asm)
      then have "v = Some True" using split v(1) \<open>event\<close> by auto
      then show ?thesis using mutant_fails_True[of qs claim mutant event] v(2) q(3) \<open>event\<close> by simp
    qed
    then show "\<forall>(c, rs) \<in> set ts. ''claim:'' @ claim \<in> set (tc_exercises c) \<longrightarrow>
        (\<forall>r \<in> set (crediting claim rs). seen_failing mutant r)" by auto
  qed
qed

text \<open>A flip-flop whose output is stuck at 0, where the golden trace documents a 1.\<close>

definition stuck_model :: "flop model_cls" where
  "stuck_model = (flop_model FDRE)\<lparr>mc_outs := (\<lambda>_. map_sum id (\<lambda>q. [(''Q'', q)]) (mk_out ''0'' (Tag ''doc:375'')))\<rparr>"

definition stuck_ok :: bool where
  "stuck_ok \<longleftrightarrow>
     (case start_state stuck_model stim_example map_example of
        Inr g0 \<Rightarrow>
          (case expand_free_clocks stim_example of
             Inr evs \<Rightarrow> (case rfold (step_time stuck_model map_example) g0 (groupby e_t evs) of
                           Inr g \<Rightarrow> t_samples (g_trace g) = [(''s/1'', [(''Q'', ''0'')])] | Inl _ \<Rightarrow> False)
           | Inl _ \<Rightarrow> False)
      | Inl _ \<Rightarrow> False)"

lemma stuck_replay: "\<exists>t r. replay stuck_model stim_example map_example = Inr (t, r) \<and> t_samples t = [(''s/1'', [(''Q'', ''0'')])]"
proof -
  have sim: "sort (dedup (map e_t (filter e_sim (v_events stim_example)))) = []"
    by (simp add: stim_fields plain_event_def)
  obtain rep where rep: "validate stim_example map_example DEFAULT_GAP_PS = Inr rep" "r_errors rep = []"
    using stim_valid by (auto simp: DEFAULT_GAP_PS_def MIN_SEP_PS_def)
  have ci: "check_inputs stuck_model stim_example map_example = Inr ()"
  proof -
    have "the (map_of (v_header stim_example) ''prim'') = ''FDRE''" by code_simp
    moreover have "dict_eq (input_widths map_example) (mc_inputs (flop_model FDRE))" by code_simp
    ultimately show ?thesis
      by (simp add: check_inputs_def stim_hints map_example_def flop_model_def FDRE_def stuck_model_def)
  qed
  have "stuck_ok" by code_simp
  then obtain g0 evs g where "start_state stuck_model stim_example map_example = Inr g0"
    "expand_free_clocks stim_example = Inr evs"
    "rfold (step_time stuck_model map_example) g0 (groupby e_t evs) = Inr g"
    "t_samples (g_trace g) = [(''s/1'', [(''Q'', ''0'')])]"
    by (auto simp: stuck_ok_def split: sum.splits)
  then show ?thesis using sim rep ci by (simp add: replay_def lift_gloop_def)
qed

definition golden_example :: replayed where
  "golden_example =
     \<lparr>rp_cfg = ''default'', rp_bins = {''claim:FDRE.C1''}, rp_pure = True, rp_vec = stim_example, rp_map = map_example,
      rp_trace = \<lparr>t_header = [], t_samples = [(''s/1'', [(''Q'', ''1'')])], t_prov = [(''s/1'', [(''Q'', ''doc:375'')])]\<rparr>\<rparr>"

theorem claim_guarded_tested_witness:
  "\<exists>r \<in> set (crediting ''FDRE.C1'' [golden_example]). seen_failing stuck_model r"
proof -
  let ?c = "(case_example ''a'')\<lparr>tc_exercises := [''claim:FDRE.C1'']\<rparr>"
  obtain t r where t: "replay stuck_model stim_example map_example = Inr (t, r)" "t_samples t = [(''s/1'', [(''Q'', ''0'')])]"
    using stuck_replay by blast
  have d: "doc_mismatch (rp_trace golden_example) t = Inr True"
  proof -
    have "split_on (CHR '','') ''doc:375'' = [''doc:375'']" "starts_with ''doc:'' ''doc:375''" by code_simp+
    then show ?thesis
      by (simp add: doc_mismatch_def doc_diffs_def doc_port_def doc_bit_def tag_of_def is_01_def golden_example_def t(2))
  qed
  have m: "mutant_fails [golden_example] ''FDRE.C1'' stuck_model True = Inr (Some True)"
    by (simp add: mutant_fails_def crediting_def golden_example_def caught_def mutant_trace_def t(1) d[unfolded golden_example_def, simplified])
  have g: "claim_guarded [(?c, [golden_example])] ''FDRE.C1'' stuck_model True = Inr True"
    by (simp add: claim_guarded_def m List.map_filter_def, blast)
  show ?thesis using claim_guarded_tested[OF g] by auto
qed

end
