(* ===== verification/Spec2Isabelle.thy ===== *)
theory Spec2Isabelle
  imports Flop_Model Xvec_RoundTrip Xtr_Facts Wrapper_Text Stimcompile Golden_Facts Stimgen
    Declared_Jobs Admission Slots Crosscheck_Facts Sim_Runners Verilator_Runner Equiv_Check
    Status_Facts Status_Report Unit_Guards
begin

text \<open>
  A verification library of the Xilinx primitive test harness (\<open>src/tools/xut\<close> and \<open>src/models\<close>).

  \<^bold>\<open>The program.\<close> A test drives one primitive of the device library with a stimulus and compares
  what the runners observe with what a golden model predicts. A generator builds the stimulus
  (\<open>stimgen.py\<close>) for a configuration whose ports are mapped to the vectors of a wrapper (\<open>wrap.py\<close>,
  from the catalog entry, \<open>catalog/model.py\<close> and \<open>catalog/portclass.py\<close>). The stimulus is a text
  format of its own (\<open>formats/xvec.py\<close>) and must pass a validator (\<open>validate.py\<close>). It is replayed
  through the golden model (\<open>golden.py\<close>, \<open>xut_models/base.py\<close> and the flip-flops), which gives the
  expected trace (\<open>formats/xtr.py\<close>), and compiled to the operation words of a generic testbench
  (\<open>stimcompile.py\<close>), whose raw samples are read back as a trace. Traces are compared, and
  disagreements classified, by \<open>crosscheck.py\<close> for the tests \<open>testspec.py\<close> finds. Commands that need
  much memory are admitted by \<open>heavy.py\<close>, Vivado runs by \<open>slots.py\<close>.

  \<^bold>\<open>Theories.\<close>
  \<^item> \<open>Prelude\<close>, \<open>Py_Values\<close>, \<open>Py_Files\<close>: results of code that may raise, and the Python built-ins the
    sources use (dictionaries, \<open>dict.fromkeys\<close>, \<open>groupby\<close>, text functions, \<open>int\<close>, JSON and YAML values,
    \<open>fnmatch\<close>, path names), with their lemmas and the fact collections.
  \<^item> \<open>Formats_Common\<close>: \<open>formats/common.py\<close>, names and Verilog literals.
  \<^item> \<open>Xvec\<close>, \<open>Xvec_Text\<close>, \<open>Xvec_Lines\<close>, \<open>Xvec_RoundTrip\<close>: the stimulus as a record, its rules
    (\<open>check_structure\<close>), free clocks, the parser and the writer. \<open>vec_rules\<close> states the format
    declaratively; \<open>check_structure_iff\<close>, \<open>loads_dumps\<close> and \<open>loads_sound\<close> tie the code to it.
  \<^item> \<open>Model_Base\<close>, \<open>Flop_Model\<close>: outputs with provenance and the FDCE, FDPE, FDRE and FDSE models, one
    definition per method; the guide's logic tables are the abstract specification every run refines.
  \<^item> \<open>Xtr\<close>, \<open>Xtr_Facts\<close>: traces, their text, \<open>compare\<close>, \<open>diff\<close> and \<open>concat\<close>.
  \<^item> \<open>Catalog\<close>, \<open>Dut_Map\<close>, \<open>Dut_Map_Facts\<close>, \<open>Attr_Values\<close>, \<open>Wrapper_Text\<close>: catalog entries and port
    classes, the map of port bits to vectors, attribute values and the Verilog wrapper.
  \<^item> \<open>Validate\<close>, \<open>Validate_Facts\<close>: the validator, that it always returns, and what a clean report
    guarantees.
  \<^item> \<open>Stimcompile\<close>: 128-bit operation words and the compiler.
  \<^item> \<open>Independent\<close>, \<open>Golden\<close>, \<open>Golden_Facts\<close>: replay. \<open>Independent\<close> is the interface (a locale) of
    updates that commute where they touch different keys; \<open>Golden_Facts\<close> interprets it on the
    inputs of the flip-flop models and on the bits of the input vector, so the order of co-timed
    changes cannot matter.
  \<^item> \<open>Stimgen\<close>: the builder as a record, a call as a function on it, the builders a generator can reach
    as an inductive predicate, and the invariant that keeps event times apart.
  \<^item> \<open>Memory_Budget\<close>, \<open>Declared_Jobs\<close>, \<open>Admission\<close>, \<open>Slots\<close>: sizes and tokens, the parallelism a command
    line declares (with Python's \<open>shlex\<close> written out), admission as a step relation of commands and file
    locks, and the wait for a slot.
  \<^item> \<open>Testspec\<close>, \<open>Crosscheck\<close>, \<open>Crosscheck_Facts\<close>: tests and their runners, and the whole of the
    comparison from the views of the results to the verdict.
  \<^item> \<open>Runner_Base\<close>, \<open>Runner\<close>: the run of a test (\<open>runners/base.py\<close>): contexts, results and their schema as a
    predicate, reading the python run, and \<open>Runner.run\<close> with every exception, skip and write. A runner is
    a record of functions and the file system another, so \<open>run_leaves_result\<close> holds for whatever they
    raise; an interrupt (\<open>is_interrupt\<close>) passes through, as \<open>except Exception\<close> lets it.
  \<^item> \<open>Text_Search\<close>, \<open>Reject\<close>, \<open>Sim_Checks\<close>, \<open>Sim_Runners\<close>: the verdicts on what simulators print and write
    (\<open>runners/reject.py\<close>, \<open>sim.py\<close>, \<open>iverilog.py\<close>, \<open>xsim.py\<close>): what a pass needs as evidence.
  \<^item> \<open>Worklist\<close>, \<open>Vz_Manifest\<close>: the manifest of transformed models (\<open>verilatorize/driver.py\<close>). \<open>Worklist\<close> is
    the interface (a locale) of a search of a finite graph, interpreted on the hierarchy of the models.
  \<^item> \<open>Equiv_Key\<close>, \<open>Model_Gate\<close>, \<open>Verilator_Runner\<close>: the configurations of a model, the gate that lets only
    supported and proved models be run (\<open>ensure_model\<close>, \<open>gate_config\<close>) as calls over the state of the
    process, with the locale of the properties such calls keep, and the runners behind it
    (\<open>runners/verilator.py\<close>).
  \<^item> \<open>Equiv_Stim\<close>, \<open>Equiv_Check\<close>: the equivalence check of a transformed model (\<open>verilatorize/equiv.py\<close>): its
    stimulus as a script of calls of the builder, with triples for the moves of the script, and its
    verdict.
  \<^item> \<open>Python_Runner\<close>, \<open>Unit_Guards\<close>: the runner that makes the golden traces (\<open>runners/python.py\<close>) as an
    instance of the run of a test, and the guards of a work unit (\<open>unitkit.py\<close>): a credited claim is
    one that a model breaking its rule would fail.
  \<^item> \<open>Status_Bins\<close>, \<open>Status_Record\<close>, \<open>Status_Facts\<close>, \<open>Status_Report\<close>: coverage bins, the reader of results
    (\<open>results.py\<close>), the record of a primitive's results and coverage, and the reports made of it
    (\<open>status.py\<close>). What a recorded pass and a covered bin rest on, and that recording one model source
    leaves the others alone.
  \<^item> \<open>Work_Units\<close>: who owns which primitive and path (\<open>workunits.py\<close>), what a change needs in CI
    (\<open>ci_select.py\<close>) and the pairs of test and runner of an invocation (\<open>run.py\<close>).

  \<^bold>\<open>Correspondence.\<close> A dataclass is a record, a dictionary an association list in insertion order, a
  raised exception the left of a sum, an exception or report text a constructor with its parts. An object
  that is mutated is passed and returned. A Python string is a list of the characters 0 to 255. Sets
  that are only tested or sorted are lists. An \<open>int\<close> is an \<open>int\<close> or, where it cannot be negative, a
  \<open>nat\<close>; the fields of an operation word are words of their width.

  \<^bold>\<open>What the lemmas show.\<close> Round trips of both text formats, of the map, of operation words and of
  literals; that the executable checks are the declarative rules; that the models refine the
  guide; that validation returns and what it guarantees; that replay and the flip-flops do not depend
  on the order of simultaneous changes; that built stimulus keeps the gaps; that the
  tokens of admitted commands stay within the budget, with progress of the command at the gate; that
  the verdict \<open>agree\<close> is never given by omission.

  \<^bold>\<open>Loops and bounds.\<close> Only \<open>ensure_model\<close> uses fuel: the depth of its recursion, which Python bounds too
  (running out is the \<open>RecursionError\<close> a call may raise, and so never a pass). The free-clock loop, the chunking of values, the
  splitting of text and glob patterns terminate by measures on what is left; the wait for a Vivado
  slot, which may last for ever, is a \<open>partial_function\<close> whose theorem says when it ends; the wait
  for tokens is a step relation.

  \<^bold>\<open>Not modelled.\<close> What runs other programs or only moves files: the command lines and processes of the
  simulator runners, containers, \<open>cli.py\<close>, \<open>doctor.py\<close>, \<open>provenance.py\<close>, \<open>docs_fetch.py\<close>, reading YAML
  and JSON Schema. Text mining of the vendor's documents and models (\<open>catalog/ug953.py\<close>,
  \<open>catalog/unisim.py\<close>) and the analysis and rewriting of vendor Verilog (\<open>verilatorize/analyze.py\<close>,
  \<open>verilatorize/rewrite.py\<close>, most of \<open>verilatorize/zcmp.py\<close>), whose meaning rests on the parser of a
  third-party package. The reports for people (\<open>lint.py\<close>, \<open>portability.py\<close>, the final text of the tables of
  \<open>status.py\<close>), which print what other parts decide. In the modelled parts: log messages, clocks on the wall, and the exact wording of
  most messages.
\<close>

end
